(* ===== verification/Rec_Prelude.thy ===== *)
theory Rec_Prelude
  imports Main "HOL-Library.Word" "HOL-Library.Monad_Syntax" "HOL-Library.Multiset"
begin

text \<open>
  Shared vocabulary of the development: the machine types the C code uses, the
  result type of fallible C code, and the generic facts on lists, words and
  \<^verbatim>\<open>char*\<close> strings that the component theories build on.
\<close>

unbundle bit_operations_syntax

section \<open>Machine types\<close>

type_synonym u8 = "8 word"
type_synonym u32 = "32 word"
type_synonym u64 = "64 word"
type_synonym bytes = "u8 list"

named_theorems byte_simps
named_theorems outcome_simps

section \<open>Outcomes of C code\<close>

text \<open>
  What makes a C function not return normally: a failed \<^verbatim>\<open>assert\<close>, a call of
  \<^verbatim>\<open>abort()\<close>, and the two kinds of undefined behaviour the modelled code could
  run into, an access outside an object and a signed overflow. \<^verbatim>\<open>Diverges\<close>
  is the outcome of a loop that never ends.
\<close>

datatype c_error = AssertFailed | Aborted | OutOfBounds | IntOverflow | Diverges

type_synonym 'a outcome = "c_error + 'a"

abbreviation Ok :: "'a \<Rightarrow> 'a outcome" where
  "Ok \<equiv> Inr"

definition then_do :: "'a outcome \<Rightarrow> ('a \<Rightarrow> 'b outcome) \<Rightarrow> 'b outcome" where
  "then_do m f = (case m of Inl e \<Rightarrow> Inl e | Inr a \<Rightarrow> f a)"

definition c_assert :: "bool \<Rightarrow> unit outcome" where
  "c_assert b = (if b then Ok () else Inl AssertFailed)"

text \<open>The value of an arithmetic expression of type \<^verbatim>\<open>int\<close>.\<close>

definition c_int :: "int \<Rightarrow> int outcome" where
  "c_int v = (if - (2 ^ 31) \<le> v \<and> v < 2 ^ 31 then Ok v else Inl IntOverflow)"

lemma then_do_simps [simp, outcome_simps]:
  "then_do (Inl e) f = Inl e"
  "then_do (Inr a) f = f a"
  by (simp_all add: then_do_def)

lemma then_do_Ok_iff:
  "then_do m f = Ok b \<longleftrightarrow> (\<exists>a. m = Ok a \<and> f a = Ok b)"
  by (cases m) auto

lemma then_do_Ok_E:
  assumes "then_do m f = Ok b"
  obtains a where "m = Ok a" "f a = Ok b"
  using assms by (auto simp: then_do_Ok_iff)

lemma c_assert_True [simp, outcome_simps]: "b \<Longrightarrow> c_assert b = Ok ()"
  by (simp add: c_assert_def)

lemma c_assert_Ok_iff [simp]: "c_assert b = Ok u \<longleftrightarrow> b"
  by (simp add: c_assert_def)

lemma c_int_Ok [simp, outcome_simps]:
  "- (2 ^ 31) \<le> v \<Longrightarrow> v < 2 ^ 31 \<Longrightarrow> c_int v = Ok v"
  by (simp add: c_int_def)

lemma c_int_Ok_iff: "c_int v = Ok w \<longleftrightarrow> w = v \<and> - (2 ^ 31) \<le> v \<and> v < 2 ^ 31"
  by (auto simp: c_int_def)

text \<open>The value of an arithmetic expression of a 64-bit signed type (\<^verbatim>\<open>off_t\<close>,
  \<^verbatim>\<open>ssize_t\<close>).\<close>

definition c_off :: "int \<Rightarrow> int outcome" where
  "c_off v = (if - (2 ^ 63) \<le> v \<and> v < 2 ^ 63 then Ok v else Inl IntOverflow)"

lemma c_off_Ok [simp, outcome_simps]:
  "- (2 ^ 63) \<le> v \<Longrightarrow> v < 2 ^ 63 \<Longrightarrow> c_off v = Ok v"
  by (simp add: c_off_def)

text \<open>Code with loops that may not end: \<^const>\<open>None\<close> is a run that does not
  return, and what returns is an outcome.\<close>

type_synonym 'a run = "'a outcome option"

definition run_then :: "'a run \<Rightarrow> ('a \<Rightarrow> 'b run) \<Rightarrow> 'b run" where
  "run_then m f = (case m of None \<Rightarrow> None | Some (Inl e) \<Rightarrow> Some (Inl e) | Some (Inr a) \<Rightarrow> f a)"

lemma run_then_simps [simp, outcome_simps]:
  "run_then None f = None"
  "run_then (Some (Inl e)) f = Some (Inl e)"
  "run_then (Some (Inr a)) f = f a"
  by (simp_all add: run_then_def)

lemma run_then_assoc: "run_then (run_then m f) g = run_then m (\<lambda>x. run_then (f x) g)"
  by (simp add: run_then_def split: option.splits sum.splits)

lemma run_then_Ok_E:
  assumes "run_then m f = Some (Ok b)"
  obtains a where "m = Some (Ok a)" "f a = Some (Ok b)"
  using assms by (auto simp: run_then_def split: option.splits sum.splits)

text \<open>How a statement of a function body goes on: the function returns a code, or the next
  statement runs.\<close>

datatype ('r, 'a) flow = Return 'r | Continue 'a

end
