(* ===== verification/Mz_Hash.thy ===== *)
theory Mz_Hash
  imports Rec_Prelude
begin

text \<open>
  The hash table of \<^verbatim>\<open>src/minzip/Hash.c\<close> and \<^verbatim>\<open>Hash.h\<close>: open addressing with linear
  probing, tombstones, and a table that doubles when more than 5/8 of its slots
  are used. The \<^verbatim>\<open>void*\<close> items are values of a type \<^typ>\<open>'a\<close>; the state
  the \<^verbatim>\<open>freeFunc\<close> and \<^verbatim>\<open>HashForeachFunc\<close> callbacks act on is a value of a type
  \<^typ>\<open>'s\<close> that is passed along; whether \<^verbatim>\<open>malloc\<close> and \<^verbatim>\<open>calloc\<close> succeed
  is an argument. A probing loop that never ends, a failed assertion, an access
  outside \<^verbatim>\<open>pEntries\<close> and a signed overflow are outcomes of the model, which the
  invariant \<^verbatim>\<open>hash_wf\<close> excludes.
\<close>

section \<open>Data\<close>

datatype 'a hdata = is_Null: Null | is_Tombstone: Tombstone | Item 'a

record 'a HashEntry =
  hashValue :: u32
  data :: "'a hdata"

record ('a, 's) HashTable =
  tableSize :: int
  numEntries :: int
  numDeadEntries :: int
  pEntries :: "'a HashEntry list"
  freeFunc :: "('a \<Rightarrow> 's \<Rightarrow> 's) option"

definition empty_entry :: "'a HashEntry" where
  "empty_entry = \<lparr>hashValue = 0, data = Null\<rparr>"

section \<open>Sizes\<close>

definition mzHashSize :: "u64 \<Rightarrow> u64" where
  "mzHashSize n = (n * 8) div 5 + 1"

definition roundUpPower2 :: "u32 \<Rightarrow> u32" where
  "roundUpPower2 val =
     (let val = val - 1;
          val = val OR drop_bit 1 val;
          val = val OR drop_bit 2 val;
          val = val OR drop_bit 4 val;
          val = val OR drop_bit 8 val;
          val = val OR drop_bit 16 val
      in val + 1)"

section \<open>Creating and clearing\<close>

definition mzHashTableCreate ::
  "bool \<Rightarrow> (int \<Rightarrow> bool) \<Rightarrow> u64 \<Rightarrow> ('a \<Rightarrow> 's \<Rightarrow> 's) option \<Rightarrow> ('a, 's) HashTable option outcome" where
  "mzHashTableCreate malloc_ok calloc_ok initialSize free_func =
     then_do (c_assert (initialSize > 0)) (\<lambda>_.
       if \<not> malloc_ok then Ok None
       else let sz = sint (roundUpPower2 (ucast initialSize)) in
         if \<not> calloc_ok sz then Ok None
         else Ok (Some \<lparr>tableSize = sz, numEntries = 0, numDeadEntries = 0,
                        pEntries = replicate (nat sz) empty_entry, freeFunc = free_func\<rparr>))"

text \<open>The entries a loop \<^verbatim>\<open>for (i = 0; i < tableSize; i++)\<close> visits.\<close>

definition scanned :: "('a, 's) HashTable \<Rightarrow> 'a HashEntry list outcome" where
  "scanned t =
     (if nat (tableSize t) \<le> length (pEntries t) then Ok (take (nat (tableSize t)) (pEntries t))
      else Inl OutOfBounds)"

fun clear_entry :: "('a \<Rightarrow> 's \<Rightarrow> 's) option \<Rightarrow> 'a HashEntry \<Rightarrow> 's \<Rightarrow> 'a HashEntry \<times> 's" where
  "clear_entry ff e s =
     (case data e of
        Tombstone \<Rightarrow> (e\<lparr>data := Null\<rparr>, s)
      | Item x \<Rightarrow> (e\<lparr>data := Null\<rparr>, case ff of None \<Rightarrow> s | Some f \<Rightarrow> f x s)
      | Null \<Rightarrow> (e, s))"

fun clear_entries :: "('a \<Rightarrow> 's \<Rightarrow> 's) option \<Rightarrow> 'a HashEntry list \<Rightarrow> 's \<Rightarrow> 'a HashEntry list \<times> 's" where
  "clear_entries ff [] s = ([], s)"
| "clear_entries ff (e # es) s =
     (let (e', s') = clear_entry ff e s; (es', s'') = clear_entries ff es s' in (e' # es', s''))"

definition mzHashTableClear :: "('a, 's) HashTable \<Rightarrow> 's \<Rightarrow> (('a, 's) HashTable \<times> 's) outcome" where
  "mzHashTableClear t s =
     then_do (scanned t) (\<lambda>es.
       let (es', s') = clear_entries (freeFunc t) es s in
       Ok (t\<lparr>pEntries := es' @ drop (length es) (pEntries t), numEntries := 0, numDeadEntries := 0\<rparr>, s'))"

definition mzHashTableFree :: "('a, 's) HashTable option \<Rightarrow> 's \<Rightarrow> 's outcome" where
  "mzHashTableFree pt s =
     (case pt of None \<Rightarrow> Ok s | Some t \<Rightarrow> then_do (mzHashTableClear t s) (\<lambda>(_, s'). Ok s'))"

definition countTombStones :: "('a, 's) HashTable \<Rightarrow> int outcome" where
  "countTombStones t =
     then_do (scanned t) (\<lambda>es.
       Ok (foldl (\<lambda>cnt e. if is_Tombstone (data e) then cnt + 1 else cnt) 0 es))"

section \<open>Probing\<close>

text \<open>The slot \<^verbatim>\<open>hash & (size-1)\<close>.\<close>

definition home_slot :: "int \<Rightarrow> u32 \<Rightarrow> nat" where
  "home_slot sz h = unat (h AND word_of_int (sz - 1))"

text \<open>
  The loop \<^verbatim>\<open>while (pEntry->data != NULL)\<close> shared by lookup, removal and probe
  counting, from slot \<^verbatim>\<open>i\<close>; it breaks where \<^verbatim>\<open>hit\<close> holds. The result is the slot
  \<^verbatim>\<open>pEntry\<close> points to and the number of steps made; \<^const>\<open>None\<close> is a loop that does
  not end. For a table of one slot the code leaves the loop with
  \<^verbatim>\<open>pEntry == pEnd\<close>.
\<close>

partial_function (option) probe ::
  "('a HashEntry \<Rightarrow> bool) \<Rightarrow> 'a HashEntry list \<Rightarrow> int \<Rightarrow> nat \<Rightarrow> int \<Rightarrow> (nat \<times> int) outcome option" where
  "probe hit es sz i cnt =
     (if i \<ge> length es then Some (Inl OutOfBounds)
      else if is_Null (data (es ! i)) then Some (Ok (i, cnt))
      else if hit (es ! i) then Some (Ok (i, cnt))
      else if int (i + 1) = sz then
        (if sz = 1 then Some (Ok (i + 1, cnt)) else probe hit es sz 0 (cnt + 1))
      else probe hit es sz (i + 1) (cnt + 1))"

definition run_probe :: "('a HashEntry \<Rightarrow> bool) \<Rightarrow> ('a, 's) HashTable \<Rightarrow> u32 \<Rightarrow> (nat \<times> int) outcome" where
  "run_probe hit t h =
     (case probe hit (pEntries t) (tableSize t) (home_slot (tableSize t) h) 0 of
        None \<Rightarrow> Inl Diverges
      | Some r \<Rightarrow> r)"

text \<open>The read of \<^verbatim>\<open>pEntry->data\<close> after the loop.\<close>

definition entry_data :: "('a, 's) HashTable \<Rightarrow> nat \<Rightarrow> 'a hdata outcome" where
  "entry_data t i =
     (if i < length (pEntries t) then Ok (data (pEntries t ! i)) else Inl OutOfBounds)"

section \<open>Resizing\<close>

partial_function (option) resize_probe :: "'a HashEntry list \<Rightarrow> int \<Rightarrow> u32 \<Rightarrow> nat outcome option" where
  "resize_probe es newSize newIdx =
     (if unat newIdx \<ge> length es then Some (Inl OutOfBounds)
      else if is_Null (data (es ! unat newIdx)) then Some (Ok (unat newIdx))
      else resize_probe es newSize ((newIdx + 1) AND word_of_int (newSize - 1)))"

definition resize_insert :: "int \<Rightarrow> 'a HashEntry \<Rightarrow> 'a HashEntry list \<Rightarrow> 'a HashEntry list outcome" where
  "resize_insert newSize e new =
     (case data e of
        Item x \<Rightarrow>
          (case resize_probe new newSize (hashValue e AND word_of_int (newSize - 1)) of
             None \<Rightarrow> Inl Diverges
           | Some r \<Rightarrow> then_do r (\<lambda>i. Ok (new[i := \<lparr>hashValue = hashValue e, data = Item x\<rparr>])))
      | _ \<Rightarrow> Ok new)"

fun resize_loop :: "int \<Rightarrow> 'a HashEntry list \<Rightarrow> 'a HashEntry list \<Rightarrow> 'a HashEntry list outcome" where
  "resize_loop newSize [] new = Ok new"
| "resize_loop newSize (e # es) new =
     then_do (resize_insert newSize e new) (\<lambda>new'. resize_loop newSize es new')"

definition resizeHash ::
  "(int \<Rightarrow> bool) \<Rightarrow> ('a, 's) HashTable \<Rightarrow> int \<Rightarrow> (bool \<times> ('a, 's) HashTable) outcome" where
  "resizeHash calloc_ok t newSize =
     then_do (countTombStones t) (\<lambda>n.
     then_do (c_assert (n = numDeadEntries t)) (\<lambda>_.
       if \<not> calloc_ok newSize then Ok (False, t)
       else
         then_do (scanned t) (\<lambda>es.
         then_do (resize_loop newSize es (replicate (nat newSize) empty_entry)) (\<lambda>new.
         let t' = t\<lparr>pEntries := new, tableSize := newSize, numDeadEntries := 0\<rparr> in
         then_do (countTombStones t') (\<lambda>n'.
         then_do (c_assert (n' = 0)) (\<lambda>_. Ok (True, t')))))))"

section \<open>Lookup, removal, iteration\<close>

definition key_hit :: "u32 \<Rightarrow> ('a \<Rightarrow> 'a \<Rightarrow> int) \<Rightarrow> 'a \<Rightarrow> 'a HashEntry \<Rightarrow> bool" where
  "key_hit itemHash cmpFunc item e =
     (case data e of Item d \<Rightarrow> hashValue e = itemHash \<and> cmpFunc d item = 0 | _ \<Rightarrow> False)"

text \<open>The branch of \<^verbatim>\<open>mzHashTableLookup\<close> that adds the item at the empty slot \<^verbatim>\<open>i\<close>.\<close>

definition lookup_add ::
  "(int \<Rightarrow> bool) \<Rightarrow> ('a, 's) HashTable \<Rightarrow> nat \<Rightarrow> u32 \<Rightarrow> 'a \<Rightarrow> ('a hdata \<times> ('a, 's) HashTable) outcome" where
  "lookup_add calloc_ok t i itemHash item =
     then_do (c_int (numEntries t + 1)) (\<lambda>n.
     let t1 = t\<lparr>pEntries := (pEntries t)[i := \<lparr>hashValue = itemHash, data = Item item\<rparr>],
                numEntries := n\<rparr> in
     then_do (c_int ((numEntries t1 + numDeadEntries t1) * 8)) (\<lambda>used.
     then_do (c_int (tableSize t1 * 5)) (\<lambda>limit.
     then_do
       (if used > limit then
          then_do (c_int (tableSize t1 * 2)) (\<lambda>newSize.
          then_do (resizeHash calloc_ok t1 newSize) (\<lambda>(ok, t2). if ok then Ok t2 else Inl Aborted))
        else Ok t1) (\<lambda>t2.
     then_do (c_assert (numEntries t2 < tableSize t2)) (\<lambda>_. Ok (Item item, t2))))))"

definition mzHashTableLookup ::
  "(int \<Rightarrow> bool) \<Rightarrow> ('a, 's) HashTable \<Rightarrow> u32 \<Rightarrow> 'a hdata \<Rightarrow> ('a \<Rightarrow> 'a \<Rightarrow> int) \<Rightarrow> bool \<Rightarrow>
     ('a hdata \<times> ('a, 's) HashTable) outcome" where
  "mzHashTableLookup calloc_ok t itemHash item cmpFunc doAdd =
     then_do (c_assert (tableSize t > 0)) (\<lambda>_.
     (case item of
        Item x \<Rightarrow>
          then_do (run_probe (key_hit itemHash cmpFunc x) t itemHash) (\<lambda>(i, _).
          then_do (entry_data t i) (\<lambda>d.
            if is_Null d then
              if doAdd then lookup_add calloc_ok t i itemHash x else Ok (Null, t)
            else Ok (d, t)))
      | _ \<Rightarrow> Inl AssertFailed))"

definition mzHashTableRemove ::
  "('a, 's) HashTable \<Rightarrow> u32 \<Rightarrow> 'a hdata \<Rightarrow> (bool \<times> ('a, 's) HashTable) outcome" where
  "mzHashTableRemove t itemHash item =
     then_do (c_assert (tableSize t > 0)) (\<lambda>_.
     then_do (run_probe (\<lambda>e. data e = item) t itemHash) (\<lambda>(i, _).
       if i < length (pEntries t) \<and> \<not> is_Null (data (pEntries t ! i)) then
         Ok (True, t\<lparr>pEntries := (pEntries t)[i := (pEntries t ! i)\<lparr>data := Tombstone\<rparr>],
                     numEntries := numEntries t - 1, numDeadEntries := numDeadEntries t + 1\<rparr>)
       else Ok (False, t)))"

fun foreach_loop :: "('a \<Rightarrow> 's \<Rightarrow> int \<times> 's) \<Rightarrow> 'a HashEntry list \<Rightarrow> 's \<Rightarrow> int \<times> 's" where
  "foreach_loop func [] s = (0, s)"
| "foreach_loop func (e # es) s =
     (case data e of
        Item x \<Rightarrow> (let (val, s') = func x s in if val \<noteq> 0 then (val, s') else foreach_loop func es s')
      | _ \<Rightarrow> foreach_loop func es s)"

definition mzHashForeach ::
  "('a, 't) HashTable \<Rightarrow> ('a \<Rightarrow> 's \<Rightarrow> int \<times> 's) \<Rightarrow> 's \<Rightarrow> (int \<times> 's) outcome" where
  "mzHashForeach t func s = then_do (scanned t) (\<lambda>es. Ok (foreach_loop func es s))"

definition countProbes ::
  "('a, 's) HashTable \<Rightarrow> u32 \<Rightarrow> 'a hdata \<Rightarrow> ('a \<Rightarrow> 'a \<Rightarrow> int) \<Rightarrow> int outcome" where
  "countProbes t itemHash item cmpFunc =
     then_do (c_assert (tableSize t > 0)) (\<lambda>_.
     (case item of
        Item x \<Rightarrow>
          then_do (run_probe (key_hit itemHash cmpFunc x) t itemHash) (\<lambda>(i, cnt).
          then_do (entry_data t i) (\<lambda>d. Ok (if is_Null d then -1 else cnt)))
      | _ \<Rightarrow> Inl AssertFailed))"

text \<open>The iterator of \<^verbatim>\<open>Hash.h\<close>: its state is the index \<^verbatim>\<open>idx\<close>.\<close>

function iter_scan :: "('a, 's) HashTable \<Rightarrow> int \<Rightarrow> int outcome" where
  "iter_scan t i =
     (if i < tableSize t then
        (if 0 \<le> i \<and> nat i < length (pEntries t) then
           (case data (pEntries t ! nat i) of Item _ \<Rightarrow> Ok i | _ \<Rightarrow> iter_scan t (i + 1))
         else Inl OutOfBounds)
      else Ok i)"
  by pat_completeness auto
termination
  by (relation "measure (\<lambda>(t, i). nat (tableSize t - i))") auto

declare iter_scan.simps [simp del]

definition mzHashIterNext :: "('a, 's) HashTable \<Rightarrow> int \<Rightarrow> int outcome" where
  "mzHashIterNext t idx = iter_scan t (idx + 1)"

definition mzHashIterBegin :: "('a, 's) HashTable \<Rightarrow> int outcome" where
  "mzHashIterBegin t = mzHashIterNext t (-1)"

definition mzHashIterDone :: "('a, 's) HashTable \<Rightarrow> int \<Rightarrow> bool" where
  "mzHashIterDone t idx \<longleftrightarrow> idx \<ge> tableSize t"

definition mzHashIterData :: "('a, 's) HashTable \<Rightarrow> int \<Rightarrow> 'a hdata outcome" where
  "mzHashIterData t idx =
     then_do (c_assert (0 \<le> idx \<and> idx < tableSize t)) (\<lambda>_. entry_data t (nat idx))"

section \<open>The invariant\<close>

fun live_items :: "'a HashEntry list \<Rightarrow> (u32 \<times> 'a) list" where
  "live_items [] = []"
| "live_items (e # es) =
     (case data e of Item x \<Rightarrow> (hashValue e, x) # live_items es | _ \<Rightarrow> live_items es)"

definition dead_count :: "'a HashEntry list \<Rightarrow> nat" where
  "dead_count es = length (filter (\<lambda>e. is_Tombstone (data e)) es)"

definition contents :: "('a, 's) HashTable \<Rightarrow> (u32 \<times> 'a) multiset" where
  "contents t = mset (live_items (pEntries t))"

text \<open>An entry at slot \<^verbatim>\<open>i\<close> with hash \<^verbatim>\<open>h\<close> is found from its home slot: no slot on the
  way is empty.\<close>

definition reach :: "'a HashEntry list \<Rightarrow> u32 \<Rightarrow> nat \<Rightarrow> bool" where
  "reach es h i \<longleftrightarrow>
     (\<exists>d < length es. (unat h + d) mod length es = i \<and>
        (\<forall>j < d. \<not> is_Null (data (es ! ((unat h + j) mod length es)))))"

definition chained :: "'a HashEntry list \<Rightarrow> bool" where
  "chained es \<longleftrightarrow> (\<forall>i < length es. \<forall>x. data (es ! i) = Item x \<longrightarrow> reach es (hashValue (es ! i)) i)"

definition pow2_size :: "nat \<Rightarrow> bool" where
  "pow2_size n \<longleftrightarrow> (\<exists>k \<le> 30. n = 2 ^ k)"

text \<open>The shape every operation relies on, and with it the load the code keeps below 5/8.\<close>

definition hash_shape :: "('a, 's) HashTable \<Rightarrow> bool" where
  "hash_shape t \<longleftrightarrow>
     pow2_size (length (pEntries t)) \<and>
     tableSize t = int (length (pEntries t)) \<and>
     numEntries t = int (length (live_items (pEntries t))) \<and>
     numDeadEntries t = int (dead_count (pEntries t)) \<and>
     chained (pEntries t)"

definition hash_wf :: "('a, 's) HashTable \<Rightarrow> bool" where
  "hash_wf t \<longleftrightarrow> hash_shape t \<and> (numEntries t + numDeadEntries t) * 8 \<le> tableSize t * 5"

text \<open>The sizes at which the \<^verbatim>\<open>int\<close> arithmetic of an insertion does not overflow.\<close>

definition can_grow :: "('a, 's) HashTable \<Rightarrow> bool" where
  "can_grow t \<longleftrightarrow> tableSize t \<le> 2 ^ 28"

section \<open>Lists of entries\<close>

lemma live_items_append [simp]: "live_items (xs @ ys) = live_items xs @ live_items ys"
  by (induction xs) (auto split: hdata.splits)

lemma live_items_replicate [simp]: "live_items (replicate n empty_entry) = []"
  by (induction n) (simp_all add: empty_entry_def)

lemma dead_count_replicate [simp]: "dead_count (replicate n empty_entry) = 0"
  by (simp add: dead_count_def empty_entry_def)

lemma in_live_items_iff:
  "(h, x) \<in> set (live_items es) \<longleftrightarrow> (\<exists>i < length es. es ! i = \<lparr>hashValue = h, data = Item x\<rparr>)"
proof (induction es)
  case (Cons e es)
  have e: "e = \<lparr>hashValue = hashValue e, data = data e\<rparr>" by simp
  show ?case
    using Cons.IH by (subst e) (auto simp: Ex_less_Suc2 split: hdata.splits)
qed simp

lemma count_slots:
  "length (live_items es) + dead_count es + length (filter (\<lambda>e. is_Null (data e)) es) = length es"
  by (induction es) (auto simp: dead_count_def split: hdata.splits)

lemma exists_null:
  assumes "length (live_items es) + dead_count es < length es"
  shows "\<exists>i < length es. is_Null (data (es ! i))"
proof -
  have "filter (\<lambda>e. is_Null (data e)) es \<noteq> []"
    using assms count_slots [of es] by auto
  then show ?thesis by (auto simp: filter_empty_conv in_set_conv_nth)
qed

lemma live_items_fill_null:
  "i < length es \<Longrightarrow> is_Null (data (es ! i)) \<Longrightarrow>
     mset (live_items (es[i := \<lparr>hashValue = h, data = Item x\<rparr>])) = add_mset (h, x) (mset (live_items es))"
proof (induction es arbitrary: i)
  case (Cons e es)
  then show ?case by (cases i) (auto split: hdata.splits)
qed simp

lemma dead_count_fill_null:
  "i < length es \<Longrightarrow> is_Null (data (es ! i)) \<Longrightarrow>
     dead_count (es[i := \<lparr>hashValue = h, data = Item x\<rparr>]) = dead_count es"
proof (induction es arbitrary: i)
  case (Cons e es)
  then show ?case by (cases i) (auto simp: dead_count_def is_Null_def)
qed simp

lemma live_items_bury:
  "i < length es \<Longrightarrow> data (es ! i) = Item x \<Longrightarrow>
     add_mset (hashValue (es ! i), x) (mset (live_items (es[i := (es ! i)\<lparr>data := Tombstone\<rparr>]))) =
     mset (live_items es)"
proof (induction es arbitrary: i)
  case (Cons e es)
  then show ?case by (cases i) (auto split: hdata.splits)
qed simp

lemma dead_count_bury:
  "i < length es \<Longrightarrow> data (es ! i) = Item x \<Longrightarrow>
     dead_count (es[i := (es ! i)\<lparr>data := Tombstone\<rparr>]) = Suc (dead_count es)"
proof (induction es arbitrary: i)
  case (Cons e es)
  then show ?case by (cases i) (auto simp: dead_count_def)
qed simp

lemma length_live_fill_null:
  assumes "i < length es" "is_Null (data (es ! i))"
  shows "length (live_items (es[i := \<lparr>hashValue = h, data = Item x\<rparr>])) = Suc (length (live_items es))"
  using arg_cong [OF live_items_fill_null [OF assms, of h x], of size] by simp

lemma length_live_bury:
  assumes "i < length es" "data (es ! i) = Item x"
  shows "Suc (length (live_items (es[i := (es ! i)\<lparr>data := Tombstone\<rparr>]))) = length (live_items es)"
  using arg_cong [OF live_items_bury [OF assms], of size] by simp

lemma reach_mono:
  assumes "reach es h i" and "length es' = length es"
    and "\<And>j. j < length es \<Longrightarrow> is_Null (data (es' ! j)) \<Longrightarrow> is_Null (data (es ! j))"
  shows "reach es' h i"
proof -
  obtain d where d: "d < length es" "(unat h + d) mod length es = i"
    "\<And>j. j < d \<Longrightarrow> \<not> is_Null (data (es ! ((unat h + j) mod length es)))"
    using assms(1) by (auto simp: reach_def)
  have lt: "m mod length es < length es" for m
    by (rule mod_less_divisor) (use d(1) in linarith)
  have "\<not> is_Null (data (es' ! ((unat h + j) mod length es)))" if "j < d" for j
    using d(3) [OF that] assms(3) [OF lt] by blast
  with d(1,2) assms(2) show ?thesis by (auto simp: reach_def)
qed

lemma chained_replicate: "chained (replicate n empty_entry)"
  by (simp add: chained_def empty_entry_def)

lemma chained_fill:
  assumes "chained es" "i < length es" "reach es h i"
  shows "chained (es[i := \<lparr>hashValue = h, data = Item x\<rparr>])" (is "chained ?es'")
  unfolding chained_def
proof (intro allI impI)
  fix j y assume j: "j < length ?es'" and d: "data (?es' ! j) = Item y"
  have nn: "is_Null (data (?es' ! m)) \<Longrightarrow> is_Null (data (es ! m))" for m
    by (cases "m = i") (use assms(2) in \<open>simp_all\<close>)
  show "reach ?es' (hashValue (?es' ! j)) j"
  proof (cases "j = i")
    case True
    with assms(2,3) nn show ?thesis by (simp add: reach_mono)
  next
    case False
    with j d assms(1) have "reach es (hashValue (es ! j)) j" by (simp add: chained_def)
    with False nn show ?thesis by (simp add: reach_mono)
  qed
qed

lemma chained_bury:
  assumes "chained es" "i < length es" "data (es ! i) = Item x"
  shows "chained (es[i := (es ! i)\<lparr>data := Tombstone\<rparr>])" (is "chained ?es'")
  unfolding chained_def
proof (intro allI impI)
  fix j y assume j: "j < length ?es'" and d: "data (?es' ! j) = Item y"
  have nn: "is_Null (data (?es' ! m)) \<Longrightarrow> is_Null (data (es ! m))" for m
    by (cases "m = i") (use assms(2) in \<open>simp_all\<close>)
  from d assms(2) have "j \<noteq> i" by auto
  with j d assms(1) have "reach es (hashValue (es ! j)) j" by (simp add: chained_def)
  with \<open>j \<noteq> i\<close> nn show "reach ?es' (hashValue (?es' ! j)) j" by (simp add: reach_mono)
qed

section \<open>Probing finds the first slot that stops it\<close>

lemma home_slot_pow2:
  assumes "pow2_size n"
  shows "home_slot (int n) h = unat h mod n"
proof -
  obtain k where k: "k \<le> 30" "n = 2 ^ k" using assms by (auto simp: pow2_size_def)
  have "(word_of_int (int n - 1) :: u32) = mask k"
    by (simp add: k(2) mask_eq_exp_minus_1)
  then have "home_slot (int n) h = unat (take_bit k h)"
    by (simp add: home_slot_def take_bit_eq_mask)
  also have "\<dots> = take_bit k (unat h)" by (rule unsigned_take_bit_eq)
  finally show ?thesis by (simp add: k(2) take_bit_eq_mod)
qed

lemma pow2_size_pos [simp]: "pow2_size n \<Longrightarrow> 0 < n"
  by (auto simp: pow2_size_def)

abbreviation stops :: "('a HashEntry \<Rightarrow> bool) \<Rightarrow> 'a HashEntry list \<Rightarrow> nat \<Rightarrow> bool" where
  "stops hit es i \<equiv> is_Null (data (es ! i)) \<or> hit (es ! i)"

lemma probe_first_stop:
  assumes "i < length es" "\<And>j. j < d \<Longrightarrow> \<not> stops hit es ((i + j) mod length es)"
    and "stops hit es ((i + d) mod length es)"
  shows "probe hit es (int (length es)) i c = Some (Ok ((i + d) mod length es, c + int d))"
  using assms
proof (induction d arbitrary: i c)
  case 0
  then show ?case by (subst probe.simps) auto
next
  case (Suc d)
  let ?n = "length es"
  have go: "\<not> stops hit es i" using Suc.prems(1) Suc.prems(2) [of 0] by simp
  have shift: "((i + 1) mod ?n + j) mod ?n = (i + Suc j) mod ?n" for j
    by (simp add: mod_add_left_eq)
  have "probe hit es (int ?n) ((i + 1) mod ?n) (c + 1) =
        Some (Ok (((i + 1) mod ?n + d) mod ?n, c + 1 + int d))"
  proof (rule Suc.IH)
    show "(i + 1) mod ?n < ?n" using Suc.prems(1) by (auto intro: mod_less_divisor)
    show "\<not> stops hit es (((i + 1) mod ?n + j) mod ?n)" if "j < d" for j
      unfolding shift using Suc.prems(2) [of "Suc j"] that by simp
    show "stops hit es (((i + 1) mod ?n + d) mod ?n)"
      unfolding shift using Suc.prems(3) .
  qed
  then have IH: "probe hit es (int ?n) ((i + 1) mod ?n) (c + 1) =
      Some (Ok ((i + Suc d) mod ?n, c + int (Suc d)))"
    unfolding shift by (simp add: algebra_simps)
  have n1: "?n \<noteq> 1" using go Suc.prems(1,3) by (metis less_one mod_by_1)
  show ?case
  proof (cases "i + 1 = ?n")
    case True
    with IH have "probe hit es (int ?n) 0 (c + 1) = Some (Ok ((i + Suc d) mod ?n, c + int (Suc d)))"
      by simp
    moreover have "int (i + 1) = int ?n" using True by (simp only:)
    ultimately show ?thesis
      using go n1 Suc.prems(1) by (subst probe.simps) simp
  next
    case False
    with IH Suc.prems(1) have
      "probe hit es (int ?n) (i + 1) (c + 1) = Some (Ok ((i + Suc d) mod ?n, c + int (Suc d)))"
      by simp
    moreover have "int (i + 1) \<noteq> int ?n" using False by (simp only: of_nat_eq_iff not_False_eq_True)
    ultimately show ?thesis
      using go Suc.prems(1) by (subst probe.simps) simp
  qed
qed

lemma first_stop_exists:
  assumes "0 < n" "i0 < n" "P i0"
  obtains d where "d < n" "\<And>j. j < d \<Longrightarrow> \<not> P ((s + j) mod n)" "P ((s + d) mod (n::nat))"
proof -
  define d0 where "d0 = (i0 + n - s mod n) mod n"
  have "(s + d0) mod n = (s mod n + (i0 + n - s mod n)) mod n"
    unfolding d0_def by (metis mod_add_eq mod_mod_trivial)
  also have "\<dots> = (i0 + n) mod n"
    using less_imp_le [OF mod_less_divisor [OF assms(1), of s]] by simp
  finally have "(s + d0) mod n = i0" using assms by simp
  then have ex: "P ((s + d0) mod n)" using assms by simp
  have lt: "d0 < n" using assms unfolding d0_def by simp
  define d where "d = (LEAST d. P ((s + d) mod n))"
  show ?thesis
  proof
    show "P ((s + d) mod n)" unfolding d_def by (rule LeastI [of _ d0]) (rule ex)
    show "\<not> P ((s + j) mod n)" if "j < d" for j using that unfolding d_def by (rule not_less_Least)
    show "d < n" using Least_le [of "\<lambda>d. P ((s + d) mod n)", OF ex] lt unfolding d_def by simp
  qed
qed

lemma load_leaves_room: "int a * 8 \<le> int n * 5 \<Longrightarrow> 0 < n \<Longrightarrow> a < n"
  by linarith

lemma hash_wf_room:
  assumes "hash_wf t"
  shows "\<exists>i < length (pEntries t). is_Null (data (pEntries t ! i))"
proof -
  have "int (length (live_items (pEntries t)) + dead_count (pEntries t)) * 8
      \<le> int (length (pEntries t)) * 5" and "0 < length (pEntries t)"
    using assms pow2_size_pos [of "length (pEntries t)"] by (auto simp: hash_wf_def hash_shape_def)
  then have "length (live_items (pEntries t)) + dead_count (pEntries t) < length (pEntries t)"
    by (rule load_leaves_room)
  then show ?thesis by (rule exists_null)
qed

text \<open>What a probing loop does on a well-formed table: it ends, inside the table, at the first
  slot after the home slot of \<^verbatim>\<open>h\<close> that is empty or a hit.\<close>

lemma run_probe_wf:
  assumes "hash_wf t"
  obtains d where "d < length (pEntries t)"
    and "run_probe hit t h = Ok ((unat h + d) mod length (pEntries t), int d)"
    and "\<And>j. j < d \<Longrightarrow> \<not> stops hit (pEntries t) ((unat h + j) mod length (pEntries t))"
    and "stops hit (pEntries t) ((unat h + d) mod length (pEntries t))"
proof -
  let ?es = "pEntries t" and ?n = "length (pEntries t)"
  have n: "pow2_size ?n" "tableSize t = int ?n" using assms by (auto simp: hash_wf_def hash_shape_def)
  from n(1) have pos: "0 < ?n" by (rule pow2_size_pos)
  obtain i0 where "i0 < ?n" "stops hit ?es i0"
    using hash_wf_room [OF assms] by auto
  from first_stop_exists [where P = "stops hit ?es" and s = "unat h", OF pos this]
  obtain d where d: "d < ?n" "\<And>j. j < d \<Longrightarrow> \<not> stops hit ?es ((unat h + j) mod ?n)"
    "stops hit ?es ((unat h + d) mod ?n)" by blast
  have "probe hit ?es (int ?n) (unat h mod ?n) 0 = Some (Ok ((unat h mod ?n + d) mod ?n, 0 + int d))"
    by (rule probe_first_stop) (use d pos in \<open>auto simp: mod_add_left_eq\<close>)
  then have "run_probe hit t h = Ok ((unat h + d) mod ?n, int d)"
    unfolding run_probe_def n(2) home_slot_pow2 [OF n(1)] by (simp add: mod_add_left_eq)
  with d that show ?thesis by blast
qed

text \<open>If the loop stopped at an empty slot, no entry with that hash is a hit.\<close>

lemma stop_at_null_no_hit:
  assumes ch: "chained es"
    and first: "\<And>j. j < d \<Longrightarrow> \<not> stops hit es ((unat h + j) mod length es)"
    and null: "is_Null (data (es ! ((unat h + d) mod length es)))"
    and e: "i < length es" "es ! i = \<lparr>hashValue = h, data = Item x\<rparr>"
  shows "\<not> hit \<lparr>hashValue = h, data = Item x\<rparr>"
proof
  assume hit: "hit \<lparr>hashValue = h, data = Item x\<rparr>"
  have "reach es h i" using ch e by (force simp: chained_def)
  then obtain d0 where d0: "(unat h + d0) mod length es = i"
    "\<And>j. j < d0 \<Longrightarrow> \<not> is_Null (data (es ! ((unat h + j) mod length es)))"
    by (auto simp: reach_def)
  have "stops hit es ((unat h + d0) mod length es)" using d0(1) e hit by simp
  then have "d \<le> d0" using first [of d0] by (cases "d0 < d") auto
  moreover have "\<not> d < d0" using d0(2) null by blast
  ultimately have "d = d0" by simp
  with null d0(1) e(2) show False by simp
qed

section \<open>Resizing\<close>

lemma resize_probe_first_null:
  assumes "pow2_size n" "length es = n" "unat idx < n"
    and "\<And>j. j < d \<Longrightarrow> \<not> is_Null (data (es ! ((unat idx + j) mod n)))"
    and "is_Null (data (es ! ((unat idx + d) mod n)))"
  shows "resize_probe es (int n) idx = Some (Ok ((unat idx + d) mod n))"
  using assms(3-5)
proof (induction d arbitrary: idx)
  case 0
  then show ?case using assms(2) by (subst resize_probe.simps) simp
next
  case (Suc d)
  let ?next = "(idx + 1) AND word_of_int (int n - 1)"
  obtain k where k: "k \<le> 30" "n = 2 ^ k" using assms(1) by (auto simp: pow2_size_def)
  have "n < 2 ^ 32" using k power_increasing [of k 30 "2::nat"] by simp
  then have "unat (idx + 1) = unat idx + 1"
    using Suc.prems(1) by (simp add: unat_word_ariths)
  then have nxt: "unat ?next = (unat idx + 1) mod n"
    using home_slot_pow2 [OF assms(1), of "idx + 1"] by (simp add: home_slot_def)
  have shift: "(unat ?next + j) mod n = (unat idx + Suc j) mod n" for j
    unfolding nxt by (simp add: mod_add_left_eq)
  have "resize_probe es (int n) ?next = Some (Ok ((unat ?next + d) mod n))"
  proof (rule Suc.IH)
    show "unat ?next < n" unfolding nxt using assms(1) by simp
    show "\<not> is_Null (data (es ! ((unat ?next + j) mod n)))" if "j < d" for j
      unfolding shift using Suc.prems(2) [of "Suc j"] that by simp
    show "is_Null (data (es ! ((unat ?next + d) mod n)))"
      unfolding shift by (rule Suc.prems(3))
  qed
  then have "resize_probe es (int n) ?next = Some (Ok ((unat idx + Suc d) mod n))"
    unfolding shift .
  moreover have "\<not> is_Null (data (es ! unat idx))"
    using Suc.prems(1) Suc.prems(2) [of 0] by simp
  ultimately show ?case
    using Suc.prems(1) assms(2) by (subst resize_probe.simps) simp
qed

lemma resize_insert_wf:
  assumes n: "pow2_size (length new)" and ch: "chained new" and room: "length (live_items new) < length new"
    and dead: "dead_count new = 0"
  shows "\<exists>new'. resize_insert (int (length new)) e new = Ok new' \<and> length new' = length new \<and>
     chained new' \<and> dead_count new' = 0 \<and>
     mset (live_items new') = mset (live_items [e]) + mset (live_items new)"
proof (cases "data e")
  case (Item x)
  let ?n = "length new" and ?h = "hashValue e"
  have pos: "0 < ?n" using n by (rule pow2_size_pos)
  obtain i0 where "i0 < ?n" "is_Null (data (new ! i0))"
    using exists_null [of new] room dead by auto
  from first_stop_exists [where P = "\<lambda>i. is_Null (data (new ! i))" and s = "unat ?h", OF pos this]
  obtain d where d: "d < ?n" "\<And>j. j < d \<Longrightarrow> \<not> is_Null (data (new ! ((unat ?h + j) mod ?n)))"
    "is_Null (data (new ! ((unat ?h + d) mod ?n)))" by blast
  let ?i = "(unat ?h + d) mod ?n"
  have home: "unat (?h AND word_of_int (int ?n - 1)) = unat ?h mod ?n"
    using home_slot_pow2 [OF n, of ?h] by (simp add: home_slot_def)
  have "resize_probe new (int ?n) (?h AND word_of_int (int ?n - 1)) = Some (Ok ?i)"
    using resize_probe_first_null [OF n refl, of "?h AND word_of_int (int ?n - 1)" d] pos d
    unfolding home by (simp add: mod_add_left_eq)
  then have r: "resize_insert (int ?n) e new = Ok (new[?i := \<lparr>hashValue = ?h, data = Item x\<rparr>])"
    by (simp add: resize_insert_def Item)
  have i: "?i < ?n" using pos by simp
  have "reach new ?h ?i" using d by (auto simp: reach_def)
  with r i d(3) show ?thesis
    by (auto simp: Item chained_fill [OF ch] live_items_fill_null dead_count_fill_null dead)
qed (use assms in \<open>auto simp: resize_insert_def\<close>)

lemma resize_loop_wf:
  assumes "pow2_size (length new)" "chained new" "dead_count new = 0"
    and "length (live_items new) + length (live_items es) \<le> length new"
  shows "\<exists>new'. resize_loop (int (length new)) es new = Ok new' \<and> length new' = length new \<and>
     chained new' \<and> dead_count new' = 0 \<and>
     mset (live_items new') = mset (live_items es) + mset (live_items new)"
  using assms
proof (induction es arbitrary: new)
  case (Cons e es)
  show ?case
  proof (cases "data e")
    case (Item x)
    have "length (live_items new) < length new" using Cons.prems(4) by (simp add: Item)
    from resize_insert_wf [OF Cons.prems(1,2) this Cons.prems(3), of e]
    obtain new1 where 1: "resize_insert (int (length new)) e new = Ok new1" "length new1 = length new"
      "chained new1" "dead_count new1 = 0"
      "mset (live_items new1) = add_mset (hashValue e, x) (mset (live_items new))"
      by (auto simp: Item)
    have "length (live_items new1) = Suc (length (live_items new))"
      using arg_cong [OF 1(5), of size] by simp
    with Cons.IH [of new1] Cons.prems 1 show ?thesis by (auto simp: Item)
  qed (use Cons in \<open>auto simp: resize_insert_def\<close>)
qed simp

lemma scanned_shape: "hash_shape t \<Longrightarrow> scanned t = Ok (pEntries t)"
  by (simp add: scanned_def hash_shape_def)

lemma foldl_count: "foldl (\<lambda>cnt e. if P e then cnt + 1 else cnt) (c :: int) es = c + int (length (filter P es))"
  by (induction es arbitrary: c) auto

lemma countTombStones_shape: "hash_shape t \<Longrightarrow> countTombStones t = Ok (numDeadEntries t)"
  by (simp add: countTombStones_def scanned_shape foldl_count) (simp add: hash_shape_def dead_count_def)

lemma length_live_le: "length (live_items es) \<le> length es"
  using count_slots [of es] by linarith

lemma resizeHash_shape:
  assumes t: "hash_shape t" and g: "can_grow t" and ok: "calloc_ok (tableSize t * 2)"
  shows "\<exists>t'. resizeHash calloc_ok t (tableSize t * 2) = Ok (True, t') \<and> hash_shape t' \<and>
     contents t' = contents t \<and> tableSize t' = tableSize t * 2 \<and> numDeadEntries t' = 0 \<and>
     numEntries t' = numEntries t \<and> freeFunc t' = freeFunc t"
proof -
  let ?n = "length (pEntries t)"
  let ?new = "replicate (2 * ?n) (empty_entry :: 'a HashEntry)"
  have sz: "tableSize t * 2 = int (2 * ?n)" using t by (simp add: hash_shape_def)
  obtain k where k: "k \<le> 30" "?n = 2 ^ k" using t by (auto simp: hash_shape_def pow2_size_def)
  have "k \<le> 28"
  proof (rule ccontr)
    assume "\<not> k \<le> 28"
    then have "(2::int) ^ 29 \<le> 2 ^ k" by (intro power_increasing) auto
    with k(2) g t show False by (simp add: can_grow_def hash_shape_def)
  qed
  then have p: "pow2_size (2 * ?n)"
    unfolding pow2_size_def k(2) by (intro exI [of _ "Suc k"]) simp
  have "\<exists>new'. resize_loop (int (length ?new)) (pEntries t) ?new = Ok new' \<and> length new' = length ?new \<and>
     chained new' \<and> dead_count new' = 0 \<and>
     mset (live_items new') = mset (live_items (pEntries t)) + mset (live_items ?new)"
    by (rule resize_loop_wf) (use p length_live_le [of "pEntries t"] in \<open>auto simp: chained_replicate\<close>)
  then obtain new' where new': "resize_loop (int (2 * ?n)) (pEntries t) ?new = Ok new'"
    "length new' = 2 * ?n" "chained new'" "dead_count new' = 0"
    "mset (live_items new') = mset (live_items (pEntries t))" by auto
  define t' where "t' = t\<lparr>pEntries := new', tableSize := int (2 * ?n), numDeadEntries := 0\<rparr>"
  have len: "length (live_items new') = length (live_items (pEntries t))"
    using arg_cong [OF new'(5), of size] by simp
  have t': "hash_shape t'"
    using t new' p len by (simp add: t'_def hash_shape_def)
  have "nat (int (2 * ?n)) = 2 * ?n" by simp
  then have "resizeHash calloc_ok t (tableSize t * 2) = Ok (True, t')"
    using ok new'(1) countTombStones_shape [OF t] countTombStones_shape [OF t'] scanned_shape [OF t]
    unfolding resizeHash_def sz by (simp only: then_do_simps c_assert_True if_False not_True_eq_False Let_def
      t'_def [symmetric]) (simp add: t'_def)
  moreover have "contents t' = contents t" using new'(5) by (simp add: contents_def t'_def)
  moreover have "tableSize t' = tableSize t * 2" "numDeadEntries t' = 0"
    "numEntries t' = numEntries t" "freeFunc t' = freeFunc t"
    using sz by (simp_all add: t'_def)
  ultimately show ?thesis using t' by blast
qed

section \<open>Lookup\<close>

lemma in_contents_iff:
  "(h, x) \<in># contents t \<longleftrightarrow> (\<exists>i < length (pEntries t). pEntries t ! i = \<lparr>hashValue = h, data = Item x\<rparr>)"
  by (simp add: contents_def in_live_items_iff)

lemma hash_wf_shape: "hash_wf t \<Longrightarrow> hash_shape t"
  by (simp add: hash_wf_def)

lemma shape_size_pos: "hash_shape t \<Longrightarrow> tableSize t > 0"
  unfolding hash_shape_def using pow2_size_pos [of "length (pEntries t)"] by linarith

lemma lookup_hit_or_null:
  assumes wf: "hash_wf t"
  obtains (hit) y where "(h, y) \<in># contents t" "cmp y x = 0"
      "mzHashTableLookup calloc_ok t h (Item x) cmp doAdd = Ok (Item y, t)"
  | (miss) i where "\<And>y. (h, y) \<in># contents t \<Longrightarrow> cmp y x \<noteq> 0"
      "i < length (pEntries t)" "is_Null (data (pEntries t ! i))" "reach (pEntries t) h i"
      "mzHashTableLookup calloc_ok t h (Item x) cmp doAdd =
         (if doAdd then lookup_add calloc_ok t i h x else Ok (Null, t))"
proof -
  let ?es = "pEntries t" and ?hit = "key_hit h cmp x"
  obtain d where d: "d < length ?es" "run_probe ?hit t h = Ok ((unat h + d) mod length ?es, int d)"
    "\<And>j. j < d \<Longrightarrow> \<not> stops ?hit ?es ((unat h + j) mod length ?es)"
    "stops ?hit ?es ((unat h + d) mod length ?es)"
    using run_probe_wf [OF wf, of ?hit h] by blast
  let ?i = "(unat h + d) mod length ?es"
  have i: "?i < length ?es" by (rule mod_less_divisor) (use d(1) in linarith)
  have sz: "tableSize t > 0" using wf by (auto intro: shape_size_pos hash_wf_shape)
  have lk: "mzHashTableLookup calloc_ok t h (Item x) cmp doAdd =
     (if is_Null (data (?es ! ?i)) then if doAdd then lookup_add calloc_ok t ?i h x else Ok (Null, t)
      else Ok (data (?es ! ?i), t))"
    using sz d(2) i by (simp add: mzHashTableLookup_def entry_data_def)
  show ?thesis
  proof (cases "is_Null (data (?es ! ?i))")
    case True
    have "cmp y x \<noteq> 0" if y: "(h, y) \<in># contents t" for y
    proof -
      obtain m where m: "m < length ?es" "?es ! m = \<lparr>hashValue = h, data = Item y\<rparr>"
        using y by (auto simp: in_contents_iff)
      have "chained ?es" using wf by (simp add: hash_wf_def hash_shape_def)
      from stop_at_null_no_hit [where hit = ?hit, OF this d(3) True m]
      show ?thesis by (simp add: key_hit_def)
    qed
    moreover have "reach ?es h ?i" using d(1,3) by (auto simp: reach_def)
    ultimately show ?thesis using miss [of ?i] i True lk by simp
  next
    case False
    with d(4) have "?hit (?es ! ?i)" by simp
    then obtain y where y: "data (?es ! ?i) = Item y" "hashValue (?es ! ?i) = h" "cmp y x = 0"
      by (auto simp: key_hit_def split: hdata.splits)
    then have "?es ! ?i = \<lparr>hashValue = h, data = Item y\<rparr>" by simp
    with i have "(h, y) \<in># contents t" by (auto simp: in_contents_iff)
    with hit y lk False show ?thesis by simp
  qed
qed

lemma lookup_add_wf:
  assumes wf: "hash_wf t" and g: "can_grow t" and ok: "calloc_ok (tableSize t * 2)"
    and i: "i < length (pEntries t)" "is_Null (data (pEntries t ! i))" "reach (pEntries t) h i"
  shows "\<exists>t'. lookup_add calloc_ok t i h x = Ok (Item x, t') \<and> hash_wf t' \<and>
     contents t' = add_mset (h, x) (contents t) \<and> freeFunc t' = freeFunc t"
proof -
  let ?e = "\<lparr>hashValue = h, data = Item x\<rparr>"
  define t1 where "t1 = t\<lparr>pEntries := (pEntries t)[i := ?e], numEntries := numEntries t + 1\<rparr>"
  have sh: "hash_shape t" and load: "(numEntries t + numDeadEntries t) * 8 \<le> tableSize t * 5"
    using wf by (auto simp: hash_wf_def)
  have sh1: "hash_shape t1"
    using sh i by (simp add: t1_def hash_shape_def chained_fill length_live_fill_null dead_count_fill_null)
  have c1: "contents t1 = add_mset (h, x) (contents t)"
    using i by (simp add: contents_def t1_def live_items_fill_null)
  have nn: "0 \<le> numEntries t" "0 \<le> numDeadEntries t" using sh by (auto simp: hash_shape_def)
  have sz: "0 < tableSize t" "tableSize t \<le> 2 ^ 28" using sh g by (auto simp: can_grow_def shape_size_pos)
  have b: "numEntries t + 1 < 2 ^ 31" "(numEntries t + 1 + numDeadEntries t) * 8 < 2 ^ 31"
    "tableSize t * 5 < 2 ^ 31" "tableSize t * 2 < 2 ^ 31"
    using nn sz load by simp_all
  have f: "numEntries t1 = numEntries t + 1" "numDeadEntries t1 = numDeadEntries t"
    "tableSize t1 = tableSize t" "freeFunc t1 = freeFunc t" by (simp_all add: t1_def)
  have g1: "can_grow t1" using g f by (simp add: can_grow_def)
  have add: "lookup_add calloc_ok t i h x =
     then_do (if (numEntries t + 1 + numDeadEntries t) * 8 > tableSize t * 5 then
          then_do (resizeHash calloc_ok t1 (tableSize t * 2)) (\<lambda>(ok, t2). if ok then Ok t2 else Inl Aborted)
        else Ok t1) (\<lambda>t2. then_do (c_assert (numEntries t2 < tableSize t2)) (\<lambda>_. Ok (Item x, t2)))"
    using b nn sz by (simp add: lookup_add_def Let_def t1_def [symmetric] f)
  show ?thesis
  proof (cases "(numEntries t + 1 + numDeadEntries t) * 8 > tableSize t * 5")
    case True
    obtain t2 where t2: "resizeHash calloc_ok t1 (tableSize t1 * 2) = Ok (True, t2)" "hash_shape t2"
      "contents t2 = contents t1" "tableSize t2 = tableSize t1 * 2" "numDeadEntries t2 = 0"
      "numEntries t2 = numEntries t1" "freeFunc t2 = freeFunc t1"
      using resizeHash_shape [OF sh1 g1, of calloc_ok] ok f(3) by auto
    have "numEntries t + 1 \<le> tableSize t"
      using sh1 length_live_le [of "pEntries t1"] f by (simp add: hash_shape_def)
    moreover have "(numEntries t2 + numDeadEntries t2) * 8 \<le> tableSize t2 * 5"
      using t2 f load nn sz(1) calculation by simp
    ultimately show ?thesis
      using add True t2 f c1 sz by (auto simp: hash_wf_def)
  next
    case False
    then have "numEntries t1 < tableSize t1" using f nn sz by simp
    with False add sh1 c1 f show ?thesis by (auto simp: hash_wf_def)
  qed
qed

section \<open>Removal, clearing, iteration\<close>

lemma remove_wf:
  assumes wf: "hash_wf t"
  obtains (found) h' t' where "mzHashTableRemove t h (Item x) = Ok (True, t')" "hash_wf t'"
      "contents t = add_mset (h', x) (contents t')" "freeFunc t' = freeFunc t" "tableSize t' = tableSize t"
  | (absent) "mzHashTableRemove t h (Item x) = Ok (False, t)" "(h, x) \<notin># contents t"
proof -
  let ?es = "pEntries t" and ?hit = "\<lambda>e. data e = Item x"
  obtain d where d: "d < length ?es" "run_probe ?hit t h = Ok ((unat h + d) mod length ?es, int d)"
    "\<And>j. j < d \<Longrightarrow> \<not> stops ?hit ?es ((unat h + j) mod length ?es)"
    "stops ?hit ?es ((unat h + d) mod length ?es)"
    using run_probe_wf [OF wf, of ?hit h] by blast
  let ?i = "(unat h + d) mod length ?es"
  have i: "?i < length ?es" by (rule mod_less_divisor) (use d(1) in linarith)
  have sh: "hash_shape t" and load: "(numEntries t + numDeadEntries t) * 8 \<le> tableSize t * 5"
    using wf by (auto simp: hash_wf_def)
  have sz: "tableSize t > 0" using sh by (rule shape_size_pos)
  show ?thesis
  proof (cases "is_Null (data (?es ! ?i))")
    case True
    have "(h, x) \<notin># contents t"
    proof
      assume "(h, x) \<in># contents t"
      then obtain m where m: "m < length ?es" "?es ! m = \<lparr>hashValue = h, data = Item x\<rparr>"
        by (auto simp: in_contents_iff)
      have "chained ?es" using sh by (simp add: hash_shape_def)
      from stop_at_null_no_hit [where hit = ?hit, OF this d(3) True m] show False by simp
    qed
    moreover have "mzHashTableRemove t h (Item x) = Ok (False, t)"
      using sz d(2) True by (simp add: mzHashTableRemove_def)
    ultimately show ?thesis by (rule absent [rotated])
  next
    case False
    with d(4) have x: "data (?es ! ?i) = Item x" by simp
    define t' where "t' = t\<lparr>pEntries := ?es[?i := (?es ! ?i)\<lparr>data := Tombstone\<rparr>],
      numEntries := numEntries t - 1, numDeadEntries := numDeadEntries t + 1\<rparr>"
    have "hash_shape t'"
      using sh chained_bury [OF _ i x] dead_count_bury [OF i x] length_live_bury [OF i x]
      by (auto simp: t'_def hash_shape_def)
    then have "hash_wf t'" using load by (simp add: hash_wf_def t'_def)
    moreover have "mzHashTableRemove t h (Item x) = Ok (True, t')"
      using sz d(2) False i by (simp add: mzHashTableRemove_def t'_def)
    moreover have "contents t = add_mset (hashValue (?es ! ?i), x) (contents t')"
      using live_items_bury [OF i x] by (simp add: contents_def t'_def)
    ultimately show ?thesis using found by (simp add: t'_def)
  qed
qed

lemma clear_entries_snd:
  "snd (clear_entries ff es s) = (case ff of None \<Rightarrow> s | Some f \<Rightarrow> fold f (map snd (live_items es)) s)"
  by (induction es arbitrary: s) (auto simp: split_def Let_def split: hdata.splits option.splits)

lemma clear_entries_fst:
  "length (fst (clear_entries ff es s)) = length es \<and>
   (\<forall>e \<in> set (fst (clear_entries ff es s)). is_Null (data e))"
  by (induction es arbitrary: s) (auto simp: split_def Let_def split: hdata.splits)

lemma all_null_facts:
  assumes "\<forall>e \<in> set es. is_Null (data e)"
  shows "live_items es = []" "dead_count es = 0" "chained es"
proof -
  show "live_items es = []" using assms by (induction es) (auto split: hdata.splits)
  show "dead_count es = 0" using assms by (induction es) (auto simp: dead_count_def is_Null_def)
  show "chained es" unfolding chained_def
    using assms by (metis nth_mem hdata.distinct(3) is_Null_def)
qed

lemma mzHashTableClear_wf:
  assumes wf: "hash_wf t"
  shows "\<exists>t'. mzHashTableClear t s =
      Ok (t', case freeFunc t of None \<Rightarrow> s | Some f \<Rightarrow> fold f (map snd (live_items (pEntries t))) s) \<and>
    hash_wf t' \<and> contents t' = {#} \<and> tableSize t' = tableSize t"
proof -
  let ?r = "clear_entries (freeFunc t) (pEntries t) s"
  have sh: "hash_shape t" using wf by (rule hash_wf_shape)
  note n = clear_entries_fst [of "freeFunc t" "pEntries t" s]
  define t' where "t' = t\<lparr>pEntries := fst ?r, numEntries := 0, numDeadEntries := 0\<rparr>"
  have "mzHashTableClear t s = Ok (t', snd ?r)"
    by (simp add: mzHashTableClear_def scanned_shape [OF sh] split_def Let_def t'_def)
  moreover have "hash_wf t'"
    using sh n all_null_facts [of "fst ?r"] shape_size_pos [OF sh]
    by (simp add: hash_wf_def hash_shape_def t'_def)
  moreover have "contents t' = {#}" using n all_null_facts [of "fst ?r"] by (simp add: contents_def t'_def)
  ultimately show ?thesis unfolding clear_entries_snd by (auto simp: t'_def)
qed

text \<open>The callback sequence of \<^verbatim>\<open>mzHashForeach\<close>: the items in slot order, up to the first nonzero result.\<close>

fun visit_until :: "('a \<Rightarrow> 's \<Rightarrow> int \<times> 's) \<Rightarrow> 'a list \<Rightarrow> 's \<Rightarrow> int \<times> 's" where
  "visit_until f [] s = (0, s)"
| "visit_until f (x # xs) s = (let (v, s') = f x s in if v \<noteq> 0 then (v, s') else visit_until f xs s')"

lemma foreach_loop_visits: "foreach_loop f es s = visit_until f (map snd (live_items es)) s"
  by (induction es arbitrary: s) (auto simp: split_def Let_def split: hdata.splits)

lemma mzHashForeach_wf:
  "hash_wf t \<Longrightarrow> mzHashForeach t f s = Ok (visit_until f (map snd (live_items (pEntries t))) s)"
  by (simp add: mzHashForeach_def scanned_shape hash_wf_shape foreach_loop_visits)

lemma iter_scan_wf:
  assumes "hash_shape t" "0 \<le> i" "i \<le> tableSize t"
  shows "\<exists>j. iter_scan t i = Ok j \<and> i \<le> j \<and> j \<le> tableSize t \<and>
     live_items (take (nat j - nat i) (drop (nat i) (pEntries t))) = [] \<and>
     (j < tableSize t \<longrightarrow> (\<exists>x. data (pEntries t ! nat j) = Item x))"
  using assms
proof (induction t i rule: iter_scan.induct)
  case (1 t i)
  have len: "tableSize t = int (length (pEntries t))" using "1.prems" by (simp add: hash_shape_def)
  show ?case
  proof (cases "i < tableSize t")
    case False
    with "1.prems" show ?thesis by (subst iter_scan.simps) auto
  next
    case True
    then have i: "nat i < length (pEntries t)" using len "1.prems" by simp
    show ?thesis
    proof (cases "\<exists>x. data (pEntries t ! nat i) = Item x")
      case hit: True
      with True i "1.prems" show ?thesis by (subst iter_scan.simps) auto
    next
      case no: False
      have step: "iter_scan t i = iter_scan t (i + 1)"
        using True i "1.prems" no by (subst iter_scan.simps) (auto split: hdata.splits)
      obtain j where j: "iter_scan t (i + 1) = Ok j" "i + 1 \<le> j" "j \<le> tableSize t"
        "live_items (take (nat j - nat (i + 1)) (drop (nat (i + 1)) (pEntries t))) = []"
        "j < tableSize t \<longrightarrow> (\<exists>x. data (pEntries t ! nat j) = Item x)"
        using "1.IH" True i "1.prems" no by (cases "data (pEntries t ! nat i)") auto
      have "drop (nat i) (pEntries t) = pEntries t ! nat i # drop (nat (i + 1)) (pEntries t)"
        using i "1.prems"(2) by (simp add: Cons_nth_drop_Suc [symmetric] nat_add_distrib)
      moreover have "nat j - nat i = Suc (nat j - nat (i + 1))"
        using j(2) "1.prems"(2) by linarith
      ultimately have "live_items (take (nat j - nat i) (drop (nat i) (pEntries t))) = []"
        using j(4) no by (auto split: hdata.splits)
      with j step show ?thesis by auto
    qed
  qed
qed

section \<open>Creation\<close>

lemma smear_step:
  fixes w x :: u32
  assumes "\<And>j. bit x j \<longleftrightarrow> (\<exists>m < s. bit w (j + m))"
  shows "bit (x OR drop_bit s x) j \<longleftrightarrow> (\<exists>m < s + s. bit w (j + m))"
proof
  assume "bit (x OR drop_bit s x) j"
  then show "\<exists>m < s + s. bit w (j + m)"
    by (auto simp: bit_or_iff bit_drop_bit_eq assms add.assoc intro: trans_less_add1) 
      (metis add.left_commute nat_add_left_cancel_less)
next
  assume "\<exists>m < s + s. bit w (j + m)"
  then obtain m where m: "m < s + s" "bit w (j + m)" by blast
  show "bit (x OR drop_bit s x) j"
  proof (cases "m < s")
    case True
    with m assms show ?thesis by (auto simp: bit_or_iff)
  next
    case False
    then have "bit w ((s + j) + (m - s))" "m - s < s" using m by (simp_all add: add.commute)
    with assms have "bit x (s + j)" by blast
    then show ?thesis by (simp add: bit_or_iff bit_drop_bit_eq)
  qed
qed


lemma smear_bits:
  fixes w :: u32
  defines "x1 \<equiv> w OR drop_bit 1 w"
  defines "x2 \<equiv> x1 OR drop_bit 2 x1"
  defines "x3 \<equiv> x2 OR drop_bit 4 x2"
  defines "x4 \<equiv> x3 OR drop_bit 8 x3"
  shows "bit (x4 OR drop_bit 16 x4) j \<longleftrightarrow> (\<exists>m < 32. bit w (j + m))"
proof -
  have 1: "bit x1 j \<longleftrightarrow> (\<exists>m < 2. bit w (j + m))" for j
    unfolding x1_def using smear_step [of w 1 w j] by (simp add: numeral_2_eq_2)
  have 2: "bit x2 j \<longleftrightarrow> (\<exists>m < 4. bit w (j + m))" for j
    unfolding x2_def using smear_step [OF 1, of j] by simp
  have 3: "bit x3 j \<longleftrightarrow> (\<exists>m < 8. bit w (j + m))" for j
    unfolding x3_def using smear_step [OF 2, of j] by simp
  have 4: "bit x4 j \<longleftrightarrow> (\<exists>m < 16. bit w (j + m))" for j
    unfolding x4_def using smear_step [OF 3, of j] by simp
  show ?thesis using smear_step [OF 4, of j] by simp
qed

lemma unat_pow2_u32:
  assumes "m < 32"
  shows "unat (2 ^ m :: u32) = 2 ^ m"
proof -
  have "(2::nat) ^ m < 2 ^ 32" using assms by (intro power_strict_increasing) auto
  then have "unat (of_nat (2 ^ m) :: u32) = 2 ^ m" by (simp only: unat_of_nat) simp
  then show ?thesis by simp
qed

lemma roundUpPower2_pow2:
  fixes val :: u32
  assumes "0 < unat val" "unat val \<le> 2 ^ 31"
  shows "\<exists>k \<le> 31. unat (roundUpPower2 val) = 2 ^ k \<and> unat val \<le> 2 ^ k \<and> 2 ^ k < 2 * unat val"
proof -
  define w where "w = val - 1"
  define x where "x = roundUpPower2 val - 1"
  have x: "bit x j \<longleftrightarrow> (\<exists>m < 32. bit w (j + m))" for j
    unfolding x_def w_def roundUpPower2_def Let_def using smear_bits [of "val - 1" j] by simp
  have r: "roundUpPower2 val = x + 1" by (simp add: x_def)
  have uw: "unat w = unat val - 1"
    using assms(1) by (simp add: w_def unat_sub_if' word_less_nat_alt)
  show ?thesis
  proof (cases "w = 0")
    case True
    then have "x = 0" by (intro bit_word_eqI) (simp add: x)
    moreover have "unat val = 1" using uw True assms(1) by simp
    ultimately show ?thesis using r by (intro exI [of _ 0]) simp
  next
    case False
    define k where "k = Max {j. bit w j}"
    have fin: "finite {j. bit w j}"
      by (rule finite_subset [of _ "{..<32}"]) (auto dest: bit_imp_le_length)
    have ne: "{j. bit w j} \<noteq> {}" using False by (auto simp: bit_eq_iff)
    have k: "bit w k" using Max_in [OF fin ne] by (simp add: k_def)
    have top: "bit w j \<Longrightarrow> j \<le> k" for j using Max_ge [OF fin, of j] by (simp add: k_def)
    have "k < 32" using k by (auto dest: bit_imp_le_length)
    have nw: "bit (unat w) j \<longleftrightarrow> bit w j" for j by (rule bit_unsigned_iff [THEN trans]) (auto dest: bit_imp_le_length)
    have "take_bit (Suc k) (unat w) = unat w"
      by (rule bit_eqI) (use top in \<open>auto simp: bit_take_bit_iff nw less_Suc_eq_le\<close>)
    then have hi: "unat w < 2 ^ Suc k" by (metis take_bit_nat_less_exp)
    have lo: "2 ^ k \<le> unat w"
    proof (rule ccontr)
      assume "\<not> 2 ^ k \<le> unat w"
      then have "take_bit k (unat w) = unat w" by (simp add: take_bit_nat_eq_self)
      then have "bit (take_bit k (unat w)) k" using k nw by metis
      then show False by (simp add: bit_take_bit_iff)
    qed
    have "x = mask (Suc k)"
    proof (rule bit_word_eqI)
      fix j assume "j < LENGTH(32)"
      have "(\<exists>m < 32. bit w (j + m)) \<longleftrightarrow> j \<le> k"
      proof
        assume "j \<le> k"
        then show "\<exists>m < 32. bit w (j + m)" using k \<open>k < 32\<close> by (intro exI [of _ "k - j"]) simp
      qed (auto dest: top)
      then show "bit x j \<longleftrightarrow> bit (mask (Suc k) :: u32) j"
        using x \<open>j < LENGTH(32)\<close> by (simp add: bit_mask_iff less_Suc_eq_le)
    qed
    moreover have "Suc k \<le> 31"
    proof (rule ccontr)
      assume "\<not> Suc k \<le> 31"
      then have "(2::nat) ^ 31 \<le> 2 ^ k" by (intro power_increasing) auto
      with lo uw assms show False by simp
    qed
    moreover have "unat (2 ^ Suc k :: u32) = 2 ^ Suc k"
      using \<open>Suc k \<le> 31\<close> by (intro unat_pow2_u32) simp
    ultimately have "unat (roundUpPower2 val) = 2 ^ Suc k"
      using r by (simp add: mask_eq_exp_minus_1)
    with lo hi uw assms \<open>Suc k \<le> 31\<close> show ?thesis by (intro exI [of _ "Suc k"]) auto
  qed
qed


lemma mzHashTableCreate_wf:
  assumes "0 < unat initialSize" "unat initialSize \<le> 2 ^ 30" and "\<And>n. calloc_ok n"
  shows "\<exists>t. mzHashTableCreate True calloc_ok initialSize ff = Ok (Some t) \<and> hash_wf t \<and>
     contents t = {#} \<and> freeFunc t = ff \<and>
     int (unat initialSize) \<le> tableSize t \<and> tableSize t < 2 * int (unat initialSize)"
proof -
  let ?v = "ucast initialSize :: u32"
  have v: "unat ?v = unat initialSize"
    using assms(2) by (simp add: unsigned_ucast_eq take_bit_nat_eq_self)
  obtain k where k: "k \<le> 31" "unat (roundUpPower2 ?v) = 2 ^ k" "unat initialSize \<le> 2 ^ k"
    "2 ^ k < 2 * unat initialSize"
    using roundUpPower2_pow2 [of ?v] assms(1,2) unfolding v by auto
  have "k \<le> 30"
  proof (rule ccontr)
    assume "\<not> k \<le> 30"
    then have "(2::nat) ^ 31 \<le> 2 ^ k" by (intro power_increasing) auto
    with k(4) assms(2) show False by simp
  qed
  then have "(2::nat) ^ k \<le> 2 ^ 30" by (intro power_increasing) auto
  then have "int (2 ^ k) \<le> int (2 ^ 30)" by (simp only: of_nat_le_iff)
  moreover have "uint (roundUpPower2 ?v) = int (2 ^ k)" using k(2) by (metis int_eq_iff uint_nonnegative unat_eq_nat_uint)
  moreover have "- (2 ^ 31) \<le> (2 ^ k :: int)" by (rule order_trans [of _ 0]) simp_all
  ultimately have s: "sint (roundUpPower2 ?v) = 2 ^ k"
    by (simp add: sint_uint signed_take_bit_int_eq_self)
  define t where "t = \<lparr>tableSize = 2 ^ k, numEntries = 0, numDeadEntries = 0,
    pEntries = replicate (2 ^ k) (empty_entry :: 'a HashEntry), freeFunc = ff\<rparr>"
  have "0 < initialSize" using assms(1) by (simp add: word_less_nat_alt)
  then have "mzHashTableCreate True calloc_ok initialSize ff = Ok (Some t)"
    using assms(3) s by (simp add: mzHashTableCreate_def t_def nat_power_eq)
  moreover have "hash_wf t"
    using \<open>k \<le> 30\<close> by (auto simp: hash_wf_def hash_shape_def t_def pow2_size_def chained_replicate)
  moreover have "int (unat initialSize) \<le> 2 ^ k" "2 ^ k < 2 * int (unat initialSize)"
    using k(3,4) by (metis of_nat_le_iff of_nat_numeral of_nat_power, 
      metis of_nat_less_iff of_nat_mult of_nat_numeral of_nat_power)
  ultimately show ?thesis by (auto simp: t_def contents_def)
qed

lemma mzHashSize_enough:
  assumes "unat n * 8 < 2 ^ 64"
  shows "unat n * 8 \<le> unat (mzHashSize n) * 5"
proof -
  have m: "unat (n * 8) = unat n * 8" using assms by (simp add: unat_word_ariths)
  have "unat (n * 8 div 5) = unat n * 8 div 5" by (simp add: unat_div m)
  then have "unat (mzHashSize n) = unat n * 8 div 5 + 1"
    using assms by (simp add: mzHashSize_def unat_word_ariths)
  then show ?thesis by presburger
qed

section \<open>The interface of the table\<close>

text \<open>
  What a client of \<^verbatim>\<open>mzHashTableLookup\<close> relies on, for one comparison function \<^verbatim>\<open>cmp\<close>: a
  call finds an item with that hash that compares equal if there is one, and otherwise
  returns \<^verbatim>\<open>NULL\<close> or adds the item.
\<close>

locale lookup_table =
  fixes invar :: "'t \<Rightarrow> bool"
    and room :: "'t \<Rightarrow> bool"
    and items :: "'t \<Rightarrow> (u32 \<times> 'a) multiset"
    and cmp :: "'a \<Rightarrow> 'a \<Rightarrow> int"
    and lookup :: "'t \<Rightarrow> u32 \<Rightarrow> 'a \<Rightarrow> bool \<Rightarrow> ('a hdata \<times> 't) outcome"
  assumes find_hit: "invar t \<Longrightarrow> (h, y) \<in># items t \<Longrightarrow> cmp y x = 0 \<Longrightarrow>
      \<exists>z. (h, z) \<in># items t \<and> cmp z x = 0 \<and> lookup t h x doAdd = Ok (Item z, t)"
    and find_miss: "invar t \<Longrightarrow> \<forall>y. (h, y) \<in># items t \<longrightarrow> cmp y x \<noteq> 0 \<Longrightarrow> lookup t h x False = Ok (Null, t)"
    and add_miss: "invar t \<Longrightarrow> room t \<Longrightarrow> \<forall>y. (h, y) \<in># items t \<longrightarrow> cmp y x \<noteq> 0 \<Longrightarrow>
      \<exists>t'. lookup t h x True = Ok (Item x, t') \<and> invar t' \<and> items t' = add_mset (h, x) (items t)"
begin

lemma added_is_found:
  assumes "invar t" "room t" "\<forall>y. (h, y) \<in># items t \<longrightarrow> cmp y x \<noteq> 0" "cmp x x = 0"
  shows "\<exists>t'. lookup t h x True = Ok (Item x, t') \<and> invar t' \<and> items t' = add_mset (h, x) (items t) \<and>
    (\<forall>doAdd. lookup t' h x doAdd = Ok (Item x, t'))"
proof -
  obtain t' where t': "lookup t h x True = Ok (Item x, t')" "invar t'" "items t' = add_mset (h, x) (items t)"
    using add_miss [OF assms(1-3)] by blast
  have "lookup t' h x doAdd = Ok (Item x, t')" for doAdd
    using find_hit [OF t'(2), of h x x doAdd] assms(3,4) by (auto simp: t'(3))
  with t' show ?thesis by blast
qed

lemma found_or_absent:
  assumes "invar t"
  shows "case lookup t h x False of
      Inl e \<Rightarrow> False
    | Inr (r, t') \<Rightarrow> t' = t \<and>
        (case r of
           Item z \<Rightarrow> (h, z) \<in># items t \<and> cmp z x = 0
         | Null \<Rightarrow> (\<forall>y. (h, y) \<in># items t \<longrightarrow> cmp y x \<noteq> 0)
         | Tombstone \<Rightarrow> False)"
proof (cases "\<exists>y. (h, y) \<in># items t \<and> cmp y x = 0")
  case True
  then obtain z where "(h, z) \<in># items t" "cmp z x = 0" "lookup t h x False = Ok (Item z, t)"
    using find_hit [OF assms, of h _ x False] by blast
  then show ?thesis by simp
next
  case False
  then show ?thesis using find_miss [OF assms, of h x] by auto
qed

lemma other_key_kept:
  assumes "invar t" "room t" "\<forall>y. (h, y) \<in># items t \<longrightarrow> cmp y x \<noteq> 0"
    and "lookup t h x True = Ok (r, t')" and "h' \<noteq> h \<or> cmp x z \<noteq> 0"
  shows "(\<exists>y. lookup t h' z False = Ok (Item y, t)) \<longleftrightarrow> (\<exists>y. lookup t' h' z False = Ok (Item y, t'))"
proof -
  have t': "invar t'" "items t' = add_mset (h, x) (items t)"
    using add_miss [OF assms(1-3)] assms(4) by auto
  have ex: "(\<exists>y. lookup u h' z False = Ok (Item y, u)) \<longleftrightarrow> (\<exists>y. (h', y) \<in># items u \<and> cmp y z = 0)"
    if "invar u" for u
    using found_or_absent [OF that, of h' z] find_hit [OF that, of h' _ z False] find_miss [OF that, of h' z]
    by (fastforce split: hdata.splits sum.splits prod.splits)
  show ?thesis using ex [OF assms(1)] ex [OF t'(1)] assms(5) t'(2) by auto
qed

end

definition mz_room :: "(int \<Rightarrow> bool) \<Rightarrow> ('a, 's) HashTable \<Rightarrow> bool" where
  "mz_room calloc_ok t \<longleftrightarrow> can_grow t \<and> calloc_ok (tableSize t * 2)"

interpretation mz: lookup_table hash_wf "mz_room calloc_ok" contents cmp
    "\<lambda>t h x doAdd. mzHashTableLookup calloc_ok t h (Item x) cmp doAdd"
  for calloc_ok :: "int \<Rightarrow> bool" and cmp :: "'a \<Rightarrow> 'a \<Rightarrow> int"
proof
  fix t :: "('a, 's) HashTable" and h y x doAdd
  assume "hash_wf t" "(h, y) \<in># contents t" "cmp y x = 0"
  then show "\<exists>z. (h, z) \<in># contents t \<and> cmp z x = 0 \<and>
      mzHashTableLookup calloc_ok t h (Item x) cmp doAdd = Ok (Item z, t)"
    by (cases rule: lookup_hit_or_null [of t h cmp x calloc_ok doAdd]) auto
next
  fix t :: "('a, 's) HashTable" and h x
  assume "hash_wf t" "\<forall>y. (h, y) \<in># contents t \<longrightarrow> cmp y x \<noteq> 0"
  then show "mzHashTableLookup calloc_ok t h (Item x) cmp False = Ok (Null, t)"
    by (cases rule: lookup_hit_or_null [of t h cmp x calloc_ok False]) auto
next
  fix t :: "('a, 's) HashTable" and h x
  assume a: "hash_wf t" "mz_room calloc_ok t" "\<forall>y. (h, y) \<in># contents t \<longrightarrow> cmp y x \<noteq> 0"
  show "\<exists>t'. mzHashTableLookup calloc_ok t h (Item x) cmp True = Ok (Item x, t') \<and> hash_wf t' \<and>
      contents t' = add_mset (h, x) (contents t)"
  proof (cases rule: lookup_hit_or_null [OF a(1), of h cmp x calloc_ok True])
    case (1 y)
    with a show ?thesis by auto
  next
    case (2 i)
    then show ?thesis
      using lookup_add_wf [of t calloc_ok i h x] a by (auto simp: mz_room_def)
  qed
qed

section \<open>Every table a program can build\<close>

text \<open>The tables reachable from a creation by lookups, removals and clearings that return.\<close>

inductive hash_reachable :: "(int \<Rightarrow> bool) \<Rightarrow> ('a, 's) HashTable \<Rightarrow> bool" for calloc_ok where
  create: "mzHashTableCreate True calloc_ok n ff = Ok (Some t) \<Longrightarrow> unat n \<le> 2 ^ 30 \<Longrightarrow>
    hash_reachable calloc_ok t"
| lookup: "hash_reachable calloc_ok t \<Longrightarrow> can_grow t \<Longrightarrow>
    mzHashTableLookup calloc_ok t h item cmp doAdd = Ok (r, t') \<Longrightarrow> hash_reachable calloc_ok t'"
| remove: "hash_reachable calloc_ok t \<Longrightarrow> mzHashTableRemove t h (Item x) = Ok (b, t') \<Longrightarrow>
    hash_reachable calloc_ok t'"
| clear: "hash_reachable calloc_ok t \<Longrightarrow> mzHashTableClear t s = Ok (t', s') \<Longrightarrow>
    hash_reachable calloc_ok t'"

lemma resizeHash_alloc:
  "resizeHash c t n = Ok (True, t') \<Longrightarrow> resizeHash (\<lambda>_. True) t n = Ok (True, t')"
  by (auto simp: resizeHash_def then_do_Ok_iff Let_def split: if_splits)

lemma lookup_add_alloc:
  assumes "lookup_add c t i h x = Ok r"
  shows "lookup_add (\<lambda>_. True) t i h x = Ok r"
proof -
  let ?grow = "\<lambda>c t1. then_do (c_int (tableSize t1 * 2)) (\<lambda>newSize.
     then_do (resizeHash c t1 newSize) (\<lambda>(ok, t2). if ok then Ok t2 else Inl Aborted))"
  have grow: "?grow (\<lambda>_. True) t1 = Ok t2" if "?grow c t1 = Ok t2" for t1 t2
  proof -
    from that obtain m where m: "c_int (tableSize t1 * 2) = Ok m" "resizeHash c t1 m = Ok (True, t2)"
      by (auto simp: then_do_Ok_iff split: if_splits)
    from m(1) resizeHash_alloc [OF m(2)] show ?thesis by simp
  qed
  obtain n where n: "c_int (numEntries t + 1) = Ok n"
    using assms by (auto simp: lookup_add_def then_do_Ok_iff)
  define t1 where "t1 = t\<lparr>pEntries := (pEntries t)[i := \<lparr>hashValue = h, data = Item x\<rparr>], numEntries := n\<rparr>"
  obtain used limit t2 where 1: "c_int ((numEntries t1 + numDeadEntries t1) * 8) = Ok used"
    "c_int (tableSize t1 * 5) = Ok limit" "(if used > limit then ?grow c t1 else Ok t1) = Ok t2"
    "numEntries t2 < tableSize t2" "r = (Item x, t2)"
    using assms unfolding lookup_add_def n then_do_simps Let_def t1_def [symmetric]
    by (elim then_do_Ok_E) simp
  have "(if used > limit then ?grow (\<lambda>_. True) t1 else Ok t1) = Ok t2"
    using 1(3) grow [of t1 t2] by (simp split: if_splits)
  with 1(4,5) show ?thesis
    unfolding lookup_add_def n then_do_simps Let_def t1_def [symmetric] 1(1) 1(2) by simp
qed

lemma create_alloc:
  "mzHashTableCreate b c n ff = Ok (Some t) \<Longrightarrow>
     mzHashTableCreate True (\<lambda>_. True) n ff = Ok (Some t) \<and> 0 < unat n"
  by (auto simp: mzHashTableCreate_def then_do_Ok_iff Let_def word_less_nat_alt split: if_splits)

lemma hash_reachable_wf: "hash_reachable calloc_ok t \<Longrightarrow> hash_wf t"
proof (induction rule: hash_reachable.induct)
  case (create n ff t)
  then show ?case
    using create_alloc [OF create(1)] mzHashTableCreate_wf [of n "\<lambda>_. True" ff] by auto
next
  case (lookup t h item cmp doAdd r t')
  from lookup.hyps(3) obtain x where x: "item = Item x"
    by (cases item) (auto simp: mzHashTableLookup_def then_do_Ok_iff)
  show ?case
  proof (cases rule: lookup_hit_or_null [OF lookup.IH, of h cmp x calloc_ok doAdd])
    case (1 y)
    with lookup.hyps(3) lookup.IH x show ?thesis by simp
  next
    case (2 i)
    with lookup.hyps(3) x consider "t' = t" | "lookup_add (\<lambda>_. True) t i h x = Ok (r, t')"
      by (auto split: if_splits dest: lookup_add_alloc)
    then show ?thesis
      using lookup_add_wf [OF lookup.IH lookup.hyps(2), of "\<lambda>_. True" i h x] 2 lookup.IH by cases auto
  qed
next
  case (remove t h x b t')
  then show ?case by (cases rule: remove_wf [OF remove.IH, of h x]) auto
next
  case (clear t s t' s')
  then show ?case using mzHashTableClear_wf [OF clear.IH, of s] by auto
qed

section \<open>Properties\<close>

text \<open>
  C11: every table that creations, lookups, insertions, removals and clearings can build
  satisfies the invariant of the hash table: a power of two of slots, exact live and
  tombstone counts, at most 5/8 of the slots in use, and no empty slot between an entry and
  its home slot.
\<close>

theorem hash_reachable_invariant:
  assumes "hash_reachable calloc_ok t"
  shows "hash_wf t"
  using assms by (rule hash_reachable_wf)

theorem hash_reachable_invariant_witness:
  "\<exists>t :: (nat, unit) HashTable.
     mzHashTableCreate True (\<lambda>_. True) 3 None = Ok (Some t) \<and> tableSize t = 4 \<and> hash_wf t"
proof -
  have c: "mzHashTableCreate True (\<lambda>_. True) 3 (None :: (nat \<Rightarrow> unit \<Rightarrow> unit) option) =
      Ok (Some \<lparr>tableSize = 4, numEntries = 0, numDeadEntries = 0,
        pEntries = replicate 4 empty_entry, freeFunc = None\<rparr>)"
    by (simp add: mzHashTableCreate_def roundUpPower2_def Let_def)
  show ?thesis
    using c hash_reachable_invariant [OF hash_reachable.create [OF c]] by simp
qed

text \<open>
  C21: a lookup in a reachable table always returns (the probing loop ends inside the table and
  no assertion fails): it leaves the table alone and gives an item with that hash that
  compares equal, or \<^verbatim>\<open>NULL\<close> when there is none.
\<close>

theorem hash_lookup_returns:
  assumes "hash_reachable calloc_ok t"
  shows "\<exists>r. mzHashTableLookup calloc_ok t h (Item x) cmp False = Ok (r, t) \<and>
      (case r of
         Item z \<Rightarrow> (h, z) \<in># contents t \<and> cmp z x = 0
       | Null \<Rightarrow> (\<forall>y. (h, y) \<in># contents t \<longrightarrow> cmp y x \<noteq> 0)
       | Tombstone \<Rightarrow> False)"
  using mz.found_or_absent [OF hash_reachable_wf [OF assms], where calloc_ok = calloc_ok and cmp = cmp, of h x]
  by (auto split: sum.splits prod.splits)

text \<open>
  C22: inserting an item that is not in a reachable table adds exactly that item, keeps the table
  reachable, and the next lookup of it finds it, also when the insertion resized the table.
\<close>

theorem hash_insert_then_lookup:
  assumes "hash_reachable calloc_ok t" and "can_grow t" "calloc_ok (tableSize t * 2)"
    and "\<forall>y. (h, y) \<in># contents t \<longrightarrow> cmp y x \<noteq> 0" and "cmp x x = 0"
  shows "\<exists>t'. mzHashTableLookup calloc_ok t h (Item x) cmp True = Ok (Item x, t') \<and>
      hash_reachable calloc_ok t' \<and> contents t' = add_mset (h, x) (contents t) \<and>
      mzHashTableLookup calloc_ok t' h (Item x) cmp False = Ok (Item x, t')"
proof -
  have "mz_room calloc_ok t" using assms(2,3) by (simp add: mz_room_def)
  from mz.added_is_found [where cmp = cmp and h = h and x = x, OF hash_reachable_wf [OF assms(1)] this assms(4,5)]
  obtain t' where t': "mzHashTableLookup calloc_ok t h (Item x) cmp True = Ok (Item x, t')"
    "contents t' = add_mset (h, x) (contents t)"
    "mzHashTableLookup calloc_ok t' h (Item x) cmp False = Ok (Item x, t')" by blast
  moreover have "hash_reachable calloc_ok t'"
    using assms(1,2) t'(1) by (rule hash_reachable.lookup)
  ultimately show ?thesis by blast
qed

text \<open>
  Removal. Either it returns true and exactly one occurrence of the item leaves the table,
  or it returns false, the table is unchanged and the item is not in it under that hash.
\<close>

theorem hash_remove:
  assumes "hash_reachable calloc_ok t"
  shows "\<exists>b t'. mzHashTableRemove t h (Item x) = Ok (b, t') \<and> hash_wf t' \<and>
      (b \<longrightarrow> (\<exists>h'. contents t = add_mset (h', x) (contents t'))) \<and>
      (\<not> b \<longrightarrow> t' = t \<and> (h, x) \<notin># contents t)"
  using hash_reachable_wf [OF assms]
  by (cases rule: remove_wf [OF hash_reachable_wf [OF assms], of h x]) blast+

text \<open>
  \<^verbatim>\<open>mzHashTableClear\<close> passes every live item to the free function exactly once, in slot
  order, and leaves an empty table of the same size.
\<close>

theorem hash_clear:
  assumes "hash_reachable calloc_ok t" and "freeFunc t = Some f"
  shows "\<exists>t'. mzHashTableClear t s = Ok (t', fold f (map snd (live_items (pEntries t))) s) \<and>
      hash_wf t' \<and> contents t' = {#} \<and> tableSize t' = tableSize t"
  using mzHashTableClear_wf [OF hash_reachable_wf [OF assms(1)], of s] assms(2) by simp

text \<open>\<^verbatim>\<open>roundUpPower2\<close> gives the least power of two that is not smaller than its argument.\<close>

theorem roundUpPower2_least:
  assumes "0 < unat val" "unat val \<le> 2 ^ 31"
  shows "\<exists>k \<le> 31. unat (roundUpPower2 val) = 2 ^ k \<and> (\<forall>m. unat val \<le> 2 ^ m \<longrightarrow> k \<le> m)"
proof -
  obtain k where k: "k \<le> 31" "unat (roundUpPower2 val) = 2 ^ k" "unat val \<le> 2 ^ k" "2 ^ k < 2 * unat val"
    using roundUpPower2_pow2 [OF assms] by blast
  have "k \<le> m" if "unat val \<le> 2 ^ m" for m
  proof (rule ccontr)
    assume "\<not> k \<le> m"
    then have "(2::nat) ^ Suc m \<le> 2 ^ k" by (intro power_increasing) auto
    with k(4) that show False by simp
  qed
  with k show ?thesis by blast
qed

text \<open>The table of four slots that \<^verbatim>\<open>mzHashTableCreate(3, NULL)\<close> makes, for the witnesses.\<close>

lemma create_three:
  "mzHashTableCreate True (\<lambda>_. True) 3 (ff :: (nat \<Rightarrow> 's \<Rightarrow> 's) option) =
     Ok (Some \<lparr>tableSize = 4, numEntries = 0, numDeadEntries = 0,
       pEntries = replicate 4 empty_entry, freeFunc = ff\<rparr>)"
  by (simp add: mzHashTableCreate_def roundUpPower2_def Let_def)

lemma create_three_reachable:
  "hash_reachable (\<lambda>_. True) \<lparr>tableSize = 4, numEntries = 0, numDeadEntries = 0,
       pEntries = replicate 4 empty_entry, freeFunc = (ff :: (nat \<Rightarrow> 's \<Rightarrow> 's) option)\<rparr>"
  by (rule hash_reachable.create [OF create_three]) simp

theorem hash_lookup_returns_witness:
  "\<exists>t :: (nat, unit) HashTable. hash_reachable (\<lambda>_. True) t \<and>
     (\<exists>r. mzHashTableLookup (\<lambda>_. True) t 5 (Item 7) (\<lambda>a b. int a - int b) False = Ok (r, t))"
  using hash_lookup_returns [OF create_three_reachable [of None], of 5 7 "\<lambda>a b. int a - int b"]
    create_three_reachable [of None] by blast

theorem hash_insert_then_lookup_witness:
  "\<exists>t t' :: (nat, unit) HashTable. contents t = {#} \<and> contents t' = {#(5, 7)#} \<and>
     mzHashTableLookup (\<lambda>_. True) t 5 (Item 7) (\<lambda>a b. int a - int b) True = Ok (Item 7, t') \<and>
     mzHashTableLookup (\<lambda>_. True) t' 5 (Item 7) (\<lambda>a b. int a - int b) False = Ok (Item 7, t')"
  using hash_insert_then_lookup [OF create_three_reachable [of None],
      where h = 5 and x = 7 and cmp = "\<lambda>a b. int a - int b"]
  by (force simp: can_grow_def contents_def)

theorem hash_remove_witness:
  "\<exists>b (t :: (nat, unit) HashTable) t'. hash_reachable (\<lambda>_. True) t \<and>
     mzHashTableRemove t 5 (Item 7) = Ok (b, t') \<and> hash_wf t'"
  using hash_remove [OF create_three_reachable [of None], of 5 7] create_three_reachable [of None] by blast

theorem hash_clear_witness:
  "\<exists>(t :: (nat, nat list) HashTable) t'. mzHashTableClear t [] = Ok (t', []) \<and> tableSize t' = 4"
  using hash_clear [OF create_three_reachable [of "Some Cons"], of Cons "[]"] by force

theorem roundUpPower2_least_witness:
  "unat (roundUpPower2 5) = 8 \<and> (\<exists>k \<le> 31. unat (roundUpPower2 5) = 2 ^ k \<and> (\<forall>m. (5::nat) \<le> 2 ^ m \<longrightarrow> k \<le> m))"
  using roundUpPower2_least [of 5] by (simp add: roundUpPower2_def Let_def)

end
