(* ===== verification/C_String.thy ===== *)
theory C_String
  imports Rec_Prelude
begin

text \<open>
  The parts of the C library the recovery sources use on strings and arrays:
  \<^verbatim>\<open>strcmp\<close>, \<^verbatim>\<open>strncmp\<close>, \<^verbatim>\<open>strstr\<close>, \<^verbatim>\<open>strtol\<close> in base 10, \<^verbatim>\<open>strtok\<close>,
  \<^verbatim>\<open>qsort\<close> and \<^verbatim>\<open>bsearch\<close>. A \<^verbatim>\<open>char*\<close> string is a \<^typ>\<open>string\<close> without its
  terminating NUL; \<^verbatim>\<open>nul_free\<close> says that it holds no NUL itself.
\<close>

section \<open>Comparing\<close>

abbreviation byte_of :: "char \<Rightarrow> int" where
  "byte_of c \<equiv> int (of_char c)"

definition nul_free :: "string \<Rightarrow> bool" where
  "nul_free s \<longleftrightarrow> CHR 0x00 \<notin> set s"

fun strcmp :: "string \<Rightarrow> string \<Rightarrow> int" where
  "strcmp [] [] = 0"
| "strcmp [] (d # ds) = 0 - byte_of d"
| "strcmp (c # cs) [] = byte_of c"
| "strcmp (c # cs) (d # ds) = (if c = d then strcmp cs ds else byte_of c - byte_of d)"

definition strncmp :: "string \<Rightarrow> string \<Rightarrow> nat \<Rightarrow> int" where
  "strncmp a b n = strcmp (take n a) (take n b)"

fun strstr :: "string \<Rightarrow> string \<Rightarrow> bool" where
  "strstr [] needle = (needle = [])"
| "strstr (c # cs) needle = (take (length needle) (c # cs) = needle \<or> strstr cs needle)"

section \<open>strtol\<close>

definition is_space :: "char \<Rightarrow> bool" where
  "is_space c \<longleftrightarrow> c \<in> set [CHR '' '', CHR 0x09, CHR 0x0A, CHR 0x0B, CHR 0x0C, CHR 0x0D]"

definition is_digit :: "char \<Rightarrow> bool" where
  "is_digit c \<longleftrightarrow> byte_of CHR ''0'' \<le> byte_of c \<and> byte_of c \<le> byte_of CHR ''9''"

definition digit_val :: "char \<Rightarrow> int" where
  "digit_val c = byte_of c - byte_of CHR ''0''"

fun strtol_digits :: "int \<Rightarrow> string \<Rightarrow> int \<times> string" where
  "strtol_digits acc [] = (acc, [])"
| "strtol_digits acc (c # cs) =
     (if is_digit c then strtol_digits (acc * 10 + digit_val c) cs else (acc, c # cs))"

definition LONG_MAX :: int where
  "LONG_MAX = 2 ^ 63 - 1"

definition LONG_MIN :: int where
  "LONG_MIN = - (2 ^ 63)"

text \<open>\<^verbatim>\<open>strtol(s, &end, 10)\<close>: the value, saturated, and the string from \<^verbatim>\<open>end\<close> on.\<close>

definition strtol10 :: "string \<Rightarrow> int \<times> string" where
  "strtol10 s =
     (let s1 = dropWhile is_space s;
          neg = (s1 \<noteq> [] \<and> hd s1 = CHR ''-'');
          s2 = (if s1 \<noteq> [] \<and> (hd s1 = CHR ''-'' \<or> hd s1 = CHR ''+'') then tl s1 else s1)
      in if s2 = [] \<or> \<not> is_digit (hd s2) then (0, s)
         else let (v, rest) = strtol_digits 0 s2 in
           (max LONG_MIN (min LONG_MAX (if neg then - v else v)), rest))"

text \<open>The conversion of an integer to \<^verbatim>\<open>int\<close>.\<close>

definition to_int32 :: "int \<Rightarrow> int" where
  "to_int32 v = sint (word_of_int v :: u32)"

section \<open>strtok\<close>

text \<open>One call of \<^verbatim>\<open>strtok\<close> with a single delimiter: the token and the string the next
  call continues with; \<^const>\<open>None\<close> when no token is left.\<close>

definition strtok :: "char \<Rightarrow> string \<Rightarrow> (string \<times> string) option" where
  "strtok d s =
     (let s1 = dropWhile (\<lambda>c. c = d) s in
      if s1 = [] then None
      else Some (takeWhile (\<lambda>c. c \<noteq> d) s1, drop 1 (dropWhile (\<lambda>c. c \<noteq> d) s1)))"

section \<open>qsort and bsearch\<close>

fun insert_by :: "('a \<Rightarrow> 'a \<Rightarrow> int) \<Rightarrow> 'a \<Rightarrow> 'a list \<Rightarrow> 'a list" where
  "insert_by cmp x [] = [x]"
| "insert_by cmp x (y # ys) = (if cmp x y \<le> 0 then x # y # ys else y # insert_by cmp x ys)"

fun qsort :: "('a \<Rightarrow> 'a \<Rightarrow> int) \<Rightarrow> 'a list \<Rightarrow> 'a list" where
  "qsort cmp [] = []"
| "qsort cmp (x # xs) = insert_by cmp x (qsort cmp xs)"

text \<open>The loop \<^verbatim>\<open>for (lim = nmemb; lim != 0; lim >>= 1)\<close> of the BSD \<^verbatim>\<open>bsearch\<close>, with the
  array from \<^verbatim>\<open>base\<close> on.\<close>

function bsearch_loop :: "('a \<Rightarrow> int) \<Rightarrow> 'a list \<Rightarrow> nat \<Rightarrow> nat \<Rightarrow> 'a option outcome" where
  "bsearch_loop key_cmp xs base lim =
     (if lim = 0 then Ok None
      else let p = base + lim div 2 in
        if p \<ge> length xs then Inl OutOfBounds
        else let c = key_cmp (xs ! p) in
          if c = 0 then Ok (Some (xs ! p))
          else if c > 0 then bsearch_loop key_cmp xs (p + 1) ((lim - 1) div 2)
          else bsearch_loop key_cmp xs base (lim div 2))"
  by pat_completeness auto
termination
  by (relation "measure (\<lambda>(k, xs, base, lim). lim)") auto

declare bsearch_loop.simps [simp del]

definition bsearch :: "('k \<Rightarrow> 'a \<Rightarrow> int) \<Rightarrow> 'k \<Rightarrow> 'a list \<Rightarrow> 'a option outcome" where
  "bsearch cmp key xs = bsearch_loop (cmp key) xs 0 (length xs)"

section \<open>Facts on comparison\<close>

lemma nul_free_Cons [simp]: "nul_free (c # cs) \<longleftrightarrow> c \<noteq> CHR 0x00 \<and> nul_free cs"
  by (auto simp: nul_free_def)

lemma nul_free_Nil [simp]: "nul_free []"
  by (simp add: nul_free_def)

lemma nul_free_append [simp]: "nul_free (a @ b) \<longleftrightarrow> nul_free a \<and> nul_free b"
  by (auto simp: nul_free_def)

lemma byte_of_inj [simp]: "byte_of c = byte_of d \<longleftrightarrow> c = d"
  by simp

lemma byte_of_pos: "c \<noteq> CHR 0x00 \<Longrightarrow> 0 < byte_of c"
proof -
  assume "c \<noteq> CHR 0x00"
  moreover have "byte_of (CHR 0x00) = 0" by simp
  ultimately have "byte_of c \<noteq> 0" using byte_of_inj [of c "CHR 0x00"] by simp
  then show ?thesis by simp
qed

lemma strcmp_refl [simp]: "strcmp s s = 0"
  by (induction s) auto

lemma strcmp_eq_0_iff: "nul_free a \<Longrightarrow> nul_free b \<Longrightarrow> strcmp a b = 0 \<longleftrightarrow> a = b"
  by (induction a b rule: strcmp.induct) (auto dest: byte_of_pos)

lemma strcmp_swap: "strcmp b a = - strcmp a b"
  by (induction a b rule: strcmp.induct) auto

lemma strcmp_trans:
  "nul_free a \<Longrightarrow> nul_free b \<Longrightarrow> nul_free c \<Longrightarrow> strcmp a b < 0 \<Longrightarrow> strcmp b c < 0 \<Longrightarrow> strcmp a c < 0"
proof (induction a b arbitrary: c rule: strcmp.induct)
  case (2 d ds)
  then show ?case by (cases c) (auto dest: byte_of_pos split: if_splits)
next
  case (4 x xs y ys)
  then show ?case by (cases c) (auto dest: byte_of_pos split: if_splits)
qed auto

lemma strstr_iff: "strstr hay needle \<longleftrightarrow> (\<exists>a b. hay = a @ needle @ b)"
proof (induction hay)
  case (Cons c cs)
  have "take (length needle) (c # cs) = needle \<longleftrightarrow> (\<exists>b. c # cs = needle @ b)"
    by (metis append_take_drop_id append_eq_conv_conj)
  moreover have "(\<exists>a b. c # cs = a @ needle @ b) \<longleftrightarrow>
      (\<exists>b. c # cs = needle @ b) \<or> (\<exists>a b. cs = a @ needle @ b)"
    by (metis append_Cons append_Nil list.sel(3) tl_append2)
  ultimately show ?case using Cons.IH by simp
qed auto

section \<open>Facts on qsort and bsearch\<close>

text \<open>What \<^verbatim>\<open>qsort\<close> promises: a permutation, in which no element compares greater than a later
  one, provided the comparison is a total preorder on the elements.\<close>

definition cmp_on :: "'a set \<Rightarrow> ('a \<Rightarrow> 'a \<Rightarrow> int) \<Rightarrow> bool" where
  "cmp_on A cmp \<longleftrightarrow>
     (\<forall>x \<in> A. \<forall>y \<in> A. (cmp x y \<le> 0 \<or> cmp y x \<le> 0)) \<and>
     (\<forall>x \<in> A. \<forall>y \<in> A. \<forall>z \<in> A. cmp x y \<le> 0 \<longrightarrow> cmp y z \<le> 0 \<longrightarrow> cmp x z \<le> 0)"

locale c_sort =
  fixes sort_by :: "('a \<Rightarrow> 'a \<Rightarrow> int) \<Rightarrow> 'a list \<Rightarrow> 'a list"
  assumes sort_mset: "mset (sort_by cmp xs) = mset xs"
    and sort_sorted: "cmp_on (set xs) cmp \<Longrightarrow> sorted_wrt (\<lambda>x y. cmp x y \<le> 0) (sort_by cmp xs)"
begin

lemma sort_set: "set (sort_by cmp xs) = set xs"
  by (metis mset_eq_setD sort_mset)

lemma sort_length: "length (sort_by cmp xs) = length xs"
  by (metis mset_eq_length sort_mset)

lemma sort_strict:
  assumes "cmp_on (set xs) cmp" "distinct xs"
    and "\<And>x y. x \<in> set xs \<Longrightarrow> y \<in> set xs \<Longrightarrow> x \<noteq> y \<Longrightarrow> cmp x y \<noteq> 0"
  shows "sorted_wrt (\<lambda>x y. cmp x y < 0) (sort_by cmp xs)"
proof -
  have "distinct (sort_by cmp xs)" using assms(2) by (metis mset_eq_imp_distinct_iff sort_mset)
  with sort_sorted [OF assms(1)] have
    "sorted_wrt (\<lambda>x y. cmp x y \<le> 0 \<and> x \<noteq> y) (sort_by cmp xs)"
    by (auto simp: sorted_wrt_iff_nth_less distinct_conv_nth)
  then show ?thesis
    by (rule sorted_wrt_mono_rel [rotated]) (use assms(3) in \<open>force simp: sort_set\<close>)
qed

end

lemma mset_insert_by: "mset (insert_by cmp x xs) = add_mset x (mset xs)"
  by (induction xs) auto

lemma mset_qsort: "mset (qsort cmp xs) = mset xs"
  by (induction xs) (auto simp: mset_insert_by)

lemma set_insert_by: "set (insert_by cmp x xs) = insert x (set xs)"
  by (metis mset_insert_by set_mset_add_mset_insert set_mset_mset)

lemma set_qsort: "set (qsort cmp xs) = set xs"
  by (metis mset_qsort set_mset_mset)

lemma cmp_on_subset: "cmp_on A cmp \<Longrightarrow> B \<subseteq> A \<Longrightarrow> cmp_on B cmp"
  unfolding cmp_on_def by blast

lemma cmp_on_trans:
  "cmp_on A cmp \<Longrightarrow> x \<in> A \<Longrightarrow> y \<in> A \<Longrightarrow> z \<in> A \<Longrightarrow> cmp x y \<le> 0 \<Longrightarrow> cmp y z \<le> 0 \<Longrightarrow> cmp x z \<le> 0"
  unfolding cmp_on_def by blast

lemma sorted_insert_by:
  "cmp_on (insert x (set xs)) cmp \<Longrightarrow> sorted_wrt (\<lambda>x y. cmp x y \<le> 0) xs \<Longrightarrow>
     sorted_wrt (\<lambda>x y. cmp x y \<le> 0) (insert_by cmp x xs)"
proof (induction xs)
  case (Cons y ys)
  have "cmp_on (insert x (set ys)) cmp" by (rule cmp_on_subset [OF Cons.prems(1)]) auto
  then have IH: "sorted_wrt (\<lambda>x y. cmp x y \<le> 0) (insert_by cmp x ys)"
    using Cons.IH Cons.prems(2) by simp
  show ?case
  proof (cases "cmp x y \<le> 0")
    case True
    moreover have "cmp x z \<le> 0" if "z \<in> set ys" for z
      by (rule cmp_on_trans [OF Cons.prems(1) _ _ _ True]) (use that Cons.prems(2) in auto)
    ultimately show ?thesis using Cons.prems(2) by simp
  next
    case False
    then have "cmp y x \<le> 0" using Cons.prems(1) by (auto simp: cmp_on_def)
    with False IH Cons.prems(2) show ?thesis by (auto simp: set_insert_by)
  qed
qed simp

lemma sorted_qsort: "cmp_on (set xs) cmp \<Longrightarrow> sorted_wrt (\<lambda>x y. cmp x y \<le> 0) (qsort cmp xs)"
proof (induction xs)
  case (Cons x xs)
  have "cmp_on (set xs) cmp" by (rule cmp_on_subset [OF Cons.prems]) auto
  then have "sorted_wrt (\<lambda>x y. cmp x y \<le> 0) (qsort cmp xs)" by (rule Cons.IH)
  then show ?case
    using sorted_insert_by [of x "qsort cmp xs" cmp] Cons.prems by (simp add: set_qsort)
qed simp

interpretation isort: c_sort qsort
  by unfold_locales (simp_all add: mset_qsort sorted_qsort)

text \<open>On an array whose elements compare above, equal and below the key in this order,
  \<^verbatim>\<open>bsearch\<close> returns the equal element if there is one.\<close>

definition splits_key :: "('a \<Rightarrow> int) \<Rightarrow> 'a list \<Rightarrow> bool" where
  "splits_key f xs \<longleftrightarrow> (\<forall>i j. i < j \<longrightarrow> j < length xs \<longrightarrow> 0 \<le> f (xs ! j) \<longrightarrow> 0 < f (xs ! i))"

lemma bsearch_loop_finds:
  assumes "splits_key f xs" "base + lim \<le> length xs"
  shows "(\<exists>i. base \<le> i \<and> i < base + lim \<and> f (xs ! i) = 0 \<and> bsearch_loop f xs base lim = Ok (Some (xs ! i))) \<or>
    ((\<forall>i. base \<le> i \<and> i < base + lim \<longrightarrow> f (xs ! i) \<noteq> 0) \<and> bsearch_loop f xs base lim = Ok None)"
  using assms
proof (induction f xs base lim rule: bsearch_loop.induct)
  case (1 f xs base lim)
  let ?p = "base + lim div 2"
  show ?case
  proof (cases "lim = 0")
    case True
    then show ?thesis by (simp add: bsearch_loop.simps)
  next
    case False
    then have p: "?p < length xs" "?p < base + lim" using "1.prems"(2) by auto
    consider "f (xs ! ?p) = 0" | "f (xs ! ?p) > 0" | "f (xs ! ?p) < 0" by linarith
    then show ?thesis
    proof cases
      case 1
      then show ?thesis using False p
        by (intro disjI1 exI [of _ ?p]) (subst bsearch_loop.simps, simp add: Let_def)
    next
      case 2
      have e: "bsearch_loop f xs base lim = bsearch_loop f xs (?p + 1) ((lim - 1) div 2)"
        using False p 2 by (subst bsearch_loop.simps) (simp add: Let_def)
      have b: "?p + 1 + (lim - 1) div 2 = base + lim" using False by linarith
      have lo: "f (xs ! i) \<noteq> 0" if "i < ?p + 1" for i
      proof (cases "i = ?p")
        case False
        with that have "0 < f (xs ! i)"
          using "1.prems"(1) p(1) 2 unfolding splits_key_def by (metis add.commute less_Suc_eq less_imp_le plus_1_eq_Suc)
        then show ?thesis by simp
      qed (use 2 in simp)
      have IH: "(\<exists>i. ?p + 1 \<le> i \<and> i < base + lim \<and> f (xs ! i) = 0 \<and>
          bsearch_loop f xs (?p + 1) ((lim - 1) div 2) = Ok (Some (xs ! i))) \<or>
        ((\<forall>i. ?p + 1 \<le> i \<and> i < base + lim \<longrightarrow> f (xs ! i) \<noteq> 0) \<and>
          bsearch_loop f xs (?p + 1) ((lim - 1) div 2) = Ok None)"
        using "1.IH"(1) [OF False refl _ refl] p 2 "1.prems" unfolding b by simp
      show ?thesis unfolding e using IH lo by (meson add_leD1 le_add1 le_trans not_less)
    next
      case 3
      have e: "bsearch_loop f xs base lim = bsearch_loop f xs base (lim div 2)"
        using False p 3 by (subst bsearch_loop.simps) (simp add: Let_def)
      have hi: "f (xs ! i) \<noteq> 0" if "?p \<le> i" "i < base + lim" for i
      proof (cases "i = ?p")
        case False
        with that have "?p < i" "i < length xs" using "1.prems"(2) by auto
        then show ?thesis using "1.prems"(1) 3 unfolding splits_key_def by (metis less_irrefl less_trans order_refl)
      qed (use 3 in simp)
      have IH: "(\<exists>i. base \<le> i \<and> i < ?p \<and> f (xs ! i) = 0 \<and> bsearch_loop f xs base (lim div 2) = Ok (Some (xs ! i))) \<or>
        ((\<forall>i. base \<le> i \<and> i < ?p \<longrightarrow> f (xs ! i) \<noteq> 0) \<and> bsearch_loop f xs base (lim div 2) = Ok None)"
        using "1.IH"(2) [OF False refl _ refl] p 3 "1.prems" by simp
      show ?thesis unfolding e using IH hi p(2) by (meson less_trans not_less)
    qed
  qed
qed

section \<open>Bytes and characters\<close>

definition chars_of :: "bytes \<Rightarrow> string" where
  "chars_of xs = map (\<lambda>b. char_of (unat b)) xs"

definition bytes_of :: "string \<Rightarrow> bytes" where
  "bytes_of s = map (\<lambda>c. of_nat (of_char c)) s"

lemma length_chars [simp]: "length (chars_of xs) = length xs"
  by (simp add: chars_of_def)

lemma length_bytes_of [simp]: "length (bytes_of s) = length s"
  by (simp add: bytes_of_def)

lemma chars_of_bytes_of [simp]: "chars_of (bytes_of s) = s"
proof -
  have "char_of (unat (of_nat (of_char c) :: u8)) = c" for c :: char
    by (simp add: unsigned_of_nat take_bit_eq_mod)
  then show ?thesis by (simp add: chars_of_def bytes_of_def map_idI)
qed

end
