(* ===== verification/Edify_Expr.thy ===== *)
theory Edify_Expr
  imports C_String "HOL-Library.Sublist"
begin

text \<open>
  The evaluator of the edify update scripts, \<^verbatim>\<open>src/edify/expr.c\<close> and \<^verbatim>\<open>expr.h\<close>.
  A \<^verbatim>\<open>Value*\<close> result is an option (\<^verbatim>\<open>NULL\<close> is \<^const>\<open>None\<close>). An \<^verbatim>\<open>Expr*\<close> passed to a
  function is a record with its source positions and what evaluating it does to the state;
  so every \<^verbatim>\<open>Function\<close> of the source is one HOL function of the same arguments, and
  \<^verbatim>\<open>denote\<close> turns an expression tree into such a record. \<^verbatim>\<open>argv\<close> is a list, \<^verbatim>\<open>argc\<close> its
  length; reading an argument that is not there is the outcome \<^const>\<open>OutOfBounds\<close>.
  Memory management (\<^verbatim>\<open>malloc\<close>, \<^verbatim>\<open>free\<close>) has no counterpart.
\<close>

section \<open>Values and state\<close>

text \<open>A \<^verbatim>\<open>Value\<close>: its type with its data. \<^const>\<open>None\<close> is a value whose \<^verbatim>\<open>data\<close> is \<^verbatim>\<open>NULL\<close> and whose
  \<^verbatim>\<open>size\<close> is -1, which clients return for a failure.\<close>

datatype Value = VAL_STRING "string option" | VAL_BLOB "bytes option"

definition value_type :: "Value \<Rightarrow> string" where
  "value_type v = (case v of VAL_STRING _ \<Rightarrow> ''1'' | VAL_BLOB _ \<Rightarrow> ''2'')"

text \<open>The \<^verbatim>\<open>State\<close> struct, with what the functions do to the process beside it: the text
  written to \<^verbatim>\<open>stdout\<close> and \<^verbatim>\<open>stderr\<close> and the arguments of \<^verbatim>\<open>sleep\<close>.\<close>

record 'c State =
  cookie :: 'c
  script :: string
  errmsg :: "string option"
  out :: string
  err :: string
  naps :: "int list"

type_synonym 'c effect = "'c State \<Rightarrow> (Value option \<times> 'c State) outcome"

record 'c Arg =
  arg_start :: int
  arg_end :: int
  arg_eval :: "'c effect"

type_synonym 'c Function = "string \<Rightarrow> 'c State \<Rightarrow> 'c Arg list \<Rightarrow> (Value option \<times> 'c State) outcome"

definition BooleanString :: "string \<Rightarrow> bool" where
  "BooleanString s \<longleftrightarrow> s \<noteq> []"

definition set_errmsg :: "'c State \<Rightarrow> string \<Rightarrow> 'c State" where
  "set_errmsg st msg = st\<lparr>errmsg := Some msg\<rparr>"

text \<open>\<^verbatim>\<open>vsnprintf\<close> into 4096 bytes keeps the first 4095 characters of the message.\<close>

definition ErrorAbort :: "'c State \<Rightarrow> string \<Rightarrow> 'c State" where
  "ErrorAbort st msg = set_errmsg st (take 4095 msg)"

definition EvaluateValue :: "'c State \<Rightarrow> 'c Arg \<Rightarrow> (Value option \<times> 'c State) outcome" where
  "EvaluateValue st a = arg_eval a st"

definition Evaluate :: "'c State \<Rightarrow> 'c Arg \<Rightarrow> (string option \<times> 'c State) outcome" where
  "Evaluate st a =
     then_do (arg_eval a st) (\<lambda>(v, st').
       (case v of
          None \<Rightarrow> Ok (None, st')
        | Some (VAL_STRING s) \<Rightarrow> Ok (s, st')
        | Some w \<Rightarrow> Ok (None, ErrorAbort st' (''expecting string, got value type '' @ value_type w))))"

definition StringValue :: "string option \<Rightarrow> Value option" where
  "StringValue str = map_option (\<lambda>s. VAL_STRING (Some s)) str"

definition arg :: "'c Arg list \<Rightarrow> nat \<Rightarrow> 'c Arg outcome" where
  "arg argv i = (if i < length argv then Ok (argv ! i) else Inl OutOfBounds)"

text \<open>\<^verbatim>\<open>Evaluate(state, argv[i])\<close> and \<^verbatim>\<open>EvaluateValue(state, argv[i])\<close>.\<close>

definition eval_arg :: "'c State \<Rightarrow> 'c Arg list \<Rightarrow> nat \<Rightarrow> (string option \<times> 'c State) outcome" where
  "eval_arg st argv i = then_do (arg argv i) (\<lambda>a. Evaluate st a)"

definition eval_value_arg :: "'c State \<Rightarrow> 'c Arg list \<Rightarrow> nat \<Rightarrow> (Value option \<times> 'c State) outcome" where
  "eval_value_arg st argv i = then_do (arg argv i) (\<lambda>a. EvaluateValue st a)"

text \<open>Continue with the value, or return \<^verbatim>\<open>NULL\<close> where it is \<^verbatim>\<open>NULL\<close>.\<close>

definition unless_null ::
  "('a option \<times> 'c State) outcome \<Rightarrow> ('a \<Rightarrow> 'c State \<Rightarrow> ('b option \<times> 'c State) outcome) \<Rightarrow>
     ('b option \<times> 'c State) outcome" where
  "unless_null m f =
     then_do m (\<lambda>(v, st). case v of None \<Rightarrow> Ok (None, st) | Some x \<Rightarrow> f x st)"

section \<open>Reading arguments\<close>

fun ReadVarArgs :: "'c State \<Rightarrow> 'c Arg list \<Rightarrow> (string list option \<times> 'c State) outcome" where
  "ReadVarArgs st [] = Ok (Some [], st)"
| "ReadVarArgs st (a # as) =
     unless_null (Evaluate st a) (\<lambda>s st'.
     unless_null (ReadVarArgs st' as) (\<lambda>ss st''. Ok (Some (s # ss), st'')))"

fun ReadValueVarArgs :: "'c State \<Rightarrow> 'c Arg list \<Rightarrow> (Value list option \<times> 'c State) outcome" where
  "ReadValueVarArgs st [] = Ok (Some [], st)"
| "ReadValueVarArgs st (a # as) =
     unless_null (EvaluateValue st a) (\<lambda>s st'.
     unless_null (ReadValueVarArgs st' as) (\<lambda>ss st''. Ok (Some (s # ss), st'')))"

text \<open>\<^verbatim>\<open>ReadArgs\<close> and \<^verbatim>\<open>ReadValueArgs\<close> evaluate the first \<^verbatim>\<open>count\<close> entries of \<^verbatim>\<open>argv\<close>.\<close>

fun ReadArgs_from :: "'c State \<Rightarrow> 'c Arg list \<Rightarrow> nat \<Rightarrow> nat \<Rightarrow> (string list option \<times> 'c State) outcome" where
  "ReadArgs_from st argv i 0 = Ok (Some [], st)"
| "ReadArgs_from st argv i (Suc n) =
     unless_null (eval_arg st argv i) (\<lambda>s st'.
     unless_null (ReadArgs_from st' argv (Suc i) n) (\<lambda>ss st''. Ok (Some (s # ss), st'')))"

definition ReadArgs :: "'c State \<Rightarrow> 'c Arg list \<Rightarrow> nat \<Rightarrow> (string list option \<times> 'c State) outcome" where
  "ReadArgs st argv n = ReadArgs_from st argv 0 n"

fun ReadValueArgs_from :: "'c State \<Rightarrow> 'c Arg list \<Rightarrow> nat \<Rightarrow> nat \<Rightarrow> (Value list option \<times> 'c State) outcome" where
  "ReadValueArgs_from st argv i 0 = Ok (Some [], st)"
| "ReadValueArgs_from st argv i (Suc n) =
     unless_null (eval_value_arg st argv i) (\<lambda>s st'.
     unless_null (ReadValueArgs_from st' argv (Suc i) n) (\<lambda>ss st''. Ok (Some (s # ss), st'')))"

definition ReadValueArgs :: "'c State \<Rightarrow> 'c Arg list \<Rightarrow> nat \<Rightarrow> (Value list option \<times> 'c State) outcome" where
  "ReadValueArgs st argv n = ReadValueArgs_from st argv 0 n"

section \<open>The builtin functions\<close>

definition Literal :: "'c Function" where
  "Literal name st argv = Ok (StringValue (Some name), st)"

text \<open>The first loop of \<^verbatim>\<open>ConcatFn\<close> collects \<^verbatim>\<open>strings\<close>, the second copies them one after the
  other.\<close>

definition ConcatFn :: "'c Function" where
  "ConcatFn name st argv =
     (if length argv = 0 then Ok (StringValue (Some ''''), st)
      else unless_null (ReadVarArgs st argv) (\<lambda>strings st'. Ok (StringValue (Some (concat strings)), st')))"

definition IfElseFn :: "'c Function" where
  "IfElseFn name st argv =
     (if length argv \<noteq> 2 \<and> length argv \<noteq> 3 then
        Ok (None, set_errmsg st ''ifelse expects 2 or 3 arguments'')
      else unless_null (eval_arg st argv 0) (\<lambda>cond st'.
        if BooleanString cond then eval_value_arg st' argv 1
        else if length argv = 3 then eval_value_arg st' argv 2
        else Ok (StringValue (Some cond), st')))"

definition AbortFn :: "'c Function" where
  "AbortFn name st argv =
     then_do (if length argv > 0 then eval_arg st argv 0 else Ok (None, st)) (\<lambda>(msg, st').
       Ok (None, set_errmsg st' (case msg of Some m \<Rightarrow> m | None \<Rightarrow> ''called abort()'')))"

text \<open>\<^verbatim>\<open>memcpy(.., state->script + start, end - start)\<close>.\<close>

definition script_text :: "'c State \<Rightarrow> 'c Arg \<Rightarrow> string outcome" where
  "script_text st a =
     (if 0 \<le> arg_start a \<and> arg_start a \<le> arg_end a \<and> arg_end a \<le> int (length (script st))
      then Ok (take (nat (arg_end a - arg_start a)) (drop (nat (arg_start a)) (script st)))
      else Inl OutOfBounds)"

fun assert_loop :: "'c State \<Rightarrow> 'c Arg list \<Rightarrow> (Value option \<times> 'c State) outcome" where
  "assert_loop st [] = Ok (StringValue (Some ''''), st)"
| "assert_loop st (a # as) =
     unless_null (Evaluate st a) (\<lambda>v st'.
       if \<not> BooleanString v then
         then_do (script_text st' a) (\<lambda>src. Ok (None, set_errmsg st' (''assert failed: '' @ src)))
       else assert_loop st' as)"

definition AssertFn :: "'c Function" where
  "AssertFn name st argv = assert_loop st argv"

definition SleepFn :: "'c Function" where
  "SleepFn name st argv =
     unless_null (eval_arg st argv 0) (\<lambda>val st'.
       let v = to_int32 (fst (strtol10 val))
       in Ok (StringValue (Some val), st'\<lparr>naps := naps st' @ [v]\<rparr>))"

fun stdout_loop :: "'c State \<Rightarrow> 'c Arg list \<Rightarrow> (Value option \<times> 'c State) outcome" where
  "stdout_loop st [] = Ok (StringValue (Some ''''), st)"
| "stdout_loop st (a # as) =
     unless_null (Evaluate st a) (\<lambda>v st'. stdout_loop (st'\<lparr>out := out st' @ v\<rparr>) as)"

definition StdoutFn :: "'c Function" where
  "StdoutFn name st argv = stdout_loop st argv"

definition LogicalAndFn :: "'c Function" where
  "LogicalAndFn name st argv =
     unless_null (eval_arg st argv 0) (\<lambda>left st'.
       if BooleanString left then eval_value_arg st' argv 1
       else Ok (StringValue (Some left), st'))"

definition LogicalOrFn :: "'c Function" where
  "LogicalOrFn name st argv =
     unless_null (eval_arg st argv 0) (\<lambda>left st'.
       if \<not> BooleanString left then eval_value_arg st' argv 1
       else Ok (StringValue (Some left), st'))"

definition LogicalNotFn :: "'c Function" where
  "LogicalNotFn name st argv =
     unless_null (eval_arg st argv 0) (\<lambda>val st'.
       Ok (StringValue (Some (if BooleanString val then '''' else ''t'')), st'))"

definition truth :: "bool \<Rightarrow> string" where
  "truth b = (if b then ''t'' else '''')"

definition SubstringFn :: "'c Function" where
  "SubstringFn name st argv =
     unless_null (eval_arg st argv 0) (\<lambda>needle st'.
     unless_null (eval_arg st' argv 1) (\<lambda>haystack st''.
       Ok (StringValue (Some (truth (strstr haystack needle))), st'')))"

definition EqualityFn :: "'c Function" where
  "EqualityFn name st argv =
     unless_null (eval_arg st argv 0) (\<lambda>left st'.
     unless_null (eval_arg st' argv 1) (\<lambda>right st''.
       Ok (StringValue (Some (truth (strcmp left right = 0))), st'')))"

definition InequalityFn :: "'c Function" where
  "InequalityFn name st argv =
     unless_null (eval_arg st argv 0) (\<lambda>left st'.
     unless_null (eval_arg st' argv 1) (\<lambda>right st''.
       Ok (StringValue (Some (truth (strcmp left right \<noteq> 0))), st'')))"

definition SequenceFn :: "'c Function" where
  "SequenceFn name st argv =
     unless_null (eval_value_arg st argv 0) (\<lambda>left st'. eval_value_arg st' argv 1)"

definition not_an_int :: "'c State \<Rightarrow> string \<Rightarrow> 'c State" where
  "not_an_int st s = st\<lparr>err := err st @ ''['' @ s @ ''] is not an int'' @ [CHR 0x0A]\<rparr>"

text \<open>\<^verbatim>\<open>strtol\<close> took all of a nonempty string.\<close>

definition whole_int :: "string \<Rightarrow> bool" where
  "whole_int s \<longleftrightarrow> \<not> (s = [] \<or> snd (strtol10 s) \<noteq> [])"

definition LessThanIntFn :: "'c Function" where
  "LessThanIntFn name st argv =
     (if length argv \<noteq> 2 then Ok (None, set_errmsg st ''less_than_int expects 2 arguments'')
      else unless_null (ReadArgs st argv 2) (\<lambda>vals st'.
        let left = vals ! 0; right = vals ! 1 in
        if \<not> whole_int left then Ok (StringValue (Some (truth False)), not_an_int st' left)
        else if \<not> whole_int right then Ok (StringValue (Some (truth False)), not_an_int st' right)
        else Ok (StringValue (Some (truth (fst (strtol10 left) < fst (strtol10 right)))), st')))"

definition GreaterThanIntFn :: "'c Function" where
  "GreaterThanIntFn name st argv =
     (if length argv \<noteq> 2 then Ok (None, set_errmsg st ''greater_than_int expects 2 arguments'')
      else LessThanIntFn name st [argv ! 1, argv ! 0])"

section \<open>Expressions\<close>

text \<open>The function pointers of \<^verbatim>\<open>expr.c\<close>; \<^verbatim>\<open>Native\<close> stands for one that a client registers.\<close>

datatype 'x fn_id = F_Literal | F_Concat | F_IfElse | F_Abort | F_Assert | F_Sleep | F_Stdout
  | F_And | F_Or | F_Not | F_Substring | F_Equality | F_Inequality | F_Sequence
  | F_LessThanInt | F_GreaterThanInt | Native 'x

datatype 'x Expr =
  Expr (e_fn: "'x fn_id") (e_name: string) (e_argv: "'x Expr list") (e_start: int) (e_end: int)

fun call_fn :: "('x \<Rightarrow> 'c Function) \<Rightarrow> 'x fn_id \<Rightarrow> 'c Function" where
  "call_fn native F_Literal = Literal"
| "call_fn native F_Concat = ConcatFn"
| "call_fn native F_IfElse = IfElseFn"
| "call_fn native F_Abort = AbortFn"
| "call_fn native F_Assert = AssertFn"
| "call_fn native F_Sleep = SleepFn"
| "call_fn native F_Stdout = StdoutFn"
| "call_fn native F_And = LogicalAndFn"
| "call_fn native F_Or = LogicalOrFn"
| "call_fn native F_Not = LogicalNotFn"
| "call_fn native F_Substring = SubstringFn"
| "call_fn native F_Equality = EqualityFn"
| "call_fn native F_Inequality = InequalityFn"
| "call_fn native F_Sequence = SequenceFn"
| "call_fn native F_LessThanInt = LessThanIntFn"
| "call_fn native F_GreaterThanInt = GreaterThanIntFn"
| "call_fn native (Native x) = native x"

text \<open>\<^verbatim>\<open>expr->fn(expr->name, state, expr->argc, expr->argv)\<close>.\<close>

fun denote :: "('x \<Rightarrow> 'c Function) \<Rightarrow> 'x Expr \<Rightarrow> 'c Arg" where
  "denote native (Expr f name argv s e) =
     \<lparr>arg_start = s, arg_end = e,
      arg_eval = (\<lambda>st. call_fn native f name st (map (denote native) argv))\<rparr>"

definition Build :: "'x fn_id \<Rightarrow> int \<Rightarrow> int \<Rightarrow> 'x Expr list \<Rightarrow> 'x Expr" where
  "Build f loc_start loc_end argv = Expr f ''(operator)'' argv loc_start loc_end"

section \<open>The function table\<close>

type_synonym 'x NamedFunction = "string \<times> 'x fn_id"

record 'x FnTable =
  fn_entries :: nat
  fn_size :: nat
  fn_table :: "'x NamedFunction option list"

definition empty_table :: "'x FnTable" where
  "empty_table = \<lparr>fn_entries = 0, fn_size = 0, fn_table = []\<rparr>"

text \<open>\<^verbatim>\<open>realloc\<close> to a bigger size keeps the old slots; the new ones hold nothing yet.\<close>

definition grow_table :: "'x FnTable \<Rightarrow> 'x FnTable" where
  "grow_table t =
     (if fn_entries t \<ge> fn_size t then
        let n = fn_size t * 2 + 1
        in t\<lparr>fn_size := n, fn_table := fn_table t @ replicate (n - length (fn_table t)) None\<rparr>
      else t)"

definition RegisterFunction :: "string \<Rightarrow> 'x fn_id \<Rightarrow> 'x FnTable \<Rightarrow> 'x FnTable outcome" where
  "RegisterFunction name f t =
     (let t1 = grow_table t in
      if fn_entries t1 < length (fn_table t1)
      then Ok (t1\<lparr>fn_table := (fn_table t1)[fn_entries t1 := Some (name, f)], fn_entries := fn_entries t1 + 1\<rparr>)
      else Inl OutOfBounds)"

definition fn_entry_compare :: "'x NamedFunction \<Rightarrow> 'x NamedFunction \<Rightarrow> int" where
  "fn_entry_compare a b = strcmp (fst a) (fst b)"

text \<open>The \<^verbatim>\<open>fn_entries\<close> first slots as an array; an unset one would be read uninitialised.\<close>

definition table_entries :: "'x FnTable \<Rightarrow> 'x NamedFunction list outcome" where
  "table_entries t =
     (let es = take (fn_entries t) (fn_table t) in
      if fn_entries t \<le> length (fn_table t) \<and> None \<notin> set es then Ok (map the es) else Inl OutOfBounds)"

definition FinishRegistration ::
  "(('x NamedFunction \<Rightarrow> 'x NamedFunction \<Rightarrow> int) \<Rightarrow> 'x NamedFunction list \<Rightarrow> 'x NamedFunction list) \<Rightarrow>
     'x FnTable \<Rightarrow> 'x FnTable outcome" where
  "FinishRegistration sort_by t =
     then_do (table_entries t) (\<lambda>es.
       Ok (t\<lparr>fn_table := map Some (sort_by fn_entry_compare es) @ drop (fn_entries t) (fn_table t)\<rparr>))"

definition FindFunction :: "string \<Rightarrow> 'x FnTable \<Rightarrow> 'x fn_id option outcome" where
  "FindFunction name t =
     then_do (table_entries t) (\<lambda>es.
     then_do (bsearch (\<lambda>key e. strcmp key (fst e)) name es) (\<lambda>r. Ok (map_option snd r)))"

fun register_all :: "'x NamedFunction list \<Rightarrow> 'x FnTable \<Rightarrow> 'x FnTable outcome" where
  "register_all [] t = Ok t"
| "register_all ((name, f) # fs) t = then_do (RegisterFunction name f t) (\<lambda>t'. register_all fs t')"

definition builtins :: "'x NamedFunction list" where
  "builtins =
     [(''ifelse'', F_IfElse), (''abort'', F_Abort), (''assert'', F_Assert), (''concat'', F_Concat),
      (''is_substring'', F_Substring), (''stdout'', F_Stdout), (''sleep'', F_Sleep),
      (''less_than_int'', F_LessThanInt), (''greater_than_int'', F_GreaterThanInt)]"

definition RegisterBuiltins :: "'x FnTable \<Rightarrow> 'x FnTable outcome" where
  "RegisterBuiltins t = register_all builtins t"

section \<open>The function table finds what was registered\<close>

definition holds_fns :: "'x FnTable \<Rightarrow> 'x NamedFunction list \<Rightarrow> bool" where
  "holds_fns t es \<longleftrightarrow> fn_entries t = length es \<and> fn_entries t \<le> fn_size t \<and>
     length (fn_table t) = fn_size t \<and> take (length es) (fn_table t) = map Some es"

lemma holds_fns_entries: "holds_fns t es \<Longrightarrow> table_entries t = Ok es"
  by (auto simp: holds_fns_def table_entries_def Let_def comp_def)

lemma holds_fns_empty: "holds_fns empty_table []"
  by (simp add: holds_fns_def empty_table_def)

lemma RegisterFunction_holds:
  assumes "holds_fns t es"
  shows "\<exists>t'. RegisterFunction name f t = Ok t' \<and> holds_fns t' (es @ [(name, f)])"
proof -
  let ?t1 = "grow_table t"
  have t1: "holds_fns ?t1 es" "fn_entries ?t1 < fn_size ?t1"
    using assms by (auto simp: holds_fns_def grow_table_def Let_def)
  then have len: "length es < length (fn_table ?t1)" by (simp add: holds_fns_def)
  have "take (Suc (length es)) ((fn_table ?t1)[length es := Some (name, f)]) = map Some es @ [Some (name, f)]"
    using t1(1) len by (simp add: holds_fns_def take_Suc_conv_app_nth)
  with t1 len show ?thesis
    by (auto simp: RegisterFunction_def Let_def holds_fns_def)
qed

lemma register_all_holds:
  "holds_fns t es \<Longrightarrow> \<exists>t'. register_all fs t = Ok t' \<and> holds_fns t' (es @ fs)"
proof (induction fs arbitrary: t es)
  case (Cons nf fs)
  obtain name f where nf: "nf = (name, f)" by (cases nf)
  obtain t1 where "RegisterFunction name f t = Ok t1" "holds_fns t1 (es @ [(name, f)])"
    using RegisterFunction_holds [OF Cons.prems] by blast
  with Cons.IH [of t1 "es @ [(name, f)]"] nf show ?case by auto
qed simp

lemma cmp_on_names: "\<forall>e \<in> A. nul_free (fst e) \<Longrightarrow> cmp_on A fn_entry_compare"
  unfolding cmp_on_def fn_entry_compare_def
proof (intro conjI ballI impI)
  fix x y assume "x \<in> A" "y \<in> A"
  show "strcmp (fst x) (fst y) \<le> 0 \<or> strcmp (fst y) (fst x) \<le> 0"
    using strcmp_swap [of "fst x" "fst y"] by linarith
next
  fix x y z assume nf: "\<forall>e \<in> A. nul_free (fst e)" and A: "x \<in> A" "y \<in> A" "z \<in> A"
    and le: "strcmp (fst x) (fst y) \<le> 0" "strcmp (fst y) (fst z) \<le> 0"
  then have n: "nul_free (fst x)" "nul_free (fst y)" "nul_free (fst z)" by auto
  consider "fst x = fst y" | "fst y = fst z" | "strcmp (fst x) (fst y) < 0" "strcmp (fst y) (fst z) < 0"
    using le n strcmp_eq_0_iff by (metis order_le_less)
  then show "strcmp (fst x) (fst z) \<le> 0"
    using le strcmp_trans [OF n] by cases auto
qed

locale fn_sort = c_sort sort_by
  for sort_by :: "('x NamedFunction \<Rightarrow> 'x NamedFunction \<Rightarrow> int) \<Rightarrow> 'x NamedFunction list \<Rightarrow> 'x NamedFunction list"
begin

lemma finished_lookup:
  assumes t: "holds_fns t es" and d: "distinct (map fst es)"
    and nf: "\<forall>e \<in> set es. nul_free (fst e)" "nul_free name"
  shows "\<exists>t'. FinishRegistration sort_by t = Ok t' \<and> FindFunction name t' = Ok (map_of es name)"
proof -
  let ?ss = "sort_by fn_entry_compare es" and ?f = "\<lambda>e. strcmp name (fst e)"
  define t' where "t' = t\<lparr>fn_table := map Some ?ss @ drop (fn_entries t) (fn_table t)\<rparr>"
  have "holds_fns t' ?ss"
    using t by (simp add: holds_fns_def t'_def sort_length)
  then have te: "table_entries t' = Ok ?ss" by (rule holds_fns_entries)
  have strict: "sorted_wrt (\<lambda>x y. fn_entry_compare x y < 0) ?ss"
  proof (rule sort_strict)
    show "cmp_on (set es) fn_entry_compare" using nf(1) by (rule cmp_on_names)
    show "distinct es" using d by (simp add: distinct_map)
    show "fn_entry_compare x y \<noteq> 0" if "x \<in> set es" "y \<in> set es" "x \<noteq> y" for x y
      using that d nf(1) by (auto simp: fn_entry_compare_def strcmp_eq_0_iff distinct_map dest: inj_onD)
  qed
  have nfs: "nul_free (fst (?ss ! i))" if "i < length ?ss" for i
    using nf(1) nth_mem [OF that] by (simp add: sort_set)
  have "splits_key ?f ?ss"
    unfolding splits_key_def
  proof (intro allI impI)
    fix i j assume ij: "i < j" "j < length ?ss" "0 \<le> ?f (?ss ! j)"
    then have lt: "strcmp (fst (?ss ! i)) (fst (?ss ! j)) < 0"
      using strict by (simp add: sorted_wrt_iff_nth_less fn_entry_compare_def)
    have n: "nul_free (fst (?ss ! i))" "nul_free (fst (?ss ! j))" using ij nfs by auto
    have "strcmp (fst (?ss ! j)) name \<le> 0" using ij(3) strcmp_swap [of name "fst (?ss ! j)"] by simp
    then have "strcmp (fst (?ss ! i)) name < 0"
      using lt strcmp_trans [OF n nf(2)] strcmp_eq_0_iff [OF n(2) nf(2)] by (metis order_le_less)
    then show "0 < ?f (?ss ! i)" using strcmp_swap [of name "fst (?ss ! i)"] by simp
  qed
  note found = bsearch_loop_finds [OF this, of 0 "length ?ss", simplified]
  have "\<exists>r. bsearch (\<lambda>key e. strcmp key (fst e)) name ?ss = Ok r \<and> map_option snd r = map_of es name"
    using found
  proof (elim disjE exE conjE)
    fix i assume i: "i < length ?ss" "?f (?ss ! i) = 0" "bsearch_loop ?f ?ss 0 (length ?ss) = Ok (Some (?ss ! i))"
    have "fst (?ss ! i) = name" using i nfs nf(2) by (simp add: strcmp_eq_0_iff)
    moreover have "?ss ! i \<in> set es" using i(1) nth_mem [of i ?ss] by (simp add: sort_set)
    ultimately have "map_of es name = Some (snd (?ss ! i))"
      using d by (metis map_of_is_SomeI prod.collapse)
    with i(3) show ?thesis by (intro exI [of _ "Some (?ss ! i)"]) (simp add: bsearch_def)
  next
    assume a: "\<forall>i. i < length ?ss \<longrightarrow> ?f (?ss ! i) \<noteq> 0" "bsearch_loop ?f ?ss 0 (length ?ss) = Ok None"
    have "name \<notin> fst ` set es"
    proof
      assume "name \<in> fst ` set es"
      then obtain e where "e \<in> set ?ss" "fst e = name" by (auto simp: sort_set)
      with a(1) show False by (auto simp: in_set_conv_nth)
    qed
    then have "map_of es name = None" by (simp add: map_of_eq_None_iff)
    with a(2) show ?thesis by (simp add: bsearch_def)
  qed
  then show ?thesis
    using holds_fns_entries [OF t] te by (auto simp: FinishRegistration_def FindFunction_def t'_def)
qed

end

interpretation fsort: fn_sort qsort
  by unfold_locales

section \<open>Evaluation does not go wrong\<close>

text \<open>
  What every evaluation of a well-formed expression guarantees: it returns; the script is
  not changed and output is only appended; a \<^verbatim>\<open>NULL\<close> result comes with an error message.
\<close>

definition sound :: "'c State \<Rightarrow> ('a option \<times> 'c State) outcome \<Rightarrow> bool" where
  "sound st m \<longleftrightarrow>
     (\<exists>v st'. m = Ok (v, st') \<and> script st' = script st \<and> prefix (out st) (out st') \<and>
        (v = None \<longrightarrow> errmsg st' \<noteq> None))"

text \<open>A \<^verbatim>\<open>Value\<close> result counts as \<^verbatim>\<open>NULL\<close> also if it is a string without data.\<close>

definition sound_value :: "'c State \<Rightarrow> (Value option \<times> 'c State) outcome \<Rightarrow> bool" where
  "sound_value st m \<longleftrightarrow>
     sound st m \<and> (\<forall>st'. m = Ok (Some (VAL_STRING None), st') \<longrightarrow> errmsg st' \<noteq> None)"

definition sound_arg :: "nat \<Rightarrow> 'c Arg \<Rightarrow> bool" where
  "sound_arg n a \<longleftrightarrow>
     0 \<le> arg_start a \<and> arg_start a \<le> arg_end a \<and> arg_end a \<le> int n \<and>
     (\<forall>st. length (script st) = n \<longrightarrow> sound_value st (arg_eval a st))"

named_theorems sound_intros

lemma sound_Some [sound_intros]: "sound st (Ok (Some v, st))"
  by (simp add: sound_def)

lemma sound_value_errmsg [sound_intros]: "sound_value st (Ok (None, set_errmsg st msg))"
  by (simp add: sound_value_def sound_def set_errmsg_def)

lemma sound_value_StringValue [sound_intros]: "sound_value st (Ok (StringValue (Some v), st))"
  by (simp add: sound_value_def sound_def StringValue_def)

lemma sound_value_nap [sound_intros]: "sound_value st (Ok (StringValue (Some v), st\<lparr>naps := w\<rparr>))"
  by (simp add: sound_value_def sound_def StringValue_def)

lemma sound_value_not_an_int [sound_intros]: "sound_value st (Ok (StringValue (Some v), not_an_int st w))"
  by (simp add: sound_value_def sound_def StringValue_def not_an_int_def)

lemma sound_unless_null [sound_intros]:
  assumes "sound st m" and "\<And>x st'. script st' = script st \<Longrightarrow> sound st' (f x st')"
  shows "sound st (unless_null m f)"
proof -
  obtain v st' where m: "m = Ok (v, st')" "script st' = script st" "prefix (out st) (out st')"
    "v = None \<longrightarrow> errmsg st' \<noteq> None"
    using assms(1) by (auto simp: sound_def)
  show ?thesis
  proof (cases v)
    case None
    with m show ?thesis by (simp add: sound_def unless_null_def)
  next
    case (Some x)
    from assms(2) [OF m(2), of x] obtain w st'' where "f x st' = Ok (w, st'')"
      "script st'' = script st'" "prefix (out st') (out st'')" "w = None \<longrightarrow> errmsg st'' \<noteq> None"
      by (auto simp: sound_def)
    with Some m show ?thesis
      by (auto simp: sound_def unless_null_def intro: prefix_order.trans)
  qed
qed

lemma sound_value_unless_null [sound_intros]:
  assumes "sound st m" and "\<And>x st'. script st' = script st \<Longrightarrow> sound_value st' (f x st')"
  shows "sound_value st (unless_null m f)"
proof -
  obtain v st' where m: "m = Ok (v, st')" "script st' = script st" using assms(1) by (auto simp: sound_def)
  have "sound st (unless_null m f)"
    using assms by (intro sound_unless_null) (auto simp: sound_value_def)
  with m assms(2) show ?thesis
    by (cases v) (auto simp: sound_value_def unless_null_def)
qed

lemma sound_Evaluate [sound_intros]:
  assumes "sound_arg n a" "length (script st) = n"
  shows "sound st (Evaluate st a)"
proof -
  obtain v st' where "arg_eval a st = Ok (v, st')" "script st' = script st" "prefix (out st) (out st')"
    "v = None \<or> v = Some (VAL_STRING None) \<longrightarrow> errmsg st' \<noteq> None"
    using assms by (fastforce simp: sound_arg_def sound_value_def sound_def)
  then show ?thesis
    by (auto simp: sound_def Evaluate_def ErrorAbort_def set_errmsg_def split: option.splits Value.splits)
qed

lemma sound_eval_arg [sound_intros]:
  "list_all (sound_arg (length (script st))) argv \<Longrightarrow> i < length argv \<Longrightarrow> sound st (eval_arg st argv i)"
  unfolding eval_arg_def arg_def list_all_length by (auto intro: sound_Evaluate)

lemma sound_eval_value_arg [sound_intros]:
  "list_all (sound_arg (length (script st))) argv \<Longrightarrow> i < length argv \<Longrightarrow> sound st (eval_value_arg st argv i)"
  unfolding eval_value_arg_def EvaluateValue_def arg_def list_all_length by (simp add: sound_arg_def sound_value_def)

lemma sound_value_eval_value_arg [sound_intros]:
  "list_all (sound_arg (length (script st))) argv \<Longrightarrow> i < length argv \<Longrightarrow> sound_value st (eval_value_arg st argv i)"
  unfolding eval_value_arg_def EvaluateValue_def arg_def list_all_length by (simp add: sound_arg_def)

lemma sound_ReadVarArgs [sound_intros]:
  "list_all (sound_arg (length (script st))) argv \<Longrightarrow> sound st (ReadVarArgs st argv)"
  by (induction argv arbitrary: st) (auto intro!: sound_intros)

lemma sound_ReadArgs_from:
  "list_all (sound_arg (length (script st))) argv \<Longrightarrow> i + n \<le> length argv \<Longrightarrow>
     sound st (ReadArgs_from st argv i n)"
  by (induction n arbitrary: st i) (auto intro!: sound_intros)

lemma sound_assert_loop:
  "list_all (sound_arg (length (script st))) argv \<Longrightarrow> sound_value st (assert_loop st argv)"
proof (induction argv arbitrary: st)
  case (Cons a as)
  have "script_text st' a = Ok (take (nat (arg_end a - arg_start a)) (drop (nat (arg_start a)) (script st')))"
    if "script st' = script st" for st' :: "'a State"
    using Cons.prems that by (simp add: script_text_def sound_arg_def)
  with Cons show ?case by (auto intro!: sound_intros)
qed (simp add: sound_intros)

lemma sound_stdout_loop:
  "list_all (sound_arg (length (script st))) argv \<Longrightarrow> sound_value st (stdout_loop st argv)"
proof (induction argv arbitrary: st)
  case (Cons a as)
  have "sound_value st' (stdout_loop (st'\<lparr>out := out st' @ v\<rparr>) as)" if "script st' = script st" for st' :: "'a State" and v
  proof -
    have "sound_value (st'\<lparr>out := out st' @ v\<rparr>) (stdout_loop (st'\<lparr>out := out st' @ v\<rparr>) as)"
      using Cons that by simp
    then show ?thesis
      by (auto simp: sound_value_def sound_def intro: append_prefixD)
  qed
  with Cons.prems show ?case by (auto intro!: sound_intros)
qed (simp add: sound_intros)

text \<open>The number of arguments the function pointers need: the operators get it from the parser,
  \<^verbatim>\<open>sleep\<close> and \<^verbatim>\<open>is_substring\<close> rely on the script.\<close>

fun arity_ok :: "'x fn_id \<Rightarrow> nat \<Rightarrow> bool" where
  "arity_ok F_Sleep n = (1 \<le> n)"
| "arity_ok F_And n = (2 \<le> n)"
| "arity_ok F_Or n = (2 \<le> n)"
| "arity_ok F_Not n = (1 \<le> n)"
| "arity_ok F_Substring n = (2 \<le> n)"
| "arity_ok F_Equality n = (2 \<le> n)"
| "arity_ok F_Inequality n = (2 \<le> n)"
| "arity_ok F_Sequence n = (2 \<le> n)"
| "arity_ok _ n = True"

lemma sound_AbortFn:
  assumes "list_all (sound_arg (length (script st))) argv"
  shows "sound_value st (AbortFn name st argv)"
proof (cases argv)
  case (Cons a as)
  have "sound st (eval_arg st argv 0)" using assms Cons by (intro sound_eval_arg) auto
  with Cons show ?thesis by (auto simp: AbortFn_def sound_value_def sound_def set_errmsg_def)
qed (simp add: AbortFn_def sound_intros)

lemma sound_LessThanIntFn:
  assumes "list_all (sound_arg (length (script st))) argv"
  shows "sound_value st (LessThanIntFn name st argv)"
  unfolding LessThanIntFn_def ReadArgs_def
  using assms by (auto simp: Let_def intro!: sound_intros sound_ReadArgs_from)

lemma sound_call_fn:
  assumes "list_all (sound_arg (length (script st))) argv" "arity_ok f (length argv)"
    and "\<And>x. f = Native x \<Longrightarrow> sound_value st (native x name st argv)"
  shows "sound_value st (call_fn native f name st argv)"
proof (cases f)
  case F_GreaterThanInt
  have "sound_value st (LessThanIntFn name st [argv ! 1, argv ! 0])" if "length argv = 2"
    by (rule sound_LessThanIntFn) (use assms(1) that in \<open>auto simp: list_all_iff\<close>)
  with F_GreaterThanInt show ?thesis by (auto simp: GreaterThanIntFn_def intro: sound_intros)
qed (use assms in \<open>auto simp: Literal_def ConcatFn_def IfElseFn_def SleepFn_def LogicalAndFn_def LogicalOrFn_def
      LogicalNotFn_def SubstringFn_def EqualityFn_def InequalityFn_def SequenceFn_def AssertFn_def StdoutFn_def Let_def
      intro!: sound_intros sound_AbortFn sound_LessThanIntFn sound_assert_loop sound_stdout_loop\<close>)

text \<open>Expressions as the parser builds them: argument counts, and positions inside the script.\<close>

fun wf_expr :: "nat \<Rightarrow> 'x Expr \<Rightarrow> bool" where
  "wf_expr n (Expr f name argv s e) \<longleftrightarrow>
     0 \<le> s \<and> s \<le> e \<and> e \<le> int n \<and> arity_ok f (length argv) \<and> (\<forall>a \<in> set argv. wf_expr n a)"

definition native_sound :: "nat \<Rightarrow> ('x \<Rightarrow> 'c Function) \<Rightarrow> bool" where
  "native_sound n native \<longleftrightarrow>
     (\<forall>x name st argv. length (script st) = n \<longrightarrow> list_all (sound_arg n) argv \<longrightarrow> sound_value st (native x name st argv))"

lemma sound_denote:
  assumes "native_sound n native"
  shows "wf_expr n e \<Longrightarrow> sound_arg n (denote native e)"
proof (induction e)
  case (Expr f name argv s e)
  have "list_all (sound_arg n) (map (denote native) argv)"
    using Expr by (auto simp: list_all_iff)
  then show ?case
    using Expr.prems assms by (auto simp: sound_arg_def native_sound_def intro!: sound_call_fn)
qed

section \<open>What scripts mean\<close>

text \<open>
  The string language the README describes, without side effects: \<^const>\<open>None\<close> is an aborted
  evaluation, the empty string is false, every other string is true, and only the operands
  that are needed count.
\<close>

datatype pexp = PLit string | PCat "pexp list" | PIf pexp pexp | PIfElse pexp pexp pexp | PAbort
  | PAnd pexp pexp | POr pexp pexp | PNot pexp | PSub pexp pexp | PEq pexp pexp | PNe pexp pexp
  | PSeq pexp pexp | PLess pexp pexp | PGreater pexp pexp

fun all_some :: "'a option list \<Rightarrow> 'a list option" where
  "all_some [] = Some []"
| "all_some (x # xs) = (case x of None \<Rightarrow> None | Some y \<Rightarrow> map_option (Cons y) (all_some xs))"

definition int_less :: "string \<Rightarrow> string \<Rightarrow> bool" where
  "int_less a b \<longleftrightarrow> whole_int a \<and> whole_int b \<and> fst (strtol10 a) < fst (strtol10 b)"

fun meaning :: "pexp \<Rightarrow> string option" where
  "meaning (PLit s) = Some s"
| "meaning (PCat ps) = map_option concat (all_some (map meaning ps))"
| "meaning (PIf c a) = (case meaning c of None \<Rightarrow> None | Some s \<Rightarrow> if s \<noteq> [] then meaning a else Some [])"
| "meaning (PIfElse c a b) = (case meaning c of None \<Rightarrow> None | Some s \<Rightarrow> if s \<noteq> [] then meaning a else meaning b)"
| "meaning PAbort = None"
| "meaning (PAnd a b) = (case meaning a of None \<Rightarrow> None | Some s \<Rightarrow> if s \<noteq> [] then meaning b else Some [])"
| "meaning (POr a b) = (case meaning a of None \<Rightarrow> None | Some s \<Rightarrow> if s \<noteq> [] then Some s else meaning b)"
| "meaning (PNot a) = map_option (\<lambda>s. truth (s = [])) (meaning a)"
| "meaning (PSub a b) = do { n \<leftarrow> meaning a; h \<leftarrow> meaning b; Some (truth (\<exists>u v. h = u @ n @ v)) }"
| "meaning (PEq a b) = do { l \<leftarrow> meaning a; r \<leftarrow> meaning b; Some (truth (l = r)) }"
| "meaning (PNe a b) = do { l \<leftarrow> meaning a; r \<leftarrow> meaning b; Some (truth (l \<noteq> r)) }"
| "meaning (PSeq a b) = do { _ \<leftarrow> meaning a; meaning b }"
| "meaning (PLess a b) = do { l \<leftarrow> meaning a; r \<leftarrow> meaning b; Some (truth (int_less l r)) }"
| "meaning (PGreater a b) = do { l \<leftarrow> meaning a; r \<leftarrow> meaning b; Some (truth (int_less r l)) }"

fun expr_of :: "pexp \<Rightarrow> 'x Expr" where
  "expr_of (PLit s) = Expr F_Literal s [] 0 0"
| "expr_of (PCat ps) = Build F_Concat 0 0 (map expr_of ps)"
| "expr_of (PIf c a) = Build F_IfElse 0 0 [expr_of c, expr_of a]"
| "expr_of (PIfElse c a b) = Build F_IfElse 0 0 [expr_of c, expr_of a, expr_of b]"
| "expr_of PAbort = Build F_Abort 0 0 []"
| "expr_of (PAnd a b) = Build F_And 0 0 [expr_of a, expr_of b]"
| "expr_of (POr a b) = Build F_Or 0 0 [expr_of a, expr_of b]"
| "expr_of (PNot a) = Build F_Not 0 0 [expr_of a]"
| "expr_of (PSub a b) = Build F_Substring 0 0 [expr_of a, expr_of b]"
| "expr_of (PEq a b) = Build F_Equality 0 0 [expr_of a, expr_of b]"
| "expr_of (PNe a b) = Build F_Inequality 0 0 [expr_of a, expr_of b]"
| "expr_of (PSeq a b) = Build F_Sequence 0 0 [expr_of a, expr_of b]"
| "expr_of (PLess a b) = Build F_LessThanInt 0 0 [expr_of a, expr_of b]"
| "expr_of (PGreater a b) = Build F_GreaterThanInt 0 0 [expr_of a, expr_of b]"

fun lits_nul_free :: "pexp \<Rightarrow> bool" where
  "lits_nul_free (PLit s) = nul_free s"
| "lits_nul_free (PCat ps) = (\<forall>p \<in> set ps. lits_nul_free p)"
| "lits_nul_free (PIf c a) = (lits_nul_free c \<and> lits_nul_free a)"
| "lits_nul_free (PIfElse c a b) = (lits_nul_free c \<and> lits_nul_free a \<and> lits_nul_free b)"
| "lits_nul_free PAbort = True"
| "lits_nul_free (PAnd a b) = (lits_nul_free a \<and> lits_nul_free b)"
| "lits_nul_free (POr a b) = (lits_nul_free a \<and> lits_nul_free b)"
| "lits_nul_free (PNot a) = lits_nul_free a"
| "lits_nul_free (PSub a b) = (lits_nul_free a \<and> lits_nul_free b)"
| "lits_nul_free (PEq a b) = (lits_nul_free a \<and> lits_nul_free b)"
| "lits_nul_free (PNe a b) = (lits_nul_free a \<and> lits_nul_free b)"
| "lits_nul_free (PSeq a b) = (lits_nul_free a \<and> lits_nul_free b)"
| "lits_nul_free (PLess a b) = (lits_nul_free a \<and> lits_nul_free b)"
| "lits_nul_free (PGreater a b) = (lits_nul_free a \<and> lits_nul_free b)"

text \<open>A computation that gives \<^verbatim>\<open>v\<close>, whatever state it starts in.\<close>

definition yields :: "('c State \<Rightarrow> ('a option \<times> 'c State) outcome) \<Rightarrow> 'a option \<Rightarrow> bool" where
  "yields m v \<longleftrightarrow> (\<forall>st. \<exists>st'. m st = Ok (v, st'))"

lemma yieldsD: "yields m v \<Longrightarrow> \<exists>st'. m st = Ok (v, st')"
  by (simp add: yields_def)

lemma yields_unless_null:
  assumes "yields m v" and "\<And>x. v = Some x \<Longrightarrow> yields (f x) w" and "v = None \<Longrightarrow> w = None"
  shows "yields (\<lambda>st. unless_null (m st) f) w"
  unfolding yields_def
proof
  fix st
  obtain st1 where st1: "m st = Ok (v, st1)" using assms(1) by (auto simp: yields_def)
  show "\<exists>st'. unless_null (m st) f = Ok (w, st')"
    using assms(2,3) st1 by (cases v) (auto simp: unless_null_def yields_def)
qed

lemma yields_Ok: "yields (\<lambda>st. Ok (v, st)) v"
  by (simp add: yields_def)

lemma yields_StringValue: "v = Some (VAL_STRING (Some s)) \<Longrightarrow> yields (\<lambda>st. Ok (StringValue (Some s), st)) v"
  by (simp add: yields_def StringValue_def)

lemma yields_Evaluate:
  assumes "yields (arg_eval a) (StringValue v)"
  shows "yields (\<lambda>st. Evaluate st a) v"
  unfolding yields_def
proof
  fix st
  obtain st' where "arg_eval a st = Ok (StringValue v, st')" using assms by (auto simp: yields_def)
  then have "Evaluate st a = Ok (v, st')" by (cases v) (simp_all add: Evaluate_def StringValue_def)
  then show "\<exists>st'. Evaluate st a = Ok (v, st')" by blast
qed

lemma nul_free_truth [simp]: "nul_free (truth b)"
  by (simp add: truth_def)

lemma all_some_nul_free:
  "all_some (map f ps) = Some ss \<Longrightarrow> \<forall>p \<in> set ps. \<forall>s. f p = Some s \<longrightarrow> nul_free s \<Longrightarrow> nul_free (concat ss)"
  by (induction ps arbitrary: ss) (auto split: option.splits)

lemma meaning_nul_free: "lits_nul_free p \<Longrightarrow> meaning p = Some s \<Longrightarrow> nul_free s"
proof (induction p arbitrary: s rule: meaning.induct)
  case (2 ps)
  then show ?case by (auto dest!: all_some_nul_free)
qed (auto split: option.splits if_splits bind_splits)

lemma yields_ReadVarArgs:
  "\<forall>p \<in> set ps. yields (arg_eval (denote native (expr_of p))) (StringValue (meaning p)) \<Longrightarrow>
     yields (\<lambda>st. ReadVarArgs st (map (denote native) (map expr_of ps))) (all_some (map meaning ps))"
proof (induction ps)
  case (Cons p ps)
  have p: "yields (\<lambda>st. Evaluate st (denote native (expr_of p))) (meaning p)"
    using Cons.prems by (intro yields_Evaluate) simp
  have ps: "yields (\<lambda>st. ReadVarArgs st (map (denote native) (map expr_of ps))) (all_some (map meaning ps))"
    using Cons by simp
  show ?case
    unfolding list.map ReadVarArgs.simps
    by (rule yields_unless_null [OF p], rule yields_unless_null [OF ps])
      (auto intro: yields_Ok)
qed (simp add: yields_Ok)

lemma eval_arg_Cons [simp]:
  "eval_arg st (a # as) 0 = Evaluate st a"
  "eval_arg st (a # b # cs) (Suc 0) = Evaluate st b"
  "eval_arg st (a # b # cs) 1 = Evaluate st b"
  "eval_value_arg st (a # as) 0 = arg_eval a st"
  "eval_value_arg st (a # b # cs) (Suc 0) = arg_eval b st"
  "eval_value_arg st (a # b # cs) 1 = arg_eval b st"
  "eval_value_arg st (a # b # c # ds) 2 = arg_eval c st"
  by (simp_all add: eval_arg_def eval_value_arg_def arg_def EvaluateValue_def)


text \<open>Two operands evaluated as strings, then combined.\<close>

lemma yields_two:
  assumes "yields (arg_eval a) (StringValue v)" "yields (arg_eval b) (StringValue w)"
    and "\<And>x y. v = Some x \<Longrightarrow> w = Some y \<Longrightarrow> yields (f x y) r" and "v = None \<or> w = None \<Longrightarrow> r = None"
  shows "yields (\<lambda>st. unless_null (Evaluate st a) (\<lambda>x st'. unless_null (Evaluate st' b) (\<lambda>y. f x y))) r"
proof (rule yields_unless_null [OF yields_Evaluate [OF assms(1)]])
  fix x assume "v = Some x"
  then show "yields (\<lambda>st'. unless_null (Evaluate st' b) (f x)) r"
    using assms(3,4) by (intro yields_unless_null [OF yields_Evaluate [OF assms(2)]]) auto
qed (use assms(4) in auto)

lemma yields_LessThan:
  assumes "yields (arg_eval a) (StringValue v)" "yields (arg_eval b) (StringValue w)"
  shows "yields (\<lambda>st. LessThanIntFn name st [a, b])
    (StringValue (do { l \<leftarrow> v; r \<leftarrow> w; Some (truth (int_less l r)) }))"
proof -
  let ?r = "StringValue (do { l \<leftarrow> v; r \<leftarrow> w; Some (truth (int_less l r)) })"
  have "yields (\<lambda>st. unless_null (Evaluate st a) (\<lambda>x st'. unless_null (Evaluate st' b) (\<lambda>y st''.
      if \<not> whole_int x then Ok (StringValue (Some (truth False)), not_an_int st'' x)
      else if \<not> whole_int y then Ok (StringValue (Some (truth False)), not_an_int st'' y)
      else Ok (StringValue (Some (truth (fst (strtol10 x) < fst (strtol10 y)))), st'')))) ?r"
    using assms by (rule yields_two) (auto simp: yields_def int_less_def StringValue_def)
  moreover have "LessThanIntFn name st [a, b] =
      unless_null (Evaluate st a) (\<lambda>x st'. unless_null (Evaluate st' b) (\<lambda>y st''.
      if \<not> whole_int x then Ok (StringValue (Some (truth False)), not_an_int st'' x)
      else if \<not> whole_int y then Ok (StringValue (Some (truth False)), not_an_int st'' y)
      else Ok (StringValue (Some (truth (fst (strtol10 x) < fst (strtol10 y)))), st'')))" for st
    by (simp add: LessThanIntFn_def ReadArgs_def numeral_2_eq_2 unless_null_def then_do_def Let_def
        split: sum.splits option.splits prod.splits)
  ultimately show ?thesis by simp
qed

lemma yields_expr_of:
  "lits_nul_free p \<Longrightarrow> yields (arg_eval (denote native (expr_of p))) (StringValue (meaning p))"
proof (induction p)
  case (PLit s)
  then show ?case by (simp add: Literal_def yields_Ok)
next
  case (PCat ps)
  have "yields (\<lambda>st. ReadVarArgs st (map (denote native) (map expr_of ps))) (all_some (map meaning ps))"
    using PCat by (intro yields_ReadVarArgs) auto
  then have "yields (\<lambda>st. unless_null (ReadVarArgs st (map (denote native) (map expr_of ps)))
      (\<lambda>ss st'. Ok (StringValue (Some (concat ss)), st'))) (StringValue (meaning (PCat ps)))"
    by (rule yields_unless_null) (auto simp: StringValue_def yields_Ok)
  then show ?case
    by (cases ps) (simp_all add: Build_def ConcatFn_def StringValue_def yields_Ok)
next
  case (PIf c a)
  show ?case
    unfolding expr_of.simps Build_def denote.simps Arg.simps call_fn.simps list.map IfElseFn_def
    by simp (rule yields_unless_null [OF yields_Evaluate [OF PIf.IH(1)]],
      use PIf in \<open>auto simp: BooleanString_def StringValue_def yields_Ok split: option.splits\<close>)
next
  case (PIfElse c a b)
  show ?case
    unfolding expr_of.simps Build_def denote.simps Arg.simps call_fn.simps list.map IfElseFn_def
    by simp (rule yields_unless_null [OF yields_Evaluate [OF PIfElse.IH(1)]],
      use PIfElse in \<open>auto simp: BooleanString_def StringValue_def yields_Ok split: option.splits\<close>)
next
  case PAbort
  show ?case by (simp add: Build_def AbortFn_def yields_def StringValue_def)
next
  case (PAnd a b)
  show ?case
    unfolding expr_of.simps Build_def denote.simps Arg.simps call_fn.simps list.map LogicalAndFn_def
    by simp (rule yields_unless_null [OF yields_Evaluate [OF PAnd.IH(1)]],
      use PAnd in \<open>auto simp: BooleanString_def StringValue_def yields_Ok split: option.splits\<close>)
next
  case (POr a b)
  show ?case
    unfolding expr_of.simps Build_def denote.simps Arg.simps call_fn.simps list.map LogicalOrFn_def
    by simp (rule yields_unless_null [OF yields_Evaluate [OF POr.IH(1)]],
      use POr in \<open>auto simp: BooleanString_def StringValue_def yields_Ok split: option.splits\<close>)
next
  case (PNot a)
  show ?case
    unfolding expr_of.simps Build_def denote.simps Arg.simps call_fn.simps list.map LogicalNotFn_def
    by simp (rule yields_unless_null [OF yields_Evaluate [OF PNot.IH]],
      use PNot in \<open>auto simp: BooleanString_def StringValue_def truth_def yields_Ok\<close>)
next
  case (PSub a b)
  show ?case
    unfolding expr_of.simps Build_def denote.simps Arg.simps call_fn.simps list.map SubstringFn_def
    by simp (rule yields_two [OF PSub.IH],
      use PSub.prems in \<open>auto simp: StringValue_def strstr_iff yields_Ok\<close>)
next
  case (PEq a b)
  show ?case
    unfolding expr_of.simps Build_def denote.simps Arg.simps call_fn.simps list.map EqualityFn_def
    by simp (rule yields_two [OF PEq.IH],
      use PEq.prems in \<open>auto simp: StringValue_def strcmp_eq_0_iff meaning_nul_free yields_Ok\<close>)
next
  case (PNe a b)
  show ?case
    unfolding expr_of.simps Build_def denote.simps Arg.simps call_fn.simps list.map InequalityFn_def
    by simp (rule yields_two [OF PNe.IH],
      use PNe.prems in \<open>auto simp: StringValue_def strcmp_eq_0_iff meaning_nul_free yields_Ok\<close>)
next
  case (PSeq a b)
  show ?case
    unfolding expr_of.simps Build_def denote.simps Arg.simps call_fn.simps list.map SequenceFn_def
    by simp (rule yields_unless_null [OF PSeq.IH(1)],
      use PSeq in \<open>auto simp: StringValue_def split: option.splits\<close>)
next
  case (PLess a b)
  then show ?case
    using yields_LessThan [OF PLess.IH, of "''(operator)''"] by (simp add: Build_def)
next
  case (PGreater a b)
  have "do { l \<leftarrow> meaning b; r \<leftarrow> meaning a; Some (truth (int_less l r)) } = meaning (PGreater a b)"
    by (cases "meaning a"; cases "meaning b") auto
  then show ?case
    using yields_LessThan [OF PGreater.IH(2,1), of "''(operator)''"] PGreater.prems
    by (simp add: Build_def GreaterThanIntFn_def)
qed

section \<open>Properties\<close>

text \<open>
  C16: evaluating an expression whose calls have the arguments their functions need and whose
  positions lie in the script always returns, leaves the script alone, only appends to the
  output, and reports an error message whenever the result is \<^verbatim>\<open>NULL\<close> or a string without data; the functions a client
  registered are assumed to do the same.
\<close>

theorem edify_eval_sound:
  assumes "wf_expr (length (script st)) e" and "native_sound (length (script st)) native"
  shows "\<exists>v st'. EvaluateValue st (denote native e) = Ok (v, st') \<and> script st' = script st \<and>
      prefix (out st) (out st') \<and> (v = None \<or> v = Some (VAL_STRING None) \<longrightarrow> errmsg st' \<noteq> None)"
  using sound_denote [OF assms(2,1)] by (fastforce simp: sound_arg_def sound_value_def sound_def EvaluateValue_def)

definition demo_state :: "unit State" where
  "demo_state = \<lparr>cookie = (), script = ''assert(x)'', errmsg = None, out = '''', err = '''', naps = []\<rparr>"

lemma native_sound_abort: "native_sound n (\<lambda>_ :: unit. AbortFn)"
  by (simp add: native_sound_def sound_AbortFn)

theorem edify_eval_sound_witness:
  "\<exists>v st'. EvaluateValue demo_state
      (denote (\<lambda>_ :: unit. AbortFn) (Expr F_Assert ''assert'' [Expr F_Literal ''x'' [] 7 8] 0 9)) = Ok (v, st')
    \<and> script st' = script demo_state"
  using edify_eval_sound [of demo_state "Expr F_Assert ''assert'' [Expr F_Literal ''x'' [] 7 8] 0 9", OF _ native_sound_abort]
  by (force simp: demo_state_def)

text \<open>
  C15: the evaluator implements the language of the README: for the side-effect free operators
  and functions, whatever state it starts in, it returns the string the abstract semantics gives,
  and \<^verbatim>\<open>NULL\<close> exactly where that aborts.
\<close>

theorem edify_meaning:
  assumes "lits_nul_free p"
  shows "\<exists>st'. Evaluate st (denote native (expr_of p)) = Ok (meaning p, st')"
  using yieldsD [OF yields_Evaluate [OF yields_expr_of [OF assms]]] .

theorem edify_meaning_witness:
  "\<exists>st'. Evaluate demo_state (denote (\<lambda>_ :: unit. AbortFn)
      (expr_of (PAnd (PEq (PCat [PLit ''a'', PLit ''b'']) (PLit ''ab'')) (PLess (PLit ''3'') (PLit ''14''))))) =
    Ok (Some ''t'', st')"
proof -
  let ?p = "PAnd (PEq (PCat [PLit ''a'', PLit ''b'']) (PLit ''ab'')) (PLess (PLit ''3'') (PLit ''14''))"
  have "meaning ?p = Some ''t''"
    by (simp add: truth_def int_less_def whole_int_def strtol10_def is_space_def is_digit_def digit_val_def
        LONG_MAX_def LONG_MIN_def)
  then show ?thesis
    using edify_meaning [of ?p demo_state "\<lambda>_ :: unit. AbortFn"] by (simp add: nul_free_def)
qed

text \<open>
  C28: after the builtins and a client's functions are registered and the table is sorted,
  \<^verbatim>\<open>FindFunction\<close> finds every registered function by its name and nothing else.
\<close>

theorem edify_find_function:
  fixes fs :: "'a NamedFunction list"
  assumes "distinct (map fst (builtins @ fs))" and "\<forall>e \<in> set fs. nul_free (fst e)" and "nul_free name"
  shows "then_do (RegisterBuiltins empty_table) (\<lambda>t.
         then_do (register_all fs t) (\<lambda>t'.
         then_do (FinishRegistration qsort t') (\<lambda>t''. FindFunction name t''))) =
      Ok (map_of (builtins @ fs) name)"
proof -
  obtain t :: "'a FnTable" where t: "RegisterBuiltins empty_table = Ok t" "holds_fns t builtins"
    using register_all_holds [OF holds_fns_empty, of builtins] by (auto simp: RegisterBuiltins_def)
  obtain t' where t': "register_all fs t = Ok t'" "holds_fns t' (builtins @ fs)"
    using register_all_holds [OF t(2), of fs] by blast
  have "\<forall>e \<in> set (builtins @ fs). nul_free (fst e)"
    using assms(2) by (auto simp: builtins_def nul_free_def)
  from fsort.finished_lookup [OF t'(2) assms(1) this assms(3)] t(1) t'(1)
  show ?thesis by auto
qed

theorem edify_find_function_witness:
  "then_do (RegisterBuiltins empty_table) (\<lambda>t.
     then_do (register_all [(''mount'', Native (0::nat))] t) (\<lambda>t'.
     then_do (FinishRegistration qsort t') (\<lambda>t''. FindFunction ''mount'' t''))) = Ok (Some (Native 0))"
  using edify_find_function [of "[(''mount'', Native (0::nat))]" "''mount''"]
  by (simp add: builtins_def nul_free_def)

text \<open>
  Short circuits. When the condition decides, \<^verbatim>\<open>&&\<close>, \<^verbatim>\<open>||\<close> and \<^verbatim>\<open>ifelse\<close> do not evaluate the
  other operand: the result and the state are those of the condition, whatever that operand is.
\<close>

theorem edify_short_circuit:
  assumes "Evaluate st a = Ok (Some s, st')"
  shows "(if s = [] then
       LogicalAndFn name st [a, b] = Ok (Some (VAL_STRING (Some [])), st') \<and>
       LogicalOrFn name st [a, b] = arg_eval b st' \<and>
       IfElseFn name st [a, b, c] = arg_eval c st'
     else
       LogicalAndFn name st [a, b] = arg_eval b st' \<and>
       LogicalOrFn name st [a, b] = Ok (Some (VAL_STRING (Some s)), st') \<and>
       IfElseFn name st [a, b, c] = arg_eval b st')"
  using assms
  by (simp add: LogicalAndFn_def LogicalOrFn_def IfElseFn_def unless_null_def BooleanString_def StringValue_def)

theorem edify_short_circuit_witness:
  "LogicalOrFn ''x'' demo_state
     (map (denote (\<lambda>_ :: unit. AbortFn)) [Expr F_Literal ''a'' [] 0 0, Expr F_Abort ''abort'' [] 0 0]) =
   Ok (Some (VAL_STRING (Some ''a'')), demo_state)"
  using edify_short_circuit [of demo_state "denote (\<lambda>_ :: unit. AbortFn) (Expr F_Literal ''a'' [] 0 0)" "''a''"]
  by (simp add: Evaluate_def Literal_def StringValue_def)

text \<open>
  The README's equivalence: \<^verbatim>\<open>assert(c)\<close> and \<^verbatim>\<open>ifelse(c, "", abort())\<close> return the same value,
  the empty string or \<^verbatim>\<open>NULL\<close> (the error messages they leave differ).
\<close>

theorem edify_assert_as_ifelse:
  assumes "sound_arg (length (script st)) c"
  shows "\<exists>r st1 st2. AssertFn name1 st [c] = Ok (r, st1) \<and>
      IfElseFn name2 st [c, denote native (Expr F_Literal '''' [] 0 0), denote native (Expr F_Abort ''abort'' [] 0 0)] =
        Ok (r, st2)"
proof -
  obtain v st' where e: "Evaluate st c = Ok (v, st')" "script st' = script st"
    using sound_Evaluate [OF assms refl] by (auto simp: sound_def)
  have t: "\<exists>src. script_text st' c = Ok src"
    using assms e(2) by (simp add: script_text_def sound_arg_def)
  show ?thesis
    using e t by (cases v) (auto simp: AssertFn_def IfElseFn_def unless_null_def BooleanString_def StringValue_def
        Literal_def AbortFn_def)
qed

theorem edify_assert_as_ifelse_witness:
  "\<exists>r st1 st2. AssertFn ''assert'' demo_state [denote (\<lambda>_ :: unit. AbortFn) (Expr F_Literal '''' [] 7 8)] = Ok (r, st1) \<and>
     IfElseFn ''ifelse'' demo_state [denote (\<lambda>_ :: unit. AbortFn) (Expr F_Literal '''' [] 7 8),
       denote (\<lambda>_ :: unit. AbortFn) (Expr F_Literal '''' [] 0 0),
       denote (\<lambda>_ :: unit. AbortFn) (Expr F_Abort ''abort'' [] 0 0)] = Ok (r, st2)"
proof -
  have "sound_arg (length (script demo_state)) (denote (\<lambda>_ :: unit. AbortFn) (Expr F_Literal '''' [] 7 8))"
    by (rule sound_denote [OF native_sound_abort]) (simp add: demo_state_def)
  from edify_assert_as_ifelse [OF this] show ?thesis by blast
qed

text \<open>
  \<^verbatim>\<open>sleep()\<close> and \<^verbatim>\<open>is_substring()\<close> without arguments read \<^verbatim>\<open>argv[0]\<close> of an empty argument list:
  unlike \<^verbatim>\<open>ifelse\<close> and \<^verbatim>\<open>less_than_int\<close> they do not check \<^verbatim>\<open>argc\<close>, although the parser accepts
  any number of arguments for a named function.
\<close>

theorem edify_missing_argument:
  "SleepFn name st [] = Inl OutOfBounds \<and> SubstringFn name st [] = Inl OutOfBounds \<and>
   (\<exists>msg. LessThanIntFn name st [] = Ok (None, set_errmsg st msg)) \<and>
   (\<exists>msg. IfElseFn name st [] = Ok (None, set_errmsg st msg))"
  by (auto simp: SleepFn_def SubstringFn_def eval_arg_def arg_def unless_null_def LessThanIntFn_def IfElseFn_def)

end
