(* ===== verification/Byte_IO.thy ===== *)
theory Byte_IO
  imports Rec_Prelude
begin

text \<open>
  The little-endian readers and writers of \<^verbatim>\<open>src/applypatch/utils.c\<close>, and the
  sign-magnitude 8-byte integers of the BSDIFF40 format
  (\<^verbatim>\<open>offtin\<close> of \<^verbatim>\<open>bspatch.c\<close>, \<^verbatim>\<open>offtout\<close> of \<^verbatim>\<open>bsdiff.c\<close>).
  A \<^verbatim>\<open>FILE*\<close> that is only appended to is the list of bytes written so far;
  an \<^verbatim>\<open>off_t\<close> is a 64-bit signed integer, here an \<^typ>\<open>int\<close> whose range
  the bounds below state.
\<close>

section \<open>utils.c\<close>

definition fputc :: "u8 \<Rightarrow> bytes \<Rightarrow> bytes" where
  "fputc c f = f @ [c]"

definition Write4 :: "u32 \<Rightarrow> bytes \<Rightarrow> bytes" where
  "Write4 value f =
     (let f = fputc (ucast (value AND 0xff)) f;
          f = fputc (ucast (signed_drop_bit 8 value AND 0xff)) f;
          f = fputc (ucast (signed_drop_bit 16 value AND 0xff)) f
      in fputc (ucast (signed_drop_bit 24 value AND 0xff)) f)"

definition Write8 :: "u64 \<Rightarrow> bytes \<Rightarrow> bytes" where
  "Write8 value f =
     (let f = fputc (ucast (value AND 0xff)) f;
          f = fputc (ucast (signed_drop_bit 8 value AND 0xff)) f;
          f = fputc (ucast (signed_drop_bit 16 value AND 0xff)) f;
          f = fputc (ucast (signed_drop_bit 24 value AND 0xff)) f;
          f = fputc (ucast (signed_drop_bit 32 value AND 0xff)) f;
          f = fputc (ucast (signed_drop_bit 40 value AND 0xff)) f;
          f = fputc (ucast (signed_drop_bit 48 value AND 0xff)) f
      in fputc (ucast (signed_drop_bit 56 value AND 0xff)) f)"

text \<open>A read through a pointer takes the bytes from that position on;
  a read past the last byte of the buffer is \<^const>\<open>None\<close>.\<close>

fun Read2 :: "bytes \<Rightarrow> u32 option" where
  "Read2 (p0 # p1 # _) = Some (push_bit 8 (ucast p1) OR ucast p0)"
| "Read2 _ = None"

fun Read4 :: "bytes \<Rightarrow> u32 option" where
  "Read4 (p0 # p1 # p2 # p3 # _) =
     Some (push_bit 24 (ucast p3) OR push_bit 16 (ucast p2) OR push_bit 8 (ucast p1) OR ucast p0)"
| "Read4 _ = None"

fun Read8 :: "bytes \<Rightarrow> u64 option" where
  "Read8 (p0 # p1 # p2 # p3 # p4 # p5 # p6 # p7 # _) =
     Some (push_bit 56 (ucast p7) OR push_bit 48 (ucast p6) OR push_bit 40 (ucast p5) OR
           push_bit 32 (ucast p4) OR push_bit 24 (ucast p3) OR push_bit 16 (ucast p2) OR
           push_bit 8 (ucast p1) OR ucast p0)"
| "Read8 _ = None"

section \<open>offtin and offtout\<close>

text \<open>The seven steps \<^verbatim>\<open>y=y*256;y+=buf[i];\<close>, from \<^verbatim>\<open>buf[6]\<close> down to \<^verbatim>\<open>buf[0]\<close>.\<close>

definition offtin_step :: "u8 \<Rightarrow> int \<Rightarrow> int" where
  "offtin_step b y = y * 256 + uint b"

fun offtin :: "bytes \<Rightarrow> int option" where
  "offtin (b0 # b1 # b2 # b3 # b4 # b5 # b6 # b7 # _) =
     (let y = foldr offtin_step [b0, b1, b2, b3, b4, b5, b6] (uint (b7 AND 0x7F))
      in Some (if b7 AND 0x80 \<noteq> 0 then - y else y))"
| "offtin _ = None"

text \<open>The steps \<^verbatim>\<open>buf[i]=y%256;y-=buf[i];y=y/256;\<close> of \<^verbatim>\<open>offtout\<close>, for the next
  \<^verbatim>\<open>n\<close> bytes.\<close>

fun offtout_steps :: "nat \<Rightarrow> int \<Rightarrow> bytes" where
  "offtout_steps 0 y = []"
| "offtout_steps (Suc n) y =
     (let b = word_of_int (y mod 256) in b # offtout_steps n ((y - uint b) div 256))"

definition offtout :: "int \<Rightarrow> bytes" where
  "offtout x =
     (let y = (if x < 0 then - x else x);
          buf = offtout_steps 8 y
      in if x < 0 then buf[7 := buf ! 7 OR 0x80] else buf)"

section \<open>Round trips\<close>

lemma length_Write4 [simp]: "length (Write4 v f) = length f + 4"
  by (simp add: Write4_def fputc_def Let_def)

lemma length_Write8 [simp]: "length (Write8 v f) = length f + 8"
  by (simp add: Write8_def fputc_def Let_def)

lemma length_offtout_steps [simp]: "length (offtout_steps n y) = n"
  by (induction n arbitrary: y) (simp_all add: Let_def)

lemma length_offtout [simp]: "length (offtout x) = 8"
  by (simp add: offtout_def Let_def)

lemma uint_byte_mod [simp, byte_simps]: "uint (word_of_int (y mod 256) :: u8) = y mod 256"
  by (simp add: uint_word_of_int take_bit_eq_mod)

text \<open>Bit \<^verbatim>\<open>n\<close> of a byte that is taken out at offset \<^verbatim>\<open>k\<close> and put back there.\<close>

lemma and_ff_take_bit32: "(v :: u32) AND 0xff = take_bit 8 v"
  by (simp add: take_bit_eq_mask mask_eq_exp_minus_1)

lemma bit_byte_slice32 [byte_simps]:
  "bit (push_bit k (ucast (ucast (signed_drop_bit k v AND 0xff) :: u8)) :: u32) n \<longleftrightarrow>
     k \<le> n \<and> n < k + 8 \<and> n < 32 \<and> bit (v :: u32) n"
  unfolding and_ff_take_bit32 bit_push_bit_iff bit_ucast_iff bit_take_bit_iff bit_signed_drop_bit_iff
  by auto

lemma and_ff_take_bit64: "(v :: u64) AND 0xff = take_bit 8 v"
  by (simp add: take_bit_eq_mask mask_eq_exp_minus_1)

lemma bit_byte_slice64 [byte_simps]:
  "bit (push_bit k (ucast (ucast (signed_drop_bit k v AND 0xff) :: u8)) :: u64) n \<longleftrightarrow>
     k \<le> n \<and> n < k + 8 \<and> n < 64 \<and> bit (v :: u64) n"
  unfolding and_ff_take_bit64 bit_push_bit_iff bit_ucast_iff bit_take_bit_iff bit_signed_drop_bit_iff
  by auto

lemmas bit_byte_low32 [byte_simps] = bit_byte_slice32 [of 0, simplified]
lemmas bit_byte_low64 [byte_simps] = bit_byte_slice64 [of 0, simplified]

lemma Read4_Write4_bits:
  "push_bit 24 (ucast (ucast (signed_drop_bit 24 v AND 0xff) :: u8)) OR
   push_bit 16 (ucast (ucast (signed_drop_bit 16 v AND 0xff) :: u8)) OR
   push_bit 8 (ucast (ucast (signed_drop_bit 8 v AND 0xff) :: u8)) OR
   ucast (ucast (v AND 0xff) :: u8) = (v :: u32)"
  by (rule bit_word_eqI) (auto simp: bit_or_iff byte_simps)

lemma Read8_Write8_bits:
  "push_bit 56 (ucast (ucast (signed_drop_bit 56 v AND 0xff) :: u8)) OR
   push_bit 48 (ucast (ucast (signed_drop_bit 48 v AND 0xff) :: u8)) OR
   push_bit 40 (ucast (ucast (signed_drop_bit 40 v AND 0xff) :: u8)) OR
   push_bit 32 (ucast (ucast (signed_drop_bit 32 v AND 0xff) :: u8)) OR
   push_bit 24 (ucast (ucast (signed_drop_bit 24 v AND 0xff) :: u8)) OR
   push_bit 16 (ucast (ucast (signed_drop_bit 16 v AND 0xff) :: u8)) OR
   push_bit 8 (ucast (ucast (signed_drop_bit 8 v AND 0xff) :: u8)) OR
   ucast (ucast (v AND 0xff) :: u8) = (v :: u64)"
  by (rule bit_word_eqI) (auto simp: bit_or_iff byte_simps)

lemma Read4_Write4: "Read4 (drop (length f) (Write4 v f)) = Some v"
  unfolding Write4_def fputc_def Let_def by (simp add: Read4_Write4_bits)

lemma Read8_Write8: "Read8 (drop (length f) (Write8 v f)) = Some v"
  unfolding Write8_def fputc_def Let_def by (simp add: Read8_Write8_bits)

text \<open>Reading the digits back inverts writing them.\<close>

lemma foldr_offtin_steps:
  "0 \<le> y \<Longrightarrow> y < 256 ^ n * (c + 1) \<Longrightarrow> 256 ^ n * c \<le> y \<Longrightarrow>
     foldr offtin_step (offtout_steps n y) c = y"
proof (induction n arbitrary: y)
  case 0
  then show ?case by simp
next
  case (Suc n)
  have d: "(y - y mod 256) div 256 = y div 256"
    by (simp add: minus_mod_eq_mult_div)
  have "foldr offtin_step (offtout_steps n (y div 256)) c = y div 256"
  proof (rule Suc.IH)
    show "y div 256 < 256 ^ n * (c + 1)" "256 ^ n * c \<le> y div 256" "0 \<le> y div 256"
      using Suc.prems by (simp_all add: algebra_simps)
  qed
  moreover have "offtin_step (word_of_int (y mod 256)) (y div 256) = y"
    by (simp add: offtin_step_def)
  ultimately show ?case
    by (simp add: Let_def d)
qed

lemma offtout_steps_snoc:
  "offtout_steps (Suc n) y = offtout_steps n y @ [word_of_int (y div 256 ^ n mod 256)]"
proof (induction n arbitrary: y)
  case (Suc n)
  have "(y - y mod 256) div 256 = y div 256"
    by (simp add: minus_mod_eq_mult_div)
  with Suc.IH [of "y div 256"] show ?case
    by (simp add: Let_def zdiv_zmult2_eq)
qed simp

lemma offtin_append8:
  "length xs = 7 \<Longrightarrow> offtin (xs @ b7 # rest) =
     Some (let y = foldr offtin_step xs (uint (b7 AND 0x7F)) in if b7 AND 0x80 \<noteq> 0 then - y else y)"
  by (auto simp: length_Suc_conv numeral_eq_Suc Let_def)

lemma top_byte_facts:
  fixes b :: u8
  assumes "uint b < 128"
  shows "b AND 0x7F = b" "(b OR 0x80) AND 0x7F = b" "b AND 0x80 = 0" "(b OR 0x80) AND 0x80 \<noteq> 0"
proof -
  have m: "(0x7F :: u8) = mask 7" 
    by (simp add: mask_eq_exp_minus_1)
  have t: "take_bit 7 b = b"
    by (rule word_uint_eqI)
      (use assms in \<open>simp add: unsigned_take_bit_eq take_bit_int_eq_self\<close>)
  show 1: "b AND 0x7F = b" unfolding m take_bit_eq_mask [symmetric] by (rule t)
  have z: "(0x80 :: u8) AND 0x7F = 0" by simp
  show "(b OR 0x80) AND 0x7F = b"
    by (simp only: bit.conj_disj_distrib2 1 z) simp
  have "b AND 0x80 = (b AND 0x7F) AND 0x80" by (simp only: 1)
  also have "\<dots> = b AND (0x7F AND 0x80)" by (simp only: and.assoc)
  also have "\<dots> = 0" by simp
  finally show z2: "b AND 0x80 = 0" .
  show "(b OR 0x80) AND 0x80 \<noteq> 0"
    by (simp only: bit.conj_disj_distrib2 z2) simp
qed

lemma offtin_offtout:
  assumes "\<bar>x\<bar> < 2 ^ 63"
  shows "offtin (offtout x @ rest) = Some x"
proof -
  define y where "y = \<bar>x\<bar>"
  define xs where "xs = offtout_steps 7 y"
  define b where "b = (word_of_int (y div 256 ^ 7 mod 256) :: u8)"
  have y: "0 \<le> y" "y < 256 ^ 7 * 128" using assms by (simp_all add: y_def)
  then have c: "y div 256 ^ 7 < 128" "0 \<le> y div 256 ^ 7" by simp_all
  then have "y div 256 ^ 7 mod 256 = y div 256 ^ 7" by (simp add: mod_pos_pos_trivial)
  then have ub: "uint b = y div 256 ^ 7" unfolding b_def uint_byte_mod .
  have val: "foldr offtin_step xs (y div 256 ^ 7) = y"
    unfolding xs_def by (rule foldr_offtin_steps) (use y in \<open>simp_all\<close>)
  have "8 = Suc 7" by simp
  then have steps: "offtout_steps 8 y = xs @ [b]"
    by (simp only: offtout_steps_snoc xs_def b_def)
  have "offtout x = xs @ [if x < 0 then b OR 0x80 else b]"
    using steps
    by (cases "x < 0") (simp_all add: offtout_def Let_def y_def xs_def nth_append list_update_append)
  then show ?thesis
    using val c ub top_byte_facts [of b]
    by (cases "x < 0") (simp_all add: offtin_append8 xs_def Let_def y_def)
qed
end
