(* ===== verification/Suffix_Sort.thy ===== *)
theory Suffix_Sort
  imports Byte_IO
begin

text \<open>
  The suffix sorting of \<^verbatim>\<open>src/applypatch/bsdiff.c\<close>, functions \<^verbatim>\<open>split\<close> and
  \<^verbatim>\<open>qsufsort\<close> (Larsson and Sadakane's algorithm). The two \<^verbatim>\<open>off_t\<close> arrays are lists of
  integers that every statement passes on; an access outside them, or a loop that does not
  end, is \<^const>\<open>None\<close>.
\<close>

section \<open>Array accesses\<close>

definition rd :: "'a list \<Rightarrow> int \<Rightarrow> 'a option" where
  "rd xs i = (if 0 \<le> i \<and> i < int (length xs) then Some (xs ! nat i) else None)"

definition wr :: "'a list \<Rightarrow> int \<Rightarrow> 'a \<Rightarrow> 'a list option" where
  "wr xs i v = (if 0 \<le> i \<and> i < int (length xs) then Some (xs[nat i := v]) else None)"

text \<open>\<^verbatim>\<open>tmp=I[a];I[a]=I[b];I[b]=tmp;\<close>\<close>

definition swap :: "int list \<Rightarrow> int \<Rightarrow> int \<Rightarrow> int list option" where
  "swap I a b = do { va \<leftarrow> rd I a; vb \<leftarrow> rd I b; I1 \<leftarrow> wr I a vb; wr I1 b va }"

text \<open>\<^verbatim>\<open>V[I[i]+h]\<close>\<close>

definition key :: "int list \<Rightarrow> int list \<Rightarrow> int \<Rightarrow> int \<Rightarrow> int option" where
  "key I V h i = do { a \<leftarrow> rd I i; rd V (a + h) }"

section \<open>split\<close>

text \<open>The inner loop of the short case: \<^verbatim>\<open>for(i=1;k+i<start+len;i++)\<close>.\<close>

partial_function (option) short_inner ::
  "int list \<Rightarrow> int list \<Rightarrow> int \<Rightarrow> int \<Rightarrow> int \<Rightarrow> int \<Rightarrow> int \<Rightarrow> int \<Rightarrow> (int list \<times> int) option" where
  "short_inner I V h stop k i j x =
     (if k + i < stop then do {
        v \<leftarrow> key I V h (k + i);
        let x' = (if v < x then v else x);
        let j' = (if v < x then 0 else j);
        if v = x' then do {
          I' \<leftarrow> swap I (k + j') (k + i);
          short_inner I' V h stop k (i + 1) (j' + 1) x'
        } else short_inner I V h stop k (i + 1) j' x'
      } else Some (I, j))"

text \<open>\<^verbatim>\<open>for(i=...;i<n;i++) V[I[at+i]]=g;\<close>\<close>

partial_function (option) set_group ::
  "int list \<Rightarrow> int list \<Rightarrow> int \<Rightarrow> int \<Rightarrow> int \<Rightarrow> int \<Rightarrow> int list option" where
  "set_group I V at i n g =
     (if i < n then do { a \<leftarrow> rd I (at + i); V' \<leftarrow> wr V a g; set_group I V' at (i + 1) n g }
      else Some V)"

partial_function (option) short_split ::
  "int list \<Rightarrow> int list \<Rightarrow> int \<Rightarrow> int \<Rightarrow> int \<Rightarrow> (int list \<times> int list) option" where
  "short_split I V h stop k =
     (if k < stop then do {
        x \<leftarrow> key I V h k;
        (I1, j) \<leftarrow> short_inner I V h stop k 1 1 x;
        V1 \<leftarrow> set_group I1 V k 0 j (k + j - 1);
        I2 \<leftarrow> (if j = 1 then wr I1 k (-1) else Some I1);
        short_split I2 V1 h stop (k + j)
      } else Some (I, V))"

text \<open>The counting loop of the long case.\<close>

partial_function (option) count_keys ::
  "int list \<Rightarrow> int list \<Rightarrow> int \<Rightarrow> int \<Rightarrow> int \<Rightarrow> int \<Rightarrow> int \<Rightarrow> int \<Rightarrow> (int \<times> int) option" where
  "count_keys I V h stop x i jj kk =
     (if i < stop then do {
        v \<leftarrow> key I V h i;
        count_keys I V h stop x (i + 1) (if v < x then jj + 1 else jj) (if v = x then kk + 1 else kk)
      } else Some (jj, kk))"

text \<open>\<^verbatim>\<open>while(i<jj)\<close> and \<^verbatim>\<open>while(jj+j<kk)\<close>.\<close>

partial_function (option) part_low ::
  "int list \<Rightarrow> int list \<Rightarrow> int \<Rightarrow> int \<Rightarrow> int \<Rightarrow> int \<Rightarrow> int \<Rightarrow> int \<Rightarrow> int \<Rightarrow> (int list \<times> int \<times> int) option" where
  "part_low I V h x jj kk i j k =
     (if i < jj then do {
        v \<leftarrow> key I V h i;
        if v < x then part_low I V h x jj kk (i + 1) j k
        else if v = x then do { I' \<leftarrow> swap I i (jj + j); part_low I' V h x jj kk i (j + 1) k }
        else do { I' \<leftarrow> swap I i (kk + k); part_low I' V h x jj kk i j (k + 1) }
      } else Some (I, j, k))"

partial_function (option) part_mid ::
  "int list \<Rightarrow> int list \<Rightarrow> int \<Rightarrow> int \<Rightarrow> int \<Rightarrow> int \<Rightarrow> int \<Rightarrow> int \<Rightarrow> int list option" where
  "part_mid I V h x jj kk j k =
     (if jj + j < kk then do {
        v \<leftarrow> key I V h (jj + j);
        if v = x then part_mid I V h x jj kk (j + 1) k
        else do { I' \<leftarrow> swap I (jj + j) (kk + k); part_mid I' V h x jj kk j (k + 1) }
      } else Some I)"

partial_function (option) split ::
  "int list \<Rightarrow> int list \<Rightarrow> int \<Rightarrow> int \<Rightarrow> int \<Rightarrow> (int list \<times> int list) option" where
  "split I V start len h =
     (if len < 16 then short_split I V h (start + len) start
      else do {
        x \<leftarrow> key I V h (start + len div 2);
        (nj, nk) \<leftarrow> count_keys I V h (start + len) x start 0 0;
        let jj = nj + start;
        let kk = nk + jj;
        (I1, j, k) \<leftarrow> part_low I V h x jj kk start 0 0;
        I2 \<leftarrow> part_mid I1 V h x jj kk j k;
        (I3, V1) \<leftarrow> (if jj > start then split I2 V start (jj - start) h else Some (I2, V));
        V2 \<leftarrow> set_group I3 V1 jj 0 (kk - jj) (kk - 1);
        I4 \<leftarrow> (if jj = kk - 1 then wr I3 jj (-1) else Some I3);
        if start + len > kk then split I4 V2 kk (start + len - kk) h else Some (I4, V2)
      })"

section \<open>qsufsort\<close>

text \<open>\<^verbatim>\<open>for(i=0;i<oldsize;i++) buckets[old[i]]++;\<close>\<close>

definition bucket_counts :: "bytes \<Rightarrow> int list" where
  "bucket_counts old = foldl (\<lambda>b c. b[unat c := b ! unat c + 1]) (replicate 256 0) old"

text \<open>\<^verbatim>\<open>for(i=1;i<256;i++) buckets[i]+=buckets[i-1];\<close>, then the shift by one.\<close>

definition bucket_starts :: "int list \<Rightarrow> int list" where
  "bucket_starts b =
     (let sums = foldl (\<lambda>b i. b[i := b ! i + b ! (i - 1)]) b [1..<256];
          shifted = foldl (\<lambda>b i. b[i := b ! (i - 1)]) sums (rev [1..<256])
      in shifted[0 := 0])"

text \<open>\<^verbatim>\<open>for(i=0;i<oldsize;i++) I[++buckets[old[i]]]=i;\<close>\<close>

fun place_suffixes :: "bytes \<Rightarrow> int \<Rightarrow> int list \<Rightarrow> int list \<Rightarrow> (int list \<times> int list) option" where
  "place_suffixes [] i b I = Some (b, I)"
| "place_suffixes (c # cs) i b I = do {
     let n = b ! unat c + 1;
     I' \<leftarrow> wr I n i;
     place_suffixes cs (i + 1) (b[unat c := n]) I'
   }"

text \<open>\<^verbatim>\<open>for(i=1;i<256;i++) if(buckets[i]==buckets[i-1]+1) I[buckets[i]]=-1;\<close>\<close>

fun mark_singles :: "nat list \<Rightarrow> int list \<Rightarrow> int list \<Rightarrow> int list option" where
  "mark_singles [] b I = Some I"
| "mark_singles (i # is) b I = do {
     I' \<leftarrow> (if b ! i = b ! (i - 1) + 1 then wr I (b ! i) (-1) else Some I);
     mark_singles is b I'
   }"

text \<open>One pass \<^verbatim>\<open>for(i=0;i<oldsize+1;)\<close> over the groups.\<close>

partial_function (option) sort_pass ::
  "int list \<Rightarrow> int list \<Rightarrow> int \<Rightarrow> int \<Rightarrow> int \<Rightarrow> int \<Rightarrow> (int list \<times> int list) option" where
  "sort_pass I V oldsize h i len =
     (if i < oldsize + 1 then do {
        a \<leftarrow> rd I i;
        if a < 0 then sort_pass I V oldsize h (i - a) (len - a)
        else do {
          I1 \<leftarrow> (if len \<noteq> 0 then wr I (i - len) (- len) else Some I);
          b \<leftarrow> rd I1 i;
          v \<leftarrow> rd V b;
          let len' = v + 1 - i;
          (I2, V2) \<leftarrow> split I1 V i len' h;
          sort_pass I2 V2 oldsize h (i + len') 0
        }
      } else do {
        I' \<leftarrow> (if len \<noteq> 0 then wr I (i - len) (- len) else Some I);
        Some (I', V)
      })"

partial_function (option) sort_passes ::
  "int list \<Rightarrow> int list \<Rightarrow> int \<Rightarrow> int \<Rightarrow> (int list \<times> int list) option" where
  "sort_passes I V oldsize h = do {
     a \<leftarrow> rd I 0;
     if a \<noteq> - (oldsize + 1) then do {
       (I', V') \<leftarrow> sort_pass I V oldsize h 0 0;
       sort_passes I' V' oldsize (h + h)
     } else Some (I, V)
   }"

text \<open>\<^verbatim>\<open>for(i=0;i<oldsize+1;i++) I[V[i]]=i;\<close>\<close>

fun invert :: "int list \<Rightarrow> int \<Rightarrow> int list \<Rightarrow> int list option" where
  "invert [] i I = Some I"
| "invert (v # vs) i I = do { I' \<leftarrow> wr I v i; invert vs (i + 1) I' }"

text \<open>\<^verbatim>\<open>I\<close> and \<^verbatim>\<open>V\<close> come from \<^verbatim>\<open>malloc\<close>; every element is stored before it is
  read, so that their first contents do not matter.\<close>

definition qsufsort :: "bytes \<Rightarrow> int list option" where
  "qsufsort old = do {
     let oldsize = int (length old);
     let blank = replicate (length old + 1) 0;
     (buckets, I) \<leftarrow> place_suffixes old 0 (bucket_starts (bucket_counts old)) blank;
     I \<leftarrow> wr I 0 oldsize;
     let V = map (\<lambda>c. buckets ! unat c) old @ [0];
     I \<leftarrow> mark_singles [1..<256] buckets I;
     I \<leftarrow> wr I 0 (-1);
     (I, V) \<leftarrow> sort_passes I V oldsize 1;
     invert V 0 I
   }"

lemmas qsufsort_code [code] = short_inner.simps set_group.simps short_split.simps count_keys.simps
  part_low.simps part_mid.simps split.simps sort_pass.simps sort_passes.simps

end
