(* ===== verification/Bs_Diff.thy ===== *)
theory Bs_Diff
  imports Suffix_Sort
begin

text \<open>
  The patch generator of \<^verbatim>\<open>src/applypatch/bsdiff.c\<close>: the binary search over a suffix
  array, and the scan that turns two files into control triples, a diff block and an extra
  block. The caller may pass the suffix array that an earlier call made. \<^verbatim>\<open>off_t\<close> values are \<^typ>\<open>int\<close>s; a read outside an array is
  \<^const>\<open>None\<close>. bzip2 is an argument of \<^verbatim>\<open>bsdiff\<close>.
\<close>

section \<open>Reading arrays\<close>

text \<open>The array that starts \<^verbatim>\<open>i\<close> elements into \<^verbatim>\<open>xs\<close>.\<close>

definition tail_of :: "'a list \<Rightarrow> int \<Rightarrow> 'a list option" where
  "tail_of xs i = (if 0 \<le> i \<and> i \<le> int (length xs) then Some (drop (nat i) xs) else None)"

section \<open>Searching\<close>

fun matchlen :: "bytes \<Rightarrow> bytes \<Rightarrow> nat" where
  "matchlen (a # as) (b # bs) = (if a \<noteq> b then 0 else Suc (matchlen as bs))"
| "matchlen _ _ = 0"

fun memcmp :: "bytes \<Rightarrow> bytes \<Rightarrow> nat \<Rightarrow> int" where
  "memcmp (a # as) (b # bs) (Suc n) = (if a \<noteq> b then uint a - uint b else memcmp as bs n)"
| "memcmp _ _ _ = 0"

function search :: "int list \<Rightarrow> bytes \<Rightarrow> bytes \<Rightarrow> int \<Rightarrow> int \<Rightarrow> (int \<times> int) option" where
  "search I old new st en =
     (if en - st < 2 then do {
        ist \<leftarrow> rd I st;
        ien \<leftarrow> rd I en;
        ost \<leftarrow> tail_of old ist;
        oen \<leftarrow> tail_of old ien;
        let x = int (matchlen ost new);
        let y = int (matchlen oen new);
        Some (if x > y then (x, ist) else (y, ien))
      }
      else
        let x = st + (en - st) div 2 in do {
          ix \<leftarrow> rd I x;
          ox \<leftarrow> tail_of old ix;
          if memcmp ox new (min (length ox) (length new)) < 0
          then search I old new x en
          else search I old new st x
        })"
  by pat_completeness auto
termination
  by (relation "measure (\<lambda>(I, old, new, st, en). nat (en - st))") auto

declare search.simps [simp del]

section \<open>The loops of bsdiff\<close>

text \<open>\<^verbatim>\<open>(k+lastoffset<oldsize) && (old[k+lastoffset] == new[k])\<close>\<close>

definition matches_at :: "bytes \<Rightarrow> bytes \<Rightarrow> int \<Rightarrow> int \<Rightarrow> bool option" where
  "matches_at old new lastoffset k =
     (if k + lastoffset < int (length old) then do {
        a \<leftarrow> rd old (k + lastoffset);
        b \<leftarrow> rd new k;
        Some (a = b)
      } else Some False)"

text \<open>\<^verbatim>\<open>old[j] == new[k]\<close>\<close>

definition same_byte :: "bytes \<Rightarrow> bytes \<Rightarrow> int \<Rightarrow> int \<Rightarrow> bool option" where
  "same_byte old new j k = do { a \<leftarrow> rd old j; b \<leftarrow> rd new k; Some (a = b) }"

function score_loop :: "bytes \<Rightarrow> bytes \<Rightarrow> int \<Rightarrow> int \<Rightarrow> int \<Rightarrow> int \<Rightarrow> (int \<times> int) option" where
  "score_loop old new lastoffset hi scsc oldscore =
     (if scsc < hi then do {
        m \<leftarrow> matches_at old new lastoffset scsc;
        score_loop old new lastoffset hi (scsc + 1) (if m then oldscore + 1 else oldscore)
      } else Some (scsc, oldscore))"
  by pat_completeness auto
termination
  by (relation "measure (\<lambda>(old, new, lo, hi, scsc, sc). nat (hi - scsc))") auto

declare score_loop.simps [simp del]

text \<open>The loop \<^verbatim>\<open>for(scsc=scan+=len;scan<newsize;scan++)\<close>; the result is
  \<^verbatim>\<open>scan\<close>, \<^verbatim>\<open>oldscore\<close>, \<^verbatim>\<open>len\<close> and \<^verbatim>\<open>pos\<close> where it ends.\<close>

function scan_loop ::
  "int list \<Rightarrow> bytes \<Rightarrow> bytes \<Rightarrow> int \<Rightarrow> int \<Rightarrow> int \<Rightarrow> int \<Rightarrow> int \<Rightarrow> int \<Rightarrow> (int \<times> int \<times> int \<times> int) option" where
  "scan_loop I old new lastoffset scan scsc oldscore len pos =
     (if scan < int (length new) then do {
        tail \<leftarrow> tail_of new scan;
        (len, pos) \<leftarrow> search I old tail 0 (int (length old));
        (scsc, oldscore) \<leftarrow> score_loop old new lastoffset (scan + len) scsc oldscore;
        if (len = oldscore \<and> len \<noteq> 0) \<or> len > oldscore + 8 then Some (scan, oldscore, len, pos)
        else do {
          m \<leftarrow> matches_at old new lastoffset scan;
          scan_loop I old new lastoffset (scan + 1) scsc (if m then oldscore - 1 else oldscore) len pos
        }
      } else Some (scan, oldscore, len, pos))"
  by pat_completeness auto
termination
  by (relation "measure (\<lambda>(I, old, new, lo, scan, r). nat (int (length new) - scan))") auto

declare scan_loop.simps [simp del]

text \<open>The three loops that place the end of the previous match (\<^verbatim>\<open>lenf\<close>), the start of
  the new one (\<^verbatim>\<open>lenb\<close>) and the border where the two overlap (\<^verbatim>\<open>lens\<close>).\<close>

function forward_loop ::
  "bytes \<Rightarrow> bytes \<Rightarrow> int \<Rightarrow> int \<Rightarrow> int \<Rightarrow> int \<Rightarrow> int \<Rightarrow> int \<Rightarrow> int \<Rightarrow> int option" where
  "forward_loop old new scan lastscan lastpos i s Sf lenf =
     (if lastscan + i < scan \<and> lastpos + i < int (length old) then do {
        m \<leftarrow> same_byte old new (lastpos + i) (lastscan + i);
        let s = (if m then s + 1 else s);
        let i = i + 1;
        if s * 2 - i > Sf * 2 - lenf then forward_loop old new scan lastscan lastpos i s s i
        else forward_loop old new scan lastscan lastpos i s Sf lenf
      } else Some lenf)"
  by pat_completeness auto
termination
  by (relation "measure (\<lambda>(old, new, scan, ls, lp, i, r). nat (scan - (ls + i)))") auto

declare forward_loop.simps [simp del]

function backward_loop ::
  "bytes \<Rightarrow> bytes \<Rightarrow> int \<Rightarrow> int \<Rightarrow> int \<Rightarrow> int \<Rightarrow> int \<Rightarrow> int \<Rightarrow> int \<Rightarrow> int option" where
  "backward_loop old new scan lastscan pos i s Sb lenb =
     (if scan \<ge> lastscan + i \<and> pos \<ge> i then do {
        m \<leftarrow> same_byte old new (pos - i) (scan - i);
        let s = (if m then s + 1 else s);
        if s * 2 - i > Sb * 2 - lenb then backward_loop old new scan lastscan pos (i + 1) s s i
        else backward_loop old new scan lastscan pos (i + 1) s Sb lenb
      } else Some lenb)"
  by pat_completeness auto
termination
  by (relation "measure (\<lambda>(old, new, scan, ls, pos, i, r). nat (scan + 1 - (ls + i)))") auto

declare backward_loop.simps [simp del]

function overlap_loop ::
  "bytes \<Rightarrow> bytes \<Rightarrow> int \<Rightarrow> int \<Rightarrow> int \<Rightarrow> int \<Rightarrow> int \<Rightarrow> int \<Rightarrow> int \<Rightarrow> int \<Rightarrow> int \<Rightarrow> int option" where
  "overlap_loop old new newf oldf newb oldb overlap i s Ss lens =
     (if i < overlap then do {
        f \<leftarrow> same_byte old new (oldf - overlap + i) (newf - overlap + i);
        b \<leftarrow> same_byte old new (oldb + i) (newb + i);
        let s = (if f then s + 1 else s);
        let s = (if b then s - 1 else s);
        if s > Ss then overlap_loop old new newf oldf newb oldb overlap (i + 1) s s (i + 1)
        else overlap_loop old new newf oldf newb oldb overlap (i + 1) s Ss lens
      } else Some lens)"
  by pat_completeness auto
termination
  by (relation "measure (\<lambda>(old, new, nf, opf, nb, ob, overlap, i, r). nat (overlap - i))") auto

declare overlap_loop.simps [simp del]

section \<open>The outer loop\<close>

record diff_state =
  ds_scan :: int
  ds_len :: int
  ds_lastscan :: int
  ds_lastpos :: int
  ds_lastoffset :: int
  ds_pos :: int
  ds_db :: bytes
  ds_eb :: bytes
  ds_ctrl :: "(int \<times> int \<times> int) list"

text \<open>The bytes \<^verbatim>\<open>xs[i], ..., xs[i+n-1]\<close> that a copying loop reads.\<close>

definition slice :: "bytes \<Rightarrow> int \<Rightarrow> int \<Rightarrow> bytes option" where
  "slice xs i n =
     (if n \<le> 0 then Some []
      else if 0 \<le> i \<and> i + n \<le> int (length xs) then Some (take (nat n) (drop (nat i) xs))
      else None)"

text \<open>\<^verbatim>\<open>lenf\<close> and \<^verbatim>\<open>lenb\<close> as the three loops leave them.\<close>

definition choose_lens ::
  "bytes \<Rightarrow> bytes \<Rightarrow> int \<Rightarrow> int \<Rightarrow> int \<Rightarrow> int \<Rightarrow> (int \<times> int) option" where
  "choose_lens old new scan pos lastscan lastpos = do {
     lenf \<leftarrow> forward_loop old new scan lastscan lastpos 0 0 0 0;
     lenb \<leftarrow> (if scan < int (length new) then backward_loop old new scan lastscan pos 1 0 0 0 else Some 0);
     if lastscan + lenf > scan - lenb then do {
       let overlap = (lastscan + lenf) - (scan - lenb);
       lens \<leftarrow> overlap_loop old new (lastscan + lenf) (lastpos + lenf) (scan - lenb) (pos - lenb)
                 overlap 0 0 0 0;
       Some (lenf + (lens - overlap), lenb - lens)
     } else Some (lenf, lenb)
   }"

text \<open>The body of \<^verbatim>\<open>if((len!=oldscore) || (scan==newsize))\<close>.\<close>

definition emit :: "bytes \<Rightarrow> bytes \<Rightarrow> diff_state \<Rightarrow> diff_state option" where
  "emit old new st = do {
     let scan = ds_scan st; let pos = ds_pos st;
     let lastscan = ds_lastscan st; let lastpos = ds_lastpos st;
     (lenf, lenb) \<leftarrow> choose_lens old new scan pos lastscan lastpos;
     n \<leftarrow> slice new lastscan lenf;
     o' \<leftarrow> slice old lastpos lenf;
     e \<leftarrow> slice new (lastscan + lenf) ((scan - lenb) - (lastscan + lenf));
     Some (st\<lparr> ds_db := ds_db st @ map2 (-) n o',
               ds_eb := ds_eb st @ e,
               ds_ctrl := ds_ctrl st @
                 [(lenf, (scan - lenb) - (lastscan + lenf), (pos - lenb) - (lastpos + lenf))],
               ds_lastscan := scan - lenb,
               ds_lastpos := pos - lenb,
               ds_lastoffset := pos - scan \<rparr>)
   }"

definition diff_step :: "int list \<Rightarrow> bytes \<Rightarrow> bytes \<Rightarrow> diff_state \<Rightarrow> diff_state option" where
  "diff_step I old new st = do {
     let start = ds_scan st + ds_len st;
     (scan, oldscore, len, pos) \<leftarrow>
        scan_loop I old new (ds_lastoffset st) start start 0 (ds_len st) (ds_pos st);
     let st = st\<lparr> ds_scan := scan, ds_len := len, ds_pos := pos \<rparr>;
     if len \<noteq> oldscore \<or> scan = int (length new) then emit old new st else Some st
   }"

partial_function (option) diff_loop ::
  "int list \<Rightarrow> bytes \<Rightarrow> bytes \<Rightarrow> diff_state \<Rightarrow> diff_state option" where
  "diff_loop I old new st =
     (if ds_scan st < int (length new) then do {
        st' \<leftarrow> diff_step I old new st;
        diff_loop I old new st'
      } else Some st)"

declare diff_loop.simps [code]

text \<open>\<^verbatim>\<open>pos\<close> has no initial value in the source; the first pass over a
  nonempty file stores one before it is read.\<close>

definition diff_init :: diff_state where
  "diff_init = \<lparr> ds_scan = 0, ds_len = 0, ds_lastscan = 0, ds_lastpos = 0, ds_lastoffset = 0,
                 ds_pos = 0, ds_db = [], ds_eb = [], ds_ctrl = [] \<rparr>"

text \<open>The 24 bytes a control triple is written as, in three calls of \<^verbatim>\<open>BZ2_bzWrite\<close>.\<close>

definition ctrl_writes :: "(int \<times> int \<times> int) list \<Rightarrow> bytes list" where
  "ctrl_writes cs = concat (map (\<lambda>(x, y, z). [offtout x, offtout y, offtout z]) cs)"

definition bsdiff_magic :: bytes where
  "bsdiff_magic = [0x42, 0x53, 0x44, 0x49, 0x46, 0x46, 0x34, 0x30]"

text \<open>\<^verbatim>\<open>bz\<close> is what bzip2 appends to the file for a sequence of writes between
  \<^verbatim>\<open>BZ2_bzWriteOpen\<close> and \<^verbatim>\<open>BZ2_bzWriteClose\<close>, or \<^const>\<open>None\<close> where a
  call reports an error and the program exits. The result is \<^verbatim>\<open>*IP\<close> and the patch file.\<close>

definition bsdiff ::
  "(bytes list \<Rightarrow> bytes option) \<Rightarrow> bytes \<Rightarrow> int list option \<Rightarrow> bytes \<Rightarrow> (int list \<times> bytes) option" where
  "bsdiff bz old IP new = do {
     I \<leftarrow> (case IP of None \<Rightarrow> qsufsort old | Some I \<Rightarrow> Some I);
     st \<leftarrow> diff_loop I old new diff_init;
     ctrl \<leftarrow> bz (ctrl_writes (ds_ctrl st));
     diff \<leftarrow> bz [ds_db st];
     extra \<leftarrow> bz [ds_eb st];
     let len = 32 + int (length ctrl);
     let end_diff = len + int (length diff);
     Some (I, bsdiff_magic @ offtout (len - 32) @ offtout (end_diff - len) @ offtout (int (length new))
              @ ctrl @ diff @ extra)
   }"

section \<open>Suffix arrays\<close>

fun lex_le :: "bytes \<Rightarrow> bytes \<Rightarrow> bool" where
  "lex_le [] ys = True"
| "lex_le (x # xs) [] = False"
| "lex_le (x # xs) (y # ys) = (x < y \<or> (x = y \<and> lex_le xs ys))"

text \<open>What \<^verbatim>\<open>qsufsort\<close> leaves in \<^verbatim>\<open>I\<close>: all suffixes of \<^verbatim>\<open>old\<close>, the empty
  one included, in lexicographic order.\<close>

definition suffix_array :: "int list \<Rightarrow> bytes \<Rightarrow> bool" where
  "suffix_array I old \<longleftrightarrow>
     length I = length old + 1 \<and> set I = set (map int [0..<length old + 1]) \<and>
     sorted_wrt (\<lambda>a b. lex_le (drop (nat a) old) (drop (nat b) old)) I"

lemma rd_Some: "\<lbrakk>0 \<le> i; i < int (length xs)\<rbrakk> \<Longrightarrow> rd xs i = Some (xs ! nat i)"
  by (simp add: rd_def)

lemma tail_of_Some: "\<lbrakk>0 \<le> i; i \<le> int (length xs)\<rbrakk> \<Longrightarrow> tail_of xs i = Some (drop (nat i) xs)"
  by (simp add: tail_of_def)

lemma suffix_array_range:
  assumes "suffix_array I old" "0 \<le> k" "k \<le> int (length old)"
  shows "0 \<le> I ! nat k" "I ! nat k \<le> int (length old)" "rd I k = Some (I ! nat k)"
proof -
  have "nat k < length I" using assms by (simp add: suffix_array_def)
  then have "I ! nat k \<in> set I" by simp
  then have "I ! nat k \<in> set (map int [0..<length old + 1])" using assms(1) by (simp add: suffix_array_def)
  then show "0 \<le> I ! nat k" "I ! nat k \<le> int (length old)" by auto
  show "rd I k = Some (I ! nat k)" using assms by (simp add: rd_def suffix_array_def)
qed

lemma suffix_array_sorted:
  assumes "suffix_array I old" "0 \<le> j" "j < k" "k \<le> int (length old)"
  shows "lex_le (drop (nat (I ! nat j)) old) (drop (nat (I ! nat k)) old)"
  using assms sorted_wrt_nth_less[of "\<lambda>a b. lex_le (drop (nat a) old) (drop (nat b) old)" I "nat j" "nat k"]
  by (simp add: suffix_array_def)

lemma suffix_array_occurs:
  assumes "suffix_array I old" "0 \<le> p" "p \<le> int (length old)"
  shows "\<exists>j. 0 \<le> j \<and> j \<le> int (length old) \<and> I ! nat j = p"
proof -
  have "p \<in> set (map int [0..<length old + 1])" using assms
    by (auto simp: image_iff intro!: bexI[of _ "nat p"])
  then obtain j where "j < length I" "I ! j = p"
    using assms(1) by (metis in_set_conv_nth suffix_array_def)
  then show ?thesis using assms(1) by (intro exI[of _ "int j"]) (simp add: suffix_array_def)
qed

text \<open>Whether a suffix starts with a byte, and what the order of the suffixes and
  \<^verbatim>\<open>memcmp\<close> say about it.\<close>

definition starts :: "bytes \<Rightarrow> u8 \<Rightarrow> bool" where
  "starts xs c \<longleftrightarrow> xs \<noteq> [] \<and> hd xs = c"

lemma starts_mono_left:
  assumes "memcmp xs new (min (length xs) (length new)) < 0" "new \<noteq> []"
    "lex_le ys xs" "starts ys (hd new)"
  shows "starts xs (hd new)"
  using assms by (cases xs; cases new; cases ys) (auto simp: starts_def word_less_def split: if_splits)

lemma starts_mono_right:
  assumes "\<not> memcmp xs new (min (length xs) (length new)) < 0" "new \<noteq> []" "xs \<noteq> []"
    "lex_le xs ys" "starts ys (hd new)"
  shows "starts xs (hd new)"
  using assms by (cases xs; cases new; cases ys) (auto simp: starts_def word_less_def split: if_splits)

lemma matchlen_le: "matchlen xs ys \<le> length xs" "matchlen xs ys \<le> length ys"
  by (induction xs ys rule: matchlen.induct) auto

lemma matchlen_starts: "\<lbrakk>new \<noteq> []; starts xs (hd new)\<rbrakk> \<Longrightarrow> 0 < matchlen xs new"
  by (cases xs; cases new) (auto simp: starts_def)

lemma suffix_array_nonempty:
  assumes "suffix_array I old" "0 < k" "k \<le> int (length old)"
  shows "drop (nat (I ! nat k)) old \<noteq> []"
proof
  assume "drop (nat (I ! nat k)) old = []"
  then have last: "I ! nat k = int (length old)"
    using suffix_array_range[OF assms(1), of k] assms by simp
  have "distinct I"
  proof (rule card_distinct)
    have "card (set I) = card (set (map int [0..<length old + 1]))"
      using assms(1) unfolding suffix_array_def by argo
    also have "\<dots> = length old + 1"
      by (subst distinct_card) (auto simp: distinct_map)
    finally show "card (set I) = length I"
      using assms(1) by (simp add: suffix_array_def)
  qed
  then have "I ! 0 \<noteq> I ! nat k" using assms nth_eq_iff_index_eq[of I 0 "nat k"]
    by (simp add: suffix_array_def)
  moreover have "lex_le (drop (nat (I ! 0)) old) []"
    using suffix_array_sorted[OF assms(1), of 0 k] assms last by simp
  then have "drop (nat (I ! 0)) old = []" by (cases "drop (nat (I ! 0)) old") auto
  then have "I ! 0 = int (length old)" using suffix_array_range[OF assms(1), of 0] by simp
  ultimately show False using last by simp
qed

text \<open>The search returns a position in \<^verbatim>\<open>old\<close> and the length of the match there,
  and it finds a match whenever the first byte occurs.\<close>

lemma search_ok:
  assumes "suffix_array I old" "0 \<le> st" "st \<le> en" "en \<le> int (length old)" "new \<noteq> []"
  shows "\<exists>len pos. search I old new st en = Some (len, pos) \<and> 0 \<le> pos \<and> pos \<le> int (length old) \<and>
     0 \<le> len \<and> len \<le> int (length new) \<and> len = int (matchlen (drop (nat pos) old) new) \<and>
     ((\<exists>j. st \<le> j \<and> j \<le> en \<and> starts (drop (nat (I ! nat j)) old) (hd new)) \<longrightarrow> 0 < len)"
  using assms
proof (induction I old new st en rule: search.induct)
  case (1 I old new st en)
  note sa = "1.prems"(1)
  show ?case
  proof (cases "en - st < 2")
    case True
    have end_cases: "j = st \<or> j = en" if "st \<le> j" "j \<le> en" for j using True that by linarith
    have r1: "0 \<le> I ! nat st" "I ! nat st \<le> int (length old)" "rd I st = Some (I ! nat st)"
      using suffix_array_range[OF sa, of st] "1.prems" by auto
    have r2: "0 \<le> I ! nat en" "I ! nat en \<le> int (length old)" "rd I en = Some (I ! nat en)"
      using suffix_array_range[OF sa, of en] "1.prems" by auto
    define x where "x = matchlen (drop (nat (I ! nat st)) old) new"
    define y where "y = matchlen (drop (nat (I ! nat en)) old) new"
    have res: "search I old new st en =
        Some (if int x > int y then (int x, I ! nat st) else (int y, I ! nat en))"
      using True r1 r2 by (subst search.simps) (simp add: tail_of_Some x_def y_def Let_def)
    have le: "x \<le> length new" "y \<le> length new" unfolding x_def y_def by (rule matchlen_le)+
    have found: "0 < x \<or> 0 < y" if "st \<le> j" "j \<le> en" "starts (drop (nat (I ! nat j)) old) (hd new)" for j
      using end_cases[OF that(1,2)] that(3) matchlen_starts[OF "1.prems"(5)] unfolding x_def y_def by metis
    show ?thesis
    proof (cases "x > y")
      case True
      then show ?thesis using res le r1 found by (intro exI[of _ "int x"] exI[of _ "I ! nat st"]) (auto simp: x_def)
    next
      case False
      then show ?thesis using res le r2 found by (intro exI[of _ "int y"] exI[of _ "I ! nat en"]) (fastforce simp: y_def)
    qed
  next
    case False
    define x where "x = st + (en - st) div 2"
    have x: "st < x" "x < en" using False unfolding x_def by linarith+
    have r: "0 \<le> I ! nat x" "I ! nat x \<le> int (length old)" "rd I x = Some (I ! nat x)"
      using suffix_array_range[OF sa, of x] "1.prems" x by auto
    define sx where "sx = drop (nat (I ! nat x)) old"
    have tx: "tail_of old (I ! nat x) = Some sx" using r by (simp add: tail_of_Some sx_def)
    have ne: "sx \<noteq> []" unfolding sx_def using suffix_array_nonempty[OF sa, of x] x "1.prems" by simp
    show ?thesis
    proof (cases "memcmp sx new (min (length sx) (length new)) < 0")
      case True
      have eq: "search I old new st en = search I old new x en"
        using False True r tx by (subst search.simps) (simp add: Let_def flip: x_def)
      have right: "\<exists>j'. x \<le> j' \<and> j' \<le> en \<and> starts (drop (nat (I ! nat j')) old) (hd new)"
        if j: "st \<le> j" "j \<le> en" "starts (drop (nat (I ! nat j)) old) (hd new)" for j
      proof (cases "x \<le> j")
        case le: False
        have "lex_le (drop (nat (I ! nat j)) old) sx"
          unfolding sx_def using suffix_array_sorted[OF sa, of j x] le j x "1.prems" by simp
        from starts_mono_left[OF True "1.prems"(5) this j(3)] show ?thesis
          using x by (auto simp: sx_def)
      qed (use j in auto)
      from "1.IH"(1)[OF False x_def r(3) tx True sa] x "1.prems" right show ?thesis
        unfolding eq by fastforce
    next
      case ge: False
      have eq: "search I old new st en = search I old new st x"
        using False ge r tx by (subst search.simps) (simp add: Let_def flip: x_def)
      have left: "\<exists>j'. st \<le> j' \<and> j' \<le> x \<and> starts (drop (nat (I ! nat j')) old) (hd new)"
        if j: "st \<le> j" "j \<le> en" "starts (drop (nat (I ! nat j)) old) (hd new)" for j
      proof (cases "j \<le> x")
        case le: False
        have "lex_le sx (drop (nat (I ! nat j)) old)"
          unfolding sx_def using suffix_array_sorted[OF sa, of x j] le j x "1.prems" by simp
        from starts_mono_right[OF ge "1.prems"(5) ne this j(3)] show ?thesis
          using x by (intro exI[of _ x]) (simp add: sx_def)
      qed (use j in auto)
      from "1.IH"(2)[OF False x_def r(3) tx ge sa] x "1.prems" left show ?thesis
        unfolding eq by fastforce
    qed
  qed
qed

section \<open>The scan makes progress\<close>

text \<open>Positions of \<^verbatim>\<open>new\<close> whose byte the previous alignment already gives.\<close>

definition aligned :: "bytes \<Rightarrow> bytes \<Rightarrow> int \<Rightarrow> int \<Rightarrow> bool" where
  "aligned old new lo k \<longleftrightarrow>
     0 \<le> k \<and> k < int (length new) \<and> 0 \<le> k + lo \<and> k + lo < int (length old) \<and>
     old ! nat (k + lo) = new ! nat k"

definition aligned_count :: "bytes \<Rightarrow> bytes \<Rightarrow> int \<Rightarrow> int \<Rightarrow> int \<Rightarrow> int" where
  "aligned_count old new lo a b = int (card {k. a \<le> k \<and> k < b \<and> aligned old new lo k})"

lemma aligned_count_step:
  "a < b \<Longrightarrow> aligned_count old new lo a b =
     (if aligned old new lo a then 1 else 0) + aligned_count old new lo (a + 1) b"
proof -
  assume ab: "a < b"
  let ?R = "{k. a + 1 \<le> k \<and> k < b \<and> aligned old new lo k}"
  have eq: "{k. a \<le> k \<and> k < b \<and> aligned old new lo k} =
      (if aligned old new lo a then insert a ?R else ?R)"
    using ab by (auto simp: order_le_less)
  have "finite ?R" by (rule finite_subset[of _ "{a..b}"]) auto
  then show ?thesis unfolding aligned_count_def eq by simp
qed

lemma aligned_count_empty: "b \<le> a \<Longrightarrow> aligned_count old new lo a b = 0"
  by (simp add: aligned_count_def) (metis (no_types, lifting) card.empty Collect_empty_eq leD order_trans)

lemma aligned_count_nonneg: "0 \<le> aligned_count old new lo a b"
  by (simp add: aligned_count_def)

lemma aligned_count_split:
  "a \<le> b \<Longrightarrow> b \<le> c \<Longrightarrow> aligned_count old new lo a c =
     aligned_count old new lo a b + aligned_count old new lo b c"
proof (induction "nat (b - a)" arbitrary: a)
  case 0
  then show ?case by (simp add: aligned_count_empty)
next
  case (Suc n)
  then have "n = nat (b - (a + 1))" "a + 1 \<le> b" "a < b" "a < c" by auto
  with Suc.hyps(1)[of "a + 1"] Suc.prems show ?case
    by (simp add: aligned_count_step[of a b] aligned_count_step[of a c])
qed

lemma matches_at_Some:
  "\<lbrakk>0 \<le> k; k < int (length new); 0 \<le> k + lo\<rbrakk> \<Longrightarrow>
     matches_at old new lo k = Some (aligned old new lo k)"
  by (auto simp: matches_at_def aligned_def rd_Some)

lemma score_loop_ok:
  assumes "0 \<le> scsc" "0 \<le> scsc + lo" "hi \<le> int (length new)"
  shows "score_loop old new lo hi scsc sc =
    Some (max scsc hi, sc + aligned_count old new lo scsc hi)"
  using assms
proof (induction old new lo hi scsc sc rule: score_loop.induct)
  case (1 old new lo hi scsc sc)
  show ?case
  proof (cases "scsc < hi")
    case True
    have m: "matches_at old new lo scsc = Some (aligned old new lo scsc)"
      using True 1 by (intro matches_at_Some) auto
    show ?thesis
      using 1(1)[OF True m] 1 True aligned_count_step[OF True, of old new lo]
      by (subst score_loop.simps) (simp add: m)
  next
    case False
    then show ?thesis by (subst score_loop.simps) (simp add: aligned_count_empty)
  qed
qed

lemma search_whole:
  assumes "suffix_array I old" "0 \<le> scan" "scan < int (length new)"
  obtains len pos where
    "search I old (drop (nat scan) new) 0 (int (length old)) = Some (len, pos)"
    "0 \<le> pos" "pos \<le> int (length old)" "0 \<le> len" "scan + len \<le> int (length new)"
    "\<And>lo. aligned old new lo scan \<Longrightarrow> 0 < len"
proof -
  let ?new = "drop (nat scan) new"
  have ne: "?new \<noteq> []" using assms by simp
  have occ: "\<exists>j. 0 \<le> j \<and> j \<le> int (length old) \<and> starts (drop (nat (I ! nat j)) old) (hd ?new)"
    if "aligned old new lo scan" for lo
  proof -
    have r: "0 \<le> scan + lo" "scan + lo < int (length old)" "old ! nat (scan + lo) = new ! nat scan"
      using that by (auto simp: aligned_def)
    obtain j where "0 \<le> j" "j \<le> int (length old)" "I ! nat j = scan + lo"
      using suffix_array_occurs[OF assms(1), of "scan + lo"] r by auto
    moreover have "starts (drop (nat (scan + lo)) old) (hd ?new)"
      using r assms by (simp add: starts_def hd_drop_conv_nth)
    ultimately show ?thesis by metis
  qed
  obtain len pos where s: "search I old ?new 0 (int (length old)) = Some (len, pos)"
    "0 \<le> pos" "pos \<le> int (length old)" "0 \<le> len" "len \<le> int (length ?new)"
    "(\<exists>j. 0 \<le> j \<and> j \<le> int (length old) \<and> starts (drop (nat (I ! nat j)) old) (hd ?new)) \<longrightarrow> 0 < len"
    using search_ok[OF assms(1), of 0 "int (length old)" ?new] ne by auto
  show thesis
  proof (rule that[of len pos])
    show "scan + len \<le> int (length new)" using s(5) assms by simp
    show "0 < len" if "aligned old new lo scan" for lo using s(6) occ[OF that] by blast
  qed (use s in auto)
qed

lemma scan_loop_ok:
  assumes "suffix_array I old" "0 \<le> scan" "scan \<le> int (length new)" "0 \<le> scan + lo"
    "0 \<le> scsc" "0 \<le> scsc + lo" "scsc \<le> int (length new)"
    "aligned_count old new lo scan scsc \<le> sc"
    "scan = int (length new) \<longrightarrow> 0 \<le> pos \<and> pos \<le> int (length old)"
  shows "\<exists>scan' sc' len' pos'. scan_loop I old new lo scan scsc sc len pos = Some (scan', sc', len', pos') \<and>
     scan \<le> scan' \<and> scan' \<le> int (length new) \<and> 0 \<le> pos' \<and> pos' \<le> int (length old) \<and>
     (scan' = int (length new) \<or> 0 < len' \<and> scan' + len' \<le> int (length new))"
  using assms
proof (induction I old new lo scan scsc sc len pos rule: scan_loop.induct)
  case (1 I old new lo scan scsc sc len pos)
  show ?case
  proof (cases "scan < int (length new)")
    case False
    then show ?thesis using "1.prems" by (subst scan_loop.simps) auto
  next
    case True
    note p = "1.prems"
    obtain len' pos' where s: "search I old (drop (nat scan) new) 0 (int (length old)) = Some (len', pos')"
      and b: "0 \<le> pos'" "pos' \<le> int (length old)" "0 \<le> len'" "scan + len' \<le> int (length new)"
      and hit: "\<And>lo. aligned old new lo scan \<Longrightarrow> 0 < len'"
      using search_whole[OF p(1,2) True] by metis
    have t: "tail_of new scan = Some (drop (nat scan) new)" using p True by (simp add: tail_of_Some)
    define sc2 where "sc2 = sc + aligned_count old new lo scsc (scan + len')"
    define scsc2 where "scsc2 = max scsc (scan + len')"
    have sl: "score_loop old new lo (scan + len') scsc sc = Some (scsc2, sc2)"
      unfolding sc2_def scsc2_def using p b by (intro score_loop_ok) auto
    have cnt: "aligned_count old new lo scan scsc2 \<le> sc2"
    proof (cases "scan + len' \<le> scsc")
      case True
      then show ?thesis using p by (simp add: scsc2_def sc2_def aligned_count_empty)
    next
      case F: False
      show ?thesis
      proof (cases "scan \<le> scsc")
        case True
        then show ?thesis using F p aligned_count_split[of scan scsc "scan + len'" old new lo]
          by (simp add: scsc2_def sc2_def)
      next
        case False
        then show ?thesis using F p b aligned_count_split[of scsc scan "scan + len'" old new lo]
            aligned_count_nonneg[of old new lo scsc scan] aligned_count_nonneg[of old new lo scan scsc]
          by (simp add: scsc2_def sc2_def)
      qed
    qed
    have nn: "0 \<le> sc2" using cnt aligned_count_nonneg[of old new lo scan scsc2] by linarith
    show ?thesis
    proof (cases "(len' = sc2 \<and> len' \<noteq> 0) \<or> len' > sc2 + 8")
      case stop: True
      then have "scan_loop I old new lo scan scsc sc len pos = Some (scan, sc2, len', pos')"
        using True s t sl by (subst scan_loop.simps) simp
      then show ?thesis using stop nn b True by auto
    next
      case go: False
      define m where "m = aligned old new lo scan"
      have ma: "matches_at old new lo scan = Some m"
        unfolding m_def using p True by (intro matches_at_Some) auto
      have eq: "scan_loop I old new lo scan scsc sc len pos =
          scan_loop I old new lo (scan + 1) scsc2 (if m then sc2 - 1 else sc2) len' pos'"
        using True s t sl go ma by (subst scan_loop.simps) auto
      have cnt': "aligned_count old new lo (scan + 1) scsc2 \<le> (if m then sc2 - 1 else sc2)"
      proof (cases "scan < scsc2")
        case True
        then show ?thesis using cnt aligned_count_step[OF True, of old new lo] by (cases m) (auto simp: m_def)
      next
        case False
        then have "len' = 0" using b by (simp add: scsc2_def)
        then have "\<not> m" using hit unfolding m_def by auto
        then show ?thesis using False nn by (simp add: aligned_count_empty)
      qed
      have "scsc2 \<le> int (length new)" "0 \<le> scsc2" "0 \<le> scsc2 + lo" using p b by (auto simp: scsc2_def)
      then show ?thesis
        using "1.IH"[OF True t s refl sl refl go ma p(1)] p True b cnt' unfolding eq by fastforce
    qed
  qed
qed

section \<open>Where the blocks end\<close>

lemma same_byte_Some:
  "\<lbrakk>0 \<le> j; j < int (length old); 0 \<le> k; k < int (length new)\<rbrakk> \<Longrightarrow>
     same_byte old new j k = Some (old ! nat j = new ! nat k)"
  by (simp add: same_byte_def rd_Some)

lemma forward_loop_ok:
  assumes "0 \<le> i" "0 \<le> lenf" "lenf \<le> i" "0 \<le> lastscan" "scan \<le> int (length new)" "0 \<le> lastpos"
    "lastscan + i \<le> scan" "lastpos + i \<le> int (length old)"
  shows "\<exists>r. forward_loop old new scan lastscan lastpos i s Sf lenf = Some r \<and>
    0 \<le> r \<and> lastscan + r \<le> scan \<and> lastpos + r \<le> int (length old)"
  using assms
proof (induction old new scan lastscan lastpos i s Sf lenf rule: forward_loop.induct)
  case (1 old new scan lastscan lastpos i s Sf lenf)
  show ?case
  proof (cases "lastscan + i < scan \<and> lastpos + i < int (length old)")
    case True
    obtain m where m: "same_byte old new (lastpos + i) (lastscan + i) = Some m"
      using same_byte_Some[of "lastpos + i" old "lastscan + i" new] True 1 by auto
    show ?thesis using True "1.prems" "1.IH"[OF True m refl refl]
      by (subst forward_loop.simps) (auto simp: m Let_def)
  next
    case False
    then show ?thesis using "1.prems" by (subst forward_loop.simps) auto
  qed
qed

lemma backward_loop_ok:
  assumes "1 \<le> i" "0 \<le> lenb" "lenb < i" "0 \<le> lastscan" "scan \<le> int (length new)"
    "pos \<le> int (length old)" "lastscan + lenb \<le> scan" "lenb \<le> pos"
  shows "\<exists>r. backward_loop old new scan lastscan pos i s Sb lenb = Some r \<and>
    0 \<le> r \<and> lastscan + r \<le> scan \<and> r \<le> pos"
  using assms
proof (induction old new scan lastscan pos i s Sb lenb rule: backward_loop.induct)
  case (1 old new scan lastscan pos i s Sb lenb)
  show ?case
  proof (cases "scan \<ge> lastscan + i \<and> pos \<ge> i")
    case True
    obtain m where m: "same_byte old new (pos - i) (scan - i) = Some m"
      using same_byte_Some[of "pos - i" old "scan - i" new] True 1 by auto
    show ?thesis using True "1.prems" "1.IH"[OF True m refl]
      by (subst backward_loop.simps) (auto simp: m Let_def)
  next
    case False
    then show ?thesis using "1.prems" by (subst backward_loop.simps) auto
  qed
qed

lemma overlap_loop_ok:
  assumes "0 \<le> i" "i \<le> overlap" "0 \<le> lens" "lens \<le> i" "overlap \<le> newf" "newf \<le> int (length new)"
    "overlap \<le> oldf" "oldf \<le> int (length old)" "0 \<le> newb" "newb + overlap \<le> int (length new)"
    "0 \<le> oldb" "oldb + overlap \<le> int (length old)"
  shows "\<exists>r. overlap_loop old new newf oldf newb oldb overlap i s Ss lens = Some r \<and> 0 \<le> r \<and> r \<le> overlap"
  using assms
proof (induction old new newf oldf newb oldb overlap i s Ss lens rule: overlap_loop.induct)
  case (1 old new newf oldf newb oldb overlap i s Ss lens)
  show ?case
  proof (cases "i < overlap")
    case True
    obtain f where f: "same_byte old new (oldf - overlap + i) (newf - overlap + i) = Some f"
      using same_byte_Some[of "oldf - overlap + i" old "newf - overlap + i" new] True 1 by auto
    obtain b where b: "same_byte old new (oldb + i) (newb + i) = Some b"
      using same_byte_Some[of "oldb + i" old "newb + i" new] True 1 by auto
    show ?thesis using True "1.prems" "1.IH"[OF True f b refl refl]
      by (subst overlap_loop.simps) (auto simp: f b Let_def)
  next
    case False
    then show ?thesis using "1.prems" by (subst overlap_loop.simps) auto
  qed
qed

lemma choose_lens_ok:
  assumes "0 \<le> lastscan" "lastscan \<le> scan" "scan \<le> int (length new)"
    "0 \<le> lastpos" "lastpos \<le> int (length old)" "0 \<le> pos" "pos \<le> int (length old)"
  shows "\<exists>lenf lenb. choose_lens old new scan pos lastscan lastpos = Some (lenf, lenb) \<and>
     0 \<le> lenf \<and> 0 \<le> lenb \<and> lenb \<le> pos \<and> lastpos + lenf \<le> int (length old) \<and>
     lastscan + lenf \<le> scan - lenb \<and> (scan = int (length new) \<longrightarrow> lenb = 0)"
proof -
  obtain lf where f: "forward_loop old new scan lastscan lastpos 0 0 0 0 = Some lf"
    "0 \<le> lf" "lastscan + lf \<le> scan" "lastpos + lf \<le> int (length old)"
    using forward_loop_ok[of 0 0 lastscan scan new lastpos old 0 0] assms by auto
  obtain lb where b: "(if scan < int (length new) then backward_loop old new scan lastscan pos 1 0 0 0 else Some 0)
      = Some lb" "0 \<le> lb" "lastscan + lb \<le> scan" "lb \<le> pos" "scan = int (length new) \<longrightarrow> lb = 0"
    using backward_loop_ok[of 1 0 lastscan scan new pos old 0 0] assms
    by (cases "scan < int (length new)") auto
  show ?thesis
  proof (cases "lastscan + lf > scan - lb")
    case False
    then show ?thesis using f b by (intro exI[of _ lf] exI[of _ lb]) (simp add: choose_lens_def)
  next
    case True
    define ov where "ov = (lastscan + lf) - (scan - lb)"
    obtain l where l: "overlap_loop old new (lastscan + lf) (lastpos + lf) (scan - lb) (pos - lb) ov 0 0 0 0 = Some l"
      "0 \<le> l" "l \<le> ov"
      using overlap_loop_ok[of 0 ov 0 "lastscan + lf" new "lastpos + lf" old "scan - lb" "pos - lb" 0 0]
        f b assms True unfolding ov_def by fastforce
    have "choose_lens old new scan pos lastscan lastpos = Some (lf + (l - ov), lb - l)"
      using True f b l by (simp add: choose_lens_def Let_def flip: ov_def)
    then show ?thesis using f b l True assms unfolding ov_def
      by (intro exI[of _ "lf + (l - ov)"] exI[of _ "lb - l"]) (auto simp: ov_def)
  qed
qed

section \<open>What the control triples rebuild\<close>

text \<open>The meaning of a patch: each triple \<^verbatim>\<open>(x, y, z)\<close> adds \<^verbatim>\<open>x\<close> bytes of the diff
  block to the old file, copies \<^verbatim>\<open>y\<close> bytes of the extra block, and moves by
  \<^verbatim>\<open>z\<close> in the old file. A patch that leaves the old file
  has no meaning. The result is the output, the position in the old file and what is left
  of the two blocks.\<close>

definition add_old :: "bytes \<Rightarrow> int \<Rightarrow> bytes \<Rightarrow> bytes" where
  "add_old old p d =
     map (\<lambda>i. if 0 \<le> p + int i \<and> p + int i < int (length old) then d ! i + old ! nat (p + int i) else d ! i)
       [0..<length d]"

fun rebuild ::
  "bytes \<Rightarrow> (int \<times> int \<times> int) list \<Rightarrow> int \<Rightarrow> bytes \<Rightarrow> bytes \<Rightarrow> (bytes \<times> int \<times> bytes \<times> bytes) option" where
  "rebuild old [] p d e = Some ([], p, d, e)"
| "rebuild old ((x, y, z) # cs) p d e =
     (if 0 \<le> x \<and> x \<le> int (length d) \<and> 0 \<le> y \<and> y \<le> int (length e) \<and>
         0 \<le> p \<and> p + x \<le> int (length old) then do {
        (out, p', d', e') \<leftarrow> rebuild old cs (p + x + z) (drop (nat x) d) (drop (nat y) e);
        Some (add_old old p (take (nat x) d) @ take (nat y) e @ out, p', d', e')
      } else None)"

lemma rebuild_append:
  "rebuild old (cs @ ds) p d e = do {
     (out, p', d', e') \<leftarrow> rebuild old cs p d e;
     (out', p'', d'', e'') \<leftarrow> rebuild old ds p' d' e';
     Some (out @ out', p'', d'', e'')
   }"
proof (induction cs arbitrary: p d e)
  case Nil
  then show ?case by (cases "rebuild old ds p d e") auto
next
  case (Cons c cs)
  obtain x y z where c: "c = (x, y, z)" by (cases c)
  show ?case unfolding c by (auto simp: Cons.IH split: bind_split)
qed

lemma rebuild_more:
  "rebuild old cs p d e = Some (out, p', d', e') \<Longrightarrow>
   rebuild old cs p (d @ dx) (e @ ex) = Some (out, p', d' @ dx, e' @ ex)"
proof (induction cs arbitrary: p d e out)
  case Nil
  then show ?case by simp
next
  case (Cons c cs)
  obtain x y z where c: "c = (x, y, z)" by (cases c)
  from Cons.prems obtain out' where g: "0 \<le> x" "x \<le> int (length d)" "0 \<le> y" "y \<le> int (length e)"
      "0 \<le> p" "p + x \<le> int (length old)"
    and r: "rebuild old cs (p + x + z) (drop (nat x) d) (drop (nat y) e) = Some (out', p', d', e')"
    and o: "out = add_old old p (take (nat x) d) @ take (nat y) e @ out'"
    by (auto simp: c split: bind_splits if_splits)
  from Cons.IH[OF r] g o show ?case by (simp add: c)
qed

lemma add_old_diff:
  assumes "0 \<le> p" "p + int (length n) \<le> int (length old)"
  shows "add_old old p (map2 (-) n (take (length n) (drop (nat p) old))) = n"
proof (rule nth_equalityI)
  have len: "length (take (length n) (drop (nat p) old)) = length n" using assms by simp
  then show "length (add_old old p (map2 (-) n (take (length n) (drop (nat p) old)))) = length n"
    by (simp add: add_old_def)
  fix i assume "i < length (add_old old p (map2 (-) n (take (length n) (drop (nat p) old))))"
  then have i: "i < length n" using len by (simp add: add_old_def)
  then have "nat (p + int i) = nat p + i" using assms by (simp add: nat_add_distrib)
  then show "add_old old p (map2 (-) n (take (length n) (drop (nat p) old))) ! i = n ! i"
    using i assms by (simp add: add_old_def)
qed

lemma slice_Some:
  "\<lbrakk>0 \<le> i; 0 \<le> n; i + n \<le> int (length xs)\<rbrakk> \<Longrightarrow> slice xs i n = Some (take (nat n) (drop (nat i) xs))"
  by (simp add: slice_def)

section \<open>The invariant of the outer loop\<close>

definition triple_ok :: "nat \<Rightarrow> nat \<Rightarrow> int \<times> int \<times> int \<Rightarrow> bool" where
  "triple_ok oldsize newsize = (\<lambda>(x, y, z).
     0 \<le> x \<and> x \<le> int newsize \<and> 0 \<le> y \<and> y \<le> int newsize \<and> \<bar>z\<bar> \<le> int oldsize)"

definition diff_inv :: "bytes \<Rightarrow> bytes \<Rightarrow> diff_state \<Rightarrow> bool" where
  "diff_inv old new st \<longleftrightarrow>
     0 \<le> ds_lastscan st \<and> ds_lastscan st \<le> ds_scan st \<and> ds_scan st \<le> int (length new) \<and>
     0 \<le> ds_lastpos st \<and> ds_lastpos st \<le> int (length old) \<and>
     0 \<le> ds_pos st \<and> ds_pos st \<le> int (length old) \<and>
     0 \<le> ds_scan st + ds_lastoffset st \<and>
     length (ds_db st) + length (ds_eb st) = nat (ds_lastscan st) \<and>
     list_all (triple_ok (length old) (length new)) (ds_ctrl st) \<and>
     rebuild old (ds_ctrl st) 0 (ds_db st) (ds_eb st) =
       Some (take (nat (ds_lastscan st)) new, ds_lastpos st, [], [])"

text \<open>Between two rounds: the last round of a file emitted everything, and any other one leaves
  a match that the next round skips.\<close>

definition diff_ready :: "bytes \<Rightarrow> diff_state \<Rightarrow> bool" where
  "diff_ready new st \<longleftrightarrow>
     (if ds_scan st = int (length new) then ds_lastscan st = int (length new)
      else 0 \<le> ds_len st \<and> ds_scan st + ds_len st \<le> int (length new))"

lemma emit_ok:
  assumes inv: "diff_inv old new st"
  shows "\<exists>st'. emit old new st = Some st' \<and> diff_inv old new st' \<and> ds_scan st' = ds_scan st \<and>
    ds_len st' = ds_len st \<and> (ds_scan st = int (length new) \<longrightarrow> ds_lastscan st' = int (length new))"
proof -
  define scan pos ls lp where defs: "scan = ds_scan st" "pos = ds_pos st" "ls = ds_lastscan st" "lp = ds_lastpos st"
  have i: "0 \<le> ls" "ls \<le> scan" "scan \<le> int (length new)" "0 \<le> lp" "lp \<le> int (length old)"
    "0 \<le> pos" "pos \<le> int (length old)" and cl: "length (ds_db st) + length (ds_eb st) = nat ls"
    and ok: "list_all (triple_ok (length old) (length new)) (ds_ctrl st)"
    and rb: "rebuild old (ds_ctrl st) 0 (ds_db st) (ds_eb st) = Some (take (nat ls) new, lp, [], [])"
    using inv by (simp_all add: diff_inv_def defs)
  obtain lf lb where c: "choose_lens old new scan pos ls lp = Some (lf, lb)"
    and r: "0 \<le> lf" "0 \<le> lb" "lb \<le> pos" "lp + lf \<le> int (length old)" "ls + lf \<le> scan - lb"
      "scan = int (length new) \<longrightarrow> lb = 0"
    using choose_lens_ok[of ls scan new lp old pos] i by auto
  define y where "y = (scan - lb) - (ls + lf)"
  define n where "n = take (nat lf) (drop (nat ls) new)"
  define e where "e = take (nat y) (drop (nat (ls + lf)) new)"
  define d where "d = map2 (-) n (take (nat lf) (drop (nat lp) old))"
  have y: "0 \<le> y" "y \<le> int (length new)" using i r by (auto simp: y_def)
  have s: "slice new ls lf = Some n" "slice old lp lf = Some (take (nat lf) (drop (nat lp) old))"
    "slice new (ls + lf) y = Some e"
    using i r y by (auto simp: slice_Some n_def e_def y_def)
  define st' where "st' = st\<lparr> ds_db := ds_db st @ d, ds_eb := ds_eb st @ e,
      ds_ctrl := ds_ctrl st @ [(lf, y, (pos - lb) - (lp + lf))],
      ds_lastscan := scan - lb, ds_lastpos := pos - lb, ds_lastoffset := pos - scan \<rparr>"
  have em: "emit old new st = Some st'"
    unfolding emit_def st'_def by (simp add: Let_def c s d_def flip: defs y_def)
  have len: "length n = nat lf" "length e = nat y" "length d = nat lf"
    using i r by (auto simp: n_def e_def d_def y_def)
  have add: "add_old old lp d = n"
    using add_old_diff[of lp n old] i r len by (simp add: d_def)
  have parts: "take (nat (scan - lb)) new = take (nat ls) new @ n @ e"
  proof -
    have eq: "nat (scan - lb) = nat ls + (nat lf + nat y)" "nat (ls + lf) = nat ls + nat lf"
      using i r by (auto simp: y_def)
    show ?thesis unfolding eq(1) take_add n_def e_def eq(2) by (simp add: add.commute)
  qed
  have "rebuild old (ds_ctrl st') 0 (ds_db st') (ds_eb st') =
      Some (take (nat (scan - lb)) new, pos - lb, [], [])"
    using rebuild_more[OF rb, of d e] len add r y i
    by (simp add: st'_def rebuild_append parts)
  moreover have "triple_ok (length old) (length new) (lf, y, (pos - lb) - (lp + lf))"
    using i r y by (auto simp: triple_ok_def)
  moreover have "length (ds_db st') + length (ds_eb st') = nat (ds_lastscan st')"
    using cl len i r by (auto simp: st'_def y_def)
  ultimately have "diff_inv old new st'"
    using i r ok by (auto simp: diff_inv_def st'_def simp flip: defs)
  then show ?thesis using em r by (auto simp: st'_def simp flip: defs)
qed

lemma diff_step_ok:
  assumes sa: "suffix_array I old" and inv: "diff_inv old new st" and ready: "diff_ready new st"
    and more: "ds_scan st < int (length new)"
  shows "\<exists>st'. diff_step I old new st = Some st' \<and> diff_inv old new st' \<and> diff_ready new st' \<and>
    (ds_scan st' = int (length new) \<or> ds_scan st + ds_len st < ds_scan st' + ds_len st')"
proof -
  define start where "start = ds_scan st + ds_len st"
  have st0: "0 \<le> start" "start \<le> int (length new)" "0 \<le> start + ds_lastoffset st" "ds_lastscan st \<le> start"
    using inv ready more by (auto simp: diff_inv_def diff_ready_def start_def)
  obtain scan sc len pos where
    l: "scan_loop I old new (ds_lastoffset st) start start 0 (ds_len st) (ds_pos st) = Some (scan, sc, len, pos)"
    and b: "start \<le> scan" "scan \<le> int (length new)" "0 \<le> pos" "pos \<le> int (length old)"
      "scan = int (length new) \<or> 0 < len \<and> scan + len \<le> int (length new)"
    using scan_loop_ok[OF sa, of start new "ds_lastoffset st" start 0 "ds_pos st" "ds_len st"] st0 inv
    by (auto simp: aligned_count_empty diff_inv_def)
  define st1 where "st1 = st\<lparr> ds_scan := scan, ds_len := len, ds_pos := pos \<rparr>"
  have step: "diff_step I old new st =
      (if len \<noteq> sc \<or> scan = int (length new) then emit old new st1 else Some st1)"
    unfolding diff_step_def st1_def using l by (simp add: Let_def flip: start_def)
  have inv1: "diff_inv old new st1"
    using inv st0 b by (auto simp: diff_inv_def st1_def)
  have up: "scan = int (length new) \<or> start < scan + len" using b by auto
  show ?thesis
  proof (cases "len \<noteq> sc \<or> scan = int (length new)")
    case True
    obtain st' where "emit old new st1 = Some st'" "diff_inv old new st'" "ds_scan st' = scan" "ds_len st' = len"
      "scan = int (length new) \<longrightarrow> ds_lastscan st' = int (length new)"
      using emit_ok[OF inv1] by (auto simp: st1_def)
    then show ?thesis using True b up step by (auto simp: diff_ready_def start_def)
  next
    case False
    then show ?thesis using b up inv1 step by (auto simp: st1_def diff_ready_def start_def)
  qed
qed

lemma diff_loop_ok:
  assumes "suffix_array I old" "diff_inv old new st" "diff_ready new st"
  shows "\<exists>st'. diff_loop I old new st = Some st' \<and> diff_inv old new st' \<and>
    ds_lastscan st' = int (length new)"
  using assms
proof (induction "if ds_scan st < int (length new) then Suc (nat (int (length new) - (ds_scan st + ds_len st))) else 0"
    arbitrary: st rule: less_induct)
  case less
  show ?case
  proof (cases "ds_scan st < int (length new)")
    case True
    obtain st' where s: "diff_step I old new st = Some st'" "diff_inv old new st'" "diff_ready new st'"
      "ds_scan st' = int (length new) \<or> ds_scan st + ds_len st < ds_scan st' + ds_len st'"
      using diff_step_ok[OF less.prems True] by auto
    have "(if ds_scan st' < int (length new) then Suc (nat (int (length new) - (ds_scan st' + ds_len st'))) else 0)
      < (if ds_scan st < int (length new) then Suc (nat (int (length new) - (ds_scan st + ds_len st))) else 0)"
      using s True by (auto simp: diff_ready_def split: if_splits)
    from less.hyps[OF this less.prems(1) s(2,3)] show ?thesis
      using True s(1) by (subst diff_loop.simps) simp
  next
    case False
    then have "ds_scan st = int (length new)" using less.prems by (simp add: diff_inv_def)
    then show ?thesis using False less.prems by (subst diff_loop.simps) (simp add: diff_ready_def)
  qed
qed

text \<open>The scan of two files ends, and its triples rebuild the new file from the old one.\<close>

lemma diff_rebuilds:
  assumes "suffix_array I old"
  obtains st where "diff_loop I old new diff_init = Some st"
    "rebuild old (ds_ctrl st) 0 (ds_db st) (ds_eb st) = Some (new, ds_lastpos st, [], [])"
    "list_all (triple_ok (length old) (length new)) (ds_ctrl st)"
    "length (ds_db st) + length (ds_eb st) = length new"
proof -
  have "diff_inv old new diff_init" "diff_ready new diff_init"
    by (auto simp: diff_inv_def diff_ready_def diff_init_def)
  from diff_loop_ok[OF assms this] show thesis by (auto simp: diff_inv_def intro!: that)
qed

end
