(* ===== verification/Bs_Patch.thy ===== *)
theory Bs_Patch
  imports Bs_Diff
begin

text \<open>
  The patch applier of \<^verbatim>\<open>src/applypatch/bspatch.c\<close>. libbz2, \<^verbatim>\<open>malloc\<close>, the sink and the
  SHA-1 code are arguments. A buffer is a list of bytes; a write outside it is
  \<^const>\<open>OutOfBounds\<close>, a signed 64-bit overflow is \<^const>\<open>IntOverflow\<close>, and a call of
  \<^verbatim>\<open>FillBuffer\<close> that never ends is \<^const>\<open>None\<close>. \<^verbatim>\<open>patch\<close> is \<^verbatim>\<open>patch->data\<close>, whose length
  is \<^verbatim>\<open>patch->size\<close>.
\<close>

section \<open>libbz2\<close>

text \<open>\<^verbatim>\<open>bz_init\<close> is \<^verbatim>\<open>BZ2_bzDecompressInit\<close> on a stream whose input is the given
  bytes; \<^verbatim>\<open>bz_decompress\<close> is \<^verbatim>\<open>BZ2_bzDecompress\<close> on a stream with room for so many bytes:
  the code it returns, the bytes it stores, and the stream after the call.\<close>

record 'z bzlib =
  bz_init :: "bytes \<Rightarrow> int \<times> 'z"
  bz_decompress :: "'z \<Rightarrow> nat \<Rightarrow> int \<times> bytes \<times> 'z"

definition BZ_OK :: int where "BZ_OK = 0"
definition BZ_STREAM_END :: int where "BZ_STREAM_END = 4"

section \<open>FillBuffer\<close>

text \<open>\<^verbatim>\<open>room\<close> is the number of bytes between \<^verbatim>\<open>buffer\<close> and the end of its object;
  \<^verbatim>\<open>acc\<close> holds the bytes stored so far.\<close>

partial_function (option) fill_loop ::
  "('z, 'r) bzlib_scheme \<Rightarrow> int \<Rightarrow> nat \<Rightarrow> bytes \<Rightarrow> 'z \<Rightarrow> (int \<times> bytes \<times> 'z) run" where
  "fill_loop lib room avail_out acc stream =
     (if avail_out > 0 then
        (case bz_decompress lib stream avail_out of (bzerr, out, stream') \<Rightarrow>
           if out \<noteq> [] \<and> int (length (acc @ out)) > room then Some (Inl OutOfBounds)
           else if bzerr \<noteq> BZ_OK \<and> bzerr \<noteq> BZ_STREAM_END then Some (Ok (-1, acc @ out, stream'))
           else fill_loop lib room (avail_out - length out) (acc @ out) stream')
      else Some (Ok (0, acc, stream)))"

declare fill_loop.simps [code]

text \<open>\<^verbatim>\<open>size\<close> arrives as an \<^verbatim>\<open>int\<close> and is stored in the unsigned field \<^verbatim>\<open>avail_out\<close>.\<close>

definition FillBuffer ::
  "('z, 'r) bzlib_scheme \<Rightarrow> int \<Rightarrow> int \<Rightarrow> 'z \<Rightarrow> (int \<times> bytes \<times> 'z) run" where
  "FillBuffer lib room sz stream = fill_loop lib room (unat (word_of_int sz :: u32)) [] stream"

text \<open>The call \<^verbatim>\<open>FillBuffer(*new_data + newpos, n, stream)\<close>.\<close>

definition put_at :: "bytes \<Rightarrow> int \<Rightarrow> bytes \<Rightarrow> bytes" where
  "put_at buf p xs = take (nat p) buf @ xs @ drop (nat p + length xs) buf"

definition fill_into ::
  "('z, 'r) bzlib_scheme \<Rightarrow> bytes \<Rightarrow> int \<Rightarrow> int \<Rightarrow> 'z \<Rightarrow> (int \<times> bytes \<times> 'z) run" where
  "fill_into lib new_data newpos n stream =
     run_then (FillBuffer lib (if newpos < 0 then 0 else int (length new_data) - newpos) n stream)
       (\<lambda>(rc, out, stream'). Some (Ok (rc, if out = [] then new_data else put_at new_data newpos out, stream')))"

section \<open>ApplyBSDiffPatchMem\<close>

text \<open>The loop that adds old data, from index \<^verbatim>\<open>i\<close> for \<^verbatim>\<open>n\<close> more rounds.\<close>

fun add_loop :: "bytes \<Rightarrow> int \<Rightarrow> int \<Rightarrow> int \<Rightarrow> int \<Rightarrow> nat \<Rightarrow> bytes \<Rightarrow> bytes outcome" where
  "add_loop old_data old_size oldpos newpos i 0 new_data = Ok new_data"
| "add_loop old_data old_size oldpos newpos i (Suc n) new_data =
     (if oldpos + i \<ge> 0 \<and> oldpos + i < old_size then
        if oldpos + i < int (length old_data) \<and> 0 \<le> newpos + i \<and> newpos + i < int (length new_data)
        then add_loop old_data old_size oldpos newpos (i + 1) n
               (new_data[nat (newpos + i) := new_data ! nat (newpos + i) + old_data ! nat (oldpos + i)])
        else Inl OutOfBounds
      else add_loop old_data old_size oldpos newpos (i + 1) n new_data)"

record 'z patch_state =
  ps_oldpos :: int
  ps_newpos :: int
  ps_new :: bytes
  ps_c :: 'z
  ps_d :: 'z
  ps_e :: 'z

text \<open>\<^verbatim>\<open>ctrl[0]\<close>, \<^verbatim>\<open>ctrl[1]\<close> and \<^verbatim>\<open>ctrl[2]\<close> out of the 24 bytes of \<^verbatim>\<open>buf\<close>.\<close>

definition read_ctrl :: "bytes \<Rightarrow> (int \<times> int \<times> int) outcome" where
  "read_ctrl buf =
     (case (offtin buf, offtin (drop 8 buf), offtin (drop 16 buf)) of
        (Some x, Some y, Some z) \<Rightarrow> Ok (x, y, z)
      | _ \<Rightarrow> Inl OutOfBounds)"

text \<open>The part of the loop body for the diff string: the sanity check, the read, the addition
  with its \<^verbatim>\<open>int\<close> counter, and the two pointers.\<close>

definition diff_part ::
  "('z, 'r) bzlib_scheme \<Rightarrow> bytes \<Rightarrow> int \<Rightarrow> int \<Rightarrow> int \<Rightarrow> 'z patch_state \<Rightarrow> (int, 'z patch_state) flow run" where
  "diff_part lib old_data old_size new_size x st =
     run_then (Some (c_off (ps_newpos st + x))) (\<lambda>end_pos.
       if end_pos > new_size then Some (Ok (Return 1))
       else run_then (fill_into lib (ps_new st) (ps_newpos st) x (ps_d st)) (\<lambda>(rc, new_data, d).
         if rc \<noteq> 0 then Some (Ok (Return 1))
         else if x \<ge> 2 ^ 31 then Some (Inl IntOverflow)
         else run_then (Some (add_loop old_data old_size (ps_oldpos st) (ps_newpos st) 0 (nat x) new_data)) (\<lambda>new_data.
           run_then (Some (c_off (ps_oldpos st + x))) (\<lambda>oldpos.
             Some (Ok (Continue (st\<lparr> ps_new := new_data, ps_d := d, ps_newpos := end_pos, ps_oldpos := oldpos \<rparr>)))))))"

definition extra_part ::
  "('z, 'r) bzlib_scheme \<Rightarrow> int \<Rightarrow> int \<Rightarrow> int \<Rightarrow> 'z patch_state \<Rightarrow> (int, 'z patch_state) flow run" where
  "extra_part lib new_size y z st =
     run_then (Some (c_off (ps_newpos st + y))) (\<lambda>end_pos.
       if end_pos > new_size then Some (Ok (Return 1))
       else run_then (fill_into lib (ps_new st) (ps_newpos st) y (ps_e st)) (\<lambda>(rc, new_data, e).
         if rc \<noteq> 0 then Some (Ok (Return 1))
         else run_then (Some (c_off (ps_oldpos st + z))) (\<lambda>oldpos.
             Some (Ok (Continue (st\<lparr> ps_new := new_data, ps_e := e, ps_newpos := end_pos, ps_oldpos := oldpos \<rparr>))))))"

definition patch_step ::
  "('z, 'r) bzlib_scheme \<Rightarrow> bytes \<Rightarrow> int \<Rightarrow> int \<Rightarrow> 'z patch_state \<Rightarrow> (int, 'z patch_state) flow run" where
  "patch_step lib old_data old_size new_size st =
     run_then (FillBuffer lib 24 24 (ps_c st)) (\<lambda>(rc, buf, c).
       if rc \<noteq> 0 then Some (Ok (Return 1))
       else run_then (Some (read_ctrl buf)) (\<lambda>(x, y, z).
         run_then (diff_part lib old_data old_size new_size x (st\<lparr> ps_c := c \<rparr>)) (\<lambda>r.
           case r of Return rc \<Rightarrow> Some (Ok (Return rc))
           | Continue st \<Rightarrow> extra_part lib new_size y z st)))"

partial_function (option) patch_loop ::
  "('z, 'r) bzlib_scheme \<Rightarrow> bytes \<Rightarrow> int \<Rightarrow> int \<Rightarrow> 'z patch_state \<Rightarrow> (int \<times> bytes) run" where
  "patch_loop lib old_data old_size new_size st =
     (if ps_newpos st < new_size then
        (case patch_step lib old_data old_size new_size st of
           None \<Rightarrow> None
         | Some r \<Rightarrow>
             (case r of Inl e \<Rightarrow> Some (Inl e)
              | Inr f \<Rightarrow>
                  (case f of Return rc \<Rightarrow> Some (Ok (rc, []))
                   | Continue st' \<Rightarrow> patch_loop lib old_data old_size new_size st')))
      else Some (Ok (0, ps_new st)))"

declare patch_loop.simps [code]

text \<open>The input of a \<^verbatim>\<open>bz_stream\<close> with \<^verbatim>\<open>next_in = patch->data + at\<close> and
  \<^verbatim>\<open>avail_in = len\<close>, an unsigned field.\<close>

definition stream_input :: "bytes \<Rightarrow> int \<Rightarrow> int \<Rightarrow> bytes outcome" where
  "stream_input patch at len =
     (let n = uint (word_of_int len :: u32)
      in if 0 \<le> at \<and> at + n \<le> int (length patch)
         then Ok (take (nat n) (drop (nat at) patch)) else Inl OutOfBounds)"

text \<open>The header: \<^verbatim>\<open>ctrl_len\<close>, \<^verbatim>\<open>data_len\<close> and \<^verbatim>\<open>new_size\<close>.\<close>

definition read_header :: "bytes \<Rightarrow> int \<Rightarrow> (int, int \<times> int \<times> int) flow outcome" where
  "read_header patch patch_offset =
     (if patch_offset < 0 \<or> int (length patch) < patch_offset + 8 then Inl OutOfBounds
      else
        let header = drop (nat patch_offset) patch
        in if memcmp header bsdiff_magic 8 \<noteq> 0 then Ok (Return 1)
           else case (offtin (drop 8 header), offtin (drop 16 header), offtin (drop 24 header)) of
             (Some ctrl_len, Some data_len, Some new_size) \<Rightarrow>
                if ctrl_len < 0 \<or> data_len < 0 \<or> new_size < 0 then Ok (Return 1)
                else Ok (Continue (ctrl_len, data_len, new_size))
           | _ \<Rightarrow> Inl OutOfBounds)"

text \<open>A failing \<^verbatim>\<open>BZ2_bzDecompressInit\<close> is only reported. The result is the return code and
  \<^verbatim>\<open>*new_data\<close>, which has \<^verbatim>\<open>*new_size\<close> bytes when the code is 0.\<close>

definition ApplyBSDiffPatchMem ::
  "('z, 'r) bzlib_scheme \<Rightarrow> (nat \<Rightarrow> bytes option) \<Rightarrow> bytes \<Rightarrow> int \<Rightarrow> bytes \<Rightarrow> int \<Rightarrow> (int \<times> bytes) run" where
  "ApplyBSDiffPatchMem lib malloc old_data old_size patch patch_offset =
     run_then (Some (read_header patch patch_offset)) (\<lambda>h. case h of
       Return rc \<Rightarrow> Some (Ok (rc, []))
     | Continue (ctrl_len, data_len, new_size) \<Rightarrow>
         run_then (Some (stream_input patch (patch_offset + 32) ctrl_len)) (\<lambda>cin.
         run_then (Some (stream_input patch (patch_offset + 32 + ctrl_len) data_len)) (\<lambda>din.
         run_then (Some (stream_input patch (patch_offset + 32 + ctrl_len + data_len)
                      (int (length patch) - (patch_offset + 32 + ctrl_len + data_len)))) (\<lambda>ein.
         case malloc (nat new_size) of
           None \<Rightarrow> Some (Ok (1, []))
         | Some new_data \<Rightarrow>
             patch_loop lib old_data old_size new_size
               \<lparr> ps_oldpos = 0, ps_newpos = 0, ps_new = new_data,
                 ps_c = snd (bz_init lib cin), ps_d = snd (bz_init lib din),
                 ps_e = snd (bz_init lib ein) \<rparr>))))"

section \<open>ApplyBSDiffPatch\<close>

text \<open>A sink takes bytes and its token and returns how many it wrote, with the token after the
  call; a SHA-1 context is absorbed into by an argument.\<close>

type_synonym 't sink = "bytes \<Rightarrow> 't \<Rightarrow> int \<times> 't"

definition ApplyBSDiffPatch ::
  "('z, 'r) bzlib_scheme \<Rightarrow> (nat \<Rightarrow> bytes option) \<Rightarrow> ('c \<Rightarrow> bytes \<Rightarrow> 'c) \<Rightarrow> bytes \<Rightarrow> int \<Rightarrow> bytes \<Rightarrow> int \<Rightarrow>
   't sink \<Rightarrow> 't \<Rightarrow> 'c option \<Rightarrow> (int \<times> 't \<times> 'c option) run" where
  "ApplyBSDiffPatch lib malloc SHA_update old_data old_size patch patch_offset sink token ctx =
     run_then (ApplyBSDiffPatchMem lib malloc old_data old_size patch patch_offset) (\<lambda>(rc, new_data).
       if rc \<noteq> 0 then Some (Ok (-1, token, ctx))
       else case sink new_data token of (n, token') \<Rightarrow>
         if n < int (length new_data) then Some (Ok (1, token', ctx))
         else Some (Ok (0, token', map_option (\<lambda>c. SHA_update c new_data) ctx)))"

section \<open>Streams that deliver their content\<close>

text \<open>\<^verbatim>\<open>R z bs\<close> says that the stream \<^verbatim>\<open>z\<close> has the bytes \<^verbatim>\<open>bs\<close> left to deliver. Each call
  delivers a nonempty part of them that fits the room, with a code that is not an error.\<close>

definition bz_delivers :: "('z, 'r) bzlib_scheme \<Rightarrow> ('z \<Rightarrow> bytes \<Rightarrow> bool) \<Rightarrow> bool" where
  "bz_delivers lib R \<longleftrightarrow>
     (\<forall>z bs n. R z bs \<and> bs \<noteq> [] \<and> 0 < n \<longrightarrow>
        (\<exists>err out z' bs'. bz_decompress lib z n = (err, out, z') \<and> (err = BZ_OK \<or> err = BZ_STREAM_END) \<and>
           out \<noteq> [] \<and> length out \<le> n \<and> bs = out @ bs' \<and> R z' bs'))"

text \<open>What the compressor wrote, whatever follows it in the file, opens as a stream of what was
  given to the compressor.\<close>

definition bz_inverse ::
  "(bytes list \<Rightarrow> bytes option) \<Rightarrow> ('z, 'r) bzlib_scheme \<Rightarrow> ('z \<Rightarrow> bytes \<Rightarrow> bool) \<Rightarrow> bool" where
  "bz_inverse bz lib R \<longleftrightarrow>
     (\<forall>ws. \<exists>comp. bz ws = Some comp \<and>
        (\<forall>rest. fst (bz_init lib (comp @ rest)) = BZ_OK \<and> R (snd (bz_init lib (comp @ rest))) (concat ws)))"

lemma fill_loop_delivers:
  assumes "bz_delivers lib R" "R z (bs @ rest)" "int (length acc + length bs) \<le> room"
  shows "\<exists>z'. fill_loop lib room (length bs) acc z = Some (Ok (0, acc @ bs, z')) \<and> R z' rest"
  using assms(2,3)
proof (induction "length bs" arbitrary: bs acc z rule: less_induct)
  case less
  show ?case
  proof (cases "bs = []")
    case True
    then show ?thesis using less.prems by (subst fill_loop.simps) simp
  next
    case False
    then obtain err out z' bs' where d: "bz_decompress lib z (length bs) = (err, out, z')"
      "err = BZ_OK \<or> err = BZ_STREAM_END" "out \<noteq> []" "length out \<le> length bs" "bs @ rest = out @ bs'" "R z' bs'"
      using assms(1)[unfolded bz_delivers_def, rule_format, of z "bs @ rest" "length bs"] less.prems by auto
    define b2 where "b2 = drop (length out) bs"
    have "take (length out) (bs @ rest) = out" using d(5) by simp
    then have bs: "bs = out @ b2" using d(4) unfolding b2_def by (metis append_take_drop_id take_append
        diff_is_0_eq take0 append_Nil2)
    have bs': "bs' = b2 @ rest" using d(5) bs by simp
    have "length b2 < length bs" using bs d(3) by simp
    from less.hyps[OF this, of z' "acc @ out"] d(6) less.prems bs bs' obtain z2 where
      "fill_loop lib room (length b2) (acc @ out) z' = Some (Ok (0, (acc @ out) @ b2, z2))" "R z2 rest"
      by auto
    then show ?thesis using False d(1-4) less.prems bs
      by (subst fill_loop.simps) (auto simp: Let_def)
  qed
qed

lemma FillBuffer_delivers:
  assumes "bz_delivers lib R" "R z (bs @ rest)" "int (length bs) = n" "n \<le> room" "n < 2 ^ 31"
  shows "\<exists>z'. FillBuffer lib room n z = Some (Ok (0, bs, z')) \<and> R z' rest"
proof -
  have "unat (word_of_int n :: u32) = length bs"
    using assms(3,5) by (simp add: unat_eq_nat_uint uint_word_of_int take_bit_eq_mod)
  then show ?thesis
    using fill_loop_delivers[OF assms(1,2), of "[]" room] assms by (simp add: FillBuffer_def)
qed

lemma length_put_at [simp]:
  "0 \<le> p \<Longrightarrow> p + int (length xs) \<le> int (length buf) \<Longrightarrow> length (put_at buf p xs) = length buf"
  by (simp add: put_at_def)

lemma put_at_append:
  "put_at (fin @ junk) (int (length fin)) xs = fin @ xs @ drop (length xs) junk"
  by (simp add: put_at_def)

text \<open>The part of the output buffer that is already right is followed by bytes still to be
  written.\<close>

lemma fill_into_delivers:
  assumes "bz_delivers lib R" "R z (bs @ rest)" "int (length bs) = n" "length bs \<le> length junk" "n < 2 ^ 31"
  shows "\<exists>z'. fill_into lib (fin @ junk) (int (length fin)) n z =
      Some (Ok (0, fin @ bs @ drop (length bs) junk, z')) \<and> R z' rest"
proof -
  have "n \<le> (if int (length fin) < 0 then 0 else int (length (fin @ junk)) - int (length fin))"
    using assms by simp
  from FillBuffer_delivers[OF assms(1,2,3) this assms(5)] obtain z' where
    "FillBuffer lib (if int (length fin) < 0 then 0 else int (length (fin @ junk)) - int (length fin)) n z
     = Some (Ok (0, bs, z'))" "R z' rest" by auto
  then show ?thesis unfolding fill_into_def by (auto simp: put_at_append)
qed

lemma add_loop_ok:
  assumes "0 \<le> p" "p + int (i + n) \<le> int (length old)" "length seg = n" "length pre = i"
  shows "add_loop (old @ after) (int (length old)) p (int (length fin)) (int i) n ((fin @ pre) @ seg @ junk) =
     Ok ((fin @ pre) @ add_old old (p + int i) seg @ junk)"
  using assms
proof (induction n arbitrary: i pre seg)
  case 0
  then show ?case by (simp add: add_old_def)
next
  case (Suc n)
  obtain b seg' where seg: "seg = b # seg'" "length seg' = n" using Suc.prems by (cases seg) auto
  define b' where "b' = b + old ! nat (p + int i)"
  have upd: "((fin @ pre) @ seg @ junk)[nat (int (length fin) + int i) :=
       ((fin @ pre) @ seg @ junk) ! nat (int (length fin) + int i) + old ! nat (p + int i)]
     = (fin @ pre @ [b']) @ seg' @ junk"
    using Suc.prems seg by (simp add: b'_def nat_add_distrib list_update_append nth_append)
  have add: "add_old old (p + int i) seg = b' # add_old old (p + (int i + 1)) seg'"
  proof -
    have "add_old old (p + int i) seg =
       map (\<lambda>k. if 0 \<le> p + int i + int k \<and> p + int i + int k < int (length old)
          then seg ! k + old ! nat (p + int i + int k) else seg ! k) (0 # map Suc [0..<n])"
      unfolding add_old_def using seg by (simp add: upt_conv_Cons map_Suc_upt del: upt_Suc)
    then show ?thesis using Suc.prems seg
      by (simp add: add_old_def b'_def o_def algebra_simps)
  qed
  have "length (pre @ [b']) = Suc i" using Suc.prems by simp
  from Suc.IH[OF Suc.prems(1) _ seg(2) this] Suc.prems have
    "add_loop (old @ after) (int (length old)) p (int (length fin)) (int i + 1) n ((fin @ pre @ [b']) @ seg' @ junk) =
     Ok ((fin @ pre @ [b']) @ add_old old (p + (int i + 1)) seg' @ junk)"
    by (simp add: algebra_simps)
  moreover have "(old @ after) ! nat (p + int i) = old ! nat (p + int i)"
    by (rule nth_append_left) (use Suc.prems in linarith)
  ultimately show ?case
    using Suc.prems seg upd add by simp
qed

section \<open>The loop refines rebuild\<close>

lemma length_add_old [simp]: "length (add_old old p d) = length d"
  by (simp add: add_old_def)

lemma diff_part_ok:
  assumes "bz_delivers lib R" "R (ps_d st) (seg @ d')"
    "ps_new st = fin @ junk" "ps_newpos st = int (length fin)" "int (length seg) = x"
    "length seg \<le> length junk" "new_size = int (length (ps_new st))" "new_size < 2 ^ 31"
    "0 \<le> ps_oldpos st" "ps_oldpos st + x \<le> int (length old)" "int (length old) < 2 ^ 62"
  shows "\<exists>d. diff_part lib (old @ after) (int (length old)) new_size x st =
      Some (Ok (Continue (st\<lparr> ps_new := (fin @ add_old old (ps_oldpos st) seg) @ drop (length seg) junk,
        ps_d := d, ps_newpos := int (length (fin @ add_old old (ps_oldpos st) seg)),
        ps_oldpos := ps_oldpos st + x \<rparr>))) \<and> R d d'"
proof -
  have x: "0 \<le> x" "x < 2 ^ 31" "int (length fin) + x \<le> new_size" using assms by auto
  obtain d where f: "fill_into lib (fin @ junk) (int (length fin)) x (ps_d st) =
      Some (Ok (0, fin @ seg @ drop (length seg) junk, d))" "R d d'"
    using fill_into_delivers[OF assms(1,2,5,6)] x by blast
  have nx: "nat x = length seg" using assms(5) by simp
  have a: "add_loop (old @ after) (int (length old)) (ps_oldpos st) (int (length fin)) 0 (nat x)
      (fin @ seg @ drop (length seg) junk) = Ok (fin @ add_old old (ps_oldpos st) seg @ drop (length seg) junk)"
    using add_loop_ok[of "ps_oldpos st" 0 "length seg" old seg "[]" after fin "drop (length seg) junk"] assms(9,10)
    unfolding nx assms(5)[symmetric] by simp
  have c: "c_off (int (length fin) + x) = Ok (int (length fin) + x)"
    "c_off (ps_oldpos st + x) = Ok (ps_oldpos st + x)"
    using x assms(8-11) by (auto intro!: c_off_Ok)
  show ?thesis
    unfolding diff_part_def assms(3,4) using f a c x assms(5) by (intro exI[of _ d]) simp
qed

lemma extra_part_ok:
  assumes "bz_delivers lib R" "R (ps_e st) (seg @ e')"
    "ps_new st = fin @ junk" "ps_newpos st = int (length fin)" "int (length seg) = y"
    "length seg \<le> length junk" "new_size = int (length (ps_new st))" "new_size < 2 ^ 31"
    "0 \<le> ps_oldpos st" "ps_oldpos st < 2 ^ 62" "\<bar>z\<bar> < 2 ^ 62"
  shows "\<exists>e. extra_part lib new_size y z st =
      Some (Ok (Continue (st\<lparr> ps_new := (fin @ seg) @ drop (length seg) junk,
        ps_e := e, ps_newpos := int (length (fin @ seg)), ps_oldpos := ps_oldpos st + z \<rparr>))) \<and> R e e'"
proof -
  have y: "0 \<le> y" "y < 2 ^ 31" "int (length fin) + y \<le> new_size" using assms by auto
  obtain e where f: "fill_into lib (fin @ junk) (int (length fin)) y (ps_e st) =
      Some (Ok (0, fin @ seg @ drop (length seg) junk, e))" "R e e'"
    using fill_into_delivers[OF assms(1,2,5,6)] y by blast
  have c: "c_off (int (length fin) + y) = Ok (int (length fin) + y)"
    "c_off (ps_oldpos st + z) = Ok (ps_oldpos st + z)"
    using y assms(8-11) by (auto intro!: c_off_Ok)
  show ?thesis
    unfolding extra_part_def assms(3,4) using f c y assms(5) by (intro exI[of _ e]) simp
qed

lemma read_ctrl_writes:
  assumes "\<bar>x\<bar> < 2 ^ 63" "\<bar>y\<bar> < 2 ^ 63" "\<bar>z\<bar> < 2 ^ 63"
  shows "read_ctrl (offtout x @ offtout y @ offtout z) = Ok (x, y, z)"
  using offtin_offtout[OF assms(1), of "offtout y @ offtout z"] offtin_offtout[OF assms(2), of "offtout z"]
    offtin_offtout[OF assms(3), of "[]"]
  by (simp add: read_ctrl_def)

lemma patch_loop_rebuilds:
  assumes lib: "bz_delivers lib R"
    and sizes: "new_size < 2 ^ 31" "int (length old) < 2 ^ 62"
    and "list_all (triple_ok (length old) (nat new_size)) cs"
    and "rebuild old cs (ps_oldpos st) db eb = Some (out, p', d', e')"
    and "R (ps_c st) (concat (ctrl_writes cs))" "R (ps_d st) db" "R (ps_e st) eb"
    and "ps_new st = fin @ junk" "ps_newpos st = int (length fin)" "length out = length junk"
    and "new_size = int (length (ps_new st))"
  shows "patch_loop lib (old @ after) (int (length old)) new_size st = Some (Ok (0, fin @ out))"
  using assms(4-)
proof (induction cs arbitrary: st db eb out fin junk)
  case Nil
  then show ?case by (subst patch_loop.simps) simp
next
  case (Cons c cs)
  obtain x y z where c: "c = (x, y, z)" by (cases c)
  show ?case
  proof (cases "junk = []")
    case True
    then show ?thesis using Cons.prems by (subst patch_loop.simps) simp
  next
    case False
    from Cons.prems(2) obtain out' where g: "0 \<le> x" "x \<le> int (length db)" "0 \<le> y" "y \<le> int (length eb)"
      "0 \<le> ps_oldpos st" "ps_oldpos st + x \<le> int (length old)"
      and r: "rebuild old cs (ps_oldpos st + x + z) (drop (nat x) db) (drop (nat y) eb) = Some (out', p', d', e')"
      and o: "out = add_old old (ps_oldpos st) (take (nat x) db) @ take (nat y) eb @ out'"
      by (auto simp: c split: bind_splits if_splits)
    have t: "x < 2 ^ 62" "y < 2 ^ 62" "\<bar>z\<bar> < 2 ^ 62" "list_all (triple_ok (length old) (nat new_size)) cs"
      using Cons.prems(1) sizes by (auto simp: c triple_ok_def split: if_splits)
    define buf where "buf = offtout x @ offtout y @ offtout z"
    have bytes: "R (ps_c st) (buf @ concat (ctrl_writes cs))"
      using Cons.prems(3) by (simp add: c ctrl_writes_def buf_def)
    obtain zc where fb: "FillBuffer lib 24 24 (ps_c st) = Some (Ok (0, buf, zc))" "R zc (concat (ctrl_writes cs))"
      using FillBuffer_delivers[OF lib bytes, of 24 24] by (auto simp: buf_def)
    have rc: "read_ctrl buf = Ok (x, y, z)" unfolding buf_def using t g by (intro read_ctrl_writes) auto
    define s1 where "s1 = take (nat x) db"
    define s2 where "s2 = take (nat y) eb"
    have len: "int (length s1) = x" "int (length s2) = y" using g by (auto simp: s1_def s2_def)
    have fit: "length s1 + length s2 \<le> length junk" using Cons.prems(8) o by (simp add: s1_def s2_def)
    define f1 where "f1 = fin @ add_old old (ps_oldpos st) s1"
    define j1 where "j1 = drop (length s1) junk"
    obtain zd where dp: "diff_part lib (old @ after) (int (length old)) new_size x (st\<lparr> ps_c := zc \<rparr>) =
        Some (Ok (Continue (st\<lparr> ps_c := zc, ps_new := f1 @ j1, ps_d := zd, ps_newpos := int (length f1),
          ps_oldpos := ps_oldpos st + x \<rparr>)))" "R zd (drop (nat x) db)"
      using diff_part_ok[OF lib, of "st\<lparr> ps_c := zc \<rparr>" s1 "drop (nat x) db" fin junk x new_size old after]
        Cons.prems sizes len fit g by (auto simp: s1_def f1_def j1_def)
    define st1 where "st1 = st\<lparr> ps_c := zc, ps_new := f1 @ j1, ps_d := zd, ps_newpos := int (length f1),
          ps_oldpos := ps_oldpos st + x \<rparr>"
    obtain ze where ep: "extra_part lib new_size y z st1 =
        Some (Ok (Continue (st1\<lparr> ps_new := (f1 @ s2) @ drop (length s2) j1, ps_e := ze,
          ps_newpos := int (length (f1 @ s2)), ps_oldpos := ps_oldpos st + x + z \<rparr>)))" "R ze (drop (nat y) eb)"
    proof -
      have "R (ps_e st1) (s2 @ drop (nat y) eb)" using Cons.prems(5) by (simp add: st1_def s2_def)
      moreover have "length s2 \<le> length j1" using fit by (simp add: j1_def)
      moreover have "new_size = int (length (ps_new st1))"
        using Cons.prems(6,9) fit by (simp add: st1_def f1_def j1_def)
      moreover have "0 \<le> ps_oldpos st1" "ps_oldpos st1 < 2 ^ 62" using g sizes by (auto simp: st1_def)
      ultimately have "\<exists>e. extra_part lib new_size y z st1 =
        Some (Ok (Continue (st1\<lparr> ps_new := (f1 @ s2) @ drop (length s2) j1, ps_e := e,
          ps_newpos := int (length (f1 @ s2)), ps_oldpos := ps_oldpos st1 + z \<rparr>))) \<and> R e (drop (nat y) eb)"
        using len(2) sizes(1) t(3) by (intro extra_part_ok[OF lib]) (simp_all add: st1_def)
      then show ?thesis using that by (auto simp: st1_def)
    qed
    define st2 where "st2 = st1\<lparr> ps_new := (f1 @ s2) @ drop (length s2) j1, ps_e := ze,
          ps_newpos := int (length (f1 @ s2)), ps_oldpos := ps_oldpos st + x + z \<rparr>"
    have step: "patch_step lib (old @ after) (int (length old)) new_size st = Some (Ok (Continue st2))"
      unfolding patch_step_def using fb(1) rc dp(1) ep(1) by (simp add: st1_def st2_def)
    have "patch_loop lib (old @ after) (int (length old)) new_size st2 = Some (Ok (0, (f1 @ s2) @ out'))"
    proof (rule Cons.IH[OF t(4)])
      show "rebuild old cs (ps_oldpos st2) (drop (nat x) db) (drop (nat y) eb) = Some (out', p', d', e')"
        using r by (simp add: st2_def)
      show "length out' = length (drop (length s2) j1)"
        using Cons.prems(8) o by (simp add: j1_def s1_def s2_def)
      show "new_size = int (length (ps_new st2))"
        using Cons.prems(6,9) fit by (simp add: st2_def f1_def j1_def)
    qed (use fb dp(2) ep(2) in \<open>simp_all add: st2_def st1_def\<close>)
    then show ?thesis using step Cons.prems False o
      by (subst patch_loop.simps) (simp add: f1_def s1_def s2_def)
  qed
qed

section \<open>Round trip\<close>

lemma memcmp_append_self: "memcmp (xs @ ys) xs (length xs) = 0"
  by (induction xs) auto

lemma length_magic [simp]: "length bsdiff_magic = 8"
  by (simp add: bsdiff_magic_def)

lemma stream_input_part:
  assumes "at = int (length a)" "len = int (length b)" "length b < 2 ^ 32"
  shows "stream_input (a @ b @ c) at len = Ok b"
proof -
  have "uint (word_of_int len :: u32) = len"
    unfolding uint_word_of_int take_bit_eq_mod assms(2) using assms(3) by (intro mod_pos_pos_trivial) auto
  then show ?thesis using assms by (simp add: stream_input_def Let_def)
qed

lemma read_header_magic:
  assumes "0 \<le> c" "c < 2 ^ 63" "0 \<le> d" "d < 2 ^ 63" "0 \<le> n" "n < 2 ^ 63" "off = int (length pre)"
  shows "read_header (pre @ bsdiff_magic @ offtout c @ offtout d @ offtout n @ body) off =
    Ok (Continue (c, d, n))"
proof -
  let ?h = "bsdiff_magic @ offtout c @ offtout d @ offtout n @ body"
  have m: "memcmp ?h bsdiff_magic 8 = 0"
    using memcmp_append_self[of bsdiff_magic] by simp
  have o: "offtin (drop 8 ?h) = Some c" "offtin (drop 16 ?h) = Some d" "offtin (drop 24 ?h) = Some n"
    using offtin_offtout[of c] offtin_offtout[of d] offtin_offtout[of n] assms by simp_all
  show ?thesis unfolding read_header_def using m o assms by (simp add: Let_def)
qed

lemma bsdiff_rebuilds:
  assumes "(case IP of None \<Rightarrow> qsufsort old | Some I \<Rightarrow> Some I) = Some I"
    and "suffix_array I old" "bz_inverse bz lib R" "bz_delivers lib R"
    and "length old < 2 ^ 62" "length new < 2 ^ 31"
    and "malloc (length new) = Some junk" "length junk = length new"
  shows "\<exists>patch. bsdiff bz old IP new = Some (I, patch) \<and>
    (\<forall>pre post after. length (pre @ patch @ post) < 2 ^ 31 \<longrightarrow>
      ApplyBSDiffPatchMem lib malloc (old @ after) (int (length old)) (pre @ patch @ post) (int (length pre))
        = Some (Ok (0, new)))"
proof -
  obtain st where st: "diff_loop I old new diff_init = Some st"
    "rebuild old (ds_ctrl st) 0 (ds_db st) (ds_eb st) = Some (new, ds_lastpos st, [], [])"
    "list_all (triple_ok (length old) (length new)) (ds_ctrl st)"
    using diff_rebuilds[OF assms(2)] by metis
  obtain c d e where bz: "bz (ctrl_writes (ds_ctrl st)) = Some c" "bz [ds_db st] = Some d" "bz [ds_eb st] = Some e"
    and Rc: "\<And>rest. R (snd (bz_init lib (c @ rest))) (concat (ctrl_writes (ds_ctrl st)))"
    and Rd: "\<And>rest. R (snd (bz_init lib (d @ rest))) (ds_db st)"
    and Re: "\<And>rest. R (snd (bz_init lib (e @ rest))) (ds_eb st)"
  proof -
    have 1: "\<exists>comp. bz ws = Some comp \<and> (\<forall>rest. R (snd (bz_init lib (comp @ rest))) (concat ws))" for ws
      using assms(3) unfolding bz_inverse_def by blast
    from 1[of "ctrl_writes (ds_ctrl st)"] 1[of "[ds_db st]"] 1[of "[ds_eb st]"] show thesis
      by (auto intro: that)
  qed
  let ?head = "bsdiff_magic @ offtout (int (length c)) @ offtout (int (length d)) @ offtout (int (length new))"
  let ?patch = "?head @ c @ d @ e"
  have "bsdiff bz old IP new = Some (I, ?patch)"
    using assms(1) st(1) bz by (simp add: bsdiff_def Let_def)
  moreover have "ApplyBSDiffPatchMem lib malloc (old @ after) (int (length old)) (pre @ ?patch @ post) (int (length pre))
        = Some (Ok (0, new))" if len: "length (pre @ ?patch @ post) < 2 ^ 31" for pre post after
  proof -
    let ?all = "pre @ ?patch @ post"
    have hd: "read_header ?all (int (length pre)) = Ok (Continue (int (length c), int (length d), int (length new)))"
      using read_header_magic[of "int (length c)" "int (length d)" "int (length new)" "int (length pre)" pre
          "c @ d @ e @ post"] len assms(6) by simp
    have i1: "stream_input ?all (int (length pre) + 32) (int (length c)) = Ok c"
      using stream_input_part[of "int (length pre) + 32" "pre @ ?head" "int (length c)" c "d @ e @ post"] len by simp
    have i2: "stream_input ?all (int (length pre) + 32 + int (length c)) (int (length d)) = Ok d"
      using stream_input_part[of "int (length pre) + 32 + int (length c)" "pre @ ?head @ c" "int (length d)" d
          "e @ post"] len by simp
    have i3: "stream_input ?all (int (length pre) + 32 + int (length c) + int (length d))
        (int (length ?all) - (int (length pre) + 32 + int (length c) + int (length d))) = Ok (e @ post)"
      using stream_input_part[of "int (length pre) + 32 + int (length c) + int (length d)" "pre @ ?head @ c @ d"
          "int (length (e @ post))" "e @ post" "[]"] len by simp
    have "patch_loop lib (old @ after) (int (length old)) (int (length new))
       \<lparr> ps_oldpos = 0, ps_newpos = 0, ps_new = junk, ps_c = snd (bz_init lib c),
         ps_d = snd (bz_init lib d), ps_e = snd (bz_init lib (e @ post)) \<rparr> = Some (Ok (0, [] @ new))"
      using patch_loop_rebuilds[OF assms(4), where cs = "ds_ctrl st" and fin = "[]" and junk = junk and after = after]
        st(2,3) assms(5-8) Rc[of "[]"] Rd[of "[]"] Re[of post] by simp
    then show ?thesis
      unfolding ApplyBSDiffPatchMem_def hd using i1 i2 i3 assms(7) by simp
  qed
  ultimately show ?thesis by blast
qed

text \<open>
  C9: applying the patch that \<^verbatim>\<open>bsdiff\<close> wrote gives back the new file, also where the
  patch is a part of a larger file, as in an IMGDIFF2 file. This holds for any suffix array
  of the old file (whatever follows it in memory), any files below the sizes the 32-bit fields of a \<^verbatim>\<open>bz_stream\<close> hold, and any
  compressor whose output the decompressor delivers; both programs are shown to return.
\<close>

theorem bsdiff_bspatch_roundtrip:
  assumes "(case IP of None \<Rightarrow> qsufsort old | Some I \<Rightarrow> Some I) = Some I"
    and "suffix_array I old" "bz_inverse bz lib R" "bz_delivers lib R"
    and "length old < 2 ^ 62" "length new < 2 ^ 31"
    and "malloc (length new) = Some junk" "length junk = length new"
  shows "\<exists>patch. bsdiff bz old IP new = Some (I, patch) \<and>
    (\<forall>pre post after. length (pre @ patch @ post) < 2 ^ 31 \<longrightarrow>
      ApplyBSDiffPatchMem lib malloc (old @ after) (int (length old)) (pre @ patch @ post) (int (length pre))
        = Some (Ok (0, new)))"
  using bsdiff_rebuilds[where malloc = malloc and new = new, OF assms] .

text \<open>A stored format: each byte after a 1, and a 0 at the end.\<close>

fun stored :: "bytes \<Rightarrow> bytes" where
  "stored [] = [0]"
| "stored (b # bs) = 1 # b # stored bs"

fun unstored :: "bytes \<Rightarrow> bytes" where
  "unstored (c # b # r) = (if c = 0 then [] else b # unstored r)"
| "unstored _ = []"

definition stored_bz :: "bytes list \<Rightarrow> bytes option" where
  "stored_bz ws = Some (stored (concat ws))"

definition stored_lib :: "bytes bzlib" where
  "stored_lib = \<lparr> bz_init = \<lambda>bs. (BZ_OK, unstored bs),
     bz_decompress = \<lambda>z n. (if z = [] then -1 else BZ_OK, take n z, drop n z) \<rparr>"

lemma unstored_stored: "unstored (stored bs @ rest) = bs"
  by (induction bs) (cases rest, auto)

lemma stored_inverse: "bz_inverse stored_bz stored_lib (=)"
  by (auto simp: bz_inverse_def stored_bz_def stored_lib_def unstored_stored)

lemma stored_delivers: "bz_delivers stored_lib (=)"
  by (auto simp: bz_delivers_def stored_lib_def)

lemma stored_patch_length:
  "length (snd (the (bsdiff stored_bz [1, 2, 3] None [1, 2, 9, 3]))) < 200"
  by code_simp

theorem bsdiff_bspatch_roundtrip_witness:
  "\<exists>patch. bsdiff stored_bz [1, 2, 3] None [1, 2, 9, 3] = Some ([3, 0, 1, 2], patch) \<and>
     ApplyBSDiffPatchMem stored_lib (\<lambda>n. Some (replicate n 0)) [1, 2, 3] 3 patch 0 = Some (Ok (0, [1, 2, 9, 3]))"
proof -
  have q: "qsufsort [1, 2, 3] = Some [3, 0, 1, 2]" by code_simp
  have sa: "suffix_array [3, 0, 1, 2] [1, 2, 3]" by code_simp
  from bsdiff_bspatch_roundtrip[where IP = None, OF _ sa stored_inverse stored_delivers, of "[1, 2, 9, 3]"
      "\<lambda>n. Some (replicate n 0)" "replicate (length [1 :: u8, 2, 9, 3]) 0"]
  obtain patch where p: "bsdiff stored_bz [1, 2, 3] None [1, 2, 9, 3] = Some ([3, 0, 1, 2], patch)"
    and "\<forall>pre post after. length (pre @ patch @ post) < 2 ^ 31 \<longrightarrow>
      ApplyBSDiffPatchMem stored_lib (\<lambda>n. Some (replicate n 0)) ([1, 2, 3] @ after) (int (length [1 :: u8, 2, 3]))
        (pre @ patch @ post) (int (length pre)) = Some (Ok (0, [1, 2, 9, 3]))"
    using q by auto
  from this(2)[rule_format, of "[]" "[]" "[]"]
  have a: "length patch < 2 ^ 31 \<Longrightarrow>
      ApplyBSDiffPatchMem stored_lib (\<lambda>n. Some (replicate n 0)) [1, 2, 3] 3 patch 0 = Some (Ok (0, [1, 2, 9, 3]))"
    by simp
  have "length patch < 200" using stored_patch_length by (simp only: p option.sel snd_conv)
  then show ?thesis using p a by simp
qed

section \<open>What the sanity checks let through\<close>

text \<open>
  C29: a negative length in a control triple passes the sanity check, and the decompressor is
  then given far more room than the output buffer has. If it delivers more bytes than fit
  between \<^verbatim>\<open>newpos\<close> and the end of the buffer, the write leaves the buffer.
\<close>

theorem bspatch_negative_length_overrun:
  assumes "x < 0" "- (2 ^ 31) \<le> x" "0 \<le> ps_newpos st" "ps_newpos st \<le> new_size"
    "new_size = int (length (ps_new st))" "new_size < 2 ^ 62"
    "bz_decompress lib (ps_d st) (nat (2 ^ 32 + x)) = (err, out, d)"
    "int (length out) > new_size - ps_newpos st"
  shows "diff_part lib old_data old_size new_size x st = Some (Inl OutOfBounds)"
proof -
  have "uint (word_of_int x :: u32) = 2 ^ 32 + x"
    using assms(1,2) mod_pos_pos_trivial[of "2 ^ 32 + x" "2 ^ 32 :: int"]
    by (simp add: uint_word_of_int take_bit_eq_mod)
  then have av: "unat (word_of_int x :: u32) = nat (2 ^ 32 + x)" by (simp add: unat_eq_nat_uint)
  have "out \<noteq> []" using assms(4,8) by auto
  then have "fill_into lib (ps_new st) (ps_newpos st) x (ps_d st) = Some (Inl OutOfBounds)"
    using assms(2,3,5,7,8) unfolding fill_into_def FillBuffer_def av by (subst fill_loop.simps) simp
  then show ?thesis using assms(1-6) by (simp add: diff_part_def)
qed

theorem bspatch_negative_length_overrun_witness:
  "diff_part stored_lib [] 0 2 (-1)
     \<lparr> ps_oldpos = 0, ps_newpos = 0, ps_new = [0, 0], ps_c = [], ps_d = [7, 7, 7], ps_e = [] \<rparr>
   = Some (Inl OutOfBounds)"
  by (rule bspatch_negative_length_overrun) (auto simp: stored_lib_def)

text \<open>A stream that reports success without delivering anything, as libbz2 does when its
  input ends early.\<close>

lemma fill_loop_stalls:
  assumes "fill_loop lib room n acc z = Some r"
  shows "0 < n \<Longrightarrow> bz_decompress lib z n \<noteq> (BZ_OK, [], z)"
  by (rule fill_loop.raw_induct[where P = "\<lambda>lib room n acc z r. 0 < n \<longrightarrow> bz_decompress lib z n \<noteq> (BZ_OK, [], z)",
        OF _ assms, rule_format])
     (auto split: if_splits prod.splits)

text \<open>
  \<^verbatim>\<open>FillBuffer\<close> does not return on a stream that is cut off: where the decompressor
  answers \<^verbatim>\<open>BZ_OK\<close> with nothing delivered, the loop calls it again for ever.
\<close>

theorem FillBuffer_stalls_on_truncated_stream:
  assumes "0 < n" "n < 2 ^ 31" "bz_decompress lib z (nat n) = (BZ_OK, [], z)"
  shows "FillBuffer lib room n z = None"
proof -
  have "unat (word_of_int n :: u32) = nat n"
    using assms(1,2) by (simp add: unat_eq_nat_uint uint_word_of_int take_bit_eq_mod)
  then show ?thesis
    using fill_loop_stalls[of lib room "nat n" "[]" z] assms unfolding FillBuffer_def
    by (metis not_None_eq zero_less_nat_eq)
qed

theorem FillBuffer_stalls_on_truncated_stream_witness:
  "FillBuffer \<lparr> bz_init = \<lambda>bs. (BZ_OK, bs), bz_decompress = \<lambda>z n. (BZ_OK, take n z, drop n z) \<rparr> 24 24 [] = None"
  by (rule FillBuffer_stalls_on_truncated_stream) auto

section \<open>The size of the output\<close>

lemma length_put_at_room:
  "\<lbrakk>xs \<noteq> []; int (length xs) \<le> (if p < 0 then 0 else int (length buf) - p)\<rbrakk> \<Longrightarrow>
     length (put_at buf p xs) = length buf"
  by (cases "p < 0") auto

lemma fill_loop_room:
  assumes "fill_loop lib room n acc z = Some r"
  shows "\<lbrakk>acc = [] \<or> int (length acc) \<le> room; r = Ok (rc, out, z')\<rbrakk> \<Longrightarrow> out = [] \<or> int (length out) \<le> room"
  by (rule fill_loop.raw_induct[where P = "\<lambda>lib room n acc z r. (acc = [] \<or> int (length acc) \<le> room) \<longrightarrow>
          r = Ok (rc, out, z') \<longrightarrow> out = [] \<or> int (length out) \<le> room", OF _ assms, rule_format])
     (fastforce split: if_splits prod.splits)+

lemma fill_into_length:
  assumes "fill_into lib buf p n z = Some (Ok (rc, buf', z'))"
  shows "length buf' = length buf"
proof -
  obtain out where "FillBuffer lib (if p < 0 then 0 else int (length buf) - p) n z = Some (Ok (rc, out, z'))"
    and b: "buf' = (if out = [] then buf else put_at buf p out)"
    using assms unfolding fill_into_def by (auto elim!: run_then_Ok_E)
  from fill_loop_room[OF this(1)[unfolded FillBuffer_def] _ refl] b show ?thesis
    by (auto simp: length_put_at_room)
qed

lemma add_loop_length: "add_loop old os p q i n buf = Ok buf' \<Longrightarrow> length buf' = length buf"
  by (induction old os p q i n buf rule: add_loop.induct) (auto split: if_splits)

lemma run_then_Some_Ok_E:
  assumes "run_then (Some m) f = Some (Ok b)"
  obtains a where "m = Ok a" "f a = Some (Ok b)"
  using assms by (cases m) auto

lemma patch_step_length:
  assumes "patch_step lib old os ns st = Some (Ok (Continue st'))"
  shows "length (ps_new st') = length (ps_new st)"
proof -
  have d: "length (ps_new s') = length (ps_new s)"
    if "diff_part lib old os ns x s = Some (Ok (Continue s'))" for x s s'
    using that unfolding diff_part_def
    by (auto elim!: run_then_Some_Ok_E run_then_Ok_E split: if_splits dest!: fill_into_length add_loop_length)
  have e: "length (ps_new s') = length (ps_new s)"
    if "extra_part lib ns y z s = Some (Ok (Continue s'))" for y z s s'
    using that unfolding extra_part_def
    by (auto elim!: run_then_Some_Ok_E run_then_Ok_E split: if_splits dest!: fill_into_length)
  show ?thesis using assms unfolding patch_step_def
    by (auto elim!: run_then_Some_Ok_E run_then_Ok_E split: if_splits flow.splits dest!: d e)
qed

lemma patch_step_return:
  assumes "patch_step lib old os ns st = Some (Ok (Return rc))"
  shows "rc = 1"
  using assms unfolding patch_step_def diff_part_def extra_part_def
  by (auto elim!: run_then_Some_Ok_E run_then_Ok_E split: if_splits flow.splits)

lemma patch_loop_length:
  assumes "patch_loop lib old os ns st = Some r"
  shows "r = Ok (0, new) \<Longrightarrow> length new = length (ps_new st)"
  by (rule patch_loop.raw_induct[where P = "\<lambda>lib old os ns st r. r = Ok (0, new) \<longrightarrow>
          length new = length (ps_new st)", OF _ assms, rule_format])
     (auto split: if_splits option.splits sum.splits flow.splits dest: patch_step_length patch_step_return)

lemma patch_loop_codes:
  assumes "patch_loop lib old os ns st = Some r"
  shows "r = Ok (q, x) \<Longrightarrow> q = 0 \<or> q = 1"
  by (rule patch_loop.raw_induct[where P = "\<lambda>lib old os ns st r. r = Ok (q, x) \<longrightarrow> q = 0 \<or> q = 1",
        OF _ assms, rule_format])
     (auto split: if_splits option.splits sum.splits flow.splits dest: patch_step_return)

lemma patch_loop_result:
  "patch_loop lib old os ns st = Some (Ok (rc, new)) \<Longrightarrow> rc = 1 \<or> rc = 0 \<and> length new = length (ps_new st)"
  using patch_loop_codes[OF _ refl, of lib old os ns st rc new] patch_loop_length[of lib old os ns st _ new] by blast

text \<open>
  Where \<^verbatim>\<open>ApplyBSDiffPatchMem\<close> returns 0, the patch had the BSDIFF40 header and the
  output has exactly the size the header announces; every other return code is 1. Here
  \<^verbatim>\<open>malloc\<close> returns blocks of the size it was asked for.
\<close>

theorem bspatch_output_size:
  assumes "\<And>n b. malloc n = Some b \<Longrightarrow> length b = n"
    and "ApplyBSDiffPatchMem lib malloc old old_size patch off = Some (Ok (rc, new))"
  shows "rc = 1 \<or> (\<exists>c d. rc = 0 \<and> read_header patch off = Ok (Continue (c, d, int (length new))))"
proof -
  have header_ret: "r = 1" if "read_header patch off = Ok (Return r)" for r
    using that by (auto simp: read_header_def Let_def split: if_splits option.splits prod.splits)
  have header_nn: "0 \<le> n" if "read_header patch off = Ok (Continue (c, d, n))" for c d n
    using that by (auto simp: read_header_def Let_def split: if_splits option.splits prod.splits)
  show ?thesis
    using assms(2) unfolding ApplyBSDiffPatchMem_def
    by (auto elim!: run_then_Some_Ok_E split: flow.splits option.splits prod.splits dest!: header_ret assms(1) patch_loop_result)
       (simp add: header_nn)
qed

theorem bspatch_output_size_witness:
  "\<exists>c d. read_header (snd (the (bsdiff stored_bz [1, 2, 3] None [1, 2, 9, 3]))) 0 =
     Ok (Continue (c, d, 4))"
proof -
  have a: "ApplyBSDiffPatchMem stored_lib (\<lambda>n. Some (replicate n 0)) [1, 2, 3] 3
      (snd (the (bsdiff stored_bz [1, 2, 3] None [1, 2, 9, 3]))) 0 = Some (Ok (0, [1, 2, 9, 3]))"
    by code_simp
  from bspatch_output_size[OF _ this] show ?thesis by simp
qed

end
