(* ===== verification/Img_Patch.thy ===== *)
theory Img_Patch
  imports Bs_Patch
begin

text \<open>
  The IMGDIFF2 applier of \<^verbatim>\<open>src/applypatch/imgpatch.c\<close>. An IMGDIFF2 file is a header, one
  record per chunk, and the BSDIFF40 patches the records point to. What the function gets from
  elsewhere (libbz2, zlib, \<^verbatim>\<open>malloc\<close>, SHA-1 and the sink) is a record of functions. Where
  \<^verbatim>\<open>size_t\<close> values are stored in 32-bit fields of a \<^verbatim>\<open>z_stream\<close> the truncation is written out.
\<close>

section \<open>The environment\<close>

text \<open>The \<^verbatim>\<open>z_stream\<close> calls: \<^verbatim>\<open>inflateInit2\<close> with window bits -15 on an input,
  \<^verbatim>\<open>inflate\<close> with room for so many bytes, \<^verbatim>\<open>deflateInit2\<close> with level, method, window bits,
  memory level and strategy, \<^verbatim>\<open>deflate\<close> with \<^verbatim>\<open>Z_FINISH\<close>; the field \<^verbatim>\<open>avail_in\<close>.\<close>

record ('s, 'd) zlib =
  z_inflateInit2 :: "bytes \<Rightarrow> int \<times> 's"
  z_inflate :: "'s \<Rightarrow> nat \<Rightarrow> int \<times> bytes \<times> 's"
  z_avail_in :: "'s \<Rightarrow> nat"
  z_deflateInit2 :: "int \<Rightarrow> int \<Rightarrow> int \<Rightarrow> int \<Rightarrow> int \<Rightarrow> bytes \<Rightarrow> int \<times> 'd"
  z_deflate :: "'d \<Rightarrow> nat \<Rightarrow> int \<times> bytes \<times> 'd"

definition Z_OK :: int where "Z_OK = 0"
definition Z_STREAM_END :: int where "Z_STREAM_END = 1"

record ('z, 's, 'd, 'c, 't) patch_env =
  env_bz :: "'z bzlib"
  env_zlib :: "('s, 'd) zlib"
  env_malloc :: "nat \<Rightarrow> bytes option"
  env_sha :: "'c \<Rightarrow> bytes \<Rightarrow> 'c"
  env_sink :: "'t sink"

definition CHUNK_NORMAL :: int where "CHUNK_NORMAL = 0"
definition CHUNK_GZIP :: int where "CHUNK_GZIP = 1"
definition CHUNK_DEFLATE :: int where "CHUNK_DEFLATE = 2"
definition CHUNK_RAW :: int where "CHUNK_RAW = 3"

section \<open>Chunk records\<close>

record ('t, 'c) img_state =
  im_pos :: int
  im_token :: 't
  im_ctx :: "'c option"

text \<open>A return code with the token and the SHA context at that point.\<close>

type_synonym ('t, 'c) img_result = "int \<times> 't \<times> 'c option"
type_synonym ('t, 'c) img_flow = "(('t, 'c) img_result, ('t, 'c) img_state) flow run"

definition img_fail :: "('t, 'c) img_state \<Rightarrow> ('t, 'c) img_flow" where
  "img_fail st = Some (Ok (Return (-1, im_token st, im_ctx st)))"

text \<open>\<^verbatim>\<open>Read4\<close> and \<^verbatim>\<open>Read8\<close> at a position of the patch: an \<^verbatim>\<open>int\<close> and a
  \<^verbatim>\<open>size_t\<close>.\<close>

definition int_at :: "bytes \<Rightarrow> int \<Rightarrow> int outcome" where
  "int_at patch p =
     (case Read4 (drop (nat p) patch) of None \<Rightarrow> Inl OutOfBounds | Some w \<Rightarrow> Ok (sint w))"

definition size_at :: "bytes \<Rightarrow> int \<Rightarrow> int outcome" where
  "size_at patch p =
     (case Read8 (drop (nat p) patch) of None \<Rightarrow> Inl OutOfBounds | Some w \<Rightarrow> Ok (uint w))"

text \<open>A \<^verbatim>\<open>size_t\<close> stored in an \<^verbatim>\<open>ssize_t\<close>, and in an \<^verbatim>\<open>unsigned int\<close>.\<close>

definition ssize_of :: "int \<Rightarrow> int" where
  "ssize_of n = sint (word_of_int n :: u64)"

definition uint_of :: "int \<Rightarrow> int" where
  "uint_of n = uint (word_of_int n :: u32)"

text \<open>The memory at \<^verbatim>\<open>old_data + src_start\<close>.\<close>

definition old_from :: "bytes \<Rightarrow> int \<Rightarrow> bytes outcome" where
  "old_from old_data src_start =
     (if src_start \<le> int (length old_data) then Ok (drop (nat src_start) old_data) else Inl OutOfBounds)"

text \<open>A \<^verbatim>\<open>CHUNK_NORMAL\<close> record, from \<^verbatim>\<open>pos\<close> on. The return code of
  \<^verbatim>\<open>ApplyBSDiffPatch\<close> is not looked at.\<close>

definition normal_chunk ::
  "('z, 's, 'd, 'c, 't) patch_env \<Rightarrow> bytes \<Rightarrow> bytes \<Rightarrow> ('t, 'c) img_state \<Rightarrow> ('t, 'c) img_flow" where
  "normal_chunk env old_data patch st =
     (let normal_header = im_pos st; pos = im_pos st + 24
      in if pos > int (length patch) then img_fail st
         else
           run_then (Some (size_at patch normal_header)) (\<lambda>src_start.
           run_then (Some (size_at patch (normal_header + 8))) (\<lambda>src_len.
           run_then (Some (size_at patch (normal_header + 16))) (\<lambda>patch_offset.
           run_then (Some (old_from old_data src_start)) (\<lambda>src.
           run_then (ApplyBSDiffPatch (env_bz env) (env_malloc env) (env_sha env) src (ssize_of src_len)
                       patch (ssize_of patch_offset) (env_sink env) (im_token st) (im_ctx st))
             (\<lambda>(rc, token, ctx). Some (Ok (Continue \<lparr> im_pos = pos, im_token = token, im_ctx = ctx \<rparr>))))))))"

text \<open>\<^verbatim>\<open>SHA_update(ctx, p, n)\<close> with \<^verbatim>\<open>ctx\<close> dereferenced.\<close>

definition sha_update :: "('z, 's, 'd, 'c, 't) patch_env \<Rightarrow> 'c option \<Rightarrow> bytes \<Rightarrow> 'c option outcome" where
  "sha_update env ctx xs = (case ctx of None \<Rightarrow> Inl OutOfBounds | Some c \<Rightarrow> Ok (Some (env_sha env c xs)))"

text \<open>A \<^verbatim>\<open>CHUNK_RAW\<close> record. A negative \<^verbatim>\<open>data_len\<close> passes the check and is a length that
  \<^verbatim>\<open>SHA_update\<close> cannot read.\<close>

definition raw_chunk ::
  "('z, 's, 'd, 'c, 't) patch_env \<Rightarrow> bytes \<Rightarrow> ('t, 'c) img_state \<Rightarrow> ('t, 'c) img_flow" where
  "raw_chunk env patch st =
     (let raw_header = im_pos st; pos = im_pos st + 4
      in if pos > int (length patch) then img_fail st
         else
           run_then (Some (int_at patch raw_header)) (\<lambda>data_len.
             if pos + data_len > int (length patch) then img_fail st
             else if data_len < 0 then Some (Inl OutOfBounds)
             else
               let xs = take (nat data_len) (drop (nat pos) patch)
               in run_then (Some (sha_update env (im_ctx st) xs)) (\<lambda>ctx.
                    case env_sink env xs (im_token st) of (n, token) \<Rightarrow>
                      if n \<noteq> data_len then Some (Ok (Return (-1, token, ctx)))
                      else Some (Ok (Continue \<lparr> im_pos = pos + data_len, im_token = token, im_ctx = ctx \<rparr>)))))"

section \<open>Deflate chunks\<close>

record deflate_rec =
  dr_src_start :: int
  dr_src_len :: int
  dr_patch_offset :: int
  dr_expanded_len :: int
  dr_target_len :: int
  dr_level :: int
  dr_method :: int
  dr_windowBits :: int
  dr_memLevel :: int
  dr_strategy :: int

definition read_deflate_header :: "bytes \<Rightarrow> int \<Rightarrow> deflate_rec outcome" where
  "read_deflate_header patch h =
     then_do (size_at patch h) (\<lambda>src_start.
     then_do (size_at patch (h + 8)) (\<lambda>src_len.
     then_do (size_at patch (h + 16)) (\<lambda>patch_offset.
     then_do (size_at patch (h + 24)) (\<lambda>expanded_len.
     then_do (size_at patch (h + 32)) (\<lambda>target_len.
     then_do (int_at patch (h + 40)) (\<lambda>level.
     then_do (int_at patch (h + 44)) (\<lambda>method.
     then_do (int_at patch (h + 48)) (\<lambda>windowBits.
     then_do (int_at patch (h + 52)) (\<lambda>memLevel.
     then_do (int_at patch (h + 56)) (\<lambda>strategy.
       Ok \<lparr> dr_src_start = src_start, dr_src_len = src_len, dr_patch_offset = patch_offset,
            dr_expanded_len = expanded_len, dr_target_len = target_len, dr_level = level,
            dr_method = method, dr_windowBits = windowBits, dr_memLevel = memLevel,
            dr_strategy = strategy \<rparr>))))))))))"

text \<open>From \<^verbatim>\<open>malloc(expanded_len)\<close> to \<^verbatim>\<open>inflateEnd\<close>: the buffer
  \<^verbatim>\<open>expanded_source\<close>.\<close>

definition inflate_source ::
  "('z, 's, 'd, 'c, 't) patch_env \<Rightarrow> bytes \<Rightarrow> deflate_rec \<Rightarrow> (int, bytes) flow outcome" where
  "inflate_source env old_data r =
     (case env_malloc env (nat (dr_expanded_len r)) of
        None \<Rightarrow> Ok (Return (-1))
      | Some expanded_source \<Rightarrow>
          then_do (old_from old_data (dr_src_start r)) (\<lambda>src.
            let avail_in = uint_of (dr_src_len r); avail_out = uint_of (dr_expanded_len r)
            in if avail_in > int (length src) then Inl OutOfBounds
               else case z_inflateInit2 (env_zlib env) (take (nat avail_in) src) of (ret, strm) \<Rightarrow>
                 if ret \<noteq> Z_OK then Ok (Return (-1))
                 else case z_inflate (env_zlib env) strm (nat avail_out) of (ret, out, strm') \<Rightarrow>
                   if ret \<noteq> Z_STREAM_END then Ok (Return (-1))
                   else if avail_out - int (length out) \<noteq> 0 then Ok (Return (-1))
                   else Ok (Continue (put_at expanded_source 0 out))))"

text \<open>The loop that compresses into \<^verbatim>\<open>temp_data\<close>, which is null when the second
  \<^verbatim>\<open>malloc\<close> failed.\<close>

partial_function (option) deflate_loop ::
  "('z, 's, 'd, 'c, 't) patch_env \<Rightarrow> bytes option \<Rightarrow> int \<Rightarrow> 'd \<Rightarrow> 't \<Rightarrow> 'c option \<Rightarrow>
   (('t, 'c) img_result, 't \<times> 'c option) flow run" where
  "deflate_loop env temp_data temp_size strm token ctx =
     (case z_deflate (env_zlib env) strm (nat (uint_of temp_size)) of (ret, out, strm') \<Rightarrow>
        let have = temp_size - (uint_of temp_size - int (length out))
        in case temp_data of
             None \<Rightarrow> Some (Inl OutOfBounds)
           | Some buf \<Rightarrow>
               (let buf' = put_at buf 0 out
                in case env_sink env (take (nat have) buf') token of (n, token') \<Rightarrow>
                     if n \<noteq> have then Some (Ok (Return (-1, token', ctx)))
                     else case sha_update env ctx (take (nat have) buf') of
                       Inl e \<Rightarrow> Some (Inl e)
                     | Inr ctx' \<Rightarrow>
                         if ret \<noteq> Z_STREAM_END then deflate_loop env (Some buf') temp_size strm' token' ctx'
                         else Some (Ok (Continue (token', ctx')))))"

declare deflate_loop.simps [code]

definition deflate_target ::
  "('z, 's, 'd, 'c, 't) patch_env \<Rightarrow> deflate_rec \<Rightarrow> bytes \<Rightarrow> bytes \<Rightarrow> ('t, 'c) img_state \<Rightarrow>
   (('t, 'c) img_result, 't \<times> 'c option) flow run" where
  "deflate_target env r expanded_source target st =
     (let small = ssize_of (dr_expanded_len r) < 32768;
          temp_data = (if small then env_malloc env 32768 else Some expanded_source);
          temp_size = (if small then 32768 else ssize_of (dr_expanded_len r));
          avail_in = uint_of (int (length target))
      in case z_deflateInit2 (env_zlib env) (dr_level r) (dr_method r) (dr_windowBits r) (dr_memLevel r)
                (dr_strategy r) (take (nat avail_in) target) of (ret, strm) \<Rightarrow>
           deflate_loop env temp_data temp_size strm (im_token st) (im_ctx st))"

definition deflate_chunk ::
  "('z, 's, 'd, 'c, 't) patch_env \<Rightarrow> bytes \<Rightarrow> bytes \<Rightarrow> ('t, 'c) img_state \<Rightarrow> ('t, 'c) img_flow" where
  "deflate_chunk env old_data patch st =
     (let deflate_header = im_pos st; pos = im_pos st + 60
      in if pos > int (length patch) then img_fail st
         else
           run_then (Some (read_deflate_header patch deflate_header)) (\<lambda>r.
           run_then (Some (inflate_source env old_data r)) (\<lambda>f. case f of
             Return rc \<Rightarrow> Some (Ok (Return (rc, im_token st, im_ctx st)))
           | Continue expanded_source \<Rightarrow>
               run_then (ApplyBSDiffPatchMem (env_bz env) (env_malloc env) expanded_source
                           (ssize_of (dr_expanded_len r)) patch (ssize_of (dr_patch_offset r)))
                 (\<lambda>(rc, target).
                   if rc \<noteq> 0 then img_fail st
                   else run_then (deflate_target env r expanded_source target st) (\<lambda>f. case f of
                     Return res \<Rightarrow> Some (Ok (Return res))
                   | Continue (token, ctx) \<Rightarrow>
                       Some (Ok (Continue \<lparr> im_pos = pos, im_token = token, im_ctx = ctx \<rparr>)))))))"

section \<open>The loop over the chunks\<close>

definition chunk_step ::
  "('z, 's, 'd, 'c, 't) patch_env \<Rightarrow> bytes \<Rightarrow> bytes \<Rightarrow> ('t, 'c) img_state \<Rightarrow> ('t, 'c) img_flow" where
  "chunk_step env old_data patch st =
     (if im_pos st + 4 > int (length patch) then img_fail st
      else
        run_then (Some (int_at patch (im_pos st))) (\<lambda>type.
          let st = st\<lparr> im_pos := im_pos st + 4 \<rparr>
          in if type = CHUNK_NORMAL then normal_chunk env old_data patch st
             else if type = CHUNK_RAW then raw_chunk env patch st
             else if type = CHUNK_DEFLATE then deflate_chunk env old_data patch st
             else img_fail st))"

fun chunk_loop ::
  "('z, 's, 'd, 'c, 't) patch_env \<Rightarrow> bytes \<Rightarrow> bytes \<Rightarrow> nat \<Rightarrow> ('t, 'c) img_state \<Rightarrow>
   ('t, 'c) img_result run" where
  "chunk_loop env old_data patch 0 st = Some (Ok (0, im_token st, im_ctx st))"
| "chunk_loop env old_data patch (Suc n) st =
     run_then (chunk_step env old_data patch st) (\<lambda>f. case f of
       Return res \<Rightarrow> Some (Ok res)
     | Continue st' \<Rightarrow> chunk_loop env old_data patch n st')"

definition imgdiff_magic :: bytes where
  "imgdiff_magic = [0x49, 0x4D, 0x47, 0x44, 0x49, 0x46, 0x46, 0x32]"

definition ApplyImagePatch ::
  "('z, 's, 'd, 'c, 't) patch_env \<Rightarrow> bytes \<Rightarrow> bytes \<Rightarrow> 't \<Rightarrow> 'c option \<Rightarrow>
   ('t, 'c) img_result run" where
  "ApplyImagePatch env old_data patch token ctx =
     (let st = \<lparr> im_pos = 12, im_token = token, im_ctx = ctx \<rparr>
      in if int (length patch) < 12 then Some (Ok (-1, token, ctx))
         else if memcmp patch imgdiff_magic 8 \<noteq> 0 then Some (Ok (-1, token, ctx))
         else run_then (Some (int_at patch 8)) (\<lambda>num_chunks.
                chunk_loop env old_data patch (nat num_chunks) st))"

end
