(* ===== verification/Img_Diff.thy ===== *)
theory Img_Diff
  imports Img_Patch C_String
begin

text \<open>
  The image patch generator \<^verbatim>\<open>src/applypatch/imgdiff.c\<close>: it cuts two images into chunks of
  uninterpreted data and of deflate streams, makes a BSDIFF40 patch per chunk and writes the
  IMGDIFF2 file. A file that was read is a list of bytes. A \<^verbatim>\<open>data\<close> pointer is a position in the
  image it points into, or a block of its own; fields that the source leaves unset are 0 here.
  zlib and bzip2 are arguments.
\<close>

section \<open>Chunks\<close>

datatype chunk_ptr = ImgAt int | Own bytes

record ImageChunk =
  ic_type :: int
  ic_start :: int
  ic_len :: int
  ic_data :: chunk_ptr
  ic_source_start :: int
  ic_source_len :: int
  ic_I :: "int list option"
  ic_deflate_len :: int
  ic_deflate_data :: int
  ic_filename :: "bytes option"
  ic_level :: int
  ic_method :: int
  ic_windowBits :: int
  ic_memLevel :: int
  ic_strategy :: int
  ic_source_uncompressed_len :: int

definition blank_chunk :: ImageChunk where
  "blank_chunk = \<lparr> ic_type = 0, ic_start = 0, ic_len = 0, ic_data = ImgAt 0, ic_source_start = 0,
     ic_source_len = 0, ic_I = None, ic_deflate_len = 0, ic_deflate_data = 0, ic_filename = None,
     ic_level = 0, ic_method = 0, ic_windowBits = 0, ic_memLevel = 0, ic_strategy = 0,
     ic_source_uncompressed_len = 0 \<rparr>"

definition normal_at :: "int \<Rightarrow> int \<Rightarrow> ImageChunk" where
  "normal_at pos len = blank_chunk\<lparr> ic_type := CHUNK_NORMAL, ic_start := pos, ic_len := len, ic_data := ImgAt pos \<rparr>"

definition mem_at :: "bytes \<Rightarrow> int \<Rightarrow> int \<Rightarrow> bytes outcome" where
  "mem_at img p n = (case slice img p n of None \<Rightarrow> Inl OutOfBounds | Some xs \<Rightarrow> Ok xs)"

text \<open>The \<^verbatim>\<open>n\<close> bytes at a pointer.\<close>

definition ptr_bytes :: "bytes \<Rightarrow> chunk_ptr \<Rightarrow> int \<Rightarrow> bytes outcome" where
  "ptr_bytes img ptr n = (case ptr of ImgAt p \<Rightarrow> mem_at img p n | Own b \<Rightarrow> mem_at b 0 n)"

text \<open>A chain \<^verbatim>\<open>p[0] == a && p[1] == b && ...\<close>.\<close>

fun starts_at :: "bytes \<Rightarrow> int \<Rightarrow> bytes \<Rightarrow> bool outcome" where
  "starts_at img p [] = Ok True"
| "starts_at img p (b # bs) =
     (case rd img p of None \<Rightarrow> Inl OutOfBounds
      | Some x \<Rightarrow> if x = b then starts_at img (p + 1) bs else Ok False)"

section \<open>ReadImage\<close>

definition gzip_magic :: bytes where
  "gzip_magic = [0x1f, 0x8b, 0x08, 0x00]"

definition GZIP_HEADER_LEN :: int where "GZIP_HEADER_LEN = 10"
definition GZIP_FOOTER_LEN :: int where "GZIP_FOOTER_LEN = 8"

text \<open>The loop that scans forward to the next gzip header.\<close>

function gzip_scan :: "bytes \<Rightarrow> int \<Rightarrow> int \<Rightarrow> int \<Rightarrow> int outcome" where
  "gzip_scan img st_size pos len =
     (if len < st_size - pos then
        (case starts_at img (pos + len) gzip_magic of
           Inl e \<Rightarrow> Inl e
         | Inr b \<Rightarrow> if b then Ok len else gzip_scan img st_size pos (len + 1))
      else Ok len)"
  by pat_completeness auto
termination
  by (relation "measure (\<lambda>(img, n, pos, len). nat (n - pos - len))") auto

declare gzip_scan.simps [simp del]

text \<open>The loop that inflates a stream into a block that doubles when it is full.\<close>

partial_function (option) inflate_loop ::
  "('s, 'd) zlib \<Rightarrow> 's \<Rightarrow> int \<Rightarrow> bytes \<Rightarrow> (bytes \<times> 's) option" where
  "inflate_loop zl strm allocated data =
     (case z_inflate zl strm (nat (uint_of (allocated - int (length data)))) of (ret, out, strm') \<Rightarrow>
        let data' = data @ out;
            allocated' = (if allocated - int (length data') = 0 then allocated * 2 else allocated)
        in if ret \<noteq> Z_STREAM_END then inflate_loop zl strm' allocated' data' else Some (data', strm'))"

declare inflate_loop.simps [code]

text \<open>The three chunks for a gzip file found at \<^verbatim>\<open>pos\<close>: header, deflate data, footer, and the
  check of the length in the footer. \<^verbatim>\<open>img\<close> has the four zero bytes appended.\<close>

definition gzip_chunks ::
  "('s, 'd) zlib \<Rightarrow> bytes \<Rightarrow> int \<Rightarrow> int \<Rightarrow> (unit, ImageChunk list \<times> int) flow run" where
  "gzip_chunks zl img st_size pos =
     (let header = normal_at pos GZIP_HEADER_LEN; pos = pos + GZIP_HEADER_LEN
      in run_then (Some (stream_input img pos (st_size - pos))) (\<lambda>input.
         case inflate_loop zl (snd (z_inflateInit2 zl input)) 32768 [] of
           None \<Rightarrow> None
         | Some (data, strm) \<Rightarrow>
             let deflate_len = st_size - int (z_avail_in zl strm) - pos;
                 body = blank_chunk\<lparr> ic_type := CHUNK_DEFLATE, ic_start := pos, ic_len := int (length data),
                          ic_data := Own data, ic_deflate_len := deflate_len, ic_deflate_data := pos \<rparr>;
                 footer_pos = pos + deflate_len;
                 footer = normal_at footer_pos GZIP_FOOTER_LEN;
                 pos = footer_pos + GZIP_FOOTER_LEN
             in case Read4 (drop (nat (pos - 4)) img) of
                  None \<Rightarrow> Some (Inl OutOfBounds)
                | Some w \<Rightarrow>
                    if uint (word_of_int (sint w) :: u64) \<noteq> int (length data) then Some (Ok (Return ()))
                    else Some (Ok (Continue ([header, body, footer], pos)))))"

partial_function (option) image_loop ::
  "('s, 'd) zlib \<Rightarrow> bytes \<Rightarrow> int \<Rightarrow> int \<Rightarrow> ImageChunk list \<Rightarrow> (unit, ImageChunk list) flow run" where
  "image_loop zl img st_size pos chunks =
     (if pos < st_size then
        (case (if st_size - pos \<ge> 4 then starts_at img pos gzip_magic else Ok False) of
           Inl e \<Rightarrow> Some (Inl e)
         | Inr gz \<Rightarrow>
             if gz then
               (case gzip_chunks zl img st_size pos of
                  None \<Rightarrow> None
                | Some r \<Rightarrow>
                    (case r of Inl e \<Rightarrow> Some (Inl e)
                     | Inr f \<Rightarrow>
                         (case f of Return u \<Rightarrow> Some (Ok (Return u))
                          | Continue p \<Rightarrow> image_loop zl img st_size (snd p) (chunks @ fst p))))
             else
               (case gzip_scan img st_size pos 0 of
                  Inl e \<Rightarrow> Some (Inl e)
                | Inr len \<Rightarrow> image_loop zl img st_size (pos + len) (chunks @ [normal_at pos len])))
      else Some (Ok (Continue chunks)))"

declare image_loop.simps [code]

text \<open>The chunks of a file, or \<^const>\<open>None\<close> in place of \<^verbatim>\<open>NULL\<close>.\<close>

definition ReadImage :: "('s, 'd) zlib \<Rightarrow> bytes \<Rightarrow> ImageChunk list option run" where
  "ReadImage zl file =
     run_then (image_loop zl (file @ [0, 0, 0, 0]) (int (length file)) 0 [])
       (\<lambda>f. Some (Ok (case f of Return _ \<Rightarrow> None | Continue chunks \<Rightarrow> Some chunks)))"

section \<open>ReadZip\<close>

record ZipFileEntry =
  ze_data_offset :: int
  ze_deflate_len :: int
  ze_uncomp_len :: int
  ze_filename :: bytes

definition fileentry_compare :: "ZipFileEntry \<Rightarrow> ZipFileEntry \<Rightarrow> int" where
  "fileentry_compare a b =
     (if ze_data_offset a < ze_data_offset b then -1
      else if ze_data_offset a > ze_data_offset b then 1 else 0)"

text \<open>\<^verbatim>\<open>for (i = st.st_size-20; i >= 0 && i > st.st_size - 65600; --i)\<close>\<close>

function find_eocd :: "bytes \<Rightarrow> int \<Rightarrow> int outcome" where
  "find_eocd img i =
     (if i \<ge> 0 \<and> i > int (length img) - 65600 then
        (case starts_at img i [0x50, 0x4b, 0x05, 0x06] of
           Inl e \<Rightarrow> Inl e
         | Inr b \<Rightarrow> if b then Ok i else find_eocd img (i - 1))
      else Ok i)"
  by pat_completeness auto
termination
  by (relation "measure (\<lambda>(img, i). nat (i + 1))") auto

declare find_eocd.simps [simp del]

text \<open>\<^verbatim>\<open>Read2\<close> and \<^verbatim>\<open>Read4\<close> at a position of the image.\<close>

definition img_read2 :: "bytes \<Rightarrow> int \<Rightarrow> int outcome" where
  "img_read2 img p =
     (if p < 0 then Inl OutOfBounds
      else case Read2 (drop (nat p) img) of None \<Rightarrow> Inl OutOfBounds | Some w \<Rightarrow> Ok (sint w))"

definition img_read4 :: "bytes \<Rightarrow> int \<Rightarrow> int outcome" where
  "img_read4 img p =
     (if p < 0 then Inl OutOfBounds
      else case Read4 (drop (nat p) img) of None \<Rightarrow> Inl OutOfBounds | Some w \<Rightarrow> Ok (sint w))"

text \<open>The part of a central directory entry after the magic number: the entry, if its data is
  deflated, and the position of the next one. \<^const>\<open>Return\<close> is a \<^verbatim>\<open>NULL\<close> result.\<close>

definition local_entry ::
  "bytes \<Rightarrow> int \<Rightarrow> int \<Rightarrow> int \<Rightarrow> int \<Rightarrow> bytes \<Rightarrow> (unit, ZipFileEntry) flow outcome" where
  "local_entry img hoffset clen ulen nlen filename =
     then_do (starts_at img hoffset [0x50, 0x4b, 0x03, 0x04]) (\<lambda>ok.
       if \<not> ok then Ok (Return ())
       else then_do (img_read2 img (hoffset + 26)) (\<lambda>n.
         if n \<noteq> nlen then Ok (Return ())
         else then_do (mem_at img (hoffset + 30) nlen) (\<lambda>name.
           if name \<noteq> filename then Ok (Return ())
           else then_do (img_read2 img (hoffset + 28)) (\<lambda>xlen.
             then_do (c_int (hoffset + 30 + nlen + xlen)) (\<lambda>off.
               Ok (Continue \<lparr> ze_data_offset = off, ze_deflate_len = clen,
                              ze_uncomp_len = ulen, ze_filename = filename \<rparr>))))))"

fun cd_loop :: "bytes \<Rightarrow> nat \<Rightarrow> int \<Rightarrow> (unit, ZipFileEntry list) flow outcome" where
  "cd_loop img 0 cd = Ok (Continue [])"
| "cd_loop img (Suc n) cd =
     then_do (starts_at img cd [0x50, 0x4b, 0x01, 0x02]) (\<lambda>ok.
       if \<not> ok then Ok (Return ())
       else
         then_do (img_read4 img (cd + 20)) (\<lambda>clen.
         then_do (img_read4 img (cd + 24)) (\<lambda>ulen.
         then_do (img_read2 img (cd + 28)) (\<lambda>nlen.
         then_do (img_read2 img (cd + 30)) (\<lambda>xlen.
         then_do (img_read2 img (cd + 32)) (\<lambda>mlen.
         then_do (img_read4 img (cd + 42)) (\<lambda>hoffset.
         then_do (mem_at img (cd + 46) nlen) (\<lambda>filename.
         then_do (img_read2 img (cd + 10)) (\<lambda>method.
           let cd' = cd + (46 + nlen + xlen + mlen)
           in if method \<noteq> 8 then cd_loop img n cd'
              else then_do (local_entry img hoffset clen ulen nlen filename) (\<lambda>f. case f of
                Return u \<Rightarrow> Ok (Return u)
              | Continue e \<Rightarrow>
                  then_do (cd_loop img n cd') (\<lambda>g. Ok (case g of
                    Return u \<Rightarrow> Return u
                  | Continue es \<Rightarrow> Continue (e # es)))))))))))))"

text \<open>A deflate chunk of a zip file: one call of \<^verbatim>\<open>inflate\<close> must reach the end of the stream.
  A negative length becomes a huge \<^verbatim>\<open>size_t\<close>.\<close>

definition zip_deflate_chunk ::
  "('s, 'd) zlib \<Rightarrow> bytes \<Rightarrow> int \<Rightarrow> ZipFileEntry \<Rightarrow> (unit, ImageChunk) flow outcome" where
  "zip_deflate_chunk zl img pos e =
     (let deflate_len = uint (word_of_int (ze_deflate_len e) :: u64);
          len = uint (word_of_int (ze_uncomp_len e) :: u64)
      in then_do (stream_input img pos deflate_len) (\<lambda>input.
           case z_inflate zl (snd (z_inflateInit2 zl input)) (nat (uint_of len)) of (ret, out, strm) \<Rightarrow>
             if ret \<noteq> Z_STREAM_END then Ok (Return ())
             else Ok (Continue (blank_chunk\<lparr> ic_type := CHUNK_DEFLATE, ic_start := pos,
                    ic_deflate_len := deflate_len, ic_deflate_data := pos, ic_filename := Some (ze_filename e),
                    ic_len := len, ic_data := Own out \<rparr>))))"

function zip_loop ::
  "('s, 'd) zlib \<Rightarrow> bytes \<Rightarrow> int \<Rightarrow> ZipFileEntry list \<Rightarrow> (unit, ImageChunk list) flow outcome" where
  "zip_loop zl img pos entries =
     (if pos < int (length img) then
        (case entries of
           e # es \<Rightarrow>
             if pos = ze_data_offset e then
               (case zip_deflate_chunk zl img pos e of
                  Inl err \<Rightarrow> Inl err
                | Inr f \<Rightarrow>
                    (case f of Return u \<Rightarrow> Ok (Return u)
                     | Continue c \<Rightarrow>
                         then_do (zip_loop zl img (pos + ze_deflate_len e) es) (\<lambda>g. Ok (case g of
                           Return u \<Rightarrow> Return u | Continue cs \<Rightarrow> Continue (c # cs)))))
             else
               then_do (zip_loop zl img (ze_data_offset e) entries) (\<lambda>g. Ok (case g of
                 Return u \<Rightarrow> Return u
               | Continue cs \<Rightarrow> Continue (normal_at pos (uint (word_of_int (ze_data_offset e - pos) :: u64)) # cs)))
         | [] \<Rightarrow> Ok (Continue [normal_at pos (int (length img) - pos)]))
      else Ok (Continue []))"
  by pat_completeness auto
termination
  by (relation "measure (\<lambda>(zl, img, pos, es). 2 * length es +
        (if es \<noteq> [] \<and> pos = ze_data_offset (hd es) then 0 else 1))") (auto split: if_splits)

declare zip_loop.simps [simp del]

definition ReadZip :: "('s, 'd) zlib \<Rightarrow> bytes \<Rightarrow> bool \<Rightarrow> ImageChunk list option outcome" where
  "ReadZip zl img include_pseudo_chunk =
     then_do (find_eocd img (int (length img) - 20)) (\<lambda>i.
     then_do (starts_at img (i + 4) [0, 0, 0, 0]) (\<lambda>single.
       if \<not> single then Ok None
       else
         then_do (img_read2 img (i + 8)) (\<lambda>cdcount.
         then_do (img_read4 img (i + 16)) (\<lambda>cdoffset.
         then_do (cd_loop img (nat cdcount) cdoffset) (\<lambda>f. case f of
           Return _ \<Rightarrow> Ok None
         | Continue temp_entries \<Rightarrow>
             then_do (zip_loop zl img 0 (qsort fileentry_compare temp_entries)) (\<lambda>g. Ok (case g of
               Return _ \<Rightarrow> None
             | Continue chunks \<Rightarrow>
                 Some ((if include_pseudo_chunk then [normal_at 0 (int (length img))] else []) @ chunks))))))))"

section \<open>Deflate chunks that can be rebuilt\<close>

definition BUFFER_SIZE :: int where "BUFFER_SIZE = 32768"

text \<open>The loop of \<^verbatim>\<open>TryReconstruction\<close>; \<^verbatim>\<open>p\<close> is how much of the original deflate data was
  matched.\<close>

partial_function (option) try_loop ::
  "('s, 'd) zlib \<Rightarrow> bytes \<Rightarrow> ImageChunk \<Rightarrow> 'd \<Rightarrow> int \<Rightarrow> int run" where
  "try_loop zl img chunk strm p =
     (case z_deflate zl strm (nat BUFFER_SIZE) of (ret, out, strm') \<Rightarrow>
        (case mem_at img (ic_deflate_data chunk + p) (int (length out)) of
           Inl e \<Rightarrow> Some (Inl e)
         | Inr orig \<Rightarrow>
             if out \<noteq> orig then Some (Ok (-1))
             else
               (let p' = p + int (length out)
                in if ret \<noteq> Z_STREAM_END then try_loop zl img chunk strm' p'
                   else if p' \<noteq> ic_deflate_len chunk then Some (Ok (-1)) else Some (Ok 0))))"

declare try_loop.simps [code]

definition TryReconstruction :: "('s, 'd) zlib \<Rightarrow> bytes \<Rightarrow> ImageChunk \<Rightarrow> int run" where
  "TryReconstruction zl img chunk =
     run_then (Some (ptr_bytes img (ic_data chunk) (uint_of (ic_len chunk)))) (\<lambda>input.
       try_loop zl img chunk
         (snd (z_deflateInit2 zl (ic_level chunk) (ic_method chunk) (ic_windowBits chunk) (ic_memLevel chunk)
                 (ic_strategy chunk) input)) 0)"

definition Z_DEFLATED :: int where "Z_DEFLATED = 8"
definition Z_DEFAULT_STRATEGY :: int where "Z_DEFAULT_STRATEGY = 0"

definition encoder_params :: "int \<Rightarrow> ImageChunk \<Rightarrow> ImageChunk" where
  "encoder_params level chunk =
     chunk\<lparr> ic_level := level, ic_windowBits := -15, ic_memLevel := 8, ic_method := Z_DEFLATED,
            ic_strategy := Z_DEFAULT_STRATEGY \<rparr>"

text \<open>The loop over the levels 6 and 9, written out; after it \<^verbatim>\<open>level\<close> is 12.\<close>

definition ReconstructDeflateChunk :: "('s, 'd) zlib \<Rightarrow> bytes \<Rightarrow> ImageChunk \<Rightarrow> (int \<times> ImageChunk) run" where
  "ReconstructDeflateChunk zl img chunk =
     (if ic_type chunk \<noteq> CHUNK_DEFLATE then Some (Ok (-1, chunk))
      else
        run_then (TryReconstruction zl img (encoder_params 6 chunk)) (\<lambda>r6.
          if r6 = 0 then Some (Ok (0, encoder_params 6 chunk))
          else run_then (TryReconstruction zl img (encoder_params 9 chunk)) (\<lambda>r9.
            if r9 = 0 then Some (Ok (0, encoder_params 9 chunk))
            else Some (Ok (-1, (encoder_params 9 chunk)\<lparr> ic_level := 12 \<rparr>)))))"

definition ChangeDeflateChunkToNormal :: "ImageChunk \<Rightarrow> ImageChunk" where
  "ChangeDeflateChunkToNormal ch =
     (if ic_type ch \<noteq> CHUNK_DEFLATE then ch
      else ch\<lparr> ic_type := CHUNK_NORMAL, ic_data := ImgAt (ic_deflate_data ch), ic_len := ic_deflate_len ch \<rparr>)"

definition AreChunksEqual :: "bytes \<Rightarrow> bytes \<Rightarrow> ImageChunk \<Rightarrow> ImageChunk \<Rightarrow> bool outcome" where
  "AreChunksEqual img_a img_b a b =
     (if ic_type a \<noteq> ic_type b then Ok False
      else if ic_type a = CHUNK_NORMAL then
        (if ic_len a \<noteq> ic_len b then Ok False
         else then_do (ptr_bytes img_a (ic_data a) (ic_len a)) (\<lambda>x.
              then_do (ptr_bytes img_b (ic_data b) (ic_len a)) (\<lambda>y. Ok (x = y))))
      else if ic_type a = CHUNK_DEFLATE then
        (if ic_deflate_len a \<noteq> ic_deflate_len b then Ok False
         else then_do (mem_at img_a (ic_deflate_data a) (ic_deflate_len a)) (\<lambda>x.
              then_do (mem_at img_b (ic_deflate_data b) (ic_deflate_len a)) (\<lambda>y. Ok (x = y))))
      else Ok False)"

section \<open>Merging\<close>

text \<open>Whether chunk \<^verbatim>\<open>b\<close> is a normal chunk that begins where the chunk \<^verbatim>\<open>a\<close> ends, in the file
  and in memory.\<close>

definition follows :: "ImageChunk \<Rightarrow> ImageChunk \<Rightarrow> bool" where
  "follows a b \<longleftrightarrow>
     ic_type b = CHUNK_NORMAL \<and> ic_start b = ic_start a + ic_len a \<and>
     (case (ic_data a, ic_data b) of (ImgAt p, ImgAt q) \<Rightarrow> q = p + ic_len a | _ \<Rightarrow> False)"

text \<open>The run of chunks that follow the chunk \<^verbatim>\<open>prev\<close> without a gap, and the rest: the inner
  loop, with the last chunk of the run.\<close>

fun normal_run :: "ImageChunk \<Rightarrow> ImageChunk list \<Rightarrow> ImageChunk \<times> ImageChunk list" where
  "normal_run prev [] = (prev, [])"
| "normal_run prev (c # cs) = (if follows prev c then normal_run c cs else (prev, c # cs))"

lemma length_normal_run [termination_simp]: "length (snd (normal_run p cs)) \<le> length cs"
  by (induction p cs rule: normal_run.induct) auto

text \<open>The loop over \<^verbatim>\<open>in_start\<close>. A run of one chunk is copied, a longer one becomes one
  chunk: the fields that the source does not assign are those of the chunk that the slot
  \<^verbatim>\<open>out\<close> held, so they come from \<^verbatim>\<open>chunks\<close> itself.\<close>

function merge_loop :: "ImageChunk list \<Rightarrow> nat \<Rightarrow> ImageChunk list \<Rightarrow> ImageChunk list" where
  "merge_loop slots n [] = []"
| "merge_loop slots n (c # cs) =
     (if ic_type c \<noteq> CHUNK_NORMAL \<or> cs = [] \<or> \<not> follows c (hd cs) then c # merge_loop slots (Suc n) cs
      else
        (let (lst, rest) = normal_run c cs
         in (slots ! n)\<lparr> ic_type := CHUNK_NORMAL, ic_start := ic_start c, ic_data := ic_data c,
                         ic_len := ic_len lst + (ic_start lst - ic_start c) \<rparr>
            # merge_loop slots (Suc n) rest))"
  by pat_completeness auto
termination
  by (relation "measure (\<lambda>(slots, n, cs). length cs)")
     (auto, metis length_normal_run less_Suc_eq_le snd_conv)

definition MergeAdjacentNormalChunks :: "ImageChunk list \<Rightarrow> ImageChunk list" where
  "MergeAdjacentNormalChunks chunks = merge_loop chunks 0 chunks"

section \<open>Patches per chunk\<close>

text \<open>The index of the chunk. The names are compared as C strings, up to the first 0.\<close>

definition cstr :: "bytes \<Rightarrow> bytes" where
  "cstr xs = takeWhile (\<lambda>b. b \<noteq> 0) xs"

fun FindChunkByName :: "bytes \<Rightarrow> ImageChunk list \<Rightarrow> nat \<Rightarrow> nat option" where
  "FindChunkByName name [] i = None"
| "FindChunkByName name (c # cs) i =
     (if ic_type c = CHUNK_DEFLATE \<and> (case ic_filename c of None \<Rightarrow> False | Some f \<Rightarrow> cstr name = cstr f) then Some i
      else FindChunkByName name cs (Suc i))"

text \<open>The patch data, and the source and target chunk after the call. \<^const>\<open>None\<close>: \<^verbatim>\<open>bsdiff\<close> left
  the program or did not return.\<close>

definition MakePatch ::
  "(bytes list \<Rightarrow> bytes option) \<Rightarrow> bytes \<Rightarrow> bytes \<Rightarrow> ImageChunk \<Rightarrow> ImageChunk \<Rightarrow>
   (bytes \<times> ImageChunk \<times> ImageChunk) run" where
  "MakePatch bz src_img tgt_img src tgt =
     run_then (Some (ptr_bytes tgt_img (ic_data tgt) (ic_len tgt))) (\<lambda>new.
       if ic_type tgt = CHUNK_NORMAL \<and> ic_len tgt \<le> 160 then
         Some (Ok (new, src, tgt\<lparr> ic_type := CHUNK_RAW \<rparr>))
       else
         run_then (Some (ptr_bytes src_img (ic_data src) (ic_len src))) (\<lambda>old.
           case bsdiff bz old (ic_I src) new of
             None \<Rightarrow> None
           | Some (I, patch) \<Rightarrow>
               let src' = src\<lparr> ic_I := Some I \<rparr>
               in if ic_type tgt = CHUNK_NORMAL \<and> ic_len tgt \<le> int (length patch) then
                    Some (Ok (new, src', tgt\<lparr> ic_type := CHUNK_RAW \<rparr>))
                  else if ic_type tgt = CHUNK_DEFLATE then
                    Some (Ok (patch, src', tgt\<lparr> ic_source_start := ic_start src,
                      ic_source_len := ic_deflate_len src, ic_source_uncompressed_len := ic_len src \<rparr>))
                  else if ic_type tgt = CHUNK_NORMAL then
                    Some (Ok (patch, src', tgt\<lparr> ic_source_start := ic_start src, ic_source_len := ic_len src \<rparr>))
                  else Some (Ok (patch, src', tgt\<lparr> ic_source_start := ic_start src \<rparr>))))"

section \<open>Writing the file\<close>

definition header_size :: "(ImageChunk \<times> bytes) \<Rightarrow> int" where
  "header_size cp =
     4 + (if ic_type (fst cp) = CHUNK_NORMAL then 24
          else if ic_type (fst cp) = CHUNK_DEFLATE then 60
          else if ic_type (fst cp) = CHUNK_RAW then 4 + int (length (snd cp))
          else 0)"

definition total_header_size :: "(ImageChunk \<times> bytes) list \<Rightarrow> int" where
  "total_header_size cps = 12 + sum_list (map header_size cps)"

text \<open>One record, appended to the file.\<close>

definition write_record :: "int \<Rightarrow> ImageChunk \<Rightarrow> bytes \<Rightarrow> bytes \<Rightarrow> bytes" where
  "write_record offset c patch f =
     (let f = Write4 (word_of_int (ic_type c)) f
      in if ic_type c = CHUNK_NORMAL then
           Write8 (word_of_int offset) (Write8 (word_of_int (ic_source_len c))
             (Write8 (word_of_int (ic_source_start c)) f))
         else if ic_type c = CHUNK_DEFLATE then
           (let f = Write8 (word_of_int (ic_source_start c)) f;
                f = Write8 (word_of_int (ic_source_len c)) f;
                f = Write8 (word_of_int offset) f;
                f = Write8 (word_of_int (ic_source_uncompressed_len c)) f;
                f = Write8 (word_of_int (ic_len c)) f;
                f = Write4 (word_of_int (ic_level c)) f;
                f = Write4 (word_of_int (ic_method c)) f;
                f = Write4 (word_of_int (ic_windowBits c)) f;
                f = Write4 (word_of_int (ic_memLevel c)) f
            in Write4 (word_of_int (ic_strategy c)) f)
         else if ic_type c = CHUNK_RAW then Write4 (word_of_int (int (length patch))) f @ patch
         else f)"

definition next_offset :: "int \<Rightarrow> ImageChunk \<Rightarrow> bytes \<Rightarrow> int" where
  "next_offset offset c patch =
     (if ic_type c = CHUNK_NORMAL \<or> ic_type c = CHUNK_DEFLATE then offset + int (length patch) else offset)"

fun write_headers :: "int \<Rightarrow> (ImageChunk \<times> bytes) list \<Rightarrow> bytes \<Rightarrow> bytes" where
  "write_headers offset [] f = f"
| "write_headers offset ((c, patch) # cps) f =
     write_headers (next_offset offset c patch) cps (write_record offset c patch f)"

text \<open>\<^verbatim>\<open>Append each chunk's bsdiff patch, in order.\<close>\<close>

definition append_patches :: "(ImageChunk \<times> bytes) list \<Rightarrow> bytes" where
  "append_patches cps = concat (map (\<lambda>(c, patch). if ic_type c \<noteq> CHUNK_RAW then patch else []) cps)"

definition write_imgdiff :: "(ImageChunk \<times> bytes) list \<Rightarrow> bytes" where
  "write_imgdiff cps =
     write_headers (total_header_size cps) cps
       (Write4 (word_of_int (int (length cps))) imgdiff_magic) @ append_patches cps"

section \<open>main\<close>

text \<open>The index of the source chunk that belongs to target chunk \<^verbatim>\<open>i\<close>: found by name in a zip
  file, the chunk with the same number in an image.\<close>

definition source_index :: "bool \<Rightarrow> ImageChunk list \<Rightarrow> ImageChunk \<Rightarrow> nat \<Rightarrow> nat option" where
  "source_index zip_mode src_chunks tgt i =
     (if zip_mode then (case ic_filename tgt of None \<Rightarrow> None | Some f \<Rightarrow> FindChunkByName f src_chunks 0)
      else Some i)"

definition change_at :: "ImageChunk list \<Rightarrow> nat option \<Rightarrow> ImageChunk list" where
  "change_at chunks k =
     (case k of None \<Rightarrow> chunks
      | Some j \<Rightarrow> if j < length chunks then chunks[j := ChangeDeflateChunkToNormal (chunks ! j)] else chunks)"

text \<open>The body of the loop over the target chunks: the deflate chunks that stay are those that
  can be compressed again and have a source chunk that differs.\<close>

definition settle_chunk ::
  "('s, 'd) zlib \<Rightarrow> bool \<Rightarrow> bytes \<Rightarrow> bytes \<Rightarrow> nat \<Rightarrow> ImageChunk list \<times> ImageChunk list \<Rightarrow>
   (ImageChunk list \<times> ImageChunk list) run" where
  "settle_chunk zl zip_mode src_img tgt_img i = (\<lambda>(src, tgt).
     if ic_type (tgt ! i) \<noteq> CHUNK_DEFLATE then Some (Ok (src, tgt))
     else
       run_then (ReconstructDeflateChunk zl tgt_img (tgt ! i)) (\<lambda>(rc, t).
         let k = source_index zip_mode src t i
         in if rc < 0 then
              Some (Ok (change_at src k, tgt[i := ChangeDeflateChunkToNormal t]))
            else
              case k of
                None \<Rightarrow> Some (Ok (src, tgt[i := ChangeDeflateChunkToNormal t]))
              | Some j \<Rightarrow>
                  if j \<ge> length src then Some (Inl OutOfBounds)
                  else run_then (Some (AreChunksEqual tgt_img src_img t (src ! j))) (\<lambda>same.
                    if same then Some (Ok (change_at src k, tgt[i := ChangeDeflateChunkToNormal t]))
                    else Some (Ok (src, tgt[i := t])))))"

fun settle_loop ::
  "('s, 'd) zlib \<Rightarrow> bool \<Rightarrow> bytes \<Rightarrow> bytes \<Rightarrow> nat list \<Rightarrow> ImageChunk list \<times> ImageChunk list \<Rightarrow>
   (ImageChunk list \<times> ImageChunk list) run" where
  "settle_loop zl zip_mode src_img tgt_img [] st = Some (Ok st)"
| "settle_loop zl zip_mode src_img tgt_img (i # is) st =
     run_then (settle_chunk zl zip_mode src_img tgt_img i st) (settle_loop zl zip_mode src_img tgt_img is)"

text \<open>The source chunk a patch is made against.\<close>

definition patch_source :: "bool \<Rightarrow> ImageChunk list \<Rightarrow> ImageChunk \<Rightarrow> nat \<Rightarrow> nat" where
  "patch_source zip_mode src tgt i =
     (if zip_mode then
        (if ic_type tgt = CHUNK_DEFLATE then
           (case source_index True src tgt i of None \<Rightarrow> 0 | Some j \<Rightarrow> j)
         else 0)
      else i)"

fun patch_chunks ::
  "(bytes list \<Rightarrow> bytes option) \<Rightarrow> bool \<Rightarrow> bytes \<Rightarrow> bytes \<Rightarrow> nat \<Rightarrow> ImageChunk list \<Rightarrow> ImageChunk list \<Rightarrow>
   (ImageChunk \<times> bytes) list run" where
  "patch_chunks bz zip_mode src_img tgt_img i src [] = Some (Ok [])"
| "patch_chunks bz zip_mode src_img tgt_img i src (t # ts) =
     (let j = patch_source zip_mode src t i
      in if j \<ge> length src then Some (Inl OutOfBounds)
         else run_then (MakePatch bz src_img tgt_img (src ! j) t) (\<lambda>(patch, s', t').
           run_then (patch_chunks bz zip_mode src_img tgt_img (Suc i) (src[j := s']) ts) (\<lambda>cps.
             Some (Ok ((t', patch) # cps)))))"

text \<open>From the two chunk lists to the file: an exit code, and the file where it is 0. \<^verbatim>\<open>tgt_mem\<close> and
  \<^verbatim>\<open>src_mem\<close> are the images as they are in memory.\<close>

definition imgdiff_chunks ::
  "(bytes list \<Rightarrow> bytes option) \<Rightarrow> ('s, 'd) zlib \<Rightarrow> bool \<Rightarrow> bytes \<Rightarrow> bytes \<Rightarrow> ImageChunk list \<Rightarrow> ImageChunk list \<Rightarrow>
   (int \<times> bytes) run" where
  "imgdiff_chunks bz zl zip_mode src_mem tgt_mem src tgt =
     run_then (settle_loop zl zip_mode src_mem tgt_mem [0..<length tgt] (src, tgt)) (\<lambda>(src, tgt).
       let tgt = MergeAdjacentNormalChunks tgt;
           src = (if zip_mode then src else MergeAdjacentNormalChunks src)
       in if \<not> zip_mode \<and> length src \<noteq> length tgt then Some (Ok (1, []))
          else run_then (patch_chunks bz zip_mode src_mem tgt_mem 0 src tgt) (\<lambda>cps.
            Some (Ok (0, write_imgdiff cps))))"

definition same_structure :: "ImageChunk list \<Rightarrow> ImageChunk list \<Rightarrow> bool" where
  "same_structure src tgt \<longleftrightarrow> length src = length tgt \<and> map ic_type src = map ic_type tgt"

definition imgdiff_main ::
  "(bytes list \<Rightarrow> bytes option) \<Rightarrow> ('s, 'd) zlib \<Rightarrow> bool \<Rightarrow> bytes \<Rightarrow> bytes \<Rightarrow> (int \<times> bytes) run" where
  "imgdiff_main bz zl zip_mode src_file tgt_file =
     (if zip_mode then
        run_then (Some (ReadZip zl src_file True)) (\<lambda>s. case s of
          None \<Rightarrow> Some (Ok (1, []))
        | Some src \<Rightarrow>
            run_then (Some (ReadZip zl tgt_file False)) (\<lambda>t. case t of
              None \<Rightarrow> Some (Ok (1, []))
            | Some tgt \<Rightarrow> imgdiff_chunks bz zl True src_file tgt_file src tgt))
      else
        run_then (ReadImage zl src_file) (\<lambda>s. case s of
          None \<Rightarrow> Some (Ok (1, []))
        | Some src \<Rightarrow>
            run_then (ReadImage zl tgt_file) (\<lambda>t. case t of
              None \<Rightarrow> Some (Ok (1, []))
            | Some tgt \<Rightarrow>
                let tgt = MergeAdjacentNormalChunks tgt; src = MergeAdjacentNormalChunks src
                in if \<not> same_structure src tgt then Some (Ok (1, []))
                   else imgdiff_chunks bz zl False (src_file @ [0, 0, 0, 0]) (tgt_file @ [0, 0, 0, 0]) src tgt)))"

section \<open>Reading back what was written\<close>

definition enc4 :: "int \<Rightarrow> bytes" where "enc4 v = Write4 (word_of_int v) []"
definition enc8 :: "int \<Rightarrow> bytes" where "enc8 v = Write8 (word_of_int v) []"

lemma length_enc [simp]: "length (enc4 v) = 4" "length (enc8 v) = 8"
  by (simp_all add: enc4_def enc8_def)

lemma Write4_enc: "Write4 (word_of_int v) f = f @ enc4 v"
  by (simp add: enc4_def Write4_def fputc_def Let_def)

lemma Write4_enc_nat: "Write4 (word_of_nat n) f = f @ enc4 (int n)"
  using Write4_enc[of "int n" f] by simp

lemma Write8_enc: "Write8 (word_of_int v) f = f @ enc8 v"
  by (simp add: enc8_def Write8_def fputc_def Let_def)

lemma Read4_enc4: "Read4 (enc4 v @ rest) = Some (word_of_int v)"
  unfolding enc4_def Write4_def fputc_def Let_def by (simp add: Read4_Write4_bits)

lemma Read8_enc8: "Read8 (enc8 v @ rest) = Some (word_of_int v)"
  unfolding enc8_def Write8_def fputc_def Let_def by (simp add: Read8_Write8_bits)

lemma sint_small: "\<lbrakk>- (2 ^ 31) \<le> v; v < 2 ^ 31\<rbrakk> \<Longrightarrow> sint (word_of_int v :: u32) = v"
  by transfer (simp add: signed_take_bit_int_eq_self)

lemma uint64_small: "\<lbrakk>0 \<le> v; v < 2 ^ 64\<rbrakk> \<Longrightarrow> uint (word_of_int v :: u64) = v"
  by (simp add: uint_word_of_int take_bit_int_eq_self)

lemma ssize_of_small: "\<lbrakk>0 \<le> v; v < 2 ^ 63\<rbrakk> \<Longrightarrow> ssize_of v = v"
  unfolding ssize_of_def by transfer (simp add: signed_take_bit_int_eq_self)

lemma uint_of_small: "\<lbrakk>0 \<le> v; v < 2 ^ 32\<rbrakk> \<Longrightarrow> uint_of v = v"
  by (simp add: uint_of_def uint_word_of_int take_bit_int_eq_self)

text \<open>A field at position \<^verbatim>\<open>p\<close> of a file \<^verbatim>\<open>pre @ field @ rest\<close>.\<close>

lemma int_at_enc4:
  assumes "p = int (length pre)" "- (2 ^ 31) \<le> v" "v < 2 ^ 31"
  shows "int_at (pre @ enc4 v @ rest) p = Ok v"
  using assms by (simp add: int_at_def Read4_enc4 sint_small)

lemma size_at_enc8:
  assumes "p = int (length pre)" "0 \<le> v" "v < 2 ^ 64"
  shows "size_at (pre @ enc8 v @ rest) p = Ok v"
  using assms by (simp add: size_at_def Read8_enc8 uint64_small)

section \<open>The layout of the file\<close>

definition record_bytes :: "int \<Rightarrow> ImageChunk \<Rightarrow> bytes \<Rightarrow> bytes" where
  "record_bytes off c patch =
     enc4 (ic_type c) @
     (if ic_type c = CHUNK_NORMAL then enc8 (ic_source_start c) @ enc8 (ic_source_len c) @ enc8 off
      else if ic_type c = CHUNK_DEFLATE then
        enc8 (ic_source_start c) @ enc8 (ic_source_len c) @ enc8 off @ enc8 (ic_source_uncompressed_len c) @
        enc8 (ic_len c) @ enc4 (ic_level c) @ enc4 (ic_method c) @ enc4 (ic_windowBits c) @
        enc4 (ic_memLevel c) @ enc4 (ic_strategy c)
      else if ic_type c = CHUNK_RAW then enc4 (int (length patch)) @ patch
      else [])"

fun records :: "int \<Rightarrow> (ImageChunk \<times> bytes) list \<Rightarrow> bytes" where
  "records off [] = []"
| "records off ((c, patch) # cps) = record_bytes off c patch @ records (next_offset off c patch) cps"

lemma write_record_bytes: "write_record off c patch f = f @ record_bytes off c patch"
  by (simp add: write_record_def record_bytes_def Write4_enc Write4_enc_nat Write8_enc Let_def)

lemma write_headers_records: "write_headers off cps f = f @ records off cps"
  by (induction off cps f rule: write_headers.induct) (simp_all add: write_record_bytes)

lemma length_record_bytes: "int (length (record_bytes off c patch)) = header_size (c, patch)"
  by (auto simp: record_bytes_def header_size_def CHUNK_NORMAL_def CHUNK_DEFLATE_def CHUNK_RAW_def)

lemma length_records: "int (length (records off cps)) = sum_list (map header_size cps)"
  by (induction off cps rule: records.induct) (simp_all add: length_record_bytes)

lemma write_imgdiff_layout:
  "write_imgdiff cps = imgdiff_magic @ enc4 (int (length cps)) @ records (total_header_size cps) cps @ append_patches cps"
  by (simp add: write_imgdiff_def write_headers_records Write4_enc_nat)

section \<open>Sinks, hashes and deflate streams\<close>

text \<open>A sink that takes everything, with the bytes it holds given by \<^verbatim>\<open>got\<close>; a hash context that
  absorbs bytes in order.\<close>

definition sink_appends :: "'t sink \<Rightarrow> ('t \<Rightarrow> bytes) \<Rightarrow> bool" where
  "sink_appends sink got \<longleftrightarrow>
     (\<forall>xs t. fst (sink xs t) = int (length xs) \<and> got (snd (sink xs t)) = got t @ xs)"

definition sha_absorbs :: "('c \<Rightarrow> bytes \<Rightarrow> 'c) \<Rightarrow> ('c \<Rightarrow> bytes) \<Rightarrow> bool" where
  "sha_absorbs upd seen \<longleftrightarrow> (\<forall>c xs. seen (upd c xs) = seen c @ xs)"

text \<open>\<^verbatim>\<open>R strm bs\<close>: the stream still has \<^verbatim>\<open>bs\<close> to deliver. A call reports the end exactly
  when everything is delivered, and delivers something otherwise.\<close>

definition z_delivers :: "('s, 'd) zlib \<Rightarrow> ('d \<Rightarrow> bytes \<Rightarrow> bool) \<Rightarrow> bool" where
  "z_delivers zl R \<longleftrightarrow>
     (\<forall>strm bs n. R strm bs \<and> 0 < n \<longrightarrow>
        (\<exists>ret out strm' bs'. z_deflate zl strm n = (ret, out, strm') \<and> bs = out @ bs' \<and> length out \<le> n \<and>
           (if bs' = [] then ret = Z_STREAM_END else ret \<noteq> Z_STREAM_END \<and> out \<noteq> []) \<and> R strm' bs'))"

text \<open>A finished piece of work: the sink and the hash got \<^verbatim>\<open>bs\<close>.\<close>

definition emitted ::
  "('t \<Rightarrow> bytes) \<Rightarrow> ('c \<Rightarrow> bytes) \<Rightarrow> 't \<Rightarrow> 'c \<Rightarrow> bytes \<Rightarrow> 't \<Rightarrow> 'c option \<Rightarrow> bool" where
  "emitted got seen t c bs t' ctx' \<longleftrightarrow> got t' = got t @ bs \<and> (\<exists>c'. ctx' = Some c' \<and> seen c' = seen c @ bs)"

lemma emitted_trans:
  assumes "emitted got seen t c a t1 (Some c1)" "emitted got seen t1 c1 b t2 x2"
  shows "emitted got seen t c (a @ b) t2 x2"
  using assms by (auto simp: emitted_def)

lemma deflate_loop_delivers:
  assumes zd: "z_delivers (env_zlib env) R" and sk: "sink_appends (env_sink env) got"
    and sh: "sha_absorbs (env_sha env) seen" and size: "0 < temp_size" "temp_size < 2 ^ 31"
  shows "\<lbrakk>R strm bs; int (length buf) = temp_size\<rbrakk> \<Longrightarrow>
    \<exists>t' x'. deflate_loop env (Some buf) temp_size strm t (Some c) = Some (Ok (Continue (t', x'))) \<and>
      emitted got seen t c bs t' x'"
proof (induction "length bs" arbitrary: bs strm buf t c rule: less_induct)
  case less
  have u: "uint_of temp_size = temp_size" using size by (intro uint_of_small) auto
  obtain ret out strm' bs' where d: "z_deflate (env_zlib env) strm (nat temp_size) = (ret, out, strm')"
    "bs = out @ bs'" "length out \<le> nat temp_size"
    "if bs' = [] then ret = Z_STREAM_END else ret \<noteq> Z_STREAM_END \<and> out \<noteq> []" "R strm' bs'"
    using zd[unfolded z_delivers_def, rule_format, of strm bs "nat temp_size"] less.prems size by auto
  define buf' where "buf' = put_at buf 0 out"
  have lb: "int (length buf') = temp_size" unfolding buf'_def using less.prems d(3) size by simp
  have hd: "take (length out) buf' = out" by (simp add: buf'_def put_at_def)
  obtain t1 where s: "env_sink env out t = (int (length out), t1)" "got t1 = got t @ out"
    using sk unfolding sink_appends_def by (metis prod.collapse)
  define c1 where "c1 = env_sha env c out"
  have e1: "emitted got seen t c out t1 (Some c1)"
    using s sh by (simp add: emitted_def c1_def sha_absorbs_def)
  have step: "deflate_loop env (Some buf) temp_size strm t (Some c) =
      (if ret \<noteq> Z_STREAM_END then deflate_loop env (Some buf') temp_size strm' t1 (Some c1)
       else Some (Ok (Continue (t1, Some c1))))"
    by (subst deflate_loop.simps) (simp add: u d(1) hd s sha_update_def c1_def Let_def flip: buf'_def)
  show ?case
  proof (cases "bs' = []")
    case True
    then show ?thesis using step d e1 by auto
  next
    case False
    then have "length bs' < length bs" "ret \<noteq> Z_STREAM_END" using d by auto
    with less.hyps[OF this(1) d(5) lb, of t1 c1] step d(2) e1 show ?thesis
      by (auto intro: emitted_trans)
  qed
qed

section \<open>What one chunk gives\<close>

text \<open>The patch of a chunk, wherever it is in a file, turns an old memory block into \<^verbatim>\<open>out\<close>.\<close>

definition patch_gives :: "'z bzlib \<Rightarrow> (nat \<Rightarrow> bytes option) \<Rightarrow> bytes \<Rightarrow> int \<Rightarrow> bytes \<Rightarrow> bytes \<Rightarrow> bool" where
  "patch_gives lib malloc old old_size patch out \<longleftrightarrow>
     (\<forall>pre post. length (pre @ patch @ post) < 2 ^ 31 \<longrightarrow>
        ApplyBSDiffPatchMem lib malloc old old_size (pre @ patch @ post) (int (length pre)) = Some (Ok (0, out)))"

definition deflate_rec_of :: "int \<Rightarrow> ImageChunk \<Rightarrow> deflate_rec" where
  "deflate_rec_of off c =
     \<lparr> dr_src_start = ic_source_start c, dr_src_len = ic_source_len c, dr_patch_offset = off,
       dr_expanded_len = ic_source_uncompressed_len c, dr_target_len = ic_len c, dr_level = ic_level c,
       dr_method = ic_method c, dr_windowBits = ic_windowBits c, dr_memLevel = ic_memLevel c,
       dr_strategy = ic_strategy c \<rparr>"

definition int32_range :: "int \<Rightarrow> bool" where
  "int32_range v \<longleftrightarrow> - (2 ^ 31) \<le> v \<and> v < 2 ^ 31"

definition deflate_fields_ok :: "ImageChunk \<Rightarrow> bool" where
  "deflate_fields_ok c \<longleftrightarrow>
     0 \<le> ic_source_start c \<and> ic_source_start c < 2 ^ 63 \<and> 0 \<le> ic_source_len c \<and> ic_source_len c < 2 ^ 63 \<and>
     0 \<le> ic_source_uncompressed_len c \<and> ic_source_uncompressed_len c < 2 ^ 31 \<and>
     0 \<le> ic_len c \<and> ic_len c < 2 ^ 63 \<and> int32_range (ic_level c) \<and> int32_range (ic_method c) \<and>
     int32_range (ic_windowBits c) \<and> int32_range (ic_memLevel c) \<and> int32_range (ic_strategy c)"

text \<open>The target bytes of a chunk with its patch data: a raw chunk carries them; a normal chunk is
  patched from a part of the old file; a deflate chunk is inflated, patched and compressed
  again.\<close>

definition chunk_gives ::
  "('z, 's, 'd, 'c, 't) patch_env \<Rightarrow> ('d \<Rightarrow> bytes \<Rightarrow> bool) \<Rightarrow> bytes \<Rightarrow> ImageChunk \<Rightarrow> bytes \<Rightarrow> bytes \<Rightarrow> bool" where
  "chunk_gives env R old c patch out \<longleftrightarrow>
     (if ic_type c = CHUNK_RAW then out = patch
      else if ic_type c = CHUNK_NORMAL then
        0 \<le> ic_source_start c \<and> ic_source_start c \<le> int (length old) \<and> ic_source_start c < 2 ^ 63 \<and>
        0 \<le> ic_source_len c \<and> ic_source_len c < 2 ^ 63 \<and>
        patch_gives (env_bz env) (env_malloc env) (drop (nat (ic_source_start c)) old) (ic_source_len c) patch out
      else ic_type c = CHUNK_DEFLATE \<and> deflate_fields_ok c \<and>
        (\<exists>expanded target strm.
           (\<forall>off. inflate_source env old (deflate_rec_of off c) = Ok (Continue expanded)) \<and>
           int (length expanded) = ic_source_uncompressed_len c \<and>
           patch_gives (env_bz env) (env_malloc env) expanded (ic_source_uncompressed_len c) patch target \<and>
           length target < 2 ^ 31 \<and>
           snd (z_deflateInit2 (env_zlib env) (ic_level c) (ic_method c) (ic_windowBits c) (ic_memLevel c)
                  (ic_strategy c) target) = strm \<and> R strm out))"

text \<open>The environment in which a chunk gives its bytes: \<^verbatim>\<open>got\<close> and \<^verbatim>\<open>seen\<close> read what the sink
  and the hash were given, \<^verbatim>\<open>R\<close> what a deflate stream still has to deliver.\<close>

definition env_ok ::
  "('z, 's, 'd, 'c, 't) patch_env \<Rightarrow> ('d \<Rightarrow> bytes \<Rightarrow> bool) \<Rightarrow> ('t \<Rightarrow> bytes) \<Rightarrow> ('c \<Rightarrow> bytes) \<Rightarrow> bool" where
  "env_ok env R got seen \<longleftrightarrow>
     z_delivers (env_zlib env) R \<and> sink_appends (env_sink env) got \<and> sha_absorbs (env_sha env) seen \<and>
     (\<exists>b. env_malloc env 32768 = Some b \<and> length b = 32768)"

lemma sink_takes:
  assumes "env_ok env R got seen"
  obtains t' where "env_sink env xs t = (int (length xs), t')" "got t' = got t @ xs"
  using assms unfolding env_ok_def sink_appends_def by (metis prod.collapse)

lemma emitted_update:
  assumes "env_ok env R got seen"
  shows "got t' = got t @ xs \<Longrightarrow> emitted got seen t c xs t' (Some (env_sha env c xs))"
  using assms by (simp add: emitted_def sha_absorbs_def env_ok_def)

lemma raw_chunk_ok:
  assumes ok: "env_ok env R got seen" and "length patch < 2 ^ 31"
  shows "\<exists>t' x'. raw_chunk env (pre @ enc4 (int (length patch)) @ patch @ post)
      \<lparr> im_pos = int (length pre), im_token = t, im_ctx = Some c \<rparr> =
      Some (Ok (Continue \<lparr> im_pos = int (length (pre @ enc4 (int (length patch)) @ patch)), im_token = t', im_ctx = x' \<rparr>))
      \<and> emitted got seen t c patch t' x'"
proof -
  let ?f = "pre @ enc4 (int (length patch)) @ patch @ post"
  have i: "int_at ?f (int (length pre)) = Ok (int (length patch))"
    using assms by (intro int_at_enc4) auto
  have "take (length patch) (drop (length pre + 4) ?f) = patch"
    by simp
  then have x: "take (nat (int (length patch))) (drop (nat (int (length pre) + 4)) ?f) = patch"
    by (simp add: nat_add_distrib)
  obtain t' where s: "env_sink env patch t = (int (length patch), t')" "got t' = got t @ patch"
    by (rule sink_takes[OF ok])
  show ?thesis
    unfolding raw_chunk_def using s i x emitted_update[OF ok s(2), of c]
    by (simp add: Let_def sha_update_def)
qed

lemma ApplyBSDiffPatch_ok:
  assumes ok: "env_ok env R got seen" and "patch_gives (env_bz env) (env_malloc env) old old_size patch out" "length (pre @ patch @ post) < 2 ^ 31"
  shows "\<exists>t' x'. ApplyBSDiffPatch (env_bz env) (env_malloc env) (env_sha env) old old_size (pre @ patch @ post)
      (int (length pre)) (env_sink env) t (Some c) = Some (Ok (0, t', x')) \<and> emitted got seen t c out t' x'"
proof -
  obtain t' where s: "env_sink env out t = (int (length out), t')" "got t' = got t @ out"
    by (rule sink_takes[OF ok])
  show ?thesis
    using assms s emitted_update[OF ok s(2), of c]
    by (simp add: ApplyBSDiffPatch_def patch_gives_def)
qed

lemma normal_chunk_ok:
  assumes ok: "env_ok env R got seen" and f: "f = pre @ (enc8 start @ enc8 len @ enc8 off) @ mid" "f = a @ patch @ post" "off = int (length a)"
    and "0 \<le> start" "start \<le> int (length old)" "start < 2 ^ 63" "0 \<le> len" "len < 2 ^ 63" "length f < 2 ^ 31"
    and "patch_gives (env_bz env) (env_malloc env) (drop (nat start) old) len patch out"
  shows "\<exists>t' x'. normal_chunk env old f \<lparr> im_pos = int (length pre), im_token = t, im_ctx = Some c \<rparr> =
      Some (Ok (Continue \<lparr> im_pos = int (length pre) + 24, im_token = t', im_ctx = x' \<rparr>))
      \<and> emitted got seen t c out t' x'"
proof -
  have "length f = length a + length (patch @ post)" by (simp add: f(2))
  then have off: "0 \<le> off" "off < 2 ^ 31" using f(3) assms(10) by auto
  have r1: "size_at f (int (length pre)) = Ok start"
    using size_at_enc8[of "int (length pre)" pre start "enc8 len @ enc8 off @ mid"] assms(5-7) by (simp add: f(1))
  have r2: "size_at f (int (length pre) + 8) = Ok len"
    using size_at_enc8[of "int (length pre) + 8" "pre @ enc8 start" len "enc8 off @ mid"] assms(8,9) by (simp add: f(1))
  have r3: "size_at f (int (length pre) + 16) = Ok off"
    using size_at_enc8[of "int (length pre) + 16" "pre @ enc8 start @ enc8 len" off mid] off by (simp add: f(1))
  have len: "int (length pre) + 24 \<le> int (length f)" using f(1) by simp
  obtain t' x' where a: "ApplyBSDiffPatch (env_bz env) (env_malloc env) (env_sha env) (drop (nat start) old) len f
      off (env_sink env) t (Some c) = Some (Ok (0, t', x'))" "emitted got seen t c out t' x'"
    using ApplyBSDiffPatch_ok[OF ok assms(11), of a post t c] f(2,3) assms(10) by auto
  have s: "ssize_of len = len" "ssize_of off = off" using assms(8,9) off by (auto intro!: ssize_of_small)
  show ?thesis
    unfolding normal_chunk_def using r1 r2 r3 len a s assms(6) by (simp add: Let_def old_from_def)
qed

lemma read_deflate_header_ok:
  assumes f: "f = pre @ (enc8 (ic_source_start c) @ enc8 (ic_source_len c) @ enc8 off @ enc8 (ic_source_uncompressed_len c) @
        enc8 (ic_len c) @ enc4 (ic_level c) @ enc4 (ic_method c) @ enc4 (ic_windowBits c) @
        enc4 (ic_memLevel c) @ enc4 (ic_strategy c)) @ mid"
    and ok: "deflate_fields_ok c" and off: "0 \<le> off" "off < 2 ^ 63"
  shows "read_deflate_header f (int (length pre)) = Ok (deflate_rec_of off c)"
proof -
  let ?h = "int (length pre)"
  let ?a = "enc8 (ic_source_start c)" and ?b = "enc8 (ic_source_len c)" and ?d = "enc8 (ic_source_uncompressed_len c)"
  let ?o = "enc8 off" and ?e = "enc8 (ic_len c)" and ?l = "enc4 (ic_level c)" and ?m = "enc4 (ic_method c)"
  let ?w = "enc4 (ic_windowBits c)" and ?k = "enc4 (ic_memLevel c)" and ?s = "enc4 (ic_strategy c)"
  have v: "ic_source_start c < 2 ^ 64" "ic_source_len c < 2 ^ 64" "ic_source_uncompressed_len c < 2 ^ 64"
    "ic_len c < 2 ^ 64" "off < 2 ^ 64" using ok off by (auto simp: deflate_fields_ok_def)
  have "size_at f ?h = Ok (ic_source_start c)"
    using size_at_enc8[of ?h pre "ic_source_start c"] ok v by (simp add: f deflate_fields_ok_def)
  moreover have "size_at f (?h + 8) = Ok (ic_source_len c)"
    using size_at_enc8[of "?h + 8" "pre @ ?a" "ic_source_len c"] ok v by (simp add: f deflate_fields_ok_def)
  moreover have "size_at f (?h + 16) = Ok off"
    using size_at_enc8[of "?h + 16" "pre @ ?a @ ?b" off] off v by (simp add: f)
  moreover have "size_at f (?h + 24) = Ok (ic_source_uncompressed_len c)"
    using size_at_enc8[of "?h + 24" "pre @ ?a @ ?b @ ?o" "ic_source_uncompressed_len c"] ok v
    by (simp add: f deflate_fields_ok_def)
  moreover have "size_at f (?h + 32) = Ok (ic_len c)"
    using size_at_enc8[of "?h + 32" "pre @ ?a @ ?b @ ?o @ ?d" "ic_len c"] ok v by (simp add: f deflate_fields_ok_def)
  moreover have "int_at f (?h + 40) = Ok (ic_level c)"
    using int_at_enc4[of "?h + 40" "pre @ ?a @ ?b @ ?o @ ?d @ ?e" "ic_level c"] ok
    by (simp add: f deflate_fields_ok_def int32_range_def)
  moreover have "int_at f (?h + 44) = Ok (ic_method c)"
    using int_at_enc4[of "?h + 44" "pre @ ?a @ ?b @ ?o @ ?d @ ?e @ ?l" "ic_method c"] ok
    by (simp add: f deflate_fields_ok_def int32_range_def)
  moreover have "int_at f (?h + 48) = Ok (ic_windowBits c)"
    using int_at_enc4[of "?h + 48" "pre @ ?a @ ?b @ ?o @ ?d @ ?e @ ?l @ ?m" "ic_windowBits c"] ok
    by (simp add: f deflate_fields_ok_def int32_range_def)
  moreover have "int_at f (?h + 52) = Ok (ic_memLevel c)"
    using int_at_enc4[of "?h + 52" "pre @ ?a @ ?b @ ?o @ ?d @ ?e @ ?l @ ?m @ ?w" "ic_memLevel c"] ok
    by (simp add: f deflate_fields_ok_def int32_range_def)
  moreover have "int_at f (?h + 56) = Ok (ic_strategy c)"
    using int_at_enc4[of "?h + 56" "pre @ ?a @ ?b @ ?o @ ?d @ ?e @ ?l @ ?m @ ?w @ ?k" "ic_strategy c"] ok
    by (simp add: f deflate_fields_ok_def int32_range_def)
  ultimately show ?thesis by (simp add: read_deflate_header_def deflate_rec_of_def)
qed

lemma deflate_target_ok:
  assumes ok: "env_ok env R got seen" and "deflate_fields_ok ch" "length target < 2 ^ 31"
    "int (length expanded) = ic_source_uncompressed_len ch"
    "R (snd (z_deflateInit2 (env_zlib env) (ic_level ch) (ic_method ch) (ic_windowBits ch) (ic_memLevel ch)
            (ic_strategy ch) target)) out"
  shows "\<exists>t' x'. deflate_target env (deflate_rec_of off ch) expanded target
      \<lparr> im_pos = p, im_token = t, im_ctx = Some c \<rparr> = Some (Ok (Continue (t', x'))) \<and> emitted got seen t c out t' x'"
proof -
  have s: "ssize_of (ic_source_uncompressed_len ch) = ic_source_uncompressed_len ch"
    using assms(2) by (intro ssize_of_small) (auto simp: deflate_fields_ok_def)
  have u: "nat (uint_of (int (length target))) = length target"
    using uint_of_small[of "int (length target)"] assms(3) by simp
  have tk: "take (nat (uint_of (int (length target)))) target = target" by (simp add: u)
  note loop = deflate_loop_delivers[of env R got seen, OF _ _ _ _ _ assms(5)]
  obtain b where b: "env_malloc env 32768 = Some b" "int (length b) = 32768"
    using ok by (auto simp: env_ok_def)
  show ?thesis
  proof (cases "ic_source_uncompressed_len ch < 32768")
    case True
    have "\<exists>t' x'. deflate_loop env (Some b) 32768 (snd (z_deflateInit2 (env_zlib env) (ic_level ch) (ic_method ch)
        (ic_windowBits ch) (ic_memLevel ch) (ic_strategy ch) target)) t (Some c) = Some (Ok (Continue (t', x'))) \<and>
        emitted got seen t c out t' x'"
      by (rule loop) (use ok b in \<open>auto simp: env_ok_def\<close>)
    then show ?thesis using True b tk s
      by (simp add: deflate_target_def deflate_rec_of_def Let_def split_beta)
  next
    case False
    have "\<exists>t' x'. deflate_loop env (Some expanded) (ic_source_uncompressed_len ch) (snd (z_deflateInit2 (env_zlib env) (ic_level ch) (ic_method ch)
        (ic_windowBits ch) (ic_memLevel ch) (ic_strategy ch) target)) t (Some c) = Some (Ok (Continue (t', x'))) \<and>
        emitted got seen t c out t' x'"
      by (rule loop) (use ok assms(2,4) False in \<open>auto simp: env_ok_def deflate_fields_ok_def\<close>)
    then show ?thesis using False tk s
      by (simp add: deflate_target_def deflate_rec_of_def Let_def split_beta)
  qed
qed

lemma deflate_chunk_ok:
  assumes ok: "env_ok env R got seen" and t: "ic_type ch = CHUNK_DEFLATE"
    and g: "chunk_gives env R old ch patch out"
    and f: "f = (pre @ enc4 (ic_type ch)) @ drop 4 (record_bytes off ch patch) @ mid" "f = a @ patch @ post" "off = int (length a)"
      "length f < 2 ^ 31"
  shows "\<exists>t' x'. deflate_chunk env old f \<lparr> im_pos = int (length pre) + 4, im_token = t, im_ctx = Some c \<rparr> =
      Some (Ok (Continue \<lparr> im_pos = int (length pre) + 64, im_token = t', im_ctx = x' \<rparr>))
      \<and> emitted got seen t c out t' x'"
proof -
  have ty: "CHUNK_DEFLATE \<noteq> CHUNK_RAW" "CHUNK_DEFLATE \<noteq> CHUNK_NORMAL"
    by (simp_all add: CHUNK_DEFLATE_def CHUNK_RAW_def CHUNK_NORMAL_def)
  obtain expanded target where fields: "deflate_fields_ok ch"
    and inf: "\<And>off. inflate_source env old (deflate_rec_of off ch) = Ok (Continue expanded)"
    and el: "int (length expanded) = ic_source_uncompressed_len ch"
    and pg: "patch_gives (env_bz env) (env_malloc env) expanded (ic_source_uncompressed_len ch) patch target"
    and tl: "length target < 2 ^ 31"
    and strm: "R (snd (z_deflateInit2 (env_zlib env) (ic_level ch) (ic_method ch) (ic_windowBits ch) (ic_memLevel ch)
                  (ic_strategy ch) target)) out"
    using g unfolding chunk_gives_def by (auto simp: t ty)
  have "length f = length a + length (patch @ post)" by (simp add: f(2))
  then have off: "0 \<le> off" "off < 2 ^ 31" using f(3,4) by auto
  have rb: "drop 4 (record_bytes off ch patch) = enc8 (ic_source_start ch) @ enc8 (ic_source_len ch) @ enc8 off @
      enc8 (ic_source_uncompressed_len ch) @ enc8 (ic_len ch) @ enc4 (ic_level ch) @ enc4 (ic_method ch) @
      enc4 (ic_windowBits ch) @ enc4 (ic_memLevel ch) @ enc4 (ic_strategy ch)"
    by (simp add: record_bytes_def t ty)
  have h: "read_deflate_header f (int (length pre) + 4) = Ok (deflate_rec_of off ch)"
    using read_deflate_header_ok[of f "pre @ enc4 (ic_type ch)" ch off mid] f(1) fields off by (simp add: rb)
  have len: "int (length pre) + 4 + 60 \<le> int (length f)" unfolding f(1) rb by simp
  have ss: "ssize_of (ic_source_uncompressed_len ch) = ic_source_uncompressed_len ch" "ssize_of off = off"
    using fields off by (auto intro!: ssize_of_small simp: deflate_fields_ok_def)
  have pa: "ApplyBSDiffPatchMem (env_bz env) (env_malloc env) expanded (ic_source_uncompressed_len ch) f off
      = Some (Ok (0, target))"
    using pg f(2-4) by (simp add: patch_gives_def)
  obtain t' x' where "deflate_target env (deflate_rec_of off ch) expanded target
      \<lparr> im_pos = int (length pre) + 4, im_token = t, im_ctx = Some c \<rparr> = Some (Ok (Continue (t', x')))"
    "emitted got seen t c out t' x'"
    using deflate_target_ok[OF ok fields tl el strm] by blast
  then show ?thesis
    unfolding deflate_chunk_def using h len inf[of off] ss pa
    by (simp add: Let_def deflate_rec_of_def)
qed

text \<open>One round of the applier on a record of the generator.\<close>

lemma chunk_step_ok:
  assumes ok: "env_ok env R got seen" and g: "chunk_gives env R old ch patch out"
    and f: "f = pre @ record_bytes off ch patch @ mid" "length f < 2 ^ 31"
    and p: "ic_type ch \<noteq> CHUNK_RAW \<Longrightarrow> f = a @ patch @ post \<and> off = int (length a)"
  shows "\<exists>t' x'. chunk_step env old f \<lparr> im_pos = int (length pre), im_token = t, im_ctx = Some c \<rparr> =
      Some (Ok (Continue \<lparr> im_pos = int (length (pre @ record_bytes off ch patch)), im_token = t', im_ctx = x' \<rparr>))
      \<and> emitted got seen t c out t' x'"
proof -
  note types = CHUNK_DEFLATE_def CHUNK_RAW_def CHUNK_NORMAL_def
  have ty: "ic_type ch = CHUNK_RAW \<or> ic_type ch = CHUNK_NORMAL \<or> ic_type ch = CHUNK_DEFLATE"
    using g by (auto simp: chunk_gives_def split: if_splits)
  have len: "int (length pre) + 4 \<le> int (length f)" unfolding f(1) by (simp add: record_bytes_def)
  have split: "record_bytes off ch patch = enc4 (ic_type ch) @ drop 4 (record_bytes off ch patch)"
    by (simp add: record_bytes_def)
  have i: "int_at f (int (length pre)) = Ok (ic_type ch)"
    using int_at_enc4[of "int (length pre)" pre "ic_type ch" "drop 4 (record_bytes off ch patch) @ mid"] ty
    unfolding f(1) by (subst split) (auto simp: types)
  show ?thesis
    using ty
  proof (elim disjE)
    assume t: "ic_type ch = CHUNK_RAW"
    have out: "out = patch" using g t by (simp add: chunk_gives_def)
    have ff: "f = (pre @ enc4 (ic_type ch)) @ enc4 (int (length patch)) @ patch @ mid"
      by (simp add: f(1) record_bytes_def t types)
    have "length patch < 2 ^ 31" using f(2) unfolding ff by simp
    from raw_chunk_ok[OF ok this, of "pre @ enc4 (ic_type ch)" mid t c] show ?thesis
      using i len unfolding chunk_step_def ff[symmetric] out
      by (simp add: t types Let_def record_bytes_def add.assoc)
  next
    assume t: "ic_type ch = CHUNK_NORMAL"
    have ff: "f = (pre @ enc4 (ic_type ch)) @ (enc8 (ic_source_start ch) @ enc8 (ic_source_len ch) @ enc8 off) @ mid"
      by (simp add: f(1) record_bytes_def t)
    have nr: "ic_type ch \<noteq> CHUNK_RAW" by (simp add: t types)
    have "\<exists>t' x'. normal_chunk env old f \<lparr> im_pos = int (length (pre @ enc4 (ic_type ch))), im_token = t, im_ctx = Some c \<rparr> =
      Some (Ok (Continue \<lparr> im_pos = int (length (pre @ enc4 (ic_type ch))) + 24, im_token = t', im_ctx = x' \<rparr>))
      \<and> emitted got seen t c out t' x'"
      by (rule normal_chunk_ok[OF ok ff]) (use p[OF nr] g f(2) in \<open>auto simp: chunk_gives_def t types\<close>)
    then show ?thesis using i len unfolding chunk_step_def
      by (auto simp: t Let_def record_bytes_def add.assoc)
  next
    assume t: "ic_type ch = CHUNK_DEFLATE"
    have nr: "ic_type ch \<noteq> CHUNK_RAW" by (simp add: t types)
    have ff: "f = (pre @ enc4 (ic_type ch)) @ drop 4 (record_bytes off ch patch) @ mid"
      unfolding f(1) by (subst split) simp
    have lr: "length (record_bytes off ch patch) = 64"
      by (simp add: record_bytes_def t types)
    have ne: "CHUNK_DEFLATE \<noteq> CHUNK_NORMAL" "CHUNK_DEFLATE \<noteq> CHUNK_RAW" by (simp_all add: types)
    from deflate_chunk_ok[OF ok t g ff _ _ f(2), of a post t c] p[OF nr] show ?thesis
      using i len lr unfolding chunk_step_def by (auto simp: t ne Let_def)
  qed
qed

lemma chunk_loop_ok:
  assumes ok: "env_ok env R got seen"
  shows "\<lbrakk>list_all2 (\<lambda>cp. chunk_gives env R old (fst cp) (snd cp)) cps outs;
      f = pre @ records off cps @ q @ append_patches cps; off = int (length (pre @ records off cps @ q));
      length f < 2 ^ 31\<rbrakk> \<Longrightarrow>
    \<exists>t' x'. chunk_loop env old f (length cps) \<lparr> im_pos = int (length pre), im_token = t, im_ctx = Some c \<rparr> =
      Some (Ok (0, t', x')) \<and> emitted got seen t c (concat outs) t' x'"
proof (induction cps arbitrary: outs pre off q t c)
  case Nil
  then show ?case by (simp add: emitted_def)
next
  case (Cons cp cps)
  obtain ch patch where cp: "cp = (ch, patch)" by (cases cp)
  from Cons.prems(1) obtain out outs' where outs: "outs = out # outs'"
    and g: "chunk_gives env R old ch patch out"
    and gs: "list_all2 (\<lambda>cp. chunk_gives env R old (fst cp) (snd cp)) cps outs'"
    by (auto simp: list_all2_Cons1 cp)
  define off' where "off' = next_offset off ch patch"
  define own where "own = (if ic_type ch \<noteq> CHUNK_RAW then patch else [])"
  have f: "f = pre @ record_bytes off ch patch @ records off' cps @ q @ own @ append_patches cps"
    using Cons.prems(2) by (simp add: cp off'_def own_def append_patches_def)
  have off_eq: "off = int (length (pre @ record_bytes off ch patch @ records off' cps @ q))"
    using Cons.prems(3) by (simp add: cp off'_def)
  have ty: "ic_type ch = CHUNK_RAW \<or> ic_type ch = CHUNK_NORMAL \<or> ic_type ch = CHUNK_DEFLATE"
    using g by (auto simp: chunk_gives_def split: if_splits)
  then have off': "off' = off + int (length own)"
    by (auto simp: off'_def own_def next_offset_def CHUNK_DEFLATE_def CHUNK_RAW_def CHUNK_NORMAL_def)
  obtain t1 x1 where s: "chunk_step env old f \<lparr> im_pos = int (length pre), im_token = t, im_ctx = Some c \<rparr> =
      Some (Ok (Continue \<lparr> im_pos = int (length (pre @ record_bytes off ch patch)), im_token = t1, im_ctx = x1 \<rparr>))"
    and e1: "emitted got seen t c out t1 x1"
    using chunk_step_ok[OF ok g f Cons.prems(4), of "pre @ record_bytes off ch patch @ records off' cps @ q"
        "append_patches cps" t c] off_eq f by (auto simp: own_def)
  obtain c1 where c1: "x1 = Some c1" using e1 by (auto simp: emitted_def)
  have "\<exists>t' x'. chunk_loop env old f (length cps)
      \<lparr> im_pos = int (length (pre @ record_bytes off ch patch)), im_token = t1, im_ctx = Some c1 \<rparr> =
      Some (Ok (0, t', x')) \<and> emitted got seen t1 c1 (concat outs') t' x'"
  proof (rule Cons.IH[OF gs _ _ Cons.prems(4)])
    show "f = (pre @ record_bytes off ch patch) @ records off' cps @ (q @ own) @ append_patches cps"
      using f by simp
    show "off' = int (length ((pre @ record_bytes off ch patch) @ records off' cps @ q @ own))"
      using off' off_eq by simp
  qed
  then show ?case using s e1 unfolding outs c1 cp by (auto intro: emitted_trans)
qed


section \<open>Patches of normal chunks\<close>

lemma mem_at_Ok: "\<lbrakk>0 \<le> p; 0 \<le> n; p + n \<le> int (length img)\<rbrakk> \<Longrightarrow>
    mem_at img p n = Ok (take (nat n) (drop (nat p) img))"
  by (simp add: mem_at_def slice_Some)

lemma patch_gives_bsdiff:
  assumes "(case IP of None \<Rightarrow> qsufsort old | Some I \<Rightarrow> Some I) = Some I"
    and "suffix_array I old" "bz_inverse bz lib R" "bz_delivers lib R"
    and "length old < 2 ^ 62" "length new < 2 ^ 31" "malloc (length new) = Some junk" "length junk = length new"
  shows "\<exists>patch. bsdiff bz old IP new = Some (I, patch) \<and>
    (\<forall>after. patch_gives lib malloc (old @ after) (int (length old)) patch new)"
  using bsdiff_rebuilds[where malloc = malloc and new = new, OF assms] unfolding patch_gives_def by blast

text \<open>The source chunk lies in the old file; behind the file are the bytes that were appended
  for the search.\<close>

lemma MakePatch_normal_gives:
  assumes t: "ic_type tgt = CHUNK_NORMAL"
    and s: "ic_data src = ImgAt (ic_start src)" "0 \<le> ic_start src" "0 \<le> ic_len src"
      "ic_start src + ic_len src \<le> int (length old_file)" "length old_file < 2 ^ 62"
    and n: "ptr_bytes tgt_mem (ic_data tgt) (ic_len tgt) = Ok new" "length new < 2 ^ 31"
    and I: "(case ic_I src of None \<Rightarrow> qsufsort (take (nat (ic_len src)) (drop (nat (ic_start src)) old_file))
             | Some I \<Rightarrow> Some I) = Some I"
      "suffix_array I (take (nat (ic_len src)) (drop (nat (ic_start src)) old_file))"
    and lib: "bz_inverse bz (env_bz env) Rb" "bz_delivers (env_bz env) Rb"
    and m: "env_malloc env (length new) = Some junk" "length junk = length new"
  shows "\<exists>patch src' tgt'. MakePatch bz (old_file @ pad) tgt_mem src tgt = Some (Ok (patch, src', tgt')) \<and>
    chunk_gives env R old_file tgt' patch new"
proof -
  define old where "old = take (nat (ic_len src)) (drop (nat (ic_start src)) old_file)"
  have pb: "ptr_bytes (old_file @ pad) (ic_data src) (ic_len src) = Ok old"
    using s by (simp add: ptr_bytes_def mem_at_Ok old_def)
  have ol: "int (length old) = ic_len src" "length old < 2 ^ 62" using s by (auto simp: old_def)
  have dr: "drop (nat (ic_start src)) old_file = old @ drop (nat (ic_len src)) (drop (nat (ic_start src)) old_file)"
    unfolding old_def by (rule append_take_drop_id[symmetric])
  obtain patch where b: "bsdiff bz old (ic_I src) new = Some (I, patch)"
    and g: "\<And>after. patch_gives (env_bz env) (env_malloc env) (old @ after) (int (length old)) patch new"
    using patch_gives_bsdiff[where malloc = "env_malloc env" and new = new, OF I[folded old_def] lib ol(2) n(2) m] by blast
  have raw: "chunk_gives env R old_file (tgt\<lparr> ic_type := CHUNK_RAW \<rparr>) new new"
    by (simp add: chunk_gives_def)
  have nrm: "chunk_gives env R old_file (tgt\<lparr> ic_source_start := ic_start src, ic_source_len := ic_len src \<rparr>) patch new"
  proof -
    have "patch_gives (env_bz env) (env_malloc env) (drop (nat (ic_start src)) old_file) (ic_len src) patch new"
      using g[of "drop (nat (ic_len src)) (drop (nat (ic_start src)) old_file)"] unfolding ol(1) dr[symmetric] .
    then show ?thesis using s t by (simp add: chunk_gives_def CHUNK_NORMAL_def CHUNK_RAW_def)
  qed
  have ne: "CHUNK_NORMAL \<noteq> CHUNK_DEFLATE" by (simp add: CHUNK_NORMAL_def CHUNK_DEFLATE_def)
  show ?thesis
    unfolding MakePatch_def using pb n(1) b raw nrm by (simp add: t Let_def ne)
qed

text \<open>An environment for examples: streams that store their bytes, and a sink and a hash context
  that are the bytes they got.\<close>

definition stored_zlib :: "(bytes, bytes) zlib" where
  "stored_zlib = \<lparr> z_inflateInit2 = \<lambda>bs. (Z_OK, bs),
     z_inflate = \<lambda>s n. (if drop n s = [] then Z_STREAM_END else Z_OK, take n s, drop n s),
     z_avail_in = length, z_deflateInit2 = \<lambda>l m w k s bs. (Z_OK, bs),
     z_deflate = \<lambda>s n. (if drop n s = [] then Z_STREAM_END else Z_OK, take n s, drop n s) \<rparr>"

definition stored_env :: "(bytes, bytes, bytes, bytes, bytes) patch_env" where
  "stored_env = \<lparr> env_bz = stored_lib, env_zlib = stored_zlib, env_malloc = \<lambda>n. Some (replicate n 0),
     env_sha = (@), env_sink = \<lambda>xs t. (int (length xs), t @ xs) \<rparr>"

lemma stored_env_ok: "env_ok stored_env (=) (\<lambda>t. t) (\<lambda>c. c)"
  by (auto simp: env_ok_def stored_env_def stored_zlib_def z_delivers_def sink_appends_def sha_absorbs_def
      Z_OK_def Z_STREAM_END_def)

definition demo_patch :: bytes where
  "demo_patch = snd (the (bsdiff stored_bz [1, 2, 3] None [1, 2, 9, 3]))"

definition demo_chunks :: "(ImageChunk \<times> bytes) list" where
  "demo_chunks = [(blank_chunk\<lparr> ic_type := CHUNK_RAW \<rparr>, [7, 8]),
                  (blank_chunk\<lparr> ic_type := CHUNK_NORMAL, ic_source_len := 3 \<rparr>, demo_patch)]"

lemma demo_chunks_give:
  "list_all2 (\<lambda>cp. chunk_gives stored_env (=) [1, 2, 3] (fst cp) (snd cp)) demo_chunks [[7, 8], [1, 2, 9, 3]]"
proof -
  have sa: "suffix_array [3, 0, 1, 2] [1, 2, 3]" by code_simp
  have q: "qsufsort [1, 2, 3] = Some [3, 0, 1, 2]" by code_simp
  have ml: "env_malloc stored_env (length [1 :: u8, 2, 9, 3]) = Some (replicate (length [1 :: u8, 2, 9, 3]) 0)"
    by (simp add: stored_env_def)
  have eb: "env_bz stored_env = stored_lib" by (simp add: stored_env_def)
  obtain p where "bsdiff stored_bz [1, 2, 3] None [1, 2, 9, 3] = Some ([3, 0, 1, 2], p)"
    "patch_gives stored_lib (env_malloc stored_env) ([1, 2, 3] @ []) (int (length [1 :: u8, 2, 3])) p [1, 2, 9, 3]"
    using patch_gives_bsdiff[where IP = None and I = "[3, 0, 1, 2]" and old = "[1, 2, 3]" and new = "[1, 2, 9, 3]"
        and malloc = "env_malloc stored_env", OF _ sa stored_inverse stored_delivers _ _ ml] q by fastforce
  then show ?thesis
    by (simp add: demo_chunks_def chunk_gives_def demo_patch_def eb CHUNK_NORMAL_def CHUNK_RAW_def blank_chunk_def)
qed


end
