(* ===== verification/Retouch_Mask.thy ===== *)
theory Retouch_Mask
  imports Suffix_Sort
begin

text \<open>
  The in-memory part of \<^verbatim>\<open>src/minelf/Retouch.c\<close>: a prelinked library may carry, at its end, a
  compressed list of the words that hold addresses. \<^verbatim>\<open>retouch_mask_data\<close> decodes the list and
  either rewrites every listed word for a desired offset or infers the offset that was used.
  Layout of a retouched file: code and data, the list (\<^verbatim>\<open>blob_size\<close> bytes), \<^verbatim>\<open>"RETOUCH "\<close> and
  \<^verbatim>\<open>blob_size\<close>, then \<^verbatim>\<open>mmap_addr\<close> and \<^verbatim>\<open>"PRE "\<close>. Words are little endian.
\<close>

section \<open>Words in a buffer\<close>

definition word_le :: "u8 \<Rightarrow> u8 \<Rightarrow> u8 \<Rightarrow> u8 \<Rightarrow> u32" where
  "word_le b0 b1 b2 b3 =
     push_bit 24 (ucast b3) OR push_bit 16 (ucast b2) OR push_bit 8 (ucast b1) OR ucast b0"

definition get4 :: "bytes \<Rightarrow> int \<Rightarrow> u32 outcome" where
  "get4 buf p =
     (if 0 \<le> p \<and> p + 4 \<le> int (length buf)
      then Ok (word_le (buf ! nat p) (buf ! (nat p + 1)) (buf ! (nat p + 2)) (buf ! (nat p + 3)))
      else Inl OutOfBounds)"

definition bytes_le :: "u32 \<Rightarrow> bytes" where
  "bytes_le w = [ucast w, ucast (drop_bit 8 w), ucast (drop_bit 16 w), ucast (drop_bit 24 w)]"

definition put4 :: "bytes \<Rightarrow> int \<Rightarrow> u32 \<Rightarrow> bytes outcome" where
  "put4 buf p w =
     (if 0 \<le> p \<and> p + 4 \<le> int (length buf)
      then Ok (take (nat p) buf @ bytes_le w @ drop (nat p + 4) buf) else Inl OutOfBounds)"

section \<open>The compressed list\<close>

record comp_state =
  offs_prev :: int
  cont_prev :: u32

definition init_compression_state :: comp_state where
  "init_compression_state = \<lparr> offs_prev = 0, cont_prev = 0 \<rparr>"

text \<open>The entry that 2, 3 or 8 bytes encode: an offset, and the original contents.\<close>

definition decode_bytes :: "comp_state \<Rightarrow> bytes \<Rightarrow> int \<times> u32" where
  "decode_bytes cs b =
     (if length b = 2 then
        (let tmp = push_bit 8 (ucast (b ! 0) AND 0x1f) OR ucast (b ! 1);
             tmp = (if tmp AND 0x1000 \<noteq> 0 then 0xffffe000 OR tmp else tmp)
         in (offs_prev cs + (uint (drop_bit 5 (b ! 0 AND 0x60)) + 1) * 4, cont_prev cs + tmp))
      else if length b = 3 then
        (let tmp = push_bit 16 (ucast (b ! 0) AND 0x0f) OR push_bit 8 (ucast (b ! 1)) OR ucast (b ! 2);
             tmp = (if tmp AND 0x80000 \<noteq> 0 then 0xfff00000 OR tmp else tmp)
         in (offs_prev cs + (uint (drop_bit 4 (b ! 0 AND 0x30)) + 1) * 4, cont_prev cs + tmp))
      else
        (let off = sint (word_le (b ! 3) (b ! 2) (b ! 1) (b ! 0))
         in (if off = 0x3fffffff then -1 else off, word_le (b ! 7) (b ! 6) (b ! 5) (b ! 4))))"

definition input_size :: "u8 \<Rightarrow> nat" where
  "input_size b = (if b AND 0x80 \<noteq> 0 then 2 else if b AND 0x40 \<noteq> 0 then 3 else 8)"

text \<open>The position after the entry, the entry, and the decoder state.\<close>

definition decode_in_memory ::
  "bytes \<Rightarrow> int \<Rightarrow> comp_state \<Rightarrow> (int \<times> int \<times> u32 \<times> comp_state) outcome" where
  "decode_in_memory buf p cs =
     (case rd buf p of
        None \<Rightarrow> Inl OutOfBounds
      | Some b \<Rightarrow>
          let n = input_size b
          in if p + int n > int (length buf) then Inl OutOfBounds
             else case decode_bytes cs (take n (drop (nat p) buf)) of (off, cont) \<Rightarrow>
               Ok (p + int n, off, cont, \<lparr> offs_prev = off, cont_prev = cont \<rparr>))"

section \<open>retouch\_mask\_data\<close>

definition RETOUCH_DONT_MASK :: int where "RETOUCH_DONT_MASK = 0"
definition RETOUCH_DO_MASK :: int where "RETOUCH_DO_MASK = 1"
definition RETOUCH_DATA_ERROR :: int where "RETOUCH_DATA_ERROR = 0"
definition RETOUCH_DATA_MATCHED :: int where "RETOUCH_DATA_MATCHED = 1"
definition RETOUCH_DATA_MISMATCHED :: int where "RETOUCH_DATA_MISMATCHED = 2"
definition RETOUCH_DATA_NOTAPPLICABLE :: int where "RETOUCH_DATA_NOTAPPLICABLE = 3"

text \<open>What the loop has found: the candidate offset once an entry was seen, and whether another
  entry disagreed.\<close>

record mask_state =
  ms_buf :: bytes
  ms_cs :: comp_state
  ms_candidate :: "u32 option"
  ms_mismatch :: bool

text \<open>The body of the loop for one entry. \<^verbatim>\<open>p_offs\<close> is where \<^verbatim>\<open>mmap_addr\<close> is.\<close>

definition mask_entry ::
  "int \<Rightarrow> u32 option \<Rightarrow> int \<Rightarrow> u32 \<Rightarrow> mask_state \<Rightarrow> mask_state outcome" where
  "mask_entry p_offs desired off orig st =
     (let entry = (if off = -1 then p_offs else off)
      in then_do (case desired of None \<Rightarrow> Ok (ms_buf st) | Some d \<Rightarrow> put4 (ms_buf st) entry (orig + d)) (\<lambda>buf.
         then_do (get4 buf entry) (\<lambda>w.
           let this = w - orig
           in Ok (case ms_candidate st of
                    None \<Rightarrow> st\<lparr> ms_buf := buf, ms_candidate := Some this \<rparr>
                  | Some c \<Rightarrow> st\<lparr> ms_buf := buf, ms_mismatch := (ms_mismatch st \<or> c \<noteq> this) \<rparr>))))"

text \<open>\<^verbatim>\<open>while (b_ptr < (uint8_t *)r_info)\<close>. A list entry takes at least two bytes.\<close>

lemma decode_in_memory_advances:
  "decode_in_memory buf p cs = Ok (p', r) \<Longrightarrow> p < p'"
  by (auto simp: decode_in_memory_def input_size_def Let_def split: option.splits if_splits prod.splits)

function mask_loop ::
  "int \<Rightarrow> int \<Rightarrow> int \<Rightarrow> u32 option \<Rightarrow> int \<Rightarrow> mask_state \<Rightarrow> (int \<times> bytes, int \<times> mask_state) flow outcome" where
  "mask_loop b_offs r_offs p_offs desired p st =
     (if p < r_offs then
        (case decode_in_memory (ms_buf st) p (ms_cs st) of
           Inl e \<Rightarrow> Inl e
         | Inr (p', off, orig, cs) \<Rightarrow>
             if off < -1 \<or> off \<ge> b_offs then Ok (Return (RETOUCH_DATA_ERROR, ms_buf st))
             else
               (case mask_entry p_offs desired off orig (st\<lparr> ms_cs := cs \<rparr>) of
                  Inl e \<Rightarrow> Inl e
                | Inr st' \<Rightarrow> mask_loop b_offs r_offs p_offs desired p' st'))
      else Ok (Continue (p, st)))"
  by pat_completeness auto
termination
  by (relation "measure (\<lambda>(b_offs, r_offs, p_offs, desired, p, st). nat (r_offs - p))")
     (auto dest: decode_in_memory_advances)

declare mask_loop.simps [simp del]

definition text_at :: "bytes \<Rightarrow> int \<Rightarrow> bytes \<Rightarrow> bool" where
  "text_at buf p s \<longleftrightarrow> take (length s) (drop (nat p) buf) = s"

definition pre_tag :: bytes where "pre_tag = [0x50, 0x52, 0x45, 0x20]"
definition retouch_tag :: bytes where
  "retouch_tag = [0x52, 0x45, 0x54, 0x4F, 0x55, 0x43, 0x48, 0x20]"

definition not_retouched :: "u32 option \<Rightarrow> int" where
  "not_retouched desired = (if desired = None then RETOUCH_DATA_NOTAPPLICABLE else RETOUCH_DATA_MATCHED)"

text \<open>\<^verbatim>\<open>desired\<close> is \<^verbatim>\<open>*desired_offset\<close>, if any. The result is the code, what
  \<^verbatim>\<open>*retouch_offset\<close> is set to, and the buffer.\<close>

definition retouch_mask_data ::
  "bytes \<Rightarrow> int \<Rightarrow> u32 option \<Rightarrow> (int \<times> u32 \<times> bytes) outcome" where
  "retouch_mask_data buf binary_size desired =
     (let target = (case desired of None \<Rightarrow> 0 | Some d \<Rightarrow> d);
          p_offs = binary_size - 8; r_offs = p_offs - 12
      in if r_offs < 0 then Ok (not_retouched desired, target, buf)
         else if int (length buf) < binary_size then Inl OutOfBounds
         else if \<not> text_at buf (p_offs + 4) pre_tag \<or> \<not> text_at buf r_offs retouch_tag
         then Ok (not_retouched desired, target, buf)
         else then_do (get4 buf (r_offs + 8)) (\<lambda>blob_size.
           let b_offs = sint (word_of_int r_offs - blob_size)
           in if b_offs < 0 then Ok (RETOUCH_DATA_ERROR, target, buf)
              else then_do (mask_loop b_offs r_offs p_offs desired b_offs
                     \<lparr> ms_buf = buf, ms_cs = init_compression_state, ms_candidate = None, ms_mismatch = False \<rparr>)
                (\<lambda>f. Ok (case f of
                   Return (rc, buf') \<Rightarrow> (rc, target, buf')
                 | Continue (p, st) \<Rightarrow>
                     if p > r_offs then (RETOUCH_DATA_ERROR, target, ms_buf st)
                     else if ms_mismatch st then (RETOUCH_DATA_MISMATCHED, target, ms_buf st)
                     else (RETOUCH_DATA_MATCHED, (case ms_candidate st of None \<Rightarrow> target | Some c \<Rightarrow> c), ms_buf st)))))"

section \<open>The list as a specification\<close>

text \<open>The entries from position \<^verbatim>\<open>p\<close> on, and where the list ends; \<^const>\<open>None\<close> if an offset is out of
  range.\<close>

function read_list :: "int \<Rightarrow> int \<Rightarrow> bytes \<Rightarrow> int \<Rightarrow> comp_state \<Rightarrow> ((int \<times> u32) list \<times> int) option" where
  "read_list b_offs r_offs buf p cs =
     (if p < r_offs then
        (case decode_in_memory buf p cs of
           Inl e \<Rightarrow> None
         | Inr (p', off, orig, cs') \<Rightarrow>
             if off < -1 \<or> off \<ge> b_offs then None
             else map_option (\<lambda>(es, q). ((off, orig) # es, q)) (read_list b_offs r_offs buf p' cs'))
      else Some ([], p))"
  by pat_completeness auto
termination
  by (relation "measure (\<lambda>(b_offs, r_offs, buf, p, cs). nat (r_offs - p))")
     (auto dest: decode_in_memory_advances)

declare read_list.simps [simp del]

text \<open>Where an entry's word is, and the words written for a whole list.\<close>

definition entry_pos :: "int \<Rightarrow> int \<Rightarrow> nat" where
  "entry_pos p_offs off = nat (if off = -1 then p_offs else off)"

definition set4 :: "bytes \<Rightarrow> nat \<Rightarrow> u32 \<Rightarrow> bytes" where
  "set4 buf p w = take p buf @ bytes_le w @ drop (p + 4) buf"

fun write_all :: "int \<Rightarrow> u32 \<Rightarrow> (int \<times> u32) list \<Rightarrow> bytes \<Rightarrow> bytes" where
  "write_all p_offs d [] buf = buf"
| "write_all p_offs d ((off, orig) # es) buf =
     write_all p_offs d es (set4 buf (entry_pos p_offs off) (orig + d))"

definition clear_of :: "int \<Rightarrow> int \<times> u32 \<Rightarrow> bool" where
  "clear_of b_offs e \<longleftrightarrow> fst e = -1 \<or> 0 \<le> fst e \<and> fst e + 4 \<le> b_offs"

fun covered :: "int \<Rightarrow> (int \<times> u32) list \<Rightarrow> nat set" where
  "covered p_offs [] = {}"
| "covered p_offs ((off, orig) # es) =
     {entry_pos p_offs off ..< entry_pos p_offs off + 4} \<union> covered p_offs es"

definition agree :: "nat set \<Rightarrow> bytes \<Rightarrow> bytes \<Rightarrow> bool" where
  "agree S a b \<longleftrightarrow> length a = length b \<and> (\<forall>i < length a. i \<in> S \<longrightarrow> a ! i = b ! i)"

lemma length_bytes_le [simp]: "length (bytes_le w) = 4"
  by (simp add: bytes_le_def)

lemma length_set4: "p + 4 \<le> length buf \<Longrightarrow> length (set4 buf p w) = length buf"
  by (simp add: set4_def)

lemma nth_set4:
  assumes "p + 4 \<le> length buf" "i < length buf"
  shows "set4 buf p w ! i = (if p \<le> i \<and> i < p + 4 then bytes_le w ! (i - p) else buf ! i)"
  using assms by (auto simp: set4_def nth_append)

lemma agree_set4:
  "\<lbrakk>agree S a b; p + 4 \<le> length a\<rbrakk> \<Longrightarrow> agree (S \<union> {p ..< p + 4}) (set4 a p w) (set4 b p w)"
  by (auto simp: agree_def length_set4 nth_set4)

lemma agree_set4_self: "p + 4 \<le> length a \<Longrightarrow> agree (- {p ..< p + 4}) a (set4 a p w)"
  by (auto simp: agree_def length_set4 nth_set4)

lemma agree_trans: "\<lbrakk>agree S a b; agree T b c\<rbrakk> \<Longrightarrow> agree (S \<inter> T) a c"
  by (simp add: agree_def)

lemma agree_sym: "agree S a b \<Longrightarrow> agree S b a"
  by (simp add: agree_def)

lemma agree_mono: "\<lbrakk>agree S a b; T \<subseteq> S\<rbrakk> \<Longrightarrow> agree T a b"
  by (auto simp: agree_def)

lemma agree_UNIV: "agree UNIV a b \<longleftrightarrow> a = b"
  by (auto simp: agree_def intro: nth_equalityI)

definition in_range :: "int \<Rightarrow> nat \<Rightarrow> int \<times> u32 \<Rightarrow> bool" where
  "in_range p_offs n e \<longleftrightarrow> entry_pos p_offs (fst e) + 4 \<le> n"

lemma length_write_all: "list_all (in_range p_offs (length buf)) es \<Longrightarrow> length (write_all p_offs d es buf) = length buf"
  by (induction p_offs d es buf rule: write_all.induct) (auto simp: in_range_def[of _ _ "(_, _)"] length_set4)

lemma write_all_agree:
  "\<lbrakk>agree S a b; list_all (in_range p_offs (length a)) es\<rbrakk> \<Longrightarrow>
     agree (S \<union> covered p_offs es) (write_all p_offs d es a) (write_all p_offs d es b)"
proof (induction es arbitrary: S a b)
  case (Cons e es)
  obtain off orig where e: "e = (off, orig)" by (cases e)
  let ?p = "entry_pos p_offs off"
  have len: "?p + 4 \<le> length a" using Cons.prems by (simp add: e in_range_def)
  have ir: "list_all (in_range p_offs (length (set4 a ?p (orig + d)))) es"
    using Cons.prems len by (simp add: length_set4)
  from Cons.IH[OF agree_set4[OF Cons.prems(1) len] ir] show ?case
    by (simp add: e Un_assoc)
qed simp

lemma write_all_outside:
  "list_all (in_range p_offs (length a)) es \<Longrightarrow> agree (- covered p_offs es) a (write_all p_offs d es a)"
proof (induction es arbitrary: a)
  case Nil
  then show ?case by (simp add: agree_def)
next
  case (Cons e es)
  obtain off orig where e: "e = (off, orig)" by (cases e)
  let ?p = "entry_pos p_offs off"
  have len: "?p + 4 \<le> length a" using Cons.prems by (simp add: e in_range_def)
  have ir: "list_all (in_range p_offs (length (set4 a ?p (orig + d)))) es"
    using Cons.prems len by (simp add: length_set4)
  from agree_trans[OF agree_set4_self[OF len] Cons.IH[OF ir]] show ?case
    by (simp add: e)
qed

text \<open>Writing for one offset after another leaves no trace of the first one.\<close>

lemma write_all_twice:
  assumes "list_all (in_range p_offs (length a)) es"
  shows "write_all p_offs d es (write_all p_offs d' es a) = write_all p_offs d es a"
proof -
  have "agree (- covered p_offs es \<union> covered p_offs es)
      (write_all p_offs d es a) (write_all p_offs d es (write_all p_offs d' es a))"
    by (rule write_all_agree[OF write_all_outside[OF assms] assms])
  then have "agree UNIV (write_all p_offs d es a) (write_all p_offs d es (write_all p_offs d' es a))"
    by simp
  then show ?thesis unfolding agree_UNIV by simp
qed

section \<open>The loop follows the specification\<close>

text \<open>Decoding looks only at the list and the twelve bytes behind it.\<close>

lemma agree_take_drop:
  assumes "agree S a b" "\<And>i. \<lbrakk>p \<le> i; i < p + n\<rbrakk> \<Longrightarrow> i \<in> S"
  shows "take n (drop p a) = take n (drop p b)"
  by (rule nth_equalityI) (use assms in \<open>auto simp: agree_def\<close>)

lemma decode_cong:
  assumes "agree {nat lo ..< nat hi} a b" "0 \<le> lo" "lo \<le> p" "p + 8 \<le> hi"
  shows "decode_in_memory a p cs = decode_in_memory b p cs"
proof -
  have len: "length a = length b" using assms(1) by (simp add: agree_def)
  have r: "rd a p = rd b p"
    using assms by (auto simp: rd_def agree_def)
  have t: "take n (drop (nat p) a) = take n (drop (nat p) b)" if "n \<le> 8" for n
    by (rule agree_take_drop[OF assms(1)]) (use assms that in auto)
  have tt: "take (input_size x) (drop (nat p) a) = take (input_size x) (drop (nat p) b)" for x
    by (rule t) (simp add: input_size_def)
  show ?thesis unfolding decode_in_memory_def r Let_def len tt ..
qed

lemma put4_set4: "\<lbrakk>0 \<le> p; p + 4 \<le> int (length buf)\<rbrakk> \<Longrightarrow> put4 buf p w = Ok (set4 buf (nat p) w)"
  by (simp add: put4_def set4_def)

lemma word_le_bytes_le: "word_le (ucast w) (ucast (drop_bit 8 w)) (ucast (drop_bit 16 w)) (ucast (drop_bit 24 w)) = w"
proof (rule bit_word_eqI)
  fix n :: nat assume n: "n < LENGTH(32)"
  consider "n < 8" | "8 \<le> n" "n < 16" | "16 \<le> n" "n < 24" | "24 \<le> n" by linarith
  then show "bit (word_le (ucast w) (ucast (drop_bit 8 w)) (ucast (drop_bit 16 w)) (ucast (drop_bit 24 w))) n = bit w n"
    by cases (use n in \<open>auto simp: word_le_def bit_or_iff bit_push_bit_iff bit_ucast_iff bit_drop_bit_eq\<close>)
qed

lemma get4_set4: "\<lbrakk>0 \<le> p; p + 4 \<le> int (length buf)\<rbrakk> \<Longrightarrow> get4 (set4 buf (nat p) w) p = Ok w"
  by (simp add: get4_def set4_def bytes_le_def nth_append word_le_bytes_le)

lemma clear_entry:
  assumes "clear_of b_offs (off, orig)" "0 \<le> b_offs" "b_offs \<le> r_offs" "r_offs + 20 \<le> int n"
  defines "e \<equiv> (if off = -1 then r_offs + 12 else off)"
  shows "0 \<le> e" "e + 4 \<le> int n" "entry_pos (r_offs + 12) off = nat e"
    "{nat e ..< nat e + 4} \<inter> {nat b_offs ..< nat (r_offs + 12)} = {}"
  using assms by (auto simp: clear_of_def entry_pos_def split: if_splits)

text \<open>The loop with a desired offset writes the words of the list and finds no mismatch.\<close>

lemma mask_loop_desired:
  assumes "0 \<le> b_offs" "b_offs \<le> r_offs"
  shows "\<lbrakk>read_list b_offs r_offs buf p cs = Some (es, q); agree {nat b_offs ..< nat (r_offs + 12)} buf (ms_buf st);
     b_offs \<le> p; r_offs + 20 \<le> int (length (ms_buf st)); list_all (clear_of b_offs) es; ms_cs st = cs;
     ms_candidate st = None \<or> ms_candidate st = Some d\<rbrakk> \<Longrightarrow>
   \<exists>cs'. mask_loop b_offs r_offs (r_offs + 12) (Some d) p st =
     Ok (Continue (q, st\<lparr> ms_buf := write_all (r_offs + 12) d es (ms_buf st), ms_cs := cs',
                          ms_candidate := (if es = [] then ms_candidate st else Some d) \<rparr>))"
proof (induction es arbitrary: p cs st)
  case Nil
  then have "\<not> p < r_offs \<and> q = p"
    by (subst (asm) read_list.simps) (auto split: if_splits sum.splits prod.splits)
  then show ?case using Nil.prems by (subst mask_loop.simps) (auto intro!: exI[of _ cs])
next
  case (Cons e es)
  obtain off orig where e: "e = (off, orig)" by (cases e)
  obtain p' cs' where p: "p < r_offs" and d: "decode_in_memory buf p cs = Ok (p', off, orig, cs')"
    and o: "\<not> (off < -1 \<or> off \<ge> b_offs)" and rl: "read_list b_offs r_offs buf p' cs' = Some (es, q)"
    using Cons.prems(1) unfolding e
    by (subst (asm) read_list.simps) (auto split: if_splits sum.splits prod.splits)
  have d': "decode_in_memory (ms_buf st) p (ms_cs st) = Ok (p', off, orig, cs')"
    using decode_cong[OF Cons.prems(2), of p cs] d Cons.prems(3,6) p assms by simp
  define en where "en = (if off = -1 then r_offs + 12 else off)"
  have en: "0 \<le> en" "en + 4 \<le> int (length (ms_buf st))" "entry_pos (r_offs + 12) off = nat en"
    "{nat en ..< nat en + 4} \<inter> {nat b_offs ..< nat (r_offs + 12)} = {}"
    using clear_entry[of b_offs off orig r_offs "length (ms_buf st)"] Cons.prems(4,5) assms
    by (auto simp: e en_def)
  define buf' where "buf' = set4 (ms_buf st) (nat en) (orig + d)"
  have lb: "length buf' = length (ms_buf st)" unfolding buf'_def using en by (intro length_set4) simp
  define st' where "st' = st\<lparr> ms_cs := cs', ms_buf := buf', ms_candidate := Some d \<rparr>"
  have me: "mask_entry (r_offs + 12) (Some d) off orig (st\<lparr> ms_cs := cs' \<rparr>) = Ok st'"
    using Cons.prems(7) en put4_set4[OF en(1,2), of "orig + d"] get4_set4[OF en(1,2), of "orig + d"]
    by (auto simp: mask_entry_def Let_def st'_def buf'_def simp flip: en_def)
  have ag: "agree {nat b_offs ..< nat (r_offs + 12)} buf (ms_buf st')"
  proof -
    have "agree (- {nat en ..< nat en + 4}) (ms_buf st) buf'"
      unfolding buf'_def using en by (intro agree_set4_self) simp
    from agree_trans[OF Cons.prems(2) this] have "agree {nat b_offs ..< nat (r_offs + 12)} buf buf'"
      by (rule agree_mono) (use en(4) in blast)
    then show ?thesis by (simp add: st'_def)
  qed
  have pp: "b_offs \<le> p'" using decode_in_memory_advances[OF d] Cons.prems(3) by simp
  obtain cs2 where "mask_loop b_offs r_offs (r_offs + 12) (Some d) p' st' =
     Ok (Continue (q, st'\<lparr> ms_buf := write_all (r_offs + 12) d es (ms_buf st'), ms_cs := cs2,
                          ms_candidate := (if es = [] then ms_candidate st' else Some d) \<rparr>))"
    using Cons.IH[OF rl ag pp] Cons.prems(4,5) lb by (auto simp: st'_def)
  moreover have "mask_loop b_offs r_offs (r_offs + 12) (Some d) p st = mask_loop b_offs r_offs (r_offs + 12) (Some d) p' st'"
    using p d' o me by (subst mask_loop.simps) simp
  ultimately show ?case using en(3) by (auto simp: e st'_def buf'_def intro!: exI[of _ cs2])
qed

lemma read_list_cong:
  assumes "agree {nat b_offs ..< nat (r_offs + 12)} a b" "0 \<le> b_offs"
  shows "\<lbrakk>read_list b_offs r_offs a p cs = Some (es, q); b_offs \<le> p\<rbrakk> \<Longrightarrow> read_list b_offs r_offs b p cs = Some (es, q)"
proof (induction es arbitrary: p cs)
  case Nil
  then have "\<not> p < r_offs \<and> q = p"
    by (subst (asm) read_list.simps) (auto split: if_splits sum.splits prod.splits)
  then show ?case by (subst read_list.simps) simp
next
  case (Cons e es)
  obtain p' cs' where p: "p < r_offs" and d: "decode_in_memory a p cs = Ok (p', fst e, snd e, cs')"
    and o: "\<not> (fst e < -1 \<or> fst e \<ge> b_offs)" and rl: "read_list b_offs r_offs a p' cs' = Some (es, q)"
    using Cons.prems(1) by (subst (asm) read_list.simps) (auto split: if_splits sum.splits prod.splits)
  have d': "decode_in_memory b p cs = Ok (p', fst e, snd e, cs')"
    using decode_cong[OF assms(1), of p cs] d Cons.prems p assms by simp
  have "b_offs \<le> p'" using decode_in_memory_advances[OF d] Cons.prems by simp
  from Cons.IH[OF rl this] show ?case using p d' o by (subst read_list.simps) simp
qed

lemma read_list_end: "read_list b_offs r_offs buf p cs = Some (es, q) \<Longrightarrow> p \<le> q"
proof (induction es arbitrary: p cs)
  case Nil
  then show ?case by (subst (asm) read_list.simps) (auto split: if_splits sum.splits prod.splits)
next
  case (Cons e es)
  then obtain p' cs' r where "decode_in_memory buf p cs = Ok (p', r)" "read_list b_offs r_offs buf p' cs' = Some (es, q)"
    by (subst (asm) read_list.simps) (auto split: if_splits sum.splits prod.splits)
  with decode_in_memory_advances Cons.IH show ?case by fastforce
qed

section \<open>Retouched files\<close>

text \<open>The entries of a file with a well-formed list, each of which lies before the list or is
  \<^verbatim>\<open>mmap_addr\<close>.\<close>

definition retouch_list :: "bytes \<Rightarrow> (int \<times> u32) list option" where
  "retouch_list buf =
     (let r_offs = int (length buf) - 20
      in if r_offs < 0 \<or> \<not> text_at buf (r_offs + 16) pre_tag \<or> \<not> text_at buf r_offs retouch_tag then None
         else case get4 buf (r_offs + 8) of
           Inl _ \<Rightarrow> None
         | Inr blob_size \<Rightarrow>
             let b_offs = sint (word_of_int r_offs - blob_size)
             in if b_offs < 0 then None
                else case read_list b_offs r_offs buf b_offs init_compression_state of
                  None \<Rightarrow> None
                | Some (es, q) \<Rightarrow> if q = r_offs \<and> list_all (clear_of b_offs) es then Some es else None)"

lemma retouch_listE:
  assumes "retouch_list buf = Some es"
  obtains b_offs r_offs blob where "r_offs = int (length buf) - 20" "0 \<le> r_offs"
    "text_at buf (r_offs + 16) pre_tag" "text_at buf r_offs retouch_tag"
    "get4 buf (r_offs + 8) = Ok blob" "b_offs = sint (word_of_int r_offs - blob)" "0 \<le> b_offs" "b_offs \<le> r_offs"
    "read_list b_offs r_offs buf b_offs init_compression_state = Some (es, r_offs)" "list_all (clear_of b_offs) es"
proof -
  from assms obtain blob where *: "0 \<le> int (length buf) - 20"
    "text_at buf (int (length buf) - 20 + 16) pre_tag" "text_at buf (int (length buf) - 20) retouch_tag"
    "get4 buf (int (length buf) - 20 + 8) = Ok blob" "0 \<le> sint (word_of_int (int (length buf) - 20) - blob)"
    "read_list (sint (word_of_int (int (length buf) - 20) - blob)) (int (length buf) - 20) buf
       (sint (word_of_int (int (length buf) - 20) - blob)) init_compression_state = Some (es, int (length buf) - 20)"
    "list_all (clear_of (sint (word_of_int (int (length buf) - 20) - blob))) es"
    unfolding retouch_list_def Let_def by (auto split: if_splits sum.splits option.splits prod.splits)
  show thesis
    by (rule that[OF refl *(1-4) refl *(5) read_list_end[OF *(6)] *(6,7)])
qed

lemma clear_in_range:
  assumes "list_all (clear_of b_offs) es" "0 \<le> b_offs" "b_offs \<le> r_offs" "r_offs + 20 \<le> int n"
  shows "list_all (in_range (r_offs + 12) n) es"
  using assms(1)
proof (induction es)
  case (Cons e es)
  then show ?case
    using clear_entry[of b_offs "fst e" "snd e" r_offs n] assms(2-4) by (auto simp: in_range_def)
qed simp

lemma covered_apart:
  assumes "list_all (clear_of b_offs) es" "0 \<le> b_offs" "b_offs \<le> r_offs"
  shows "covered (r_offs + 12) es \<inter> ({nat b_offs ..< nat (r_offs + 12)} \<union> {nat (r_offs + 16) ..}) = {}"
  using assms(1)
proof (induction es)
  case (Cons e es)
  obtain off orig where e: "e = (off, orig)" by (cases e)
  have "{entry_pos (r_offs + 12) off ..< entry_pos (r_offs + 12) off + 4} \<inter>
      ({nat b_offs ..< nat (r_offs + 12)} \<union> {nat (r_offs + 16) ..}) = {}"
    using Cons.prems assms(2,3) by (auto simp: e clear_of_def entry_pos_def split: if_splits)
  then show ?case using Cons by (auto simp: e)
qed simp

text \<open>A file rewritten for an offset has the same list.\<close>

lemma retouch_list_write_all:
  assumes "retouch_list buf = Some es"
  shows "retouch_list (write_all (int (length buf) - 8) d es buf) = Some es"
    and "list_all (in_range (int (length buf) - 8) (length buf)) es"
proof -
  from assms obtain b_offs r_offs blob where h: "r_offs = int (length buf) - 20" "0 \<le> r_offs"
    "text_at buf (r_offs + 16) pre_tag" "text_at buf r_offs retouch_tag"
    "get4 buf (r_offs + 8) = Ok blob" "b_offs = sint (word_of_int r_offs - blob)" "0 \<le> b_offs" "b_offs \<le> r_offs"
    "read_list b_offs r_offs buf b_offs init_compression_state = Some (es, r_offs)" "list_all (clear_of b_offs) es"
    by (rule retouch_listE)
  have p: "int (length buf) - 8 = r_offs + 12" using h(1) by simp
  show ir: "list_all (in_range (int (length buf) - 8) (length buf)) es"
    unfolding p using clear_in_range[OF h(10,7,8), of "length buf"] h(1) by simp
  define w where "w = write_all (r_offs + 12) d es buf"
  define S where "S = {nat b_offs ..< nat (r_offs + 12)} \<union> {nat (r_offs + 16) ..}"
  have ag: "agree S buf w"
    unfolding w_def S_def
    by (rule agree_mono[OF write_all_outside[OF ir[unfolded p]]]) (use covered_apart[OF h(10,7,8)] in blast)
  have len: "length w = length buf" using ag by (simp add: agree_def)
  have t1: "text_at w (r_offs + 16) pre_tag"
    using h(3) agree_take_drop[OF ag, of "nat (r_offs + 16)" "length pre_tag"] by (simp add: text_at_def S_def)
  have t2: "text_at w r_offs retouch_tag"
  proof -
    have l8: "length retouch_tag = 8" by (simp add: retouch_tag_def)
    have "take 8 (drop (nat r_offs) buf) = take 8 (drop (nat r_offs) w)"
      by (rule agree_take_drop[OF ag]) (use h(2,8) in \<open>auto simp: S_def\<close>)
    then show ?thesis using h(4) by (simp add: text_at_def l8)
  qed
  have "w ! i = buf ! i" if "nat (r_offs + 8) \<le> i" "i < nat (r_offs + 12)" for i
    using ag that h(1,2,8) by (auto simp: agree_def S_def)
  then have g: "get4 w (r_offs + 8) = Ok blob"
    using h(1,2,5) len by (simp add: get4_def)
  have rl: "read_list b_offs r_offs w b_offs init_compression_state = Some (es, r_offs)"
    by (rule read_list_cong[OF agree_mono[OF ag] h(7,9)]) (auto simp: S_def)
  show "retouch_list (write_all (int (length buf) - 8) d es buf) = Some es"
    unfolding p w_def[symmetric] retouch_list_def Let_def len h(1)[symmetric]
    using h(2,6,7,10) t1 t2 g rl by simp
qed

lemma retouch_mask_data_desired:
  assumes "retouch_list buf = Some es"
  shows "retouch_mask_data buf (int (length buf)) (Some d) =
    Ok (RETOUCH_DATA_MATCHED, d, write_all (int (length buf) - 8) d es buf)"
proof -
  from assms obtain b_offs r_offs blob where h: "r_offs = int (length buf) - 20" "0 \<le> r_offs"
    "text_at buf (r_offs + 16) pre_tag" "text_at buf r_offs retouch_tag"
    "get4 buf (r_offs + 8) = Ok blob" "b_offs = sint (word_of_int r_offs - blob)" "0 \<le> b_offs" "b_offs \<le> r_offs"
    "read_list b_offs r_offs buf b_offs init_compression_state = Some (es, r_offs)" "list_all (clear_of b_offs) es"
    by (rule retouch_listE)
  define st where "st = \<lparr> ms_buf = buf, ms_cs = init_compression_state, ms_candidate = None, ms_mismatch = False \<rparr>"
  have p: "int (length buf) - 8 = r_offs + 12" "int (length buf) - 8 - 12 = r_offs" using h(1) by auto
  obtain cs' where "mask_loop b_offs r_offs (r_offs + 12) (Some d) b_offs st =
     Ok (Continue (r_offs, st\<lparr> ms_buf := write_all (r_offs + 12) d es buf, ms_cs := cs',
                          ms_candidate := (if es = [] then None else Some d) \<rparr>))"
    using mask_loop_desired[OF h(7,8,9), of st d] h(1,10) by (auto simp: st_def agree_def)
  then show ?thesis
    unfolding retouch_mask_data_def Let_def p
    using h(2-7) by (simp add: st_def[symmetric] add.commute[of _ 16]) (simp add: st_def)
qed

text \<open>
  C24: rewriting a library for an offset and then for another one is the same as
  rewriting it for the second offset alone. With the second offset 0 this says that masking
  undoes retouching, so that the SHA-1 checks do not see the randomisation; with equal offsets
  it says that rewriting twice changes nothing. Every rewriting succeeds and keeps the list
  of entries.
\<close>

theorem retouch_mask_forgets:
  assumes "retouch_list buf = Some es"
  shows "\<exists>buf'. retouch_mask_data buf (int (length buf)) (Some d) = Ok (RETOUCH_DATA_MATCHED, d, buf') \<and>
    length buf' = length buf \<and> retouch_list buf' = Some es \<and>
    retouch_mask_data buf' (int (length buf)) (Some d') = retouch_mask_data buf (int (length buf)) (Some d')"
proof -
  define w where "w = write_all (int (length buf) - 8) d es buf"
  note ir = retouch_list_write_all(2)[OF assms]
  have len: "length w = length buf" unfolding w_def by (rule length_write_all[OF ir])
  have rl: "retouch_list w = Some es" unfolding w_def by (rule retouch_list_write_all(1)[OF assms])
  have "write_all (int (length buf) - 8) d' es w = write_all (int (length buf) - 8) d' es buf"
    unfolding w_def by (rule write_all_twice[OF ir])
  then show ?thesis
    using retouch_mask_data_desired[OF assms, of d] retouch_mask_data_desired[OF assms, of d']
      retouch_mask_data_desired[OF rl, of d'] rl len by (simp add: w_def)
qed

definition demo_library :: bytes where
  "demo_library = [1, 2, 3, 4, 5, 6, 7, 8] @ [0, 0, 0, 4, 0, 0, 0, 0x10] @ retouch_tag @ [8, 0, 0, 0] @
     [0, 0, 0, 0] @ pre_tag"

lemma demo_list: "retouch_list demo_library = Some [(4, 0x10)]"
  by code_simp

theorem retouch_mask_forgets_witness:
  "\<exists>buf'. retouch_mask_data demo_library 36 (Some 0x100) = Ok (RETOUCH_DATA_MATCHED, 0x100, buf') \<and>
     retouch_mask_data buf' 36 (Some 0) = retouch_mask_data demo_library 36 (Some 0)"
proof -
  have "int (length demo_library) = 36" by (simp add: demo_library_def retouch_tag_def pre_tag_def)
  then show ?thesis using retouch_mask_forgets[OF demo_list, of "0x100" 0] by auto
qed

section \<open>Inferring the offset\<close>

definition entry_apart :: "int \<Rightarrow> int \<times> u32 \<Rightarrow> int \<times> u32 \<Rightarrow> bool" where
  "entry_apart p_offs e f \<longleftrightarrow>
     entry_pos p_offs (fst e) + 4 \<le> entry_pos p_offs (fst f) \<or> entry_pos p_offs (fst f) + 4 \<le> entry_pos p_offs (fst e)"

definition word_at :: "bytes \<Rightarrow> nat \<Rightarrow> u32" where
  "word_at buf p = word_le (buf ! p) (buf ! (p + 1)) (buf ! (p + 2)) (buf ! (p + 3))"

lemma word_at_set4: "p + 4 \<le> length buf \<Longrightarrow> word_at (set4 buf p w) p = w"
  using word_le_bytes_le[of w] by (simp add: word_at_def set4_def bytes_le_def nth_append)

lemma word_at_set4_other:
  "\<lbrakk>p + 4 \<le> length buf; q + 4 \<le> length buf; p + 4 \<le> q \<or> q + 4 \<le> p\<rbrakk> \<Longrightarrow> word_at (set4 buf p w) q = word_at buf q"
  by (auto simp: word_at_def nth_set4)

lemma write_all_other:
  "\<lbrakk>list_all (in_range p_offs (length buf)) es; list_all (entry_apart p_offs e) es; in_range p_offs (length buf) e\<rbrakk> \<Longrightarrow>
     word_at (write_all p_offs d es buf) (entry_pos p_offs (fst e)) = word_at buf (entry_pos p_offs (fst e))"
proof (induction es arbitrary: buf)
  case (Cons f es)
  obtain off orig where f: "f = (off, orig)" by (cases f)
  let ?b = "set4 buf (entry_pos p_offs off) (orig + d)"
  have len: "length ?b = length buf" using Cons.prems by (intro length_set4) (simp add: f in_range_def)
  have "word_at ?b (entry_pos p_offs (fst e)) = word_at buf (entry_pos p_offs (fst e))"
    by (rule word_at_set4_other) (use Cons.prems in \<open>auto simp: f in_range_def entry_apart_def\<close>)
  then show ?case using Cons.IH[of ?b] Cons.prems by (simp add: f len)
qed simp

lemma write_all_words:
  "\<lbrakk>list_all (in_range p_offs (length buf)) es; sorted_wrt (entry_apart p_offs) es; e \<in> set es\<rbrakk> \<Longrightarrow>
     word_at (write_all p_offs d es buf) (entry_pos p_offs (fst e)) = snd e + d"
proof (induction es arbitrary: buf)
  case (Cons f es)
  obtain off orig where f: "f = (off, orig)" by (cases f)
  let ?b = "set4 buf (entry_pos p_offs off) (orig + d)"
  have p: "entry_pos p_offs off + 4 \<le> length buf" using Cons.prems by (simp add: f in_range_def)
  have len: "length ?b = length buf" using p by (rule length_set4)
  show ?case
  proof (cases "e = f")
    case True
    have "word_at (write_all p_offs d es ?b) (entry_pos p_offs (fst f)) = word_at ?b (entry_pos p_offs (fst f))"
      by (rule write_all_other) (use Cons.prems len in \<open>auto simp: list_all_iff\<close>)
    then show ?thesis using True word_at_set4[OF p] by (simp add: f)
  next
    case False
    then show ?thesis using Cons.IH[of ?b] Cons.prems by (simp add: f len)
  qed
qed simp

lemma mask_loop_probe:
  assumes "0 \<le> b_offs" "b_offs \<le> r_offs"
  shows "\<lbrakk>read_list b_offs r_offs (ms_buf st) p (ms_cs st) = Some (es, q); b_offs \<le> p;
     r_offs + 20 \<le> int (length (ms_buf st)); list_all (clear_of b_offs) es;
     \<forall>e \<in> set es. word_at (ms_buf st) (entry_pos (r_offs + 12) (fst e)) = snd e + d;
     ms_candidate st = None \<or> ms_candidate st = Some d\<rbrakk> \<Longrightarrow>
   \<exists>cs'. mask_loop b_offs r_offs (r_offs + 12) None p st =
     Ok (Continue (q, st\<lparr> ms_cs := cs', ms_candidate := (if es = [] then ms_candidate st else Some d) \<rparr>))"
proof (induction es arbitrary: p st)
  case Nil
  then have "\<not> p < r_offs \<and> q = p"
    by (subst (asm) read_list.simps) (auto split: if_splits sum.splits prod.splits)
  then show ?case by (subst mask_loop.simps) (auto intro!: exI[of _ "ms_cs st"])
next
  case (Cons e es)
  obtain off orig where e: "e = (off, orig)" by (cases e)
  obtain p' cs' where p: "p < r_offs" and d: "decode_in_memory (ms_buf st) p (ms_cs st) = Ok (p', off, orig, cs')"
    and o: "\<not> (off < -1 \<or> off \<ge> b_offs)" and rl: "read_list b_offs r_offs (ms_buf st) p' cs' = Some (es, q)"
    using Cons.prems(1) unfolding e
    by (subst (asm) read_list.simps) (auto split: if_splits sum.splits prod.splits)
  define en where "en = (if off = -1 then r_offs + 12 else off)"
  have en: "0 \<le> en" "en + 4 \<le> int (length (ms_buf st))" "entry_pos (r_offs + 12) off = nat en"
    using clear_entry[of b_offs off orig r_offs "length (ms_buf st)"] Cons.prems(3,4) assms
    by (auto simp: e en_def)
  have "get4 (ms_buf st) en = Ok (orig + d)"
    using Cons.prems(5) en by (simp add: e get4_def word_at_def)
  then have me: "mask_entry (r_offs + 12) None off orig (st\<lparr> ms_cs := cs' \<rparr>) = Ok (st\<lparr> ms_cs := cs', ms_candidate := Some d \<rparr>)"
    using Cons.prems(6) by (auto simp: mask_entry_def Let_def simp flip: en_def)
  have pp: "b_offs \<le> p'" using decode_in_memory_advances[OF d] Cons.prems(2) by simp
  obtain cs2 where "mask_loop b_offs r_offs (r_offs + 12) None p' (st\<lparr> ms_cs := cs', ms_candidate := Some d \<rparr>) =
     Ok (Continue (q, st\<lparr> ms_cs := cs2, ms_candidate := Some d \<rparr>))"
    using Cons.IH[of "st\<lparr> ms_cs := cs', ms_candidate := Some d \<rparr>" p'] rl pp Cons.prems(3-5) by (auto split: if_splits)
  then show ?case using p d o me by (subst mask_loop.simps) auto
qed

text \<open>
  C25: the offset a library was rewritten for is inferred back: probing the rewritten
  buffer reports a match, the offset, and changes nothing. The entries of the list are at least
  one, and their words do not overlap.
\<close>

theorem retouch_probe_infers:
  assumes "retouch_list buf = Some es" "es \<noteq> []" "sorted_wrt (entry_apart (int (length buf) - 8)) es"
    and "retouch_mask_data buf (int (length buf)) (Some d) = Ok (rc, d', buf')"
  shows "retouch_mask_data buf' (int (length buf)) None = Ok (RETOUCH_DATA_MATCHED, d, buf')"
proof -
  have b': "buf' = write_all (int (length buf) - 8) d es buf"
    using retouch_mask_data_desired[OF assms(1), of d] assms(4) by simp
  note ir = retouch_list_write_all(2)[OF assms(1)]
  have len: "length buf' = length buf" unfolding b' by (rule length_write_all[OF ir])
  have "retouch_list buf' = Some es" unfolding b' by (rule retouch_list_write_all(1)[OF assms(1)])
  then obtain b_offs r_offs blob where h: "r_offs = int (length buf') - 20" "0 \<le> r_offs"
    "text_at buf' (r_offs + 16) pre_tag" "text_at buf' r_offs retouch_tag"
    "get4 buf' (r_offs + 8) = Ok blob" "b_offs = sint (word_of_int r_offs - blob)" "0 \<le> b_offs" "b_offs \<le> r_offs"
    "read_list b_offs r_offs buf' b_offs init_compression_state = Some (es, r_offs)" "list_all (clear_of b_offs) es"
    by (rule retouch_listE)
  have p: "int (length buf) - 8 = r_offs + 12" "int (length buf) - 8 - 12 = r_offs" using h(1) len by auto
  have words: "\<forall>e \<in> set es. word_at buf' (entry_pos (r_offs + 12) (fst e)) = snd e + d"
    unfolding b' p using write_all_words[OF ir assms(3)] p by auto
  define st where "st = \<lparr> ms_buf = buf', ms_cs = init_compression_state, ms_candidate = None, ms_mismatch = False \<rparr>"
  obtain cs' where "mask_loop b_offs r_offs (r_offs + 12) None b_offs st =
     Ok (Continue (r_offs, st\<lparr> ms_cs := cs', ms_candidate := Some d \<rparr>))"
    using mask_loop_probe[OF h(7,8), of st b_offs es r_offs d] h(1,9,10) words assms(2) by (auto simp: st_def)
  then show ?thesis
    unfolding retouch_mask_data_def Let_def p
    using h(1-7) len by (simp add: st_def[symmetric] add.commute[of _ 16]) (simp add: st_def)
qed

theorem retouch_probe_infers_witness:
  "\<exists>buf'. retouch_mask_data buf' 36 None = Ok (RETOUCH_DATA_MATCHED, 0x100, buf')"
proof -
  have l: "int (length demo_library) = 36" by (simp add: demo_library_def retouch_tag_def pre_tag_def)
  obtain buf' where "retouch_mask_data demo_library 36 (Some 0x100) = Ok (RETOUCH_DATA_MATCHED, 0x100, buf')"
    using retouch_mask_data_desired[OF demo_list, of "0x100"] l by auto
  then show ?thesis using retouch_probe_infers[OF demo_list, of "0x100"] l by auto
qed

end
