(* ===== verification/Sys_World.thy ===== *)
theory Sys_World
  imports C_String
begin

text \<open>
  The file system as the applypatch code sees it. The state is the contents of the files by path and
  the number of system calls made so far; what the kernel answers besides that (which call fails,
  how much a read or write moves, free blocks, directory listings, links) is an oracle indexed by
  that number. A theorem that holds for every oracle holds for every failure of a system call.
  \<^verbatim>\<open>malloc\<close> does not fail here; messages that are only printed have no counterpart.
\<close>

record inode =
  i_data :: bytes
  i_mode :: int
  i_uid :: int
  i_gid :: int
  i_dev :: bool
  i_reg :: bool

record world =
  w_files :: "string \<Rightarrow> inode option"
  w_tick :: nat

record sys =
  s_fail :: "nat \<Rightarrow> bool"
  s_count :: "nat \<Rightarrow> nat"
  s_statfs :: "nat \<Rightarrow> string \<Rightarrow> u64 \<times> u64"
  s_readdir :: "nat \<Rightarrow> string \<Rightarrow> string list"
  s_readlink :: "nat \<Rightarrow> string \<Rightarrow> string option"

definition tick :: "world \<Rightarrow> world" where
  "tick w = w\<lparr> w_tick := Suc (w_tick w) \<rparr>"

definition call_fails :: "sys \<Rightarrow> world \<Rightarrow> bool" where
  "call_fails sys w = s_fail sys (w_tick w)"

section \<open>Calls on whole files\<close>

definition sys_stat :: "sys \<Rightarrow> string \<Rightarrow> world \<Rightarrow> inode option \<times> world" where
  "sys_stat sys name w = (if call_fails sys w then None else w_files w name, tick w)"

text \<open>\<^verbatim>\<open>fopen(name, "rb")\<close>: the contents that reads will see.\<close>

definition sys_fopen_read :: "sys \<Rightarrow> string \<Rightarrow> world \<Rightarrow> bytes option \<times> world" where
  "sys_fopen_read sys name w =
     (if call_fails sys w then None else map_option i_data (w_files w name), tick w)"

text \<open>\<^verbatim>\<open>fread\<close> of \<^verbatim>\<open>n\<close> bytes from the rest \<^verbatim>\<open>xs\<close> of a stream: a failing call may still
  deliver some bytes.\<close>

definition sys_fread :: "sys \<Rightarrow> nat \<Rightarrow> bytes \<Rightarrow> world \<Rightarrow> bytes \<times> world" where
  "sys_fread sys n xs w =
     (take (if call_fails sys w then min n (s_count sys (w_tick w)) else n) xs, tick w)"

text \<open>\<^verbatim>\<open>open(name, O_WRONLY | O_CREAT | O_TRUNC | O_SYNC, S_IRUSR | S_IWUSR)\<close>; the mode of a new file is 0600.\<close>

definition sys_create :: "sys \<Rightarrow> string \<Rightarrow> world \<Rightarrow> bool \<times> world" where
  "sys_create sys name w =
     (if call_fails sys w then (False, tick w)
      else (True, (tick w)\<lparr> w_files := (w_files w)(name :=
              Some (case w_files w name of
                 None \<Rightarrow> \<lparr> i_data = [], i_mode = 384, i_uid = 0, i_gid = 0, i_dev = False, i_reg = True \<rparr>
               | Some i \<Rightarrow> if i_dev i then i else i\<lparr> i_data := [] \<rparr>)) \<rparr>))"

text \<open>\<^verbatim>\<open>write\<close> on a file opened that way: -1, or a count that may be less than asked for.\<close>

definition append_data :: "string \<Rightarrow> bytes \<Rightarrow> world \<Rightarrow> world" where
  "append_data name xs w =
     (case w_files w name of None \<Rightarrow> w
      | Some i \<Rightarrow> w\<lparr> w_files := (w_files w)(name \<mapsto> i\<lparr> i_data := i_data i @ xs \<rparr>) \<rparr>)"

definition sys_write :: "sys \<Rightarrow> string \<Rightarrow> bytes \<Rightarrow> world \<Rightarrow> int \<times> world" where
  "sys_write sys name xs w =
     (if call_fails sys w then (-1, tick w)
      else let n = min (length xs) (s_count sys (w_tick w))
           in (int n, append_data name (take n xs) (tick w)))"

definition set_meta :: "string \<Rightarrow> (inode \<Rightarrow> inode) \<Rightarrow> world \<Rightarrow> world" where
  "set_meta name f w = w\<lparr> w_files := (w_files w)(name := map_option f (w_files w name)) \<rparr>"

definition sys_chmod :: "sys \<Rightarrow> string \<Rightarrow> int \<Rightarrow> world \<Rightarrow> bool \<times> world" where
  "sys_chmod sys name mode w =
     (if call_fails sys w \<or> w_files w name = None then (False, tick w)
      else (True, set_meta name (\<lambda>i. i\<lparr> i_mode := mode \<rparr>) (tick w)))"

definition sys_chown :: "sys \<Rightarrow> string \<Rightarrow> int \<Rightarrow> int \<Rightarrow> world \<Rightarrow> bool \<times> world" where
  "sys_chown sys name uid gid w =
     (if call_fails sys w \<or> w_files w name = None then (False, tick w)
      else (True, set_meta name (\<lambda>i. i\<lparr> i_uid := uid, i_gid := gid \<rparr>) (tick w)))"

definition sys_unlink :: "sys \<Rightarrow> string \<Rightarrow> world \<Rightarrow> world" where
  "sys_unlink sys name w =
     (if call_fails sys w then tick w else (tick w)\<lparr> w_files := (w_files w)(name := None) \<rparr>)"

definition sys_rename :: "sys \<Rightarrow> string \<Rightarrow> string \<Rightarrow> world \<Rightarrow> bool \<times> world" where
  "sys_rename sys a b w =
     (if call_fails sys w \<or> w_files w a = None then (False, tick w)
      else (True, (tick w)\<lparr> w_files := (w_files w)(a := None, b := w_files w a) \<rparr>))"

text \<open>\<^verbatim>\<open>fopen(name, "wb")\<close>, \<^verbatim>\<open>fwrite\<close> and \<^verbatim>\<open>fclose\<close> on a device or a file: whether
  each succeeds. A device keeps what lies behind the bytes written.\<close>

definition overwrite :: "inode \<Rightarrow> bytes \<Rightarrow> inode" where
  "overwrite i xs = i\<lparr> i_data := (if i_dev i then xs @ drop (length xs) (i_data i) else xs) \<rparr>"

definition new_file :: inode where
  "new_file = \<lparr> i_data = [], i_mode = 438, i_uid = 0, i_gid = 0, i_dev = False, i_reg = True \<rparr>"

definition sys_fopen_write :: "sys \<Rightarrow> string \<Rightarrow> world \<Rightarrow> bool \<times> world" where
  "sys_fopen_write sys name w =
     (if call_fails sys w then (False, tick w)
      else (True, (tick w)\<lparr> w_files := (w_files w)(name \<mapsto>
              overwrite (case w_files w name of None \<Rightarrow> new_file | Some i \<Rightarrow> i) []) \<rparr>))"

definition sys_fwrite :: "sys \<Rightarrow> string \<Rightarrow> bytes \<Rightarrow> world \<Rightarrow> bool \<times> world" where
  "sys_fwrite sys name xs w =
     (let k = (if call_fails sys w then min (length xs) (s_count sys (w_tick w)) else length xs);
          w' = (tick w)\<lparr> w_files := (w_files w)(name := map_option (\<lambda>i. overwrite i (take k xs)) (w_files w name)) \<rparr>
      in (k = length xs, w'))"

definition sys_fclose :: "sys \<Rightarrow> world \<Rightarrow> bool \<times> world" where
  "sys_fclose sys w = (\<not> call_fails sys w, tick w)"

text \<open>A call whose result the program does not look at.\<close>

definition sys_ignored :: "world \<Rightarrow> world" where
  "sys_ignored w = tick w"

section \<open>What a call leaves alone\<close>

text \<open>Two worlds with the same file \<^verbatim>\<open>name\<close>.\<close>

definition same_file :: "string \<Rightarrow> world \<Rightarrow> world \<Rightarrow> bool" where
  "same_file name w w' \<longleftrightarrow> w_files w name = w_files w' name"

lemma same_file_refl [simp, intro]: "same_file n w w"
  by (simp add: same_file_def)

lemma same_file_trans [trans]: "\<lbrakk>same_file n a b; same_file n b c\<rbrakk> \<Longrightarrow> same_file n a c"
  by (simp add: same_file_def)

named_theorems call_simps

lemma files_tick [simp]: "w_files (tick w) = w_files w"
  by (simp add: tick_def)

lemma sys_stat_world [call_simps]: "sys_stat sys n w = (r, w') \<Longrightarrow> w_files w' = w_files w"
  by (auto simp: sys_stat_def)

lemma sys_fopen_read_world [call_simps]: "sys_fopen_read sys n w = (r, w') \<Longrightarrow> w_files w' = w_files w"
  by (auto simp: sys_fopen_read_def)

lemma sys_fread_world [call_simps]: "sys_fread sys k xs w = (r, w') \<Longrightarrow> w_files w' = w_files w"
  by (auto simp: sys_fread_def)

lemma sys_create_other: "\<lbrakk>sys_create sys a w = (r, w'); n \<noteq> a\<rbrakk> \<Longrightarrow> same_file n w w'"
  by (auto simp: sys_create_def same_file_def split: if_splits)

lemma sys_write_other: "\<lbrakk>sys_write sys a xs w = (r, w'); n \<noteq> a\<rbrakk> \<Longrightarrow> same_file n w w'"
  by (auto simp: sys_write_def append_data_def same_file_def Let_def split: if_splits option.splits)

lemma sys_chmod_other: "\<lbrakk>sys_chmod sys a m w = (r, w'); n \<noteq> a\<rbrakk> \<Longrightarrow> same_file n w w'"
  by (auto simp: sys_chmod_def set_meta_def same_file_def split: if_splits)

lemma sys_chown_other: "\<lbrakk>sys_chown sys a u g w = (r, w'); n \<noteq> a\<rbrakk> \<Longrightarrow> same_file n w w'"
  by (auto simp: sys_chown_def set_meta_def same_file_def split: if_splits)

lemma sys_unlink_other: "n \<noteq> a \<Longrightarrow> same_file n w (sys_unlink sys a w)"
  by (auto simp: sys_unlink_def same_file_def)

lemma sys_rename_other: "\<lbrakk>sys_rename sys a b w = (r, w'); n \<noteq> a; n \<noteq> b\<rbrakk> \<Longrightarrow> same_file n w w'"
  by (auto simp: sys_rename_def same_file_def split: if_splits)

lemmas calls_other = sys_create_other sys_write_other sys_chmod_other sys_chown_other sys_rename_other

end
