(* ===== verification/Free_Cache.thy ===== *)
theory Free_Cache
  imports Sys_World
begin

text \<open>
  Making room on \<^verbatim>\<open>/cache\<close>: \<^verbatim>\<open>src/applypatch/freecache.c\<close>, and \<^verbatim>\<open>FreeSpaceForFile\<close> and
  \<^verbatim>\<open>CacheSizeCheck\<close> of \<^verbatim>\<open>applypatch.c\<close>. Entries of the \<^verbatim>\<open>names\<close> array are options: an entry is set
  to \<^verbatim>\<open>NULL\<close> when its file is open. The fixed size path buffers (\<^verbatim>\<open>FILENAME_MAX\<close>) are long enough.
\<close>

definition CACHE_TEMP_SOURCE :: string where
  "CACHE_TEMP_SOURCE = ''/cache/saved.file''"

text \<open>A \<^verbatim>\<open>size_t\<close>; -1 is the largest one.\<close>

definition FreeSpaceForFile :: "sys \<Rightarrow> string \<Rightarrow> world \<Rightarrow> u64 \<times> world" where
  "FreeSpaceForFile sys filename w =
     (if call_fails sys w then -1
      else case s_statfs sys (w_tick w) filename of (bsize, bfree) \<Rightarrow> bsize * bfree, tick w)"

section \<open>Open files\<close>

text \<open>The loop over \<^verbatim>\<open>files\<close> for one link target.\<close>

definition drop_open :: "string \<Rightarrow> string option list \<Rightarrow> string option list" where
  "drop_open link files = map (\<lambda>f. if f = Some link then None else f) files"

text \<open>The loop over the descriptors of one process.\<close>

fun fd_loop :: "sys \<Rightarrow> string \<Rightarrow> string list \<Rightarrow> string option list \<Rightarrow> world \<Rightarrow> string option list \<times> world" where
  "fd_loop sys path [] files w = (files, w)"
| "fd_loop sys path (fd # fds) files w =
     (let link = (if call_fails sys w then None else s_readlink sys (w_tick w) (path @ fd));
          files' = (case link of None \<Rightarrow> files
                    | Some l \<Rightarrow> if strncmp l ''/cache/'' 7 = 0 then drop_open l files else files)
      in fd_loop sys path fds files' (tick w))"

fun proc_loop :: "sys \<Rightarrow> string list \<Rightarrow> string option list \<Rightarrow> world \<Rightarrow> string option list \<times> world" where
  "proc_loop sys [] files w = (files, w)"
| "proc_loop sys (d # ds) files w =
     (if \<not> list_all is_digit d then proc_loop sys ds files w
      else
        let path = ''/proc/'' @ d @ ''/fd/''
        in if call_fails sys w then proc_loop sys ds files (tick w)
           else case fd_loop sys path (s_readdir sys (w_tick w) path) files (tick w) of (files', w') \<Rightarrow>
             proc_loop sys ds files' w')"

definition EliminateOpenFiles :: "sys \<Rightarrow> string option list \<Rightarrow> world \<Rightarrow> int \<times> string option list \<times> world" where
  "EliminateOpenFiles sys files w =
     (if call_fails sys w then (-1, files, tick w)
      else case proc_loop sys (s_readdir sys (w_tick w) ''/proc'') files (tick w) of (files', w') \<Rightarrow> (0, files', w'))"

section \<open>Expendable files\<close>

fun dir_loop :: "sys \<Rightarrow> string \<Rightarrow> string list \<Rightarrow> string option list \<Rightarrow> world \<Rightarrow> string option list \<times> world" where
  "dir_loop sys dir [] names w = (names, w)"
| "dir_loop sys dir (d # ds) names w =
     (let path = dir @ ''/'' @ d
      in if strcmp path CACHE_TEMP_SOURCE = 0 then dir_loop sys dir ds names w
         else case sys_stat sys path w of (st, w') \<Rightarrow>
           dir_loop sys dir ds
             (case st of None \<Rightarrow> names | Some i \<Rightarrow> if i_reg i then names @ [Some path] else names) w')"

fun dirs_loop :: "sys \<Rightarrow> string list \<Rightarrow> string option list \<Rightarrow> world \<Rightarrow> string option list \<times> world" where
  "dirs_loop sys [] names w = (names, w)"
| "dirs_loop sys (dir # dirs) names w =
     (if call_fails sys w then dirs_loop sys dirs names (tick w)
      else case dir_loop sys dir (s_readdir sys (w_tick w) dir) names (tick w) of (names', w') \<Rightarrow>
        dirs_loop sys dirs names' w')"

definition FindExpendableFiles :: "sys \<Rightarrow> world \<Rightarrow> int \<times> string option list \<times> world" where
  "FindExpendableFiles sys w =
     (case dirs_loop sys [''/cache'', ''/cache/recovery/otatest''] [] w of (names, w') \<Rightarrow>
        case EliminateOpenFiles sys names w' of (rc, names', w'') \<Rightarrow>
          if rc < 0 then (-1, names', w'') else (0, names', w''))"

section \<open>Deleting\<close>

text \<open>\<^verbatim>\<open>for (i = 0; i < entries && free_now < bytes_needed; ++i)\<close>\<close>

fun delete_loop :: "sys \<Rightarrow> string option list \<Rightarrow> u64 \<Rightarrow> u64 \<Rightarrow> world \<Rightarrow> u64 \<times> world" where
  "delete_loop sys [] free_now bytes_needed w = (free_now, w)"
| "delete_loop sys (n # ns) free_now bytes_needed w =
     (if free_now < bytes_needed then
        (case n of
           None \<Rightarrow> delete_loop sys ns free_now bytes_needed w
         | Some name \<Rightarrow>
             case FreeSpaceForFile sys ''/cache'' (sys_unlink sys name w) of (free_now', w') \<Rightarrow>
               delete_loop sys ns free_now' bytes_needed w')
      else (free_now, w))"

definition MakeFreeSpaceOnCache :: "sys \<Rightarrow> u64 \<Rightarrow> world \<Rightarrow> int \<times> world" where
  "MakeFreeSpaceOnCache sys bytes_needed w =
     (case FreeSpaceForFile sys ''/cache'' w of (free_now, w) \<Rightarrow>
        if free_now \<ge> bytes_needed then (0, w)
        else case FindExpendableFiles sys w of (rc, names, w) \<Rightarrow>
          if rc < 0 then (-1, w)
          else if names = [] then (-1, w)
          else case delete_loop sys names free_now bytes_needed w of (free_now, w) \<Rightarrow>
            (if free_now \<ge> bytes_needed then 0 else -1, w))"

definition CacheSizeCheck :: "sys \<Rightarrow> u64 \<Rightarrow> world \<Rightarrow> int \<times> world" where
  "CacheSizeCheck sys bytes w =
     (case MakeFreeSpaceOnCache sys bytes w of (rc, w) \<Rightarrow> (if rc < 0 then 1 else 0, w))"

section \<open>What may be deleted\<close>

definition expendable :: "world \<Rightarrow> string option \<Rightarrow> bool" where
  "expendable w n \<longleftrightarrow>
     (case n of None \<Rightarrow> True
      | Some p \<Rightarrow> (\<exists>d. p = ''/cache/'' @ d \<or> p = ''/cache/recovery/otatest/'' @ d) \<and>
                  strcmp p CACHE_TEMP_SOURCE \<noteq> 0 \<and> (\<exists>i. w_files w p = Some i \<and> i_reg i))"

lemma expendable_files: "w_files w' = w_files w \<Longrightarrow> expendable w' = expendable w"
  by (rule ext) (simp add: expendable_def split: option.splits)

lemma dir_loop_expendable:
  assumes "dir_loop sys dir ds names w = (names', w')" "list_all (expendable w) names"
    "dir = ''/cache'' \<or> dir = ''/cache/recovery/otatest''"
  shows "list_all (expendable w) names' \<and> w_files w' = w_files w"
  using assms(1,2)
proof (induction ds arbitrary: names w)
  case (Cons d ds)
  show ?case
  proof (cases "strcmp (dir @ ''/'' @ d) CACHE_TEMP_SOURCE = 0")
    case True
    then show ?thesis using Cons by (simp add: Let_def)
  next
    case False
    obtain st w1 where s: "sys_stat sys (dir @ ''/'' @ d) w = (st, w1)" by force
    have f: "w_files w1 = w_files w" by (rule sys_stat_world[OF s])
    define names1 where "names1 = (case st of None \<Rightarrow> names
        | Some i \<Rightarrow> if i_reg i then names @ [Some (dir @ ''/'' @ d)] else names)"
    have "expendable w (Some (dir @ ''/'' @ d))" if "st = Some i" "i_reg i" for i
      using s that False assms(3) by (auto simp: sys_stat_def expendable_def split: if_splits)
    then have "list_all (expendable w1) names1"
      using Cons.prems(2) by (auto simp: names1_def expendable_files[OF f] split: option.splits)
    moreover have "dir_loop sys dir ds names1 w1 = (names', w')"
      using Cons.prems(1) False s by (cases st) (auto simp: Let_def names1_def split: if_splits)
    ultimately show ?thesis using Cons.IH[of names1 w1] f expendable_files[OF f] by simp
  qed
qed simp

lemma dirs_loop_expendable:
  assumes "dirs_loop sys dirs names w = (names', w')" "list_all (expendable w) names"
    "set dirs \<subseteq> {''/cache'', ''/cache/recovery/otatest''}"
  shows "list_all (expendable w) names' \<and> w_files w' = w_files w"
  using assms
proof (induction dirs arbitrary: names w)
  case (Cons d dirs)
  have t: "expendable (tick w) = expendable w" by (rule expendable_files) simp
  show ?case
  proof (cases "call_fails sys w")
    case True
    then show ?thesis using Cons.IH[of names "tick w"] Cons.prems t by simp
  next
    case False
    obtain n1 w1 where l: "dir_loop sys d (s_readdir sys (w_tick w) d) names (tick w) = (n1, w1)" by force
    have "list_all (expendable (tick w)) n1 \<and> w_files w1 = w_files (tick w)"
      by (rule dir_loop_expendable[OF l]) (use Cons.prems t in auto)
    then have e: "list_all (expendable w1) n1" "w_files w1 = w_files w"
      using expendable_files[of w1 w] by (simp_all add: t)
    have "dirs_loop sys dirs n1 w1 = (names', w')" using Cons.prems(1) False l by simp
    from Cons.IH[OF this e(1)] Cons.prems(3) e(2) show ?thesis
      using expendable_files[OF e(2)] by simp
  qed
qed simp

lemma fd_loop_expendable:
  "\<lbrakk>fd_loop sys path fds names w = (names', w'); list_all (expendable w0) names\<rbrakk> \<Longrightarrow>
     list_all (expendable w0) names' \<and> w_files w' = w_files w"
proof (induction sys path fds names w rule: fd_loop.induct)
  case (2 sys path fd fds files w)
  have "list_all (expendable w0) (drop_open l files)" for l
    using "2.prems"(2) by (auto simp: drop_open_def list_all_iff expendable_def)
  then show ?case using 2 by (auto simp: Let_def split: option.splits if_splits)
qed simp

lemma proc_loop_expendable:
  "\<lbrakk>proc_loop sys ds names w = (names', w'); list_all (expendable w0) names\<rbrakk> \<Longrightarrow>
     list_all (expendable w0) names' \<and> w_files w' = w_files w"
proof (induction ds arbitrary: names w)
  case (Cons d ds)
  let ?path = "''/proc/'' @ d @ ''/fd/''"
  obtain f1 w1 where l: "fd_loop sys ?path (s_readdir sys (w_tick w) ?path) names (tick w) = (f1, w1)" by force
  from fd_loop_expendable[OF l Cons.prems(2)] Cons.IH[of names w] Cons.IH[of names "tick w"] Cons.IH[of f1 w1] Cons.prems l
  show ?case by (auto simp: Let_def split: if_splits)
qed simp

lemma FindExpendableFiles_expendable:
  assumes "FindExpendableFiles sys w = (rc, names, w')"
  shows "list_all (expendable w) names \<and> w_files w' = w_files w"
proof -
  obtain n1 w1 where d: "dirs_loop sys [''/cache'', ''/cache/recovery/otatest''] [] w = (n1, w1)" by force
  have e: "list_all (expendable w) n1" "w_files w1 = w_files w"
    using dirs_loop_expendable[OF d] by auto
  obtain rc1 n2 w2 where o: "EliminateOpenFiles sys n1 w1 = (rc1, n2, w2)" by (cases "EliminateOpenFiles sys n1 w1") auto
  have "list_all (expendable w) n2 \<and> w_files w2 = w_files w1"
    using o e proc_loop_expendable[of sys _ n1 "tick w1" n2 w2 w]
    by (auto simp: EliminateOpenFiles_def split: if_splits prod.splits)
  then show ?thesis using assms d o e(2) by (auto simp: FindExpendableFiles_def split: if_splits)
qed

lemma delete_loop_keeps:
  assumes "delete_loop sys names free n w = (free', w')" "Some p \<notin> set names"
  shows "w_files w' p = w_files w p"
  using assms
proof (induction sys names free n w rule: delete_loop.induct)
  case (2 sys x ns free n w)
  then show ?case
    using sys_unlink_other[of p _ w sys]
    by (auto simp: same_file_def FreeSpaceForFile_def split: if_splits option.splits prod.splits)
qed simp

lemma MakeFreeSpaceOnCache_other:
  assumes "MakeFreeSpaceOnCache sys n w = (rc, w')" "\<not> expendable w (Some p)"
  shows "same_file p w w'"
proof -
  obtain free w1 where f: "FreeSpaceForFile sys ''/cache'' w = (free, w1)" by force
  have w1: "w_files w1 = w_files w" using f by (auto simp: FreeSpaceForFile_def)
  obtain r names w2 where x: "FindExpendableFiles sys w1 = (r, names, w2)" by (cases "FindExpendableFiles sys w1") auto
  have names: "list_all (expendable w1) names" "w_files w2 = w_files w1"
    using FindExpendableFiles_expendable[OF x] by auto
  have "\<not> expendable w1 (Some p)" using assms(2) expendable_files[OF w1] by simp
  then have np: "Some p \<notin> set names" using names(1) by (auto simp: list_all_iff)
  obtain free' w3 where d: "delete_loop sys names free n w2 = (free', w3)" by force
  show ?thesis
    using assms(1) f x d w1 names(2) delete_loop_keeps[OF d np]
    by (auto simp: MakeFreeSpaceOnCache_def same_file_def split: if_splits)
qed


text \<open>A system in which nothing fails and \<^verbatim>\<open>/cache\<close>, which is full, holds one file.\<close>

definition demo_sys :: sys where
  "demo_sys = \<lparr> s_fail = \<lambda>t. False, s_count = \<lambda>t. 4096, s_statfs = \<lambda>t p. (0, 0),
     s_readdir = \<lambda>t p. if p = ''/cache'' then [''saved.file'', ''old''] else [], s_readlink = \<lambda>t p. None \<rparr>"

definition demo_world :: world where
  "demo_world = \<lparr> w_files = [''/cache/old'' \<mapsto> new_file, ''/cache/saved.file'' \<mapsto> new_file], w_tick = 0 \<rparr>"


end
