(* ===== verification/Apply_Patch.thy ===== *)
theory Apply_Patch
  imports Img_Patch Retouch_Mask Free_Cache Edify_Expr
begin

text \<open>
  The file patcher \<^verbatim>\<open>src/applypatch/applypatch.c\<close>: loading files and partitions, the sinks, and the
  function \<^verbatim>\<open>applypatch\<close> that the update scripts call. The file system is the one of
  \<^verbatim>\<open>Sys_World\<close>; SHA-1, bzip2 and zlib are arguments. A pointer to file data is null, points to live
  bytes, or was freed; using freed memory, or a null pointer that the program dereferences
  itself, is the outcome \<^const>\<open>OutOfBounds\<close>.
\<close>

section \<open>Digests\<close>

record 'c sha =
  SHA_init :: 'c
  SHA_update :: "'c \<Rightarrow> bytes \<Rightarrow> 'c"
  SHA_final :: "'c \<Rightarrow> bytes"
  SHA_hash :: "bytes \<Rightarrow> bytes"

definition SHA_DIGEST_SIZE :: nat where "SHA_DIGEST_SIZE = 20"

definition hex_digit :: "char \<Rightarrow> u8 option" where
  "hex_digit c =
     (if byte_of CHR ''0'' \<le> byte_of c \<and> byte_of c \<le> byte_of CHR ''9'' then Some (word_of_int (byte_of c - byte_of CHR ''0''))
      else if byte_of CHR ''a'' \<le> byte_of c \<and> byte_of c \<le> byte_of CHR ''f'' then Some (word_of_int (byte_of c - byte_of CHR ''a'' + 10))
      else if byte_of CHR ''A'' \<le> byte_of c \<and> byte_of c \<le> byte_of CHR ''F'' then Some (word_of_int (byte_of c - byte_of CHR ''A'' + 10))
      else None)"

text \<open>The loop over the digits, two at a time: \<^verbatim>\<open>*pd = digit << 4\<close>, then \<^verbatim>\<open>*pd |= digit\<close>. A character
  behind the end of the string is its 0, no digit.\<close>

fun sha1_digits :: "nat \<Rightarrow> string \<Rightarrow> (bytes \<times> string) option" where
  "sha1_digits 0 s = Some ([], s)"
| "sha1_digits (Suc n) (a # b # s) =
     (case (hex_digit a, hex_digit b) of
        (Some x, Some y) \<Rightarrow> map_option (\<lambda>(d, r). ((push_bit 4 x OR y) # d, r)) (sha1_digits n s)
      | _ \<Rightarrow> None)"
| "sha1_digits (Suc n) _ = None"

definition ParseSha1 :: "string \<Rightarrow> bytes option" where
  "ParseSha1 str =
     (case sha1_digits SHA_DIGEST_SIZE str of
        None \<Rightarrow> None | Some (digest, rest) \<Rightarrow> if rest \<noteq> [] then None else Some digest)"

fun find_patch_loop :: "bytes \<Rightarrow> string list \<Rightarrow> int \<Rightarrow> int" where
  "find_patch_loop sha1 [] i = -1"
| "find_patch_loop sha1 (s # ss) i =
     (if ParseSha1 s = Some sha1 then i else find_patch_loop sha1 ss (i + 1))"

definition FindMatchingPatch :: "bytes \<Rightarrow> string list \<Rightarrow> int" where
  "FindMatchingPatch sha1 patch_sha1_str = find_patch_loop sha1 patch_sha1_str 0"

section \<open>Loading\<close>

datatype buf = Null | Live bytes | Freed

definition free_buf :: "buf \<Rightarrow> buf" where
  "free_buf b = (case b of Null \<Rightarrow> Null | _ \<Rightarrow> Freed)"

record FileContents =
  fc_sha1 :: bytes
  fc_data :: buf
  fc_size :: int
  fc_mode :: int
  fc_uid :: int
  fc_gid :: int

definition is_emmc :: "string \<Rightarrow> bool" where
  "is_emmc name \<longleftrightarrow> strncmp name ''EMMC:'' 5 = 0"

definition next_token :: "string \<Rightarrow> string option \<times> string" where
  "next_token s = (case strtok CHR '':'' s of None \<Rightarrow> (None, s) | Some (t, r) \<Rightarrow> (Some t, r))"

text \<open>The \<^verbatim>\<open>(size, sha1)\<close> pairs of a partition name, read by \<^verbatim>\<open>strtok\<close> from the rest of the
  string. The result is \<^const>\<open>Return\<close> where the size is 0.\<close>

fun partition_pairs :: "nat \<Rightarrow> string \<Rightarrow> (int, (u64 \<times> string option) list) flow outcome" where
  "partition_pairs 0 s = Ok (Continue [])"
| "partition_pairs (Suc n) s =
     (case strtok CHR '':'' s of
        None \<Rightarrow> Inl OutOfBounds
      | Some (size_str, s1) \<Rightarrow>
          let sz = word_of_int (fst (strtol10 size_str)) :: u64
          in if sz = 0 then Ok (Return (-1))
             else
               let (sha, s2) = next_token s1
               in then_do (partition_pairs n s2) (\<lambda>f. Ok (case f of
                    Return rc \<Rightarrow> Return rc
                  | Continue ps \<Rightarrow> Continue ((sz, sha) # ps))))"

definition compare_size_indices :: "(u64 \<times> string option) \<Rightarrow> (u64 \<times> string option) \<Rightarrow> int" where
  "compare_size_indices a b = (if fst a < fst b then -1 else if fst a > fst b then 1 else 0)"

text \<open>The loop over the pairs in order of size. \<^verbatim>\<open>rest\<close> is what is still unread of the device,
  \<^verbatim>\<open>data\<close> what was read. The result says whether a pair matched, with the bytes read and the
  hash of them.\<close>

fun partition_loop ::
  "sys \<Rightarrow> ('c, 'm) sha_scheme \<Rightarrow> (u64 \<times> string option) list \<Rightarrow> bytes \<Rightarrow> bytes \<Rightarrow> 'c \<Rightarrow> world \<Rightarrow>
   (bool \<times> bytes \<times> 'c \<times> world) outcome" where
  "partition_loop sys sh [] rest data ctx w = Ok (False, data, ctx, w)"
| "partition_loop sys sh ((sz, sha) # ps) rest data ctx w =
     (let next_n = unat (sz - word_of_int (int (length data)))
      in case (if next_n > 0 then sys_fread sys next_n rest w else ([], w)) of (xs, w1) \<Rightarrow>
         if length xs \<noteq> next_n then Ok (False, data, ctx, w1)
         else
           let ctx' = (if next_n > 0 then SHA_update sh ctx xs else ctx); data' = data @ xs
           in case sha of
                None \<Rightarrow> Inl OutOfBounds
              | Some s \<Rightarrow>
                  (case ParseSha1 s of
                     None \<Rightarrow> Ok (False, data', ctx', w1)
                   | Some parsed \<Rightarrow>
                       if SHA_final sh ctx' = parsed then Ok (True, data', ctx', w1)
                       else partition_loop sys sh ps (drop next_n rest) data' ctx' w1))"

definition colons :: "string \<Rightarrow> nat" where
  "colons s = length (filter (\<lambda>c. c = CHR '':'') s)"

definition LoadPartitionContents ::
  "sys \<Rightarrow> ('c, 'm) sha_scheme \<Rightarrow> string \<Rightarrow> FileContents \<Rightarrow> world \<Rightarrow> (int \<times> FileContents \<times> world) outcome" where
  "LoadPartitionContents sys sh filename file w =
     (case next_token filename of (magic, s1) \<Rightarrow>
        (case magic of
           None \<Rightarrow> Inl OutOfBounds
         | Some m \<Rightarrow>
             if strcmp m ''EMMC'' \<noteq> 0 then Ok (-1, file, w)
             else
               (case next_token s1 of (part, s2) \<Rightarrow>
                  then_do (partition_pairs ((colons filename - 1) div 2) s2) (\<lambda>f. case f of
                    Return rc \<Rightarrow> Ok (rc, file, w)
                  | Continue ps \<Rightarrow>
                      (case part of
                         None \<Rightarrow> Inl OutOfBounds
                       | Some dev \<Rightarrow>
                           (case sys_fopen_read sys dev w of (opened, w1) \<Rightarrow>
                              (case opened of
                                 None \<Rightarrow> Ok (-1, file, w1)
                               | Some contents \<Rightarrow>
                                   if ps = [] then Inl OutOfBounds
                                   else
                                     then_do (partition_loop sys sh (qsort compare_size_indices ps) contents []
                                                (SHA_init sh) w1) (\<lambda>(matched, data, ctx, w2).
                                       let file = file\<lparr> fc_data := (if matched then Live data else Null),
                                                        fc_size := int (length data) \<rparr>
                                       in if \<not> matched then Ok (-1, file, w2)
                                          else Ok (0, file\<lparr> fc_sha1 := SHA_final sh ctx, fc_mode := 420, fc_uid := 0,
                                                             fc_gid := 0 \<rparr>, sys_ignored w2)))))))))"

definition LoadFileContents ::
  "sys \<Rightarrow> ('c, 'm) sha_scheme \<Rightarrow> string \<Rightarrow> FileContents \<Rightarrow> int \<Rightarrow> world \<Rightarrow> (int \<times> FileContents \<times> world) outcome" where
  "LoadFileContents sys sh filename file retouch_flag w =
     (let file = file\<lparr> fc_data := Null \<rparr>
      in if is_emmc filename then LoadPartitionContents sys sh filename file w
         else case sys_stat sys filename w of (st, w1) \<Rightarrow>
           (case st of
              None \<Rightarrow> Ok (-1, file, w1)
            | Some i \<Rightarrow>
                let file = file\<lparr> fc_size := int (length (i_data i)), fc_mode := i_mode i, fc_uid := i_uid i,
                                 fc_gid := i_gid i \<rparr>
                in case sys_fopen_read sys filename w1 of (opened, w2) \<Rightarrow>
                     (case opened of
                        None \<Rightarrow> Ok (-1, file, w2)
                      | Some contents \<Rightarrow>
                          (case sys_fread sys (length (i_data i)) contents w2 of (data, w3) \<Rightarrow>
                             if length data \<noteq> length (i_data i) then Ok (-1, file, w3)
                             else
                               let w4 = sys_ignored w3
                               in if retouch_flag \<noteq> 0 then
                                    then_do (retouch_mask_data data (to_int32 (int (length data))) (Some 0)) (\<lambda>(rc, off, data').
                                      if rc \<noteq> RETOUCH_DATA_MATCHED then Ok (-1, file, w4)
                                      else Ok (0, file\<lparr> fc_data := Live data', fc_sha1 := SHA_hash sh data' \<rparr>, w4))
                                  else Ok (0, file\<lparr> fc_data := Live data, fc_sha1 := SHA_hash sh data \<rparr>, w4)))))"

section \<open>Sinks and saving\<close>

text \<open>The loop of \<^verbatim>\<open>FileSink\<close> on the bytes that are still to be written.\<close>

function sink_loop :: "sys \<Rightarrow> string \<Rightarrow> bytes \<Rightarrow> int \<Rightarrow> world \<Rightarrow> int \<times> world" where
  "sink_loop sys name xs n w =
     (if xs = [] then (n, w)
      else case sys_write sys name xs w of (wrote, w') \<Rightarrow>
        if wrote \<le> 0 then (n, w') else sink_loop sys name (drop (nat wrote) xs) (n + wrote) w')"
  by pat_completeness auto
termination
  by (relation "measure (\<lambda>(sys, name, xs, n, w). length xs)") auto

declare sink_loop.simps [simp del]

text \<open>\<^verbatim>\<open>FileSink\<close> on an open file: \<^verbatim>\<open>write\<close> from a null pointer fails with \<^verbatim>\<open>EFAULT\<close>.\<close>

definition FileSink :: "sys \<Rightarrow> string \<Rightarrow> buf \<Rightarrow> int \<Rightarrow> world \<Rightarrow> (int \<times> world) outcome" where
  "FileSink sys name data len w =
     (if len \<le> 0 then Ok (0, w)
      else case data of
        Null \<Rightarrow> Ok (0, tick w)
      | Freed \<Rightarrow> Inl OutOfBounds
      | Live xs \<Rightarrow> if int (length xs) < len then Inl OutOfBounds
                   else Ok (sink_loop sys name (take (nat len) xs) 0 w))"

record MemorySinkInfo =
  msi_buffer :: bytes
  msi_size :: int
  msi_pos :: int

definition MemorySink :: "bytes \<Rightarrow> MemorySinkInfo \<Rightarrow> int \<times> MemorySinkInfo" where
  "MemorySink data msi =
     (if msi_size msi - msi_pos msi < int (length data) then (-1, msi)
      else (int (length data),
            msi\<lparr> msi_buffer := put_at (msi_buffer msi) (msi_pos msi) data,
                 msi_pos := msi_pos msi + int (length data) \<rparr>))"

definition SaveFileContents :: "sys \<Rightarrow> string \<Rightarrow> FileContents \<Rightarrow> world \<Rightarrow> (int \<times> world) outcome" where
  "SaveFileContents sys filename file w =
     (case sys_create sys filename w of (opened, w1) \<Rightarrow>
        if \<not> opened then Ok (-1, w1)
        else then_do (FileSink sys filename (fc_data file) (fc_size file) w1) (\<lambda>(bytes_written, w2).
          if bytes_written \<noteq> fc_size file then Ok (-1, sys_ignored w2)
          else
            (case sys_chmod sys filename (fc_mode file) (sys_ignored (sys_ignored w2)) of (ok, w3) \<Rightarrow>
               if \<not> ok then Ok (-1, w3)
               else (case sys_chown sys filename (fc_uid file) (fc_gid file) w3 of (ok, w4) \<Rightarrow>
                 if \<not> ok then Ok (-1, w4) else Ok (0, w4)))))"

text \<open>The stream that \<^verbatim>\<open>fopen\<close> returns is not checked.\<close>

definition WriteToPartition :: "sys \<Rightarrow> bytes \<Rightarrow> string \<Rightarrow> world \<Rightarrow> (int \<times> world) outcome" where
  "WriteToPartition sys data target w =
     (case next_token target of (magic, s1) \<Rightarrow>
        (case magic of
           None \<Rightarrow> Inl OutOfBounds
         | Some m \<Rightarrow>
             if strcmp m ''EMMC'' \<noteq> 0 then Ok (-1, w)
             else
               (case fst (next_token s1) of
                  None \<Rightarrow> Ok (-1, w)
                | Some part \<Rightarrow>
                    (case sys_fopen_write sys part w of (opened, w1) \<Rightarrow>
                       if \<not> opened then Inl OutOfBounds
                       else
                         (case sys_fwrite sys part data w1 of (ok, w2) \<Rightarrow>
                            if \<not> ok then Ok (-1, w2)
                            else (case sys_fclose sys w2 of (ok, w3) \<Rightarrow>
                              if \<not> ok then Ok (-1, w3) else Ok (0, w3)))))))"

section \<open>Checking a file\<close>

definition applypatch_check ::
  "sys \<Rightarrow> ('c, 'm) sha_scheme \<Rightarrow> FileContents \<Rightarrow> string \<Rightarrow> string list \<Rightarrow> world \<Rightarrow> (int \<times> world) outcome" where
  "applypatch_check sys sh file filename patch_sha1_str w =
     then_do (LoadFileContents sys sh filename (file\<lparr> fc_data := Null \<rparr>) RETOUCH_DO_MASK w) (\<lambda>(rc, file, w).
       if rc \<noteq> 0 \<or> (length patch_sha1_str > 0 \<and> FindMatchingPatch (fc_sha1 file) patch_sha1_str < 0) then
         then_do (LoadFileContents sys sh CACHE_TEMP_SOURCE file RETOUCH_DO_MASK w) (\<lambda>(rc, file, w).
           if rc \<noteq> 0 then Ok (1, w)
           else if FindMatchingPatch (fc_sha1 file) patch_sha1_str < 0 then Ok (1, w)
           else Ok (0, w))
       else Ok (0, w))"

section \<open>applypatch\<close>

text \<open>The libraries: bzip2, zlib, \<^verbatim>\<open>malloc\<close> and SHA-1.\<close>

record ('z, 's, 'd, 'c) libs =
  lb_bz :: "'z bzlib"
  lb_zlib :: "('s, 'd) zlib"
  lb_malloc :: "nat \<Rightarrow> bytes option"
  lb_sha :: "'c sha"

text \<open>The arguments of \<^verbatim>\<open>applypatch\<close>.\<close>

record ap_args =
  ap_source_filename :: string
  ap_target_filename :: string
  ap_target_sha1_str :: string
  ap_target_size :: u64
  ap_patch_sha1_str :: "string list"
  ap_patch_data :: "Value list"

text \<open>What the sinks write to: files and the memory buffer.\<close>

record sink_token =
  tk_world :: world
  tk_msi :: MemorySinkInfo

definition file_sink :: "sys \<Rightarrow> string \<Rightarrow> sink_token sink" where
  "file_sink sys outname = (\<lambda>data token.
     case sink_loop sys outname data 0 (tk_world token) of (n, w) \<Rightarrow> (n, token\<lparr> tk_world := w \<rparr>))"

definition memory_sink :: "sink_token sink" where
  "memory_sink = (\<lambda>data token.
     case MemorySink data (tk_msi token) of (n, msi) \<Rightarrow> (n, token\<lparr> tk_msi := msi \<rparr>))"

definition patch_env_of ::
  "('z, 's, 'd, 'c) libs \<Rightarrow> sink_token sink \<Rightarrow> ('z, 's, 'd, 'c, sink_token) patch_env" where
  "patch_env_of lb sink =
     \<lparr> env_bz = lb_bz lb, env_zlib = lb_zlib lb, env_malloc = lb_malloc lb,
       env_sha = SHA_update (lb_sha lb), env_sink = sink \<rparr>"

text \<open>The assumed mount point of the target.\<close>

definition target_fs :: "string \<Rightarrow> string outcome" where
  "target_fs target = (case target of [] \<Rightarrow> Inl OutOfBounds | c # cs \<Rightarrow> Ok (c # takeWhile (\<lambda>c. c \<noteq> CHR ''/'') cs))"

definition patch_for :: "bytes \<Rightarrow> ap_args \<Rightarrow> Value option outcome" where
  "patch_for sha1 a =
     (let to_use = FindMatchingPatch sha1 (ap_patch_sha1_str a)
      in if to_use < 0 then Ok None
         else if nat to_use < length (ap_patch_data a) then Ok (Some (ap_patch_data a ! nat to_use))
         else Inl OutOfBounds)"

text \<open>What the loop works on: the source and its patch if the source is good, else the copy.\<close>

record ap_source =
  src_file :: FileContents
  src_patch :: "Value option"
  src_copy :: FileContents
  copy_patch :: "Value option"

record ap_state =
  st_world :: world
  st_made_copy :: bool
  st_retry :: nat

text \<open>\<^verbatim>\<open>MakeFreeSpaceOnCache\<close> and \<^verbatim>\<open>SaveFileContents\<close> of the source to the cache.\<close>

definition save_to_cache :: "sys \<Rightarrow> FileContents \<Rightarrow> world \<Rightarrow> (int \<times> world) outcome" where
  "save_to_cache sys file w =
     (case MakeFreeSpaceOnCache sys (word_of_int (fc_size file)) w of (rc, w) \<Rightarrow>
        if rc < 0 then Ok (1, w)
        else then_do (SaveFileContents sys CACHE_TEMP_SOURCE file w) (\<lambda>(rc, w).
          if rc < 0 then Ok (1, w) else Ok (0, w)))"

text \<open>The first part of the loop body: is there room for the output, and the copy to the cache.\<close>

definition prepare_space ::
  "sys \<Rightarrow> ap_args \<Rightarrow> string \<Rightarrow> string \<Rightarrow> ap_source \<Rightarrow> ap_state \<Rightarrow> (int \<times> world, ap_state) flow outcome" where
  "prepare_space sys a target fs s st =
     (if is_emmc target then
        then_do (save_to_cache sys (src_file s) (st_world st)) (\<lambda>(rc, w).
          if rc \<noteq> 0 then Ok (Return (1, w))
          else Ok (Continue \<lparr> st_world = w, st_made_copy = True, st_retry = 0 \<rparr>))
      else
        (case (if st_retry st > 0
               then (case FreeSpaceForFile sys fs (st_world st) of (free_space, w) \<Rightarrow>
                       (free_space > 262144 \<and> free_space > ap_target_size a * 3 div 2, w))
               else (False, st_world st)) of (enough_space, w) \<Rightarrow>
           let st = st\<lparr> st_world := w, st_retry := (if enough_space then st_retry st else 0) \<rparr>
           in if \<not> enough_space \<and> src_patch s \<noteq> None then
                if is_emmc (ap_source_filename a) then Ok (Return (1, w))
                else then_do (save_to_cache sys (src_file s) w) (\<lambda>(rc, w).
                  if rc \<noteq> 0 then Ok (Return (1, w))
                  else
                    let w = sys_unlink sys (ap_source_filename a) w;
                        w = snd (FreeSpaceForFile sys fs w)
                    in Ok (Continue (st\<lparr> st_world := w, st_made_copy := True \<rparr>)))
              else Ok (Continue st)))"

text \<open>Opening the output and choosing the sink: the name of the output file, none for a
  partition.\<close>

definition open_output ::
  "sys \<Rightarrow> ('z, 's, 'd, 'c) libs \<Rightarrow> ap_args \<Rightarrow> string \<Rightarrow> world \<Rightarrow>
   (int \<times> world, sink_token sink \<times> sink_token) flow" where
  "open_output sys lb a target w =
     (if is_emmc target then
        (case lb_malloc lb (unat (ap_target_size a)) of
           None \<Rightarrow> Return (1, w)
         | Some buffer \<Rightarrow>
             Continue (memory_sink,
               \<lparr> tk_world = w, tk_msi = \<lparr> msi_buffer = buffer, msi_size = sint (ap_target_size a), msi_pos = 0 \<rparr> \<rparr>))
      else
        (case sys_create sys (target @ ''.patch'') w of (opened, w) \<Rightarrow>
           if \<not> opened then Return (1, w)
           else Continue (file_sink sys (target @ ''.patch''),
                  \<lparr> tk_world = w, tk_msi = \<lparr> msi_buffer = [], msi_size = 0, msi_pos = 0 \<rparr> \<rparr>)))"

text \<open>The patch is detected by its first eight bytes. \<^const>\<open>Return\<close> for an unknown format.\<close>

definition apply_by_header ::
  "('z, 's, 'd, 'c) libs \<Rightarrow> bytes \<Rightarrow> bytes \<Rightarrow> sink_token sink \<Rightarrow> sink_token \<Rightarrow>
   (int \<times> world, int \<times> sink_token \<times> 'c option) flow run" where
  "apply_by_header lb source patch sink token =
     (let ctx = Some (SHA_init (lb_sha lb)); is_magic = (\<lambda>m. length patch \<ge> 8 \<and> memcmp patch m 8 = 0)
      in if is_magic bsdiff_magic then
           run_then (ApplyBSDiffPatch (lb_bz lb) (lb_malloc lb) (SHA_update (lb_sha lb)) source (int (length source))
                       patch 0 sink token ctx) (\<lambda>r. Some (Ok (Continue r)))
         else if is_magic imgdiff_magic then
           run_then (ApplyImagePatch (patch_env_of lb sink) source patch token ctx) (\<lambda>r. Some (Ok (Continue r)))
         else Some (Ok (Return (1, tk_world token))))"

text \<open>The live bytes of the file that is patched.\<close>

definition source_to_use :: "ap_source \<Rightarrow> FileContents \<times> Value option" where
  "source_to_use s = (if src_patch s \<noteq> None then (src_file s, src_patch s) else (src_copy s, copy_patch s))"

definition live_bytes :: "FileContents \<Rightarrow> bytes outcome" where
  "live_bytes file =
     (case fc_data file of Live xs \<Rightarrow> if int (length xs) = fc_size file then Ok xs else Inl OutOfBounds
      | _ \<Rightarrow> Inl OutOfBounds)"

text \<open>The bytes of a blob. One without data has the size -1, which is below the length of a header,
  like that of an empty one.\<close>

definition blob_bytes :: "bytes option \<Rightarrow> bytes" where
  "blob_bytes d = (case d of None \<Rightarrow> [] | Some xs \<Rightarrow> xs)"

text \<open>One round of the \<^verbatim>\<open>do\<close> loop: the function returns, or the result of the patch with the
  token and the hash.\<close>

definition patch_round ::
  "sys \<Rightarrow> ('z, 's, 'd, 'c) libs \<Rightarrow> ap_args \<Rightarrow> string \<Rightarrow> string \<Rightarrow> ap_source \<Rightarrow> ap_state \<Rightarrow>
   (int \<times> world, int \<times> ap_state \<times> MemorySinkInfo \<times> 'c option) flow run" where
  "patch_round sys lb a target fs s st =
     run_then (Some (prepare_space sys a target fs s st)) (\<lambda>f. case f of
       Return r \<Rightarrow> Some (Ok (Return r))
     | Continue st \<Rightarrow>
         (case snd (source_to_use s) of
            None \<Rightarrow> Some (Inl OutOfBounds)
          | Some (VAL_STRING _) \<Rightarrow> Some (Ok (Return (1, st_world st)))
          | Some (VAL_BLOB patch) \<Rightarrow>
              (case open_output sys lb a target (st_world st) of
                 Return r \<Rightarrow> Some (Ok (Return r))
               | Continue (sink, token) \<Rightarrow>
                   run_then (Some (live_bytes (fst (source_to_use s)))) (\<lambda>source.
                   run_then (apply_by_header lb source (blob_bytes patch) sink token) (\<lambda>f. case f of
                     Return r \<Rightarrow> Some (Ok (Return r))
                   | Continue (result, token, ctx) \<Rightarrow>
                       let w = (if is_emmc target then tk_world token else sys_ignored (sys_ignored (tk_world token)))
                       in if result \<noteq> 0 then
                            if st_retry st = 0 then Some (Ok (Return (1, w)))
                            else
                              let w = (if is_emmc target then w else sys_unlink sys (target @ ''.patch'') w)
                              in Some (Ok (Continue (result, st\<lparr> st_world := w \<rparr>, tk_msi token, ctx)))
                          else Some (Ok (Continue (result, st\<lparr> st_world := w \<rparr>, tk_msi token, ctx))))))))"

text \<open>\<^verbatim>\<open>while (retry-- > 0)\<close>; \<^verbatim>\<open>n\<close> is the value of \<^verbatim>\<open>retry\<close> at the start of a round.\<close>

fun patch_rounds ::
  "sys \<Rightarrow> ('z, 's, 'd, 'c) libs \<Rightarrow> ap_args \<Rightarrow> string \<Rightarrow> string \<Rightarrow> ap_source \<Rightarrow> nat \<Rightarrow> bool \<Rightarrow> world \<Rightarrow>
   (int \<times> world, ap_state \<times> MemorySinkInfo \<times> 'c option) flow run" where
  "patch_rounds sys lb a target fs s n made_copy w =
     run_then (patch_round sys lb a target fs s \<lparr> st_world = w, st_made_copy = made_copy, st_retry = n \<rparr>) (\<lambda>f. case f of
       Return r \<Rightarrow> Some (Ok (Return r))
     | Continue (result, st, msi, ctx) \<Rightarrow>
         if result = 0 then Some (Ok (Continue (st, msi, ctx)))
         else case n of
           0 \<Rightarrow> Some (Ok (Continue (st, msi, ctx)))
         | Suc m \<Rightarrow> patch_rounds sys lb a target fs s m (st_made_copy st) (st_world st))"

text \<open>From the check of the hash on: the output takes the place of the target.\<close>

definition install_output ::
  "sys \<Rightarrow> FileContents \<Rightarrow> string \<Rightarrow> MemorySinkInfo \<Rightarrow> world \<Rightarrow> (int \<times> world) outcome" where
  "install_output sys source target msi w =
     (if is_emmc target then
        then_do (WriteToPartition sys (take (nat (msi_pos msi)) (msi_buffer msi)) target w) (\<lambda>(rc, w).
          if rc \<noteq> 0 then Ok (1, w) else Ok (0, w))
      else
        let outname = target @ ''.patch''
        in case sys_chmod sys outname (fc_mode source) w of (ok, w) \<Rightarrow>
             if \<not> ok then Ok (1, w)
             else case sys_chown sys outname (fc_uid source) (fc_gid source) w of (ok, w) \<Rightarrow>
               if \<not> ok then Ok (1, w)
               else case sys_rename sys outname target w of (ok, w) \<Rightarrow>
                 if \<not> ok then Ok (1, w) else Ok (0, w))"

definition finish_patch ::
  "sys \<Rightarrow> ('z, 's, 'd, 'c) libs \<Rightarrow> bytes \<Rightarrow> FileContents \<Rightarrow> string \<Rightarrow> ap_state \<Rightarrow> MemorySinkInfo \<Rightarrow> 'c option \<Rightarrow>
   (int \<times> world) outcome" where
  "finish_patch sys lb target_sha1 source target st msi ctx =
     (case ctx of
        None \<Rightarrow> Inl OutOfBounds
      | Some c \<Rightarrow>
          if SHA_final (lb_sha lb) c \<noteq> target_sha1 then Ok (1, st_world st)
          else then_do (install_output sys source target msi (st_world st)) (\<lambda>(rc, w).
            if rc \<noteq> 0 then Ok (rc, w)
            else Ok (0, if st_made_copy st then sys_unlink sys CACHE_TEMP_SOURCE w else w)))"

text \<open>The load of the copy when the source is bad.\<close>

definition choose_source ::
  "sys \<Rightarrow> ('z, 's, 'd, 'c) libs \<Rightarrow> ap_args \<Rightarrow> FileContents \<Rightarrow> FileContents \<Rightarrow> world \<Rightarrow>
   (int \<times> world, ap_source \<times> world) flow outcome" where
  "choose_source sys lb a file copy w =
     then_do (if fc_data file \<noteq> Null then patch_for (fc_sha1 file) a else Ok None) (\<lambda>p.
       if p \<noteq> None then
         Ok (Continue (\<lparr> src_file = file, src_patch = p, src_copy = copy, copy_patch = None \<rparr>, w))
       else
         let file = file\<lparr> fc_data := free_buf (fc_data file) \<rparr>
         in then_do (LoadFileContents sys (lb_sha lb) CACHE_TEMP_SOURCE copy RETOUCH_DO_MASK w) (\<lambda>(rc, copy, w).
              if rc < 0 then Ok (Return (1, w))
              else then_do (patch_for (fc_sha1 copy) a) (\<lambda>cp.
                if cp = None then Ok (Return (1, w))
                else Ok (Continue (\<lparr> src_file = file, src_patch = None, src_copy = copy, copy_patch = cp \<rparr>, w)))))"

text \<open>The target file name, \<^verbatim>\<open>-\<close> resolved.\<close>

definition target_of :: "ap_args \<Rightarrow> string" where
  "target_of a = (if ap_target_filename a = ''-'' then ap_source_filename a else ap_target_filename a)"

text \<open>The first loads, up to the choice of the source.\<close>

definition load_source ::
  "sys \<Rightarrow> ('c, 'm) sha_scheme \<Rightarrow> ap_args \<Rightarrow> FileContents \<Rightarrow> world \<Rightarrow> (FileContents \<times> world) outcome" where
  "load_source sys sh a file w =
     (if fc_data file = Null \<or> strcmp (target_of a) (ap_source_filename a) \<noteq> 0
      then then_do (LoadFileContents sys sh (ap_source_filename a) file RETOUCH_DO_MASK w) (\<lambda>(rc, file, w). Ok (file, w))
      else Ok (file, w))"

definition applypatch ::
  "sys \<Rightarrow> ('z, 's, 'd, 'c) libs \<Rightarrow> FileContents \<Rightarrow> FileContents \<Rightarrow> ap_args \<Rightarrow> world \<Rightarrow> (int \<times> world) run" where
  "applypatch sys lb source_file copy_file a w =
     (let target = target_of a
      in case ParseSha1 (ap_target_sha1_str a) of
           None \<Rightarrow> Some (Ok (1, w))
         | Some target_sha1 \<Rightarrow>
             run_then (Some (LoadFileContents sys (lb_sha lb) target source_file RETOUCH_DO_MASK w)) (\<lambda>(rc, file, w).
               if rc = 0 \<and> fc_sha1 file = target_sha1 then Some (Ok (0, w))
               else
                 run_then (Some (load_source sys (lb_sha lb) a file w)) (\<lambda>(file, w).
                 run_then (Some (choose_source sys lb a file copy_file w)) (\<lambda>f. case f of
                   Return r \<Rightarrow> Some (Ok r)
                 | Continue (s, w) \<Rightarrow>
                     run_then (Some (target_fs target)) (\<lambda>fs.
                     run_then (patch_rounds sys lb a target fs s 1 False w) (\<lambda>f. case f of
                       Return r \<Rightarrow> Some (Ok r)
                     | Continue (st, msi, ctx) \<Rightarrow>
                         Some (finish_patch sys lb target_sha1 (fst (source_to_use s)) target st msi ctx)))))))"

section \<open>Digests in text form\<close>

definition hex_alphabet :: string where
  "hex_alphabet = ''0123456789abcdef''"

text \<open>\<^verbatim>\<open>PrintSha1\<close> of the updater.\<close>

fun PrintSha1 :: "bytes \<Rightarrow> string" where
  "PrintSha1 [] = []"
| "PrintSha1 (d # ds) =
     hex_alphabet ! unat (drop_bit 4 d AND 0xf) # hex_alphabet ! unat (d AND 0xf) # PrintSha1 ds"

lemma hex_digit_alphabet: "n < 16 \<Longrightarrow> hex_digit (hex_alphabet ! n) = Some (word_of_nat n)"
proof -
  have "list_all (\<lambda>n. hex_digit (hex_alphabet ! n) = Some (word_of_nat n)) [0 ..< 16]" by code_simp
  moreover assume "n < 16"
  ultimately show ?thesis by (simp add: list_all_iff)
qed

lemma nibble_digit: "hex_digit (hex_alphabet ! unat ((w :: u8) AND 0xf)) = Some (w AND 0xf)"
proof -
  have "w AND 0xf \<le> 0xf" by (rule word_and_le1)
  then have "unat (w AND 0xf) < 16" by (simp add: word_le_nat_alt)
  from hex_digit_alphabet[OF this] show ?thesis by simp
qed

lemma nibbles_join: "push_bit 4 (drop_bit 4 d AND mask 4) OR (d AND mask 4) = (d :: u8)"
  by (rule bit_word_eqI) (auto simp: bit_simps)

lemma sha1_digits_print: "sha1_digits (length ds) (PrintSha1 ds @ r) = Some (ds, r)"
  proof (induction ds)
  case (Cons d ds)
  have m: "(0xf :: u8) = mask 4" by (simp add: mask_eq_exp_minus_1)
  show ?case using Cons.IH nibble_digit[of d] nibble_digit[of "drop_bit 4 d"] nibbles_join[of d]
    by (simp add: m del: push_bit_and)
qed simp

text \<open>
  Parsing a printed digest gives the digest back, and a printed digest followed by anything
  (also the colon that the comment on the function allows) is refused.
\<close>

theorem ParseSha1_PrintSha1:
  assumes "length digest = SHA_DIGEST_SIZE"
  shows "ParseSha1 (PrintSha1 digest) = Some digest \<and> (rest \<noteq> [] \<longrightarrow> ParseSha1 (PrintSha1 digest @ rest) = None)"
  using sha1_digits_print[of digest "[]"] sha1_digits_print[of digest rest] assms
  by (simp add: ParseSha1_def)

theorem ParseSha1_PrintSha1_witness:
  "ParseSha1 (PrintSha1 (replicate 20 0xa5)) = Some (replicate 20 0xa5) \<and>
   ParseSha1 (PrintSha1 (replicate 20 0xa5) @ '':foo'') = None"
  using ParseSha1_PrintSha1[of "replicate 20 0xa5" "'':foo''"] by (simp add: SHA_DIGEST_SIZE_def)

lemma find_patch_loop_spec:
  "find_patch_loop sha1 ss i = -1 \<and> (\<forall>s \<in> set ss. ParseSha1 s \<noteq> Some sha1) \<or>
   (\<exists>k < length ss. find_patch_loop sha1 ss i = i + int k \<and> ParseSha1 (ss ! k) = Some sha1 \<and>
      (\<forall>j < k. ParseSha1 (ss ! j) \<noteq> Some sha1))"
proof (induction ss arbitrary: i)
  case (Cons s ss)
  show ?case
  proof (cases "ParseSha1 s = Some sha1")
    case True
    then show ?thesis by auto
  next
    case False
    then have f: "find_patch_loop sha1 (s # ss) i = find_patch_loop sha1 ss (i + 1)" by simp
    from Cons.IH[of "i + 1"] show ?thesis
    proof (elim disjE exE conjE)
      fix k
      assume "k < length ss" "find_patch_loop sha1 ss (i + 1) = i + 1 + int k"
        "ParseSha1 (ss ! k) = Some sha1" "\<forall>j<k. ParseSha1 (ss ! j) \<noteq> Some sha1"
      then show ?thesis using f False
        by (intro disjI2 exI[of _ "Suc k"]) (auto simp: All_less_Suc2)
    qed (use f False in auto)
  qed
qed simp

lemma FindMatchingPatch_cases:
  obtains "FindMatchingPatch sha1 ss = -1" "\<forall>s \<in> set ss. ParseSha1 s \<noteq> Some sha1"
  | k where "k < length ss" "FindMatchingPatch sha1 ss = int k" "ParseSha1 (ss ! k) = Some sha1"
  using find_patch_loop_spec[of sha1 ss 0] by (auto simp: FindMatchingPatch_def)

end
