(* ===== verification/Apply_Safety.thy ===== *)
theory Apply_Safety
  imports Apply_Patch
begin

text \<open>
  What runs of \<^verbatim>\<open>applypatch\<close> do to the file system, for every behaviour of the kernel. The sinks
  that the patch appliers write to are an interface with two contracts: \<^verbatim>\<open>sink_keeps\<close> (an
  invariant of the token survives a patch) and \<^verbatim>\<open>sink_in_step\<close> (the token holds what the hash has
  seen), both interpreted on \<^verbatim>\<open>FileSink\<close> and the first on \<^verbatim>\<open>MemorySink\<close>. On them rest the
  theorems on failing and on successful runs.
\<close>

section \<open>What loading gives\<close>

lemma put4_length: "put4 buf p w = Ok buf' \<Longrightarrow> length buf' = length buf"
  by (auto simp: put4_def split: if_splits)

lemma mask_entry_length: "mask_entry p d off orig st = Ok st' \<Longrightarrow> length (ms_buf st') = length (ms_buf st)"
  by (auto simp: mask_entry_def Let_def then_do_Ok_iff simp del: if_split dest!: put4_length split: option.splits)

definition flow_length :: "(int \<times> bytes, int \<times> mask_state) flow \<Rightarrow> nat" where
  "flow_length f = (case f of Return r \<Rightarrow> length (snd r) | Continue r \<Rightarrow> length (ms_buf (snd r)))"

lemma mask_loop_length: "mask_loop b r p d q st = Ok f \<Longrightarrow> flow_length f = length (ms_buf st)"
proof (induction b r p d q st rule: mask_loop.induct)
  case (1 b r p d q st)
  show ?case
  proof (cases "q < r")
    case False
    then show ?thesis using "1.prems" by (subst (asm) mask_loop.simps) (auto simp: flow_length_def)
  next
    case True
    obtain q' off orig cs where d: "decode_in_memory (ms_buf st) q (ms_cs st) = Ok (q', off, orig, cs)"
      using "1.prems" True by (subst (asm) mask_loop.simps) (auto split: sum.splits)
    show ?thesis
    proof (cases "off < -1 \<or> off \<ge> b")
      case o: True
      then show ?thesis using "1.prems" True d by (subst (asm) mask_loop.simps) (auto simp: flow_length_def)
    next
      case o: False
      obtain st' where e: "mask_entry p d off orig (st\<lparr> ms_cs := cs \<rparr>) = Ok st'"
        using "1.prems" True d o by (subst (asm) mask_loop.simps) (auto split: sum.splits)
      have "mask_loop b r p d q' st' = Ok f"
        using "1.prems" True d o e by (subst (asm) mask_loop.simps) auto
      from "1.IH"[OF True d refl refl refl o e this] show ?thesis using mask_entry_length[OF e] by simp
    qed
  qed
qed

lemma retouch_mask_data_length:
  assumes "retouch_mask_data buf n d = Ok (rc, off, buf')"
  shows "length buf' = length buf"
proof -
  have len: "length (snd (snd (case f of Return (rc, buf') \<Rightarrow> (rc, t, buf')
      | Continue (p, st) \<Rightarrow>
          if p > n - 20 then (RETOUCH_DATA_ERROR, t, ms_buf st)
          else if ms_mismatch st then (RETOUCH_DATA_MISMATCHED, t, ms_buf st)
          else (RETOUCH_DATA_MATCHED, (case ms_candidate st of None \<Rightarrow> t | Some c \<Rightarrow> c), ms_buf st)))) = flow_length f"
    for f and t :: u32
    by (cases f) (auto simp: flow_length_def split: prod.splits)
  show ?thesis
  proof (cases "n - 20 < 0 \<or> \<not> text_at buf (n - 4) pre_tag \<or> \<not> text_at buf (n - 20) retouch_tag")
    case True
    then show ?thesis using assms by (auto simp: retouch_mask_data_def Let_def split: if_splits)
  next
    case False
    obtain bs where g: "get4 buf (n - 12) = Ok bs"
      using assms False by (auto simp: retouch_mask_data_def Let_def then_do_Ok_iff split: if_splits)
    define b where "b = sint (word_of_int (n - 20) - bs)"
    show ?thesis
    proof (cases "b < 0")
      case True
      then show ?thesis using assms False g
        by (auto simp: retouch_mask_data_def Let_def b_def split: if_splits)
    next
      case nb: False
      obtain f where f: "mask_loop b (n - 20) (n - 8) d b
          \<lparr> ms_buf = buf, ms_cs = init_compression_state, ms_candidate = None, ms_mismatch = False \<rparr> = Ok f"
        using assms False g nb
        by (auto simp: retouch_mask_data_def Let_def b_def then_do_Ok_iff simp del: of_int_diff split: if_splits)
      have "retouch_mask_data buf n d = Ok (case f of Return (rc, buf') \<Rightarrow> (rc, case d of None \<Rightarrow> 0 | Some d \<Rightarrow> d, buf')
        | Continue (p, st) \<Rightarrow>
          if p > n - 20 then (RETOUCH_DATA_ERROR, case d of None \<Rightarrow> 0 | Some d \<Rightarrow> d, ms_buf st)
          else if ms_mismatch st then (RETOUCH_DATA_MISMATCHED, case d of None \<Rightarrow> 0 | Some d \<Rightarrow> d, ms_buf st)
          else (RETOUCH_DATA_MATCHED, (case ms_candidate st of None \<Rightarrow> case d of None \<Rightarrow> 0 | Some d \<Rightarrow> d | Some c \<Rightarrow> c), ms_buf st))"
        using assms False g nb f by (cases f) (auto simp: retouch_mask_data_def Let_def b_def simp del: of_int_diff split: if_splits)
      with assms len[of "case d of None \<Rightarrow> 0 | Some d \<Rightarrow> d" f] mask_loop_length[OF f] show ?thesis by simp
    qed
  qed
qed

lemma partition_loop_files:
  "partition_loop sys sh ps rest data ctx w = Ok (m, data', ctx', w') \<Longrightarrow> w_files w' = w_files w"
proof (induction ps arbitrary: rest data ctx w)
  case (Cons p ps)
  obtain sz sha where p: "p = (sz, sha)" by force
  define k where "k = unat (sz - word_of_nat (length data))"
  obtain xs w1 where x: "(if k > 0 then sys_fread sys k rest w else ([], w)) = (xs, w1)" by force
  have f: "w_files w1 = w_files w" using x sys_fread_world by (cases "k > 0") auto
  show ?case using Cons.prems Cons.IH f x
    by (auto simp: p Let_def[of "SHA_update _ _ _"] Let_def[of "_ @ _"] simp flip: k_def split: if_splits option.splits)
qed simp

lemma LoadPartitionContents_files:
  "LoadPartitionContents sys sh name file w = Ok (rc, file', w') \<Longrightarrow> w_files w' = w_files w"
  by (auto simp: LoadPartitionContents_def Let_def sys_ignored_def elim!: then_do_Ok_E
      dest!: partition_loop_files sys_fopen_read_world
      split: prod.split_asm option.split_asm if_split_asm flow.split_asm)

lemma partition_pairs_error: "partition_pairs n s = Ok (Return rc) \<Longrightarrow> rc = -1"
  by (induction n arbitrary: s)
     (auto simp: Let_def elim!: then_do_Ok_E split: option.splits prod.splits if_splits flow.split_asm)

lemma LoadPartitionContents_result:
  "\<lbrakk>LoadPartitionContents sys sh name file w = Ok (rc, file', w'); fc_data file = Null\<rbrakk> \<Longrightarrow>
     (rc = 0 \<and> (\<exists>d. fc_data file' = Live d \<and> fc_size file' = int (length d))) \<or> (rc = -1 \<and> fc_data file' = Null)"
  by (auto simp: LoadPartitionContents_def Let_def elim!: then_do_Ok_E
      dest!: partition_pairs_error
      split: prod.split_asm option.split_asm if_split_asm flow.split_asm)

text \<open>What holds of a loaded file: the memory has the announced size, and the hash is the hash of
  the bytes (of a partition, what the incremental hash says).\<close>

definition loaded :: "('c, 'm) sha_scheme \<Rightarrow> string \<Rightarrow> FileContents \<Rightarrow> bool" where
  "loaded sh name file \<longleftrightarrow>
     (\<exists>d. fc_data file = Live d \<and> fc_size file = int (length d) \<and> (is_emmc name \<or> fc_sha1 file = SHA_hash sh d))"

lemma LoadFileContents_files:
  assumes "LoadFileContents sys sh name file flag w = Ok (rc, file', w')"
  shows "w_files w' = w_files w"
proof (cases "is_emmc name")
  case True
  then show ?thesis using assms LoadPartitionContents_files by (simp add: LoadFileContents_def Let_def)
next
  case False
  then show ?thesis using assms
    by (auto simp: LoadFileContents_def Let_def sys_ignored_def elim!: then_do_Ok_E
        dest!: sys_fopen_read_world sys_stat_world sys_fread_world
        split: prod.split_asm option.split_asm if_split_asm)
qed

lemma LoadFileContents_result:
  assumes "LoadFileContents sys sh name file flag w = Ok (rc, file', w')"
  shows "rc = 0 \<and> loaded sh name file' \<or> rc = -1 \<and> fc_data file' = Null"
proof (cases "is_emmc name")
  case True
  then show ?thesis
    using assms LoadPartitionContents_result[of sys sh name "file\<lparr> fc_data := Null \<rparr>" w rc file' w']
    by (auto simp: LoadFileContents_def Let_def loaded_def)
next
  case False
  then show ?thesis using assms
    by (auto simp: LoadFileContents_def Let_def loaded_def elim!: then_do_Ok_E
        dest!: retouch_mask_data_length split: prod.split_asm option.split_asm if_split_asm)
qed

section \<open>What the sinks and saves touch\<close>

lemma sink_loop_other: "\<lbrakk>sink_loop sys name xs n w = (n', w'); p \<noteq> name\<rbrakk> \<Longrightarrow> same_file p w w'"
proof (induction sys name xs n w rule: sink_loop.induct)
  case (1 sys name xs n w)
  show ?case
  proof (cases "xs = []")
    case False
    obtain k w1 where s: "sys_write sys name xs w = (k, w1)" by force
    have "same_file p w w1" using sys_write_other[OF s] 1 by simp
    moreover have "same_file p w1 w'"
    proof (cases "k \<le> 0")
      case True
      then show ?thesis using 1 False s by (subst (asm) (2) sink_loop.simps) simp
    next
      case k: False
      then have "sink_loop sys name (drop (nat k) xs) (n + k) w1 = (n', w')"
        using "1.prems"(1) False s by (subst (asm) sink_loop.simps) simp
      from "1.IH"[OF False s[symmetric] k this "1.prems"(2)] show ?thesis .
    qed
    ultimately show ?thesis by (rule same_file_trans)
  next
    case True
    then show ?thesis using 1 by (subst (asm) (2) sink_loop.simps) simp
  qed
qed

text \<open>A complete write puts exactly the bytes behind what the file held.\<close>

lemma sink_loop_full:
  assumes "sink_loop sys name xs n w = (n', w')" "n' = n + int (length xs)" "w_files w name = Some i"
  shows "w_files w' name = Some (i\<lparr> i_data := i_data i @ xs \<rparr>)"
  using assms
proof (induction sys name xs n w arbitrary: i rule: sink_loop.induct)
  case (1 sys name xs n w)
  show ?case
  proof (cases "xs = []")
    case False
    obtain k w1 where s: "sys_write sys name xs w = (k, w1)" by force
    have k: "k > 0"
    proof (rule ccontr)
      assume "\<not> k > 0"
      then have "n' = n" using "1.prems"(1) False s by (subst (asm) sink_loop.simps) simp
      then show False using "1.prems"(2) False by simp
    qed
    then have kn: "nat k \<le> length xs" and w1: "w_files w1 name = Some (i\<lparr> i_data := i_data i @ take (nat k) xs \<rparr>)"
      using s "1.prems"(3) by (auto simp: sys_write_def append_data_def Let_def split: if_splits)
    have l: "sink_loop sys name (drop (nat k) xs) (n + k) w1 = (n', w')"
      using "1.prems"(1) False s k by (subst (asm) sink_loop.simps) simp
    have "n' = n + k + int (length (drop (nat k) xs))" using "1.prems"(2) kn k by simp
    from "1.IH"[OF False s[symmetric] _ l this w1] k show ?thesis by simp
  next
    case True
    then show ?thesis using 1 by (subst (asm) (2) sink_loop.simps) simp
  qed
qed

lemma FileSink_other:
  "\<lbrakk>FileSink sys name data len w = Ok (n, w'); p \<noteq> name\<rbrakk> \<Longrightarrow> same_file p w w'"
  by (auto simp: FileSink_def split: if_splits buf.splits dest: sink_loop_other)
     (auto simp: same_file_def)

lemma SaveFileContents_other:
  assumes "SaveFileContents sys name file w = Ok (rc, w')" "p \<noteq> name"
  shows "same_file p w w'"
proof -
  obtain ok w1 where c: "sys_create sys name w = (ok, w1)" by force
  note s1 = sys_create_other[OF c assms(2)]
  show ?thesis
  proof (cases ok)
    case False
    then show ?thesis using assms c s1 by (simp add: SaveFileContents_def)
  next
    case True
    obtain n w2 where f: "FileSink sys name (fc_data file) (fc_size file) w1 = Ok (n, w2)"
      using assms(1) c True by (auto simp: SaveFileContents_def elim!: then_do_Ok_E)
    have s2: "same_file p w w2" using same_file_trans[OF s1 FileSink_other[OF f assms(2)]] .
    obtain b3 w3 where m: "sys_chmod sys name (fc_mode file) (sys_ignored (sys_ignored w2)) = (b3, w3)" by force
    obtain b4 w4 where o: "sys_chown sys name (fc_uid file) (fc_gid file) w3 = (b4, w4)" by force
    have i: "same_file p w (sys_ignored w2)" "same_file p w (sys_ignored (sys_ignored w2))"
      using s2 by (simp_all add: same_file_def sys_ignored_def)
    have s3: "same_file p w w3" using same_file_trans[OF i(2) sys_chmod_other[OF m assms(2)]] .
    have s4: "same_file p w w4" using same_file_trans[OF s3 sys_chown_other[OF o assms(2)]] .
    show ?thesis using assms(1) c True f m o i(1) s3 s4
      by (auto simp: SaveFileContents_def split: if_splits)
  qed
qed

text \<open>A path with nothing but a regular file on it, if anything.\<close>

definition plain_path :: "world \<Rightarrow> string \<Rightarrow> bool" where
  "plain_path w p \<longleftrightarrow> (\<forall>i. w_files w p = Some i \<longrightarrow> \<not> i_dev i)"

text \<open>A successful save holds exactly the data.\<close>

lemma SaveFileContents_saves:
  assumes "SaveFileContents sys name file w = Ok (rc, w')" "rc = 0" "plain_path w name"
    "fc_data file = Live d" "fc_size file = int (length d)"
  obtains i where "w_files w' name = Some i" "i_data i = d"
proof -
  obtain ok w1 where c: "sys_create sys name w = (ok, w1)" by force
  have ok: ok using assms(1,2) c by (auto simp: SaveFileContents_def split: if_splits)
  have "\<exists>i. w_files w1 name = Some i \<and> i_data i = []"
    using c ok assms(3) by (auto simp: sys_create_def plain_path_def split: if_splits option.splits)
  then obtain i where i: "w_files w1 name = Some i" "i_data i = []" by blast
  obtain n w2 where f: "FileSink sys name (Live d) (fc_size file) w1 = Ok (n, w2)"
    using assms(1,4) c ok by (auto simp: SaveFileContents_def elim!: then_do_Ok_E)
  have n: "n = int (length d)"
    using assms c ok f by (auto simp: SaveFileContents_def split: if_splits)
  have "\<exists>j. w_files w2 name = Some j \<and> i_data j = d"
  proof (cases "d = []")
    case True
    then show ?thesis using f i assms(5) by (auto simp: FileSink_def)
  next
    case False
    then have "sink_loop sys name d 0 w1 = (n, w2)" using f assms(5) by (simp add: FileSink_def)
    from sink_loop_full[OF this _ i(1)] n i(2) show ?thesis by simp
  qed
  then obtain j where j: "w_files w2 name = Some j" "i_data j = d" by blast
  show ?thesis
    by (rule that[of "the (w_files w' name)"])
       (use assms(1,2,4,5) c ok f n j in \<open>auto simp: SaveFileContents_def sys_chmod_def sys_chown_def
          sys_ignored_def set_meta_def split: if_splits prod.splits\<close>)
qed

text \<open>Paths that making room on the cache cannot delete.\<close>

definition off_cache :: "string \<Rightarrow> bool" where
  "off_cache p \<longleftrightarrow> take 7 p \<noteq> ''/cache/''"

lemma off_cache_not_expendable: "off_cache p \<Longrightarrow> \<not> expendable w (Some p)"
  by (auto simp: off_cache_def expendable_def)

lemma off_cache_saved: "off_cache p \<Longrightarrow> p \<noteq> CACHE_TEMP_SOURCE"
  by (auto simp: off_cache_def CACHE_TEMP_SOURCE_def)

lemma cache_source_not_expendable: "\<not> expendable w (Some CACHE_TEMP_SOURCE)"
  by (simp add: expendable_def)

section \<open>Sinks as an interface\<close>

text \<open>A property of the token that every call of the sink keeps: patching keeps it, whatever the
  patch and the libraries do.\<close>

locale sink_keeps =
  fixes sink :: "'t sink" and P :: "'t \<Rightarrow> bool"
  assumes sink_step: "P t \<Longrightarrow> P (snd (sink xs t))"
begin

lemma sink_call: "\<lbrakk>sink xs t = (n, t'); P t\<rbrakk> \<Longrightarrow> P t'"
  using sink_step[of t xs] by simp

lemma env_sink_call: "\<lbrakk>env_sink env xs t = (n, t'); P t; sink = env_sink env\<rbrakk> \<Longrightarrow> P t'"
  using sink_call[of xs t n t'] by simp

lemma bsdiff_keeps:
  assumes "ApplyBSDiffPatch lib malloc upd old n patch off sink t c = Some (Ok (rc, t', c'))" "P t"
  shows "P t'"
  using assms by (auto simp: ApplyBSDiffPatch_def elim!: run_then_Ok_E dest!: sink_call split: prod.split_asm if_split_asm)

lemma normal_keeps:
  assumes "normal_chunk env old patch st = Some (Ok f)" "env_sink env = sink" "P (im_token st)"
  shows "case f of Return r \<Rightarrow> P (fst (snd r)) | Continue st' \<Rightarrow> P (im_token st')"
  using assms(1,3) by (auto simp: assms(2) normal_chunk_def img_fail_def Let_def elim!: run_then_Ok_E dest: bsdiff_keeps split: if_split_asm prod.split_asm)

lemma raw_keeps:
  assumes "raw_chunk env patch st = Some (Ok f)" "env_sink env = sink" "P (im_token st)"
  shows "case f of Return r \<Rightarrow> P (fst (snd r)) | Continue st' \<Rightarrow> P (im_token st')"
  using assms(1,3) by (auto simp: assms(2) raw_chunk_def img_fail_def Let_def elim!: run_then_Ok_E dest!: sink_call split: if_split_asm prod.split_asm)

lemma deflate_loop_keeps:
  assumes "deflate_loop env temp sz strm t c = Some r" "env_sink env = sink" "P t"
  shows "case r of Inl e \<Rightarrow> True | Inr (Return r) \<Rightarrow> P (fst (snd r)) | Inr (Continue s) \<Rightarrow> P (fst s)"
  by (rule deflate_loop.raw_induct[where P = "\<lambda>env temp sz strm t c r. env_sink env = sink \<longrightarrow> P t \<longrightarrow>
       (case r of Inl e \<Rightarrow> True | Inr (Return r) \<Rightarrow> P (fst (snd r)) | Inr (Continue s) \<Rightarrow> P (fst s))",
       OF _ assms(1), rule_format, OF _ assms(2,3)])
     (auto simp: Let_def dest!: env_sink_call split: prod.split_asm option.split_asm if_split_asm sum.split_asm)

lemma deflate_keeps:
  assumes "deflate_chunk env old patch st = Some (Ok f)" "env_sink env = sink" "P (im_token st)"
  shows "case f of Return r \<Rightarrow> P (fst (snd r)) | Continue st' \<Rightarrow> P (im_token st')"
  using assms(1,3)
  by (auto simp: deflate_chunk_def deflate_target_def img_fail_def Let_def elim!: run_then_Ok_E dest!: deflate_loop_keeps[OF _ assms(2)]
      split: if_split_asm prod.split_asm flow.split_asm)

lemma chunk_keeps:
  assumes "chunk_step env old patch st = Some (Ok f)" "env_sink env = sink" "P (im_token st)"
  shows "case f of Return r \<Rightarrow> P (fst (snd r)) | Continue st' \<Rightarrow> P (im_token st')"
proof -
  have "P (im_token (st\<lparr> im_pos := x \<rparr>))" for x using assms(3) by simp
  then show ?thesis using assms(1,3)
    by (auto simp: chunk_step_def img_fail_def Let_def elim!: run_then_Ok_E
        dest!: normal_keeps[OF _ assms(2)] raw_keeps[OF _ assms(2)] deflate_keeps[OF _ assms(2)] split: if_split_asm)
qed

lemma img_keeps:
  assumes "ApplyImagePatch env old patch t c = Some (Ok (rc, t', c'))" "env_sink env = sink" "P t"
  shows "P t'"
proof -
  have "P t'" if "chunk_loop env old patch n st = Some (Ok (rc, t', c'))" "P (im_token st)" for n st
    using that
  proof (induction n arbitrary: st)
    case (Suc n)
    obtain f where f: "chunk_step env old patch st = Some (Ok f)"
      using Suc.prems(1) by (auto elim!: run_then_Ok_E)
    from chunk_keeps[OF f assms(2) Suc.prems(2)] Suc f show ?case by (cases f) auto
  qed simp
  then show ?thesis using assms by (auto simp: ApplyImagePatch_def Let_def elim!: run_then_Ok_E split: if_split_asm)
qed

end

interpretation fsink: sink_keeps "file_sink sys out" "\<lambda>tk. \<forall>p. p \<noteq> out \<longrightarrow> same_file p w (tk_world tk)" for sys out w
  by unfold_locales
     (auto simp: file_sink_def split: prod.splits intro: same_file_trans dest: sink_loop_other)

interpretation msink: sink_keeps memory_sink "\<lambda>tk. tk_world tk = w \<and> msi_pos (tk_msi tk) \<ge> 0" for w
  by unfold_locales (auto simp: memory_sink_def MemorySink_def split: prod.splits if_splits)

text \<open>A sink that takes everything, in step with a hash: \<^verbatim>\<open>R\<close> relates what the token holds to what
  the hash context has seen, and patching keeps it so.\<close>

locale sink_in_step =
  fixes sink :: "'t sink" and upd :: "'c \<Rightarrow> bytes \<Rightarrow> 'c" and R :: "'t \<Rightarrow> 'c option \<Rightarrow> bool"
  assumes accepts: "R t x \<Longrightarrow> fst (sink xs t) = int (length xs)"
    and absorbs: "R t x \<Longrightarrow> R (snd (sink xs t)) (map_option (\<lambda>c. upd c xs) x)"
begin

lemma sink_full:
  assumes "sink xs t = (n, t')" "R t x"
  shows "n = int (length xs)" "R t' (map_option (\<lambda>c. upd c xs) x)"
  using accepts[OF assms(2), of xs] absorbs[OF assms(2), of xs] assms(1) by simp_all

lemma bsdiff_in_step:
  assumes "ApplyBSDiffPatch lib malloc upd old n patch off sink t x = Some (Ok (rc, t', x'))" "R t x"
  shows "R t' x'"
proof -
  obtain rc0 new where m: "ApplyBSDiffPatchMem lib malloc old n patch off = Some (Ok (rc0, new))"
    using assms(1) by (auto simp: ApplyBSDiffPatch_def elim!: run_then_Ok_E)
  obtain k t1 where s: "sink new t = (k, t1)" by force
  show ?thesis using assms m s sink_full[OF s assms(2)] by (auto simp: ApplyBSDiffPatch_def split: if_split_asm)
qed

lemma normal_in_step:
  assumes "normal_chunk env old patch st = Some (Ok f)" "env_sink env = sink" "env_sha env = upd"
    "R (im_token st) (im_ctx st)"
  shows "case f of Return r \<Rightarrow> fst r \<noteq> 0 | Continue st' \<Rightarrow> R (im_token st') (im_ctx st')"
  using assms(1,4)
  by (auto simp: assms(2,3) normal_chunk_def img_fail_def Let_def elim!: run_then_Ok_E dest!: bsdiff_in_step
      split: if_split_asm prod.split_asm)

lemma sha_update_in_step:
  "\<lbrakk>sha_update env x xs = Ok x'; env_sha env = upd\<rbrakk> \<Longrightarrow> x' = map_option (\<lambda>c. upd c xs) x"
  by (auto simp: sha_update_def split: option.splits)

lemma env_in_step:
  "\<lbrakk>env_sink env xs t = (n, t'); sha_update env x xs = Ok x'; R t x; sink = env_sink env; upd = env_sha env\<rbrakk> \<Longrightarrow> R t' x'"
  using sink_full[of xs t n t' x] sha_update_in_step[of env x xs x'] by simp

lemma raw_in_step:
  assumes "raw_chunk env patch st = Some (Ok f)" "env_sink env = sink" "env_sha env = upd"
    "R (im_token st) (im_ctx st)"
  shows "case f of Return r \<Rightarrow> fst r \<noteq> 0 | Continue st' \<Rightarrow> R (im_token st') (im_ctx st')"
  using assms
  by (auto simp: raw_chunk_def img_fail_def Let_def elim!: run_then_Ok_E
      dest!: env_in_step split: if_split_asm prod.split_asm)

lemma deflate_loop_in_step:
  assumes "deflate_loop env temp sz strm t x = Some r" "env_sink env = sink" "env_sha env = upd" "R t x"
  shows "case r of Inl e \<Rightarrow> True | Inr (Return r) \<Rightarrow> fst r \<noteq> 0 | Inr (Continue s) \<Rightarrow> R (fst s) (snd s)"
  by (rule deflate_loop.raw_induct[where P = "\<lambda>env temp sz strm t x r. env_sink env = sink \<longrightarrow> env_sha env = upd \<longrightarrow> R t x \<longrightarrow>
       (case r of Inl e \<Rightarrow> True | Inr (Return r) \<Rightarrow> fst r \<noteq> 0 | Inr (Continue s) \<Rightarrow> R (fst s) (snd s))",
       OF _ assms(1), rule_format, OF _ assms(2,3,4)])
     (auto simp: Let_def dest!: env_in_step
        split: prod.split_asm option.split_asm if_split_asm sum.split_asm)

lemma inflate_source_code: "inflate_source env old r = Ok (Return rc) \<Longrightarrow> rc \<noteq> 0"
  by (auto simp: inflate_source_def Let_def elim!: then_do_Ok_E split: option.split_asm prod.split_asm if_split_asm)

lemma deflate_in_step:
  assumes "deflate_chunk env old patch st = Some (Ok f)" "env_sink env = sink" "env_sha env = upd"
    "R (im_token st) (im_ctx st)"
  shows "case f of Return r \<Rightarrow> fst r \<noteq> 0 | Continue st' \<Rightarrow> R (im_token st') (im_ctx st')"
  using assms(1,4)
  by (auto simp: deflate_chunk_def deflate_target_def img_fail_def Let_def elim!: run_then_Ok_E
      dest!: deflate_loop_in_step[OF _ assms(2,3)] inflate_source_code
      split: if_split_asm prod.split_asm flow.split_asm)

lemma chunk_in_step:
  assumes "chunk_step env old patch st = Some (Ok f)" "env_sink env = sink" "env_sha env = upd"
    "R (im_token st) (im_ctx st)"
  shows "case f of Return r \<Rightarrow> fst r \<noteq> 0 | Continue st' \<Rightarrow> R (im_token st') (im_ctx st')"
  using assms(1,4)
  by (auto simp: chunk_step_def img_fail_def Let_def elim!: run_then_Ok_E
      dest!: normal_in_step[OF _ assms(2,3)] raw_in_step[OF _ assms(2,3)] deflate_in_step[OF _ assms(2,3)]
      split: if_split_asm)

lemma img_in_step:
  assumes "ApplyImagePatch env old patch t x = Some (Ok (0, t', x'))" "env_sink env = sink" "env_sha env = upd" "R t x"
  shows "R t' x'"
proof -
  have "R t' x'" if "chunk_loop env old patch n st = Some (Ok (0, t', x'))" "R (im_token st) (im_ctx st)" for n st
    using that
  proof (induction n arbitrary: st)
    case (Suc n)
    obtain f where f: "chunk_step env old patch st = Some (Ok f)"
      using Suc.prems(1) by (auto elim!: run_then_Ok_E)
    from chunk_in_step[OF f assms(2,3) Suc.prems(2)] Suc f show ?case by (cases f) auto
  qed simp
  then show ?thesis using assms by (auto simp: ApplyImagePatch_def Let_def elim!: run_then_Ok_E split: if_split_asm)
qed

end

text \<open>A system whose calls never fail and whose writes always make progress.\<close>

definition no_failures :: "sys \<Rightarrow> bool" where
  "no_failures sys \<longleftrightarrow> (\<forall>t. \<not> s_fail sys t \<and> 0 < s_count sys t)"

lemma sink_loop_accepts:
  "no_failures sys \<Longrightarrow> fst (sink_loop sys name xs n w) = n + int (length xs)"
proof (induction sys name xs n w rule: sink_loop.induct)
  case (1 sys name xs n w)
  obtain k w1 where s: "sys_write sys name xs w = (k, w1)" by force
  show ?case
  proof (cases "xs = []")
    case False
    then have k: "0 < k" "nat k \<le> length xs" using s "1.prems"
      by (auto simp: sys_write_def no_failures_def call_fails_def Let_def split: if_splits)
    have "fst (sink_loop sys name xs n w) = fst (sink_loop sys name (drop (nat k) xs) (n + k) w1)"
      using False s k by (subst sink_loop.simps) simp
    then show ?thesis using "1.IH"[OF False s[symmetric] _ "1.prems"] k by simp
  qed (subst sink_loop.simps, simp)
qed

text \<open>The output file holds what the hash has seen.\<close>

definition file_in_step :: "sys \<Rightarrow> string \<Rightarrow> ('c \<Rightarrow> bytes \<Rightarrow> 'c) \<Rightarrow> ('c \<Rightarrow> bytes) \<Rightarrow> sink_token \<Rightarrow> 'c option \<Rightarrow> bool" where
  "file_in_step sys outname upd seen tk x \<longleftrightarrow>
     no_failures sys \<and> (\<forall>c xs. seen (upd c xs) = seen c @ xs) \<and>
     (\<exists>i c. w_files (tk_world tk) outname = Some i \<and> x = Some c \<and> i_data i = seen c)"

interpretation fstep: sink_in_step "file_sink sys outname" upd "file_in_step sys outname upd seen" for sys outname upd seen
proof
  fix t x xs
  assume r: "file_in_step sys outname upd seen t x"
  then show f: "fst (file_sink sys outname xs t) = int (length xs)"
    using sink_loop_accepts[of sys outname xs 0 "tk_world t"] by (auto simp: file_in_step_def file_sink_def split: prod.splits)
  obtain n w where s: "sink_loop sys outname xs 0 (tk_world t) = (n, w)" by force
  with f have n: "n = 0 + int (length xs)" by (simp add: file_sink_def)
  from r obtain i where "w_files (tk_world t) outname = Some i" by (auto simp: file_in_step_def)
  from sink_loop_full[OF s n this] r this
  show "file_in_step sys outname upd seen (snd (file_sink sys outname xs t)) (map_option (\<lambda>c. upd c xs) x)"
    using s by (auto simp: file_in_step_def file_sink_def)
qed

section \<open>What a run of applypatch touches\<close>

declare patch_rounds.simps [simp del]

lemma save_to_cache_other:
  assumes "save_to_cache sys file w = Ok (rc, w')" "off_cache p"
  shows "same_file p w w'" "rc = 0 \<or> rc = 1"
proof -
  obtain r w1 where m: "MakeFreeSpaceOnCache sys (word_of_int (fc_size file)) w = (r, w1)" by force
  have s1: "same_file p w w1" using MakeFreeSpaceOnCache_other[OF m off_cache_not_expendable[OF assms(2)]] .
  show "same_file p w w'"
    using assms(1) m s1 same_file_trans[OF s1 SaveFileContents_other[OF _ off_cache_saved[OF assms(2)]]]
    by (auto simp: save_to_cache_def elim!: then_do_Ok_E split: if_split_asm)
  show "rc = 0 \<or> rc = 1"
    using assms(1) m by (auto simp: save_to_cache_def elim!: then_do_Ok_E split: if_split_asm)
qed

lemma save_to_cache_saves:
  assumes "save_to_cache sys file w = Ok (0, w')" "plain_path w CACHE_TEMP_SOURCE"
    "fc_data file = Live d" "fc_size file = int (length d)"
  shows "\<exists>i. w_files w' CACHE_TEMP_SOURCE = Some i \<and> i_data i = d"
proof -
  obtain r w1 where m: "MakeFreeSpaceOnCache sys (word_of_int (fc_size file)) w = (r, w1)" by force
  have s1: "same_file CACHE_TEMP_SOURCE w w1"
    using MakeFreeSpaceOnCache_other[OF m cache_source_not_expendable] .
  have p: "plain_path w1 CACHE_TEMP_SOURCE" using s1 assms(2) by (simp add: plain_path_def same_file_def)
  obtain rc where s: "SaveFileContents sys CACHE_TEMP_SOURCE file w1 = Ok (rc, w')" "\<not> rc < 0"
    using assms(1) m by (auto simp: save_to_cache_def elim!: then_do_Ok_E split: if_split_asm)
  have "rc = 0" using s by (auto simp: SaveFileContents_def elim!: then_do_Ok_E split: prod.split_asm if_split_asm)
  from SaveFileContents_saves[OF s(1) this p assms(3,4)] show ?thesis by metis
qed

text \<open>The copy of the source on the cache, and what holds of a path after a part of a run: nothing
  happened to it, or it was the source and the copy has its contents.\<close>

definition source_saved :: "ap_source \<Rightarrow> world \<Rightarrow> bool" where
  "source_saved s w \<longleftrightarrow> (\<exists>i. w_files w CACHE_TEMP_SOURCE = Some i \<and> fc_data (src_file s) = Live (i_data i))"

definition kept_or_saved :: "ap_args \<Rightarrow> ap_source \<Rightarrow> string \<Rightarrow> world \<Rightarrow> world \<Rightarrow> bool" where
  "kept_or_saved a s p w0 w \<longleftrightarrow>
     same_file p w0 w \<or> (p = ap_source_filename a \<and> src_patch s \<noteq> None \<and> \<not> is_emmc p \<and> source_saved s w)"

definition source_ok :: "ap_source \<Rightarrow> bool" where
  "source_ok s \<longleftrightarrow> (src_patch s \<noteq> None \<longrightarrow>
     (\<exists>d. fc_data (src_file s) = Live d \<and> fc_size (src_file s) = int (length d)))"

lemma kept_or_saved_cong:
  assumes "kept_or_saved a s p w0 w" "same_file p w w'" "same_file CACHE_TEMP_SOURCE w w'"
  shows "kept_or_saved a s p w0 w'"
  using assms by (auto simp: kept_or_saved_def source_saved_def same_file_def)

lemma prepare_space_safe:
  assumes p: "prepare_space sys a target fs s st = Ok f" and t: "\<not> is_emmc target" and off: "off_cache p"
    and ok: "source_ok s" "plain_path (st_world st) CACHE_TEMP_SOURCE"
  shows "case f of
      Return (rc, w) \<Rightarrow> rc = 1 \<and> same_file p (st_world st) w
    | Continue st' \<Rightarrow> kept_or_saved a s p (st_world st) (st_world st') \<and>
        (st_retry st' \<noteq> 0 \<longrightarrow> w_files (st_world st') = w_files (st_world st))"
proof -
  obtain enough w where e: "(if st_retry st > 0
               then (case FreeSpaceForFile sys fs (st_world st) of (free_space, w) \<Rightarrow>
                       (free_space > 262144 \<and> free_space > ap_target_size a * 3 div 2, w))
               else (False, st_world st)) = (enough, w)" by force
  have w: "w_files w = w_files (st_world st)"
    using e by (auto simp: FreeSpaceForFile_def split: if_split_asm prod.split_asm)
  have sw: "same_file q (st_world st) w" for q using w by (simp add: same_file_def)
  show ?thesis
  proof (cases "\<not> enough \<and> src_patch s \<noteq> None \<and> \<not> is_emmc (ap_source_filename a)")
    case True
    obtain d where d: "fc_data (src_file s) = Live d" "fc_size (src_file s) = int (length d)"
      using ok True by (auto simp: source_ok_def)
    obtain rc w1 where sv: "save_to_cache sys (src_file s) w = Ok (rc, w1)"
      using p t e True by (auto simp: prepare_space_def Let_def elim!: then_do_Ok_E)
    note o = save_to_cache_other[OF sv off]
    show ?thesis
    proof (cases "rc = 0")
      case False
      then show ?thesis using p t e True sv same_file_trans[OF sw o(1)] by (auto simp: prepare_space_def Let_def)
    next
      case rc: True
      define w2 where "w2 = snd (FreeSpaceForFile sys fs (sys_unlink sys (ap_source_filename a) w1))"
      have f: "f = Continue (st\<lparr> st_world := w2, st_retry := 0, st_made_copy := True \<rparr>)"
        using p t e True sv rc by (cases st) (auto simp: prepare_space_def Let_def w2_def)
      have w2: "w_files w2 = w_files (sys_unlink sys (ap_source_filename a) w1)"
        by (simp add: w2_def FreeSpaceForFile_def)
      obtain i where i: "w_files w1 CACHE_TEMP_SOURCE = Some i" "i_data i = d"
        using save_to_cache_saves[OF sv[unfolded rc] _ d] ok(2) w by (auto simp: plain_path_def)
      have "kept_or_saved a s p (st_world st) w2"
      proof (cases "p = ap_source_filename a")
        case False
        have "same_file p w1 w2" using sys_unlink_other[OF False] w2 by (simp add: same_file_def)
        then show ?thesis using same_file_trans[OF same_file_trans[OF sw o(1)]] by (simp add: kept_or_saved_def)
      next
        case p: True
        have "w_files w2 CACHE_TEMP_SOURCE = Some i"
          using i(1) sys_unlink_other[of CACHE_TEMP_SOURCE "ap_source_filename a" w1 sys] off_cache_saved[OF off] p w2
          by (simp add: same_file_def)
        then show ?thesis using p True i(2) d by (auto simp: kept_or_saved_def source_saved_def)
      qed
      then show ?thesis using f by simp
    qed
  next
    case False
    then show ?thesis using p t e w sw
      by (auto simp: prepare_space_def Let_def kept_or_saved_def split: if_split_asm)
  qed
qed

text \<open>After the space is prepared, a round only writes the output file.\<close>

lemma apply_by_header_other:
  assumes "apply_by_header lb source patch (file_sink sys outname) tk = Some (Ok f)"
  shows "case f of Return (rc, w) \<Rightarrow> rc = 1 \<and> w = tk_world tk
    | Continue (result, tk', ctx) \<Rightarrow> \<forall>q. q \<noteq> outname \<longrightarrow> same_file q (tk_world tk) (tk_world tk')"
proof -
  have e: "env_sink (patch_env_of lb (file_sink sys outname)) = file_sink sys outname" by (simp add: patch_env_of_def)
  show ?thesis using assms
    by (auto simp: apply_by_header_def Let_def elim!: run_then_Ok_E split: if_split_asm
        dest!: fsink.bsdiff_keeps[where w = "tk_world tk"] fsink.img_keeps[OF _ e, where w = "tk_world tk"])
qed

lemma patch_round_other:
  assumes r: "patch_round sys lb a target fs s st = Some (Ok f)" and t: "\<not> is_emmc target"
    and p: "prepare_space sys a target fs s st = Ok (Continue st1)"
  shows "case f of
      Return (rc, w) \<Rightarrow> rc = 1 \<and> (\<forall>q. q \<noteq> target @ ''.patch'' \<longrightarrow> same_file q (st_world st1) w)
    | Continue (result, st', msi, ctx) \<Rightarrow>
        (\<forall>q. q \<noteq> target @ ''.patch'' \<longrightarrow> same_file q (st_world st1) (st_world st')) \<and>
        (result \<noteq> 0 \<longrightarrow> st_retry st1 \<noteq> 0)"
proof -
  let ?out = "target @ ''.patch''"
  obtain ok w1 where c: "sys_create sys ?out (st_world st1) = (ok, w1)" by force
  have s1: "q \<noteq> ?out \<Longrightarrow> same_file q (st_world st1) w1" for q using sys_create_other[OF c] .
  consider "snd (source_to_use s) = None" | x where "snd (source_to_use s) = Some (VAL_STRING x)"
    | patch where "snd (source_to_use s) = Some (VAL_BLOB patch)" using Value.exhaust option.exhaust by metis
  then show ?thesis
  proof cases
    case 3
    show ?thesis
    proof (cases ok)
      case True
      define tk where "tk = \<lparr> tk_world = w1, tk_msi = \<lparr> msi_buffer = [], msi_size = 0, msi_pos = 0 \<rparr> \<rparr>"
      obtain d where d: "live_bytes (fst (source_to_use s)) = Ok d"
        using r p 3 c True t by (auto simp: patch_round_def open_output_def elim!: run_then_Ok_E)
      obtain g where g: "apply_by_header lb d (blob_bytes patch) (file_sink sys ?out) tk = Some (Ok g)"
        using r p 3 c True t d by (auto simp: patch_round_def open_output_def tk_def elim!: run_then_Ok_E)
      have s2: "q \<noteq> ?out \<Longrightarrow> same_file q (st_world st1) w" if "\<forall>q. q \<noteq> ?out \<longrightarrow> same_file q (tk_world tk) w" for q w
        using same_file_trans[OF s1, of q w] that by (simp add: tk_def)
      have sx: "same_file q u (sys_unlink sys ?out v)" "same_file q u (sys_ignored v)"
        if "same_file q u v" "q \<noteq> ?out" for q u v
        using that sys_unlink_other[OF that(2), of v sys] by (auto simp: same_file_def sys_ignored_def)
      show ?thesis
      proof (cases g)
        case (Return x)
        then show ?thesis using r p 3 c True t d g apply_by_header_other[OF g] s1
          by (auto simp: patch_round_def open_output_def tk_def)
      next
        case (Continue x)
        obtain result tk' ctx where x: "x = (result, tk', ctx)" by (cases x) auto
        have "q \<noteq> ?out \<Longrightarrow> same_file q (st_world st1) (tk_world tk')" for q
          using apply_by_header_other[OF g] Continue x s2 by simp
        then show ?thesis using r p 3 c True t d g Continue x
          by (auto simp: patch_round_def open_output_def Let_def intro!: sx simp flip: tk_def split: if_split_asm)
      qed
    qed (use r p 3 c t s1 in \<open>auto simp: patch_round_def open_output_def\<close>)
  qed (use r p in \<open>auto simp: patch_round_def\<close>)
qed

lemma out_not_cache: "target @ ''.patch'' \<noteq> CACHE_TEMP_SOURCE"
proof
  assume "target @ ''.patch'' = CACHE_TEMP_SOURCE"
  then have "rev (target @ ''.patch'') = rev CACHE_TEMP_SOURCE" by simp
  then show False by (simp add: CACHE_TEMP_SOURCE_def)
qed

lemma patch_rounds_safe:
  assumes "patch_rounds sys lb a target fs s n made w = Some (Ok f)" "\<not> is_emmc target" "off_cache p"
    "p \<noteq> target @ ''.patch''" "source_ok s" "plain_path w CACHE_TEMP_SOURCE"
  shows "case f of Return (rc, w') \<Rightarrow> rc \<noteq> 0 \<and> kept_or_saved a s p w w'
    | Continue (st, msi, ctx) \<Rightarrow> kept_or_saved a s p w (st_world st)"
  using assms(1,6)
proof (induction n arbitrary: made w)
  have step: "(case f of Return (rc, w') \<Rightarrow> rc \<noteq> 0 \<and> kept_or_saved a s p w w'
      | Continue (st, msi, ctx) \<Rightarrow> kept_or_saved a s p w (st_world st)) \<or>
      (\<exists>m (st :: ap_state). n = Suc m \<and> patch_rounds sys lb a target fs s m (st_made_copy st) (st_world st) = Some (Ok f) \<and>
         same_file p w (st_world st) \<and> same_file CACHE_TEMP_SOURCE w (st_world st))"
    if r: "patch_rounds sys lb a target fs s n made w = Some (Ok f)" and pl: "plain_path w CACHE_TEMP_SOURCE"
    for n made w
  proof -
    let ?st = "\<lparr> st_world = w, st_made_copy = made, st_retry = n \<rparr>"
    obtain g where g: "patch_round sys lb a target fs s ?st = Some (Ok g)"
      using r by (auto simp: patch_rounds.simps[of sys lb a target fs s n] elim!: run_then_Ok_E)
    obtain h where h: "prepare_space sys a target fs s ?st = Ok h"
      using g by (auto simp: patch_round_def elim!: run_then_Ok_E)
    note safe = prepare_space_safe[OF h assms(2,3,5)]
    show ?thesis
    proof (cases h)
      case (Return x)
      then show ?thesis using r g h safe pl
        by (cases x) (auto simp: patch_rounds.simps[of sys lb a target fs s n] patch_round_def kept_or_saved_def)
    next
      case (Continue st1)
      note o = patch_round_other[OF g assms(2) h[unfolded Continue]]
      have k: "kept_or_saved a s p w w'" if "\<forall>q. q \<noteq> target @ ''.patch'' \<longrightarrow> same_file q (st_world st1) w'" for w'
        using kept_or_saved_cong[of a s p w "st_world st1" w'] that assms(4) out_not_cache[of target, symmetric] safe Continue pl by simp
      show ?thesis
      proof (cases g)
        case gr: (Return x)
        then show ?thesis using r g o k
          by (cases x) (auto simp: patch_rounds.simps[of sys lb a target fs s n])
      next
        case gc: (Continue x)
        obtain result st' msi ctx where x: "x = (result, st', msi, ctx)" by (cases x) auto
        have o': "\<forall>q. q \<noteq> target @ ''.patch'' \<longrightarrow> same_file q (st_world st1) (st_world st')"
          "result \<noteq> 0 \<longrightarrow> st_retry st1 \<noteq> 0" using o gc x by auto
        have "same_file q w (st_world st')" if "result \<noteq> 0" "q \<noteq> target @ ''.patch''" for q
          using o' that safe Continue pl by (simp add: same_file_def)
        then have sf: "result \<noteq> 0 \<Longrightarrow> same_file p w (st_world st') \<and> same_file CACHE_TEMP_SOURCE w (st_world st')"
          using assms(4) out_not_cache[of target, symmetric] by simp
        show ?thesis
        proof (cases "result = 0 \<or> n = 0")
          case True
          then show ?thesis using r g gc x k[OF o'(1)]
            by (auto simp: patch_rounds.simps[of sys lb a target fs s _ made w] split: if_split_asm)
        next
          case False
          then obtain m where m: "n = Suc m" by (cases n) auto
          then have "patch_rounds sys lb a target fs s m (st_made_copy st') (st_world st') = Some (Ok f)"
            using r g gc x False by (simp add: patch_rounds.simps[of sys lb a target fs s _ made w])
          then show ?thesis using m sf False by blast
        qed
      qed
    qed
  qed
  {
    case 0
    from step[OF this] show ?case by simp
  next
    case (Suc n)
    from step[OF Suc.prems] show ?case
    proof (elim disjE exE conjE)
      fix m and st :: ap_state
      assume m: "Suc n = Suc m" and r: "patch_rounds sys lb a target fs s m (st_made_copy st) (st_world st) = Some (Ok f)"
        and s: "same_file p w (st_world st)" "same_file CACHE_TEMP_SOURCE w (st_world st)"
      have "plain_path (st_world st) CACHE_TEMP_SOURCE" using Suc.prems(2) s(2) by (simp add: plain_path_def same_file_def)
      from Suc.IH[of "st_made_copy st" "st_world st", OF _ this] r m s(1) show ?case
        by (auto simp: kept_or_saved_def same_file_def split: flow.splits prod.splits)
    qed
  }
qed

lemma install_output_code: "install_output sys source target msi w = Ok (rc, w') \<Longrightarrow> rc = 0 \<or> rc = 1"
  by (auto simp: install_output_def Let_def elim!: then_do_Ok_E split: if_split_asm prod.split_asm)

lemma finish_patch_fails:
  assumes "finish_patch sys lb sha1 source target st msi ctx = Ok (rc, w')" "rc \<noteq> 0" "\<not> is_emmc target"
    "q \<noteq> target @ ''.patch''"
  shows "same_file q (st_world st) w'"
proof -
  let ?out = "target @ ''.patch''"
  obtain b1 w1 where m: "sys_chmod sys ?out (fc_mode source) (st_world st) = (b1, w1)" by force
  obtain b2 w2 where o: "sys_chown sys ?out (fc_uid source) (fc_gid source) w1 = (b2, w2)" by force
  obtain b3 w3 where n: "sys_rename sys ?out target w2 = (b3, w3)" by force
  have s1: "same_file q (st_world st) w1" using sys_chmod_other[OF m assms(4)] .
  have s2: "same_file q (st_world st) w2" using same_file_trans[OF s1 sys_chown_other[OF o assms(4)]] .
  have s3: "\<not> b3 \<Longrightarrow> same_file q (st_world st) w3"
    using s2 n by (auto simp: sys_rename_def same_file_def split: if_split_asm)
  show ?thesis using assms(1-3) m o n s1 s2 s3
    by (auto simp: finish_patch_def install_output_def Let_def split: option.split_asm if_split_asm)
qed

lemma patch_for_found:
  "patch_for sha1 a = Ok (Some v) \<Longrightarrow> \<exists>s \<in> set (ap_patch_sha1_str a). ParseSha1 s = Some sha1"
  by (rule FindMatchingPatch_cases[of sha1 "ap_patch_sha1_str a"])
     (auto simp: patch_for_def Let_def split: if_split_asm)

lemma choose_source_cases:
  assumes "choose_source sys lb a file copy w = Ok f"
  shows "case f of Return (rc, w') \<Rightarrow> rc = 1 \<and> w_files w' = w_files w
    | Continue (s, w') \<Rightarrow> w_files w' = w_files w \<and>
        (src_patch s \<noteq> None \<longrightarrow> src_file s = file \<and> fc_data file \<noteq> Null \<and>
           (\<exists>k \<in> set (ap_patch_sha1_str a). ParseSha1 k = Some (fc_sha1 file)))"
  using assms
  by (auto simp: choose_source_def Let_def elim!: then_do_Ok_E dest!: patch_for_found LoadFileContents_files
      split: if_split_asm) blast

text \<open>What a run that returns went through.\<close>

lemma applypatch_cases:
  assumes "applypatch sys lb file0 copy0 a w = Some (Ok (rc, w'))"
  obtains (bad_sha) "ParseSha1 (ap_target_sha1_str a) = None" "rc = 1" "w' = w"
  | (already) sha1 fc where "ParseSha1 (ap_target_sha1_str a) = Some sha1"
      "LoadFileContents sys (lb_sha lb) (target_of a) file0 RETOUCH_DO_MASK w = Ok (0, fc, w')" "fc_sha1 fc = sha1" "rc = 0"
  | (no_source) sha1 rc0 fc fc1 w1 w2 where "ParseSha1 (ap_target_sha1_str a) = Some sha1"
      "LoadFileContents sys (lb_sha lb) (target_of a) file0 RETOUCH_DO_MASK w = Ok (rc0, fc, w1)"
      "load_source sys (lb_sha lb) a fc w1 = Ok (fc1, w2)"
      "choose_source sys lb a fc1 copy0 w2 = Ok (Return (rc, w'))"
  | (patched) sha1 rc0 fc fc1 w1 w2 w3 s fs f where "ParseSha1 (ap_target_sha1_str a) = Some sha1"
      "LoadFileContents sys (lb_sha lb) (target_of a) file0 RETOUCH_DO_MASK w = Ok (rc0, fc, w1)"
      "load_source sys (lb_sha lb) a fc w1 = Ok (fc1, w2)"
      "choose_source sys lb a fc1 copy0 w2 = Ok (Continue (s, w3))"
      "patch_rounds sys lb a (target_of a) fs s 1 False w3 = Some (Ok f)"
      "case f of Return r \<Rightarrow> r = (rc, w')
       | Continue (st, msi, ctx) \<Rightarrow> finish_patch sys lb sha1 (fst (source_to_use s)) (target_of a) st msi ctx = Ok (rc, w')"
proof -
  show ?thesis
  proof (cases "ParseSha1 (ap_target_sha1_str a)")
    case None
    then show ?thesis using assms bad_sha by (auto simp: applypatch_def)
  next
    case (Some sha1)
    obtain rc0 fc w1 where l: "LoadFileContents sys (lb_sha lb) (target_of a) file0 RETOUCH_DO_MASK w = Ok (rc0, fc, w1)"
      using assms Some by (auto simp: applypatch_def Let_def elim!: run_then_Ok_E)
    show ?thesis
    proof (cases "rc0 = 0 \<and> fc_sha1 fc = sha1")
      case True
      then show ?thesis using assms Some l already by (auto simp: applypatch_def Let_def)
    next
      case False
      obtain fc1 w2 where l2: "load_source sys (lb_sha lb) a fc w1 = Ok (fc1, w2)"
        using assms Some l False by (auto simp: applypatch_def Let_def elim!: run_then_Ok_E)
      obtain g where g: "choose_source sys lb a fc1 copy0 w2 = Ok g"
        using assms Some l False l2 by (auto simp: applypatch_def Let_def elim!: run_then_Ok_E)
      show ?thesis
      proof (cases g)
        case (Return r)
        then show ?thesis using assms Some l False l2 g no_source
          by (auto simp: applypatch_def Let_def )
      next
        case (Continue x)
        obtain s w3 where x: "x = (s, w3)" by force
        obtain fs f where "patch_rounds sys lb a (target_of a) fs s 1 False w3 = Some (Ok f)"
           "case f of Return r \<Rightarrow> r = (rc, w')
            | Continue (st, msi, ctx) \<Rightarrow> finish_patch sys lb sha1 (fst (source_to_use s)) (target_of a) st msi ctx = Ok (rc, w')"
          using assms Some l False l2 g Continue x
          by (auto simp: applypatch_def Let_def elim!: run_then_Ok_E split: flow.split_asm)
        with patched[OF Some l l2 g[unfolded Continue x]] show ?thesis by blast
      qed
    qed
  qed
qed

text \<open>The file that is looked at as the source is loaded or absent.\<close>

lemma load_source_result:
  assumes "load_source sys sh a fc w = Ok (fc', w')" "fc_data fc = Null \<or> loaded sh (target_of a) fc"
    "\<not> is_emmc (target_of a)"
  shows "w_files w' = w_files w"
    "fc_data fc' = Null \<or> (\<exists>d. fc_data fc' = Live d \<and> fc_size fc' = int (length d) \<and>
        (\<not> is_emmc (ap_source_filename a) \<longrightarrow> fc_sha1 fc' = SHA_hash sh d))"
proof -
  show "w_files w' = w_files w"
    using assms(1) by (auto simp: load_source_def elim!: then_do_Ok_E dest!: LoadFileContents_files split: if_split_asm)
  show "fc_data fc' = Null \<or> (\<exists>d. fc_data fc' = Live d \<and> fc_size fc' = int (length d) \<and>
        (\<not> is_emmc (ap_source_filename a) \<longrightarrow> fc_sha1 fc' = SHA_hash sh d))"
    using assms by (auto simp: load_source_def loaded_def elim!: then_do_Ok_E dest!: LoadFileContents_result split: if_split_asm)
qed

lemma failed_run_safe:
  assumes "applypatch sys lb file0 copy0 a w = Some (Ok (rc, w'))" "rc \<noteq> 0"
    "\<not> is_emmc (target_of a)" "off_cache p" "p \<noteq> target_of a @ ''.patch''"
    "plain_path w CACHE_TEMP_SOURCE"
  shows "w_files w' p = w_files w p \<or>
    (p = ap_source_filename a \<and>
     (\<exists>i k. w_files w' CACHE_TEMP_SOURCE = Some i \<and> k \<in> set (ap_patch_sha1_str a) \<and>
        ParseSha1 k = Some (SHA_hash (lb_sha lb) (i_data i))))"
  using assms(1)
proof (cases rule: applypatch_cases)
  case bad_sha
  then show ?thesis by simp
next
  case already
  then show ?thesis using assms(2) by simp
next
  case (no_source sha1 rc0 fc fc1 w1 w2)
  have "fc_data fc = Null \<or> loaded (lb_sha lb) (target_of a) fc" using LoadFileContents_result[OF no_source(2)] by auto
  from load_source_result(1)[OF no_source(3) this assms(3)] choose_source_cases[OF no_source(4)]
    LoadFileContents_files[OF no_source(2)]
  show ?thesis by simp
next
  case (patched sha1 rc0 fc fc1 w1 w2 w3 s fs f)
  have fc: "fc_data fc = Null \<or> loaded (lb_sha lb) (target_of a) fc" using LoadFileContents_result[OF patched(2)] by auto
  note ls = load_source_result[OF patched(3) fc assms(3)]
  note cs = choose_source_cases[OF patched(4)]
  have w3: "w_files w3 = w_files w" using ls(1) cs LoadFileContents_files[OF patched(2)] by simp
  have ok: "source_ok s" using cs ls(2) by (auto simp: source_ok_def)
  have "plain_path w3 CACHE_TEMP_SOURCE" using assms(6) w3 by (simp add: plain_path_def)
  note r = patch_rounds_safe[OF patched(5) assms(3,4,5) ok this]
  have "kept_or_saved a s p w3 w'"
  proof (cases f)
    case (Return x)
    then show ?thesis using r patched(6) by (cases x) auto
  next
    case (Continue x)
    obtain st msi ctx where x: "x = (st, msi, ctx)" by (cases x) auto
    have fin: "finish_patch sys lb sha1 (fst (source_to_use s)) (target_of a) st msi ctx = Ok (rc, w')"
      and k: "kept_or_saved a s p w3 (st_world st)" using patched(6) r Continue x by auto
    from finish_patch_fails[OF fin assms(2,3,5)]
      finish_patch_fails[OF fin assms(2,3) out_not_cache[symmetric]]
    show ?thesis by (rule kept_or_saved_cong[OF k])
  qed
  then show ?thesis using cs ls(2) w3 by (auto simp: kept_or_saved_def source_saved_def same_file_def)
qed


text \<open>A toy hash, and libraries that are never reached.\<close>

definition demo_sha :: "bytes sha" where
  "demo_sha = \<lparr> SHA_init = [], SHA_update = (@), SHA_final = (\<lambda>c. take 20 (c @ replicate 20 0)),
     SHA_hash = (\<lambda>d. take 20 (d @ replicate 20 0)) \<rparr>"

definition demo_libs :: "(bytes, bytes, bytes, bytes) libs" where
  "demo_libs = \<lparr> lb_bz = stored_lib,
     lb_zlib = \<lparr> z_inflateInit2 = \<lambda>bs. (1, bs), z_inflate = \<lambda>s n. (1, [], s), z_avail_in = length,
        z_deflateInit2 = \<lambda>l m wb ml st bs. (1, bs), z_deflate = \<lambda>d n. (Z_STREAM_END, [], d) \<rparr>,
     lb_malloc = \<lambda>n. Some (replicate n 0), lb_sha = demo_sha \<rparr>"

definition demo_fc :: FileContents where
  "demo_fc = \<lparr> fc_sha1 = [], fc_data = Null, fc_size = 0, fc_mode = 0, fc_uid = 0, fc_gid = 0 \<rparr>"

text \<open>No room beside the target; the patch is not a blob.\<close>

definition full_sys :: sys where
  "full_sys = \<lparr> s_fail = \<lambda>t. False, s_count = \<lambda>t. 8, s_statfs = \<lambda>t p. if p = ''/cache'' then (16, 2) else (0, 0),
     s_readdir = \<lambda>t p. [], s_readlink = \<lambda>t p. None \<rparr>"

definition demo_args :: ap_args where
  "demo_args = \<lparr> ap_source_filename = ''/system/a'', ap_target_filename = ''-'',
     ap_target_sha1_str = PrintSha1 (replicate 20 7), ap_target_size = 100,
     ap_patch_sha1_str = [PrintSha1 ([1, 2, 3] @ replicate 17 0)], ap_patch_data = [VAL_STRING (Some ''no patch'')] \<rparr>"

definition demo_files :: world where
  "demo_files = \<lparr> w_files = [''/system/a'' \<mapsto> new_file\<lparr> i_data := [1, 2, 3] \<rparr>], w_tick = 0 \<rparr>"


section \<open>What a successful run leaves\<close>

lemma sink_loop_le: "sink_loop sys name xs n w = (n', w') \<Longrightarrow> n' \<le> n + int (length xs)"
proof (induction sys name xs n w rule: sink_loop.induct)
  case (1 sys name xs n w)
  obtain k w1 where s: "sys_write sys name xs w = (k, w1)" by force
  show ?case
  proof (cases "xs = [] \<or> k \<le> 0")
    case True
    then show ?thesis using "1.prems" s by (subst (asm) sink_loop.simps) (auto split: if_split_asm)
  next
    case False
    then have l: "sink_loop sys name (drop (nat k) xs) (n + k) w1 = (n', w')"
      using "1.prems" s by (subst (asm) sink_loop.simps) simp
    have "nat k \<le> length xs" using s by (auto simp: sys_write_def Let_def split: if_split_asm)
    with "1.IH"[OF _ s[symmetric] _ l] False show ?thesis by simp
  qed
qed

text \<open>SHA-1 as the code uses it: the final digest of a context is the hash of what was fed to it, in
  order. \<^verbatim>\<open>seen\<close> is what a context was fed.\<close>

definition sha_feeds :: "('c, 'm) sha_scheme \<Rightarrow> ('c \<Rightarrow> bytes) \<Rightarrow> bool" where
  "sha_feeds sh seen \<longleftrightarrow> seen (SHA_init sh) = [] \<and> (\<forall>c xs. seen (SHA_update sh c xs) = seen c @ xs) \<and>
     (\<forall>c. SHA_final sh c = SHA_hash sh (seen c))"

text \<open>Where a failed write cannot go unnoticed: calls do not fail, or all patches are of the plain
  kind.\<close>

definition writes_noticed :: "sys \<Rightarrow> ap_args \<Rightarrow> bool" where
  "writes_noticed sys a \<longleftrightarrow>
     no_failures sys \<or> list_all (\<lambda>v. case v of VAL_BLOB d \<Rightarrow> memcmp (blob_bytes d) bsdiff_magic 8 = 0 | _ \<Rightarrow> True) (ap_patch_data a)"

lemma bsdiff_to_file:
  assumes a: "ApplyBSDiffPatch lib malloc (SHA_update sh) old n patch off (file_sink sys outname) tk (Some (SHA_init sh)) =
      Some (Ok (0, tk', ctx))" and f: "w_files (tk_world tk) outname = Some i" "i_data i = []" and sh: "sha_feeds sh seen"
  shows "\<exists>j c. w_files (tk_world tk') outname = Some j \<and> ctx = Some c \<and> i_data j = seen c"
proof -
  obtain rc0 new where m: "ApplyBSDiffPatchMem lib malloc old n patch off = Some (Ok (rc0, new))"
    using a by (auto simp: ApplyBSDiffPatch_def elim!: run_then_Ok_E)
  obtain k w1 where s: "sink_loop sys outname new 0 (tk_world tk) = (k, w1)" by force
  have r: "rc0 = 0" "k \<ge> int (length new)" "tk' = tk\<lparr> tk_world := w1 \<rparr>" "ctx = Some (SHA_update sh (SHA_init sh) new)"
    using a m s by (auto simp: ApplyBSDiffPatch_def file_sink_def split: if_split_asm)
  have "k = 0 + int (length new)" using sink_loop_le[OF s] r(2) by simp
  from sink_loop_full[OF s this f(1)] r f(2) sh show ?thesis by (simp add: sha_feeds_def)
qed

lemma apply_by_header_to_file:
  assumes a: "apply_by_header lb source patch (file_sink sys outname) tk = Some (Ok (Continue (0, tk', ctx)))"
    and f: "w_files (tk_world tk) outname = Some i" "i_data i = []" and sh: "sha_feeds (lb_sha lb) seen"
    and c: "no_failures sys \<or> memcmp patch bsdiff_magic 8 = 0"
  shows "\<exists>j c. w_files (tk_world tk') outname = Some j \<and> ctx = Some c \<and> i_data j = seen c"
proof (cases "memcmp patch bsdiff_magic 8 = 0")
  case True
  then have "ApplyBSDiffPatch (lb_bz lb) (lb_malloc lb) (SHA_update (lb_sha lb)) source (int (length source)) patch 0
      (file_sink sys outname) tk (Some (SHA_init (lb_sha lb))) = Some (Ok (0, tk', ctx))"
    using a by (auto simp: apply_by_header_def Let_def elim!: run_then_Ok_E split: if_split_asm)
  from bsdiff_to_file[OF this f sh] show ?thesis .
next
  case False
  let ?env = "patch_env_of lb (file_sink sys outname)"
  have st: "file_in_step sys outname (SHA_update (lb_sha lb)) seen tk (Some (SHA_init (lb_sha lb)))"
    using c False f sh by (simp add: file_in_step_def sha_feeds_def)
  have im: "ApplyImagePatch ?env source patch tk (Some (SHA_init (lb_sha lb))) = Some (Ok (0, tk', ctx))"
    using a False by (auto simp: apply_by_header_def Let_def elim!: run_then_Ok_E split: if_split_asm)
  have "env_sink ?env = file_sink sys outname" "env_sha ?env = SHA_update (lb_sha lb)" by (simp_all add: patch_env_of_def)
  from fstep.img_in_step[OF im this st] have "file_in_step sys outname (SHA_update (lb_sha lb)) seen tk' ctx" .
  then show ?thesis by (auto simp: file_in_step_def)
qed

lemma source_to_use_patch:
  assumes "choose_source sys lb a fc copy w = Ok (Continue (s, w'))"
  shows "\<exists>v \<in> set (ap_patch_data a). snd (source_to_use s) = Some v"
  using assms by (auto simp: choose_source_def source_to_use_def patch_for_def Let_def elim!: then_do_Ok_E split: if_split_asm)

interpretation fplain: sink_keeps "file_sink sys outname" "\<lambda>tk. plain_path (tk_world tk) outname" for sys outname
proof
  fix t :: sink_token and xs
  assume p: "plain_path (tk_world t) outname"
  have "plain_path w' outname" if "sink_loop sys outname xs n w = (n', w')" "plain_path w outname" for n w n' w'
    using that
  proof (induction sys outname xs n w rule: sink_loop.induct)
    case (1 sys name xs n w)
    obtain k w1 where s: "sys_write sys name xs w = (k, w1)" by force
    have w1: "plain_path w1 name"
      using s "1.prems"(2) by (auto simp: sys_write_def append_data_def plain_path_def Let_def split: if_splits option.splits)
    show ?case
    proof (cases "xs = [] \<or> k \<le> 0")
      case True
      then show ?thesis using "1.prems" s w1 by (subst (asm) sink_loop.simps) (auto split: if_split_asm)
    next
      case False
      then have "sink_loop sys name (drop (nat k) xs) (n + k) w1 = (n', w')"
        using "1.prems"(1) s by (subst (asm) sink_loop.simps) simp
      from "1.IH"[OF _ s[symmetric] _ this w1] False show ?thesis by simp
    qed
  qed
  then show "plain_path (tk_world (snd (file_sink sys outname xs t))) outname"
    using p by (auto simp: file_sink_def split: prod.splits)
qed

lemma apply_by_header_plain:
  assumes "apply_by_header lb source patch (file_sink sys outname) tk = Some (Ok (Continue (result, tk', ctx)))"
    "plain_path (tk_world tk) outname"
  shows "plain_path (tk_world tk') outname"
proof -
  have e: "env_sink (patch_env_of lb (file_sink sys outname)) = file_sink sys outname" by (simp add: patch_env_of_def)
  show ?thesis using assms fplain.bsdiff_keeps[of _ _ _ _ _ _ _ sys outname tk] fplain.img_keeps[OF _ e]
    by (auto simp: apply_by_header_def Let_def elim!: run_then_Ok_E split: if_split_asm)
qed

text \<open>A round that ends normally: the output was created and the patch applied.\<close>

lemma patch_round_Continue:
  assumes r: "patch_round sys lb a target fs s st = Some (Ok (Continue (result, st', msi, ctx)))" and t: "\<not> is_emmc target"
    and p: "prepare_space sys a target fs s st = Ok (Continue st1)"
  obtains w1 patch d tk tk' where "sys_create sys (target @ ''.patch'') (st_world st1) = (True, w1)" "tk_world tk = w1"
    "snd (source_to_use s) = Some (VAL_BLOB patch)"
    "apply_by_header lb d (blob_bytes patch) (file_sink sys (target @ ''.patch'')) tk = Some (Ok (Continue (result, tk', ctx)))"
    "st_world st' = (let w = sys_ignored (sys_ignored (tk_world tk'))
       in if result \<noteq> 0 then sys_unlink sys (target @ ''.patch'') w else w)"
proof -
  let ?out = "target @ ''.patch''"
  obtain ok w1 where c: "sys_create sys ?out (st_world st1) = (ok, w1)" by force
  obtain patch where patch: "snd (source_to_use s) = Some (VAL_BLOB patch)"
    using r p by (auto simp: patch_round_def split: option.split_asm Value.split_asm)
  have ok: ok using r p patch c t by (auto simp: patch_round_def open_output_def split: if_split_asm)
  define tk where "tk = \<lparr> tk_world = w1, tk_msi = \<lparr> msi_buffer = [], msi_size = 0, msi_pos = 0 \<rparr> \<rparr>"
  obtain d tk' where g: "apply_by_header lb d (blob_bytes patch) (file_sink sys ?out) tk = Some (Ok (Continue (result, tk', ctx)))"
    "st_world st' = (let w = sys_ignored (sys_ignored (tk_world tk')) in if result \<noteq> 0 then sys_unlink sys ?out w else w)"
    using r p patch c ok t
    by (auto simp: patch_round_def open_output_def Let_def simp flip: tk_def elim!: run_then_Ok_E split: flow.split_asm if_split_asm)
  show ?thesis using that[OF _ _ patch g] c ok by (simp add: tk_def)
qed

lemma sys_create_empty:
  "\<lbrakk>sys_create sys name w = (True, w'); plain_path w name\<rbrakk> \<Longrightarrow>
     \<exists>i. w_files w' name = Some i \<and> i_data i = [] \<and> \<not> i_dev i"
  by (auto simp: sys_create_def plain_path_def split: if_splits option.splits)

lemma patch_round_output:
  assumes r: "patch_round sys lb a target fs s st = Some (Ok (Continue (result, st', msi, ctx)))" and t: "\<not> is_emmc target"
    and p: "prepare_space sys a target fs s st = Ok (Continue st1)"
    and pl: "plain_path (st_world st1) (target @ ''.patch'')" and sh: "sha_feeds (lb_sha lb) seen"
    and wn: "writes_noticed sys a" and v: "\<exists>v \<in> set (ap_patch_data a). snd (source_to_use s) = Some v"
  shows "if result = 0 then \<exists>j c. w_files (st_world st') (target @ ''.patch'') = Some j \<and> ctx = Some c \<and> i_data j = seen c
    else plain_path (st_world st') (target @ ''.patch'')"
proof -
  let ?out = "target @ ''.patch''"
  obtain w1 patch d tk tk' where c: "sys_create sys ?out (st_world st1) = (True, w1)" "tk_world tk = w1"
    and patch: "snd (source_to_use s) = Some (VAL_BLOB patch)"
    and g: "apply_by_header lb d (blob_bytes patch) (file_sink sys ?out) tk = Some (Ok (Continue (result, tk', ctx)))"
    "st_world st' = (let w = sys_ignored (sys_ignored (tk_world tk')) in if result \<noteq> 0 then sys_unlink sys ?out w else w)"
    by (rule patch_round_Continue[OF r t p])
  obtain i where i: "w_files w1 ?out = Some i" "i_data i = []" "\<not> i_dev i" using sys_create_empty[OF c(1) pl] by blast
  have "plain_path (tk_world tk') ?out" using apply_by_header_plain[OF g(1)] i c(2) by (simp add: plain_path_def)
  then have n: "result \<noteq> 0 \<Longrightarrow> plain_path (st_world st') ?out"
    using g(2) by (auto simp: plain_path_def sys_unlink_def sys_ignored_def Let_def split: if_split_asm)
  have "no_failures sys \<or> memcmp (blob_bytes patch) bsdiff_magic 8 = 0"
    using wn v patch by (auto simp: writes_noticed_def list_all_iff)
  note f = apply_by_header_to_file[OF _ _ i(2) sh this, where outname = ?out and tk = tk and tk' = tk' and ctx = ctx and source = d]
  show ?thesis
  proof (cases "result = 0")
    case True
    then show ?thesis using f g i(1) c(2) by (auto simp: sys_ignored_def Let_def)
  qed (use n in simp)
qed

lemma patch_rounds_code:
  assumes "patch_rounds sys lb a target fs s n made w = Some (Ok (Return r))" "\<not> is_emmc target"
  shows "fst r \<noteq> 0"
  using assms(1)
proof (induction n arbitrary: made w rule: less_induct)
  case (less n)
  let ?st = "\<lparr> st_world = w, st_made_copy = made, st_retry = n \<rparr>"
  obtain g where g: "patch_round sys lb a target fs s ?st = Some (Ok g)"
    using less.prems(1) by (auto simp: patch_rounds.simps[of sys lb a target fs s n] elim!: run_then_Ok_E)
  show ?case
  proof (cases g)
    case (Return x)
    have "fst x = 1"
    proof (cases "\<exists>st1. prepare_space sys a target fs s ?st = Ok (Continue st1)")
      case True
      then show ?thesis using patch_round_other[OF g assms(2)] Return by (auto split: prod.split_asm)
    next
      case False
      then have "prepare_space sys a target fs s ?st = Ok (Return x)"
        using g Return by (auto simp: patch_round_def elim!: run_then_Ok_E split: flow.split_asm)
      then show ?thesis by (auto simp: prepare_space_def Let_def elim!: then_do_Ok_E split: if_split_asm prod.split_asm)
    qed
    then show ?thesis using less.prems g Return by (simp add: patch_rounds.simps[of sys lb a target fs s n])
  next
    case (Continue x)
    then show ?thesis using less g
      by (cases n) (auto simp: patch_rounds.simps[of sys lb a target fs s _ made w] split: prod.split_asm if_split_asm)
  qed
qed

lemma patch_rounds_output:
  assumes "patch_rounds sys lb a target fs s n made w = Some (Ok (Continue (st, msi, ctx)))" "\<not> is_emmc target"
    "off_cache (target @ ''.patch'')" "ap_source_filename a \<noteq> target @ ''.patch''" "source_ok s"
    "sha_feeds (lb_sha lb) seen" "writes_noticed sys a" "\<exists>v \<in> set (ap_patch_data a). snd (source_to_use s) = Some v"
    "plain_path w CACHE_TEMP_SOURCE" "plain_path w (target @ ''.patch'')"
  shows "\<exists>j c. w_files (st_world st) (target @ ''.patch'') = Some j \<and> ctx = Some c \<and> i_data j = seen c"
  using assms(1,9,10)
proof (induction n arbitrary: made w rule: less_induct)
  case (less n)
  let ?out = "target @ ''.patch''"
  let ?st = "\<lparr> st_world = w, st_made_copy = made, st_retry = n \<rparr>"
  obtain g where g: "patch_round sys lb a target fs s ?st = Some (Ok g)"
    using less.prems(1) by (auto simp: patch_rounds.simps[of sys lb a target fs s n] elim!: run_then_Ok_E)
  obtain result st' msi' ctx' where c: "g = Continue (result, st', msi', ctx')"
    using less.prems(1) g by (cases g) (auto simp: patch_rounds.simps[of sys lb a target fs s n])
  obtain h where h: "prepare_space sys a target fs s ?st = Ok h"
    using g by (auto simp: patch_round_def elim!: run_then_Ok_E)
  obtain st1 where st1: "h = Continue st1" using g h c by (cases h) (auto simp: patch_round_def)
  have safe: "kept_or_saved a s ?out w (st_world st1)" "st_retry st1 \<noteq> 0 \<longrightarrow> w_files (st_world st1) = w_files w"
    using prepare_space_safe[OF h assms(2,3,5)] less.prems(2) st1 by auto
  have "plain_path (st_world st1) ?out"
    using safe(1) assms(4) less.prems(3) by (auto simp: kept_or_saved_def plain_path_def same_file_def)
  note o = patch_round_output[OF g[unfolded c] assms(2) h[unfolded st1] this assms(6,7,8)]
  show ?case
  proof (cases "result = 0")
    case True
    then show ?thesis using o less.prems(1) g c by (auto simp: patch_rounds.simps[of sys lb a target fs s n])
  next
    case False
    have k: "\<forall>q. q \<noteq> ?out \<longrightarrow> same_file q (st_world st1) (st_world st')" "st_retry st1 \<noteq> 0"
      using patch_round_other[OF g assms(2) h[unfolded st1]] c False by auto
    have pc: "plain_path (st_world st') CACHE_TEMP_SOURCE"
      using k safe(2) less.prems(2) out_not_cache[of target, symmetric] by (simp add: plain_path_def same_file_def)
    have n: "n \<noteq> 0"
    proof
      assume "n = 0"
      then show False using k(2) h st1 assms(2)
        by (auto simp: prepare_space_def Let_def elim!: then_do_Ok_E split: if_split_asm)
    qed
    then obtain m where m: "n = Suc m" by (cases n) auto
    then have "patch_rounds sys lb a target fs s m (st_made_copy st') (st_world st') = Some (Ok (Continue (st, msi, ctx)))"
      using less.prems(1) g c False by (simp add: patch_rounds.simps[of sys lb a target fs s _ made w])
    from less.IH[OF _ this pc] o False m show ?thesis by simp
  qed
qed

text \<open>Renaming the output over the target.\<close>

lemma finish_patch_installs:
  assumes "finish_patch sys lb sha1 source target st msi (Some c) = Ok (0, w')" "\<not> is_emmc target"
    "w_files (st_world st) (target @ ''.patch'') = Some j" "target \<noteq> CACHE_TEMP_SOURCE"
  shows "SHA_final (lb_sha lb) c = sha1 \<and> (\<exists>i. w_files w' target = Some i \<and> i_data i = i_data j)"
  using assms
  by (auto simp: finish_patch_def install_output_def Let_def sys_chmod_def sys_chown_def sys_rename_def set_meta_def
      sys_unlink_def elim!: then_do_Ok_E split: if_split_asm prod.split_asm)

lemma LoadFileContents_file:
  assumes "LoadFileContents sys sh name fc RETOUCH_DO_MASK w = Ok (0, fc', w')" "\<not> is_emmc name"
  shows "\<exists>i d off. w_files w name = Some i \<and> fc_sha1 fc' = SHA_hash sh d \<and>
    retouch_mask_data (i_data i) (to_int32 (int (length (i_data i)))) (Some 0) = Ok (RETOUCH_DATA_MATCHED, off, d)"
proof -
  obtain i where i: "w_files w name = Some i" "fst (sys_stat sys name w) = Some i"
    using assms by (auto simp: LoadFileContents_def Let_def sys_stat_def split: option.split_asm if_split_asm)
  show ?thesis using assms i
    by (auto simp: LoadFileContents_def Let_def sys_stat_def sys_fopen_read_def sys_fread_def RETOUCH_DO_MASK_def
        elim!: then_do_Ok_E split: option.split_asm if_split_asm)
qed

lemma successful_run:
  assumes "applypatch sys lb file0 copy0 a w = Some (Ok (0, w'))" "\<not> is_emmc (target_of a)"
    "off_cache (target_of a @ ''.patch'')" "ap_source_filename a \<noteq> target_of a @ ''.patch''"
    "sha_feeds (lb_sha lb) seen" "writes_noticed sys a"
    "plain_path w CACHE_TEMP_SOURCE" "plain_path w (target_of a @ ''.patch'')"
  shows "\<exists>i d. w_files w' (target_of a) = Some i \<and> ParseSha1 (ap_target_sha1_str a) = Some (SHA_hash (lb_sha lb) d) \<and>
    (d = i_data i \<or>
     (\<exists>off. retouch_mask_data (i_data i) (to_int32 (int (length (i_data i)))) (Some 0) = Ok (RETOUCH_DATA_MATCHED, off, d)))"
  using assms(1)
proof (cases rule: applypatch_cases)
  case (already sha1 fc)
  then show ?thesis using LoadFileContents_file[OF already(2) assms(2)] LoadFileContents_files[OF already(2)] by auto
next
  case (no_source sha1 rc0 fc fc1 w1 w2)
  then show ?thesis using choose_source_cases[OF no_source(4)] by simp
next
  case (patched sha1 rc0 fc fc1 w1 w2 w3 s fs f)
  have fc: "fc_data fc = Null \<or> loaded (lb_sha lb) (target_of a) fc" using LoadFileContents_result[OF patched(2)] by auto
  note ls = load_source_result[OF patched(3) fc assms(2)]
  note cs = choose_source_cases[OF patched(4)]
  have w3: "w_files w3 = w_files w" using ls(1) cs LoadFileContents_files[OF patched(2)] by simp
  have ok: "source_ok s" using cs ls(2) by (auto simp: source_ok_def)
  have pl: "plain_path w3 CACHE_TEMP_SOURCE" "plain_path w3 (target_of a @ ''.patch'')"
    using assms(7,8) w3 by (simp_all add: plain_path_def)
  show ?thesis
  proof (cases f)
    case (Return x)
    have "fst x \<noteq> 0"
      using patch_rounds_code[OF patched(5)[unfolded Return] assms(2)] .
    then show ?thesis using Return patched(6) by simp
  next
    case (Continue x)
    obtain st msi ctx where x: "x = (st, msi, ctx)" by (cases x) auto
    obtain j c where j: "w_files (st_world st) (target_of a @ ''.patch'') = Some j" "ctx = Some c" "i_data j = seen c"
      using patch_rounds_output[OF patched(5)[unfolded Continue x] assms(2-4) ok assms(5,6) source_to_use_patch[OF patched(4)] pl] by blast
    have nt: "target_of a \<noteq> CACHE_TEMP_SOURCE"
      using assms(3) by (auto simp: off_cache_def CACHE_TEMP_SOURCE_def)
    have "finish_patch sys lb sha1 (fst (source_to_use s)) (target_of a) st msi (Some c) = Ok (0, w')"
      using patched(6) Continue x j(2) by simp
    from finish_patch_installs[OF this assms(2) j(1) nt] j(3) patched(1) assms(5)
    show ?thesis by (auto simp: sha_feeds_def)
  qed
qed (use assms in simp)


text \<open>A run that patches a file of three bytes to one of four.\<close>

definition patch_args :: ap_args where
  "patch_args = demo_args\<lparr> ap_target_sha1_str := PrintSha1 ([1, 2, 9, 3] @ replicate 16 0),
     ap_patch_data := [VAL_BLOB (Some (snd (the (bsdiff stored_bz [1, 2, 3] None [1, 2, 9, 3]))))] \<rparr>"


section \<open>The copy of a partition\<close>

text \<open>
  C30: when the target is a partition and the source cannot be used, the copy on the cache that was
  just found good is overwritten with the unusable source before it is applied: with a source that
  failed to load but has a size (a partition whose contents match no expected hash), the run fails
  and the copy is empty afterwards, so that no later run can succeed either.
\<close>

theorem emmc_bad_source_loses_copy:
  assumes "is_emmc target" "src_patch s = None" "fc_data (src_file s) = Null" "0 < fc_size (src_file s)"
    "MakeFreeSpaceOnCache sys (word_of_int (fc_size (src_file s))) w = (0, w1)"
    "no_failures sys" "plain_path w CACHE_TEMP_SOURCE"
  shows "\<exists>w' i. patch_rounds sys lb a target fs s n made w = Some (Ok (Return (1, w'))) \<and>
    w_files w' CACHE_TEMP_SOURCE = Some i \<and> i_data i = []"
proof -
  obtain ok w2 where c: "sys_create sys CACHE_TEMP_SOURCE w1 = (ok, w2)" by force
  have "ok" using c assms(6) by (auto simp: sys_create_def no_failures_def call_fails_def split: if_split_asm)
  moreover have "plain_path w1 CACHE_TEMP_SOURCE"
    using MakeFreeSpaceOnCache_other[OF assms(5) cache_source_not_expendable] assms(7) by (simp add: plain_path_def same_file_def)
  ultimately obtain i where i: "w_files w2 CACHE_TEMP_SOURCE = Some i" "i_data i = []"
    using sys_create_empty[of sys CACHE_TEMP_SOURCE w1 w2] c by auto
  have sv: "SaveFileContents sys CACHE_TEMP_SOURCE (src_file s) w1 = Ok (-1, sys_ignored (tick w2))"
    using c \<open>ok\<close> assms(3,4) by (simp add: SaveFileContents_def FileSink_def)
  have "patch_rounds sys lb a target fs s n made w = Some (Ok (Return (1, sys_ignored (tick w2))))"
    using assms(1,5) sv by (simp add: patch_rounds.simps[of sys lb a target fs s n] patch_round_def prepare_space_def save_to_cache_def)
  then show ?thesis using i by (auto simp: sys_ignored_def)
qed

text \<open>The state after an interrupted write of a partition of four bytes: the partition holds
  neither version, and the copy holds the old one.\<close>

definition part_args :: ap_args where
  "part_args = demo_args\<lparr>
     ap_source_filename := ''EMMC:/dev/p:3:'' @ PrintSha1 ([1, 2, 3] @ replicate 17 0),
     ap_target_sha1_str := PrintSha1 ([1, 2, 9, 3] @ replicate 16 0) \<rparr>"

definition part_files :: world where
  "part_files = \<lparr> w_files = [''/dev/p'' \<mapsto> new_file\<lparr> i_data := [1, 2, 9, 0, 0], i_dev := True \<rparr>,
     CACHE_TEMP_SOURCE \<mapsto> new_file\<lparr> i_data := [1, 2, 3] \<rparr>], w_tick = 0 \<rparr>"

definition part_source :: ap_source where
  "part_source = \<lparr> src_file = demo_fc\<lparr> fc_size := 3 \<rparr>, src_patch = None,
     src_copy = demo_fc\<lparr> fc_data := Live [1, 2, 3], fc_size := 3 \<rparr>, copy_patch = Some (VAL_BLOB (Some [])) \<rparr>"

theorem emmc_bad_source_loses_copy_witness:
  "(case applypatch full_sys demo_libs demo_fc demo_fc part_args part_files of
      Some (Inr (rc, w')) \<Rightarrow> rc = 1 \<and> map_option i_data (w_files w' CACHE_TEMP_SOURCE) = Some []
    | _ \<Rightarrow> False) \<and>
   (\<exists>w' i. patch_rounds full_sys demo_libs part_args (target_of part_args) ''EMMC:'' part_source 1 False part_files =
        Some (Ok (Return (1, w'))) \<and> w_files w' CACHE_TEMP_SOURCE = Some i \<and> i_data i = [])"
proof
  show "case applypatch full_sys demo_libs demo_fc demo_fc part_args part_files of
      Some (Inr (rc, w')) \<Rightarrow> rc = 1 \<and> map_option i_data (w_files w' CACHE_TEMP_SOURCE) = Some []
    | _ \<Rightarrow> False" by code_simp
  have "is_emmc (target_of part_args)" by code_simp
  moreover have "fst (MakeFreeSpaceOnCache full_sys 3 part_files) = 0" by code_simp
  moreover have "no_failures full_sys" by (simp add: no_failures_def full_sys_def)
  moreover have "plain_path part_files CACHE_TEMP_SOURCE" by (simp add: plain_path_def part_files_def new_file_def)
  ultimately show "\<exists>w' i. patch_rounds full_sys demo_libs part_args (target_of part_args) ''EMMC:'' part_source 1 False part_files =
        Some (Ok (Return (1, w'))) \<and> w_files w' CACHE_TEMP_SOURCE = Some i \<and> i_data i = []"
    by (intro emmc_bad_source_loses_copy[where ?w1.0 = "snd (MakeFreeSpaceOnCache full_sys 3 part_files)"])
       (auto simp: part_source_def demo_fc_def prod_eq_iff)
qed

end
