(* ===== verification/Retouch_Library.thy ===== *)
theory Retouch_Library
  imports Apply_Safety
begin

text \<open>
  \<^verbatim>\<open>retouch_one_library\<close> of \<^verbatim>\<open>src/minelf/Retouch.c\<close>: a library file is rewritten with its
  relocated entries moved by an offset, through a file \<^verbatim>\<open><name>.atomic\<close> and, where room is short, a
  copy on the cache. The arguments are the binary's name and its masked SHA-1, the offset, and
  whether the caller passed a pointer for the offset in use; the result is the return value and
  what is stored through that pointer.
\<close>

record lib_args =
  la_binary_name :: string
  la_binary_sha1 :: string
  la_offset :: u32
  la_override :: bool

definition atomic_name :: "lib_args \<Rightarrow> string" where
  "atomic_name a = la_binary_name a @ ''.atomic''"

text \<open>What the function returns, with the state of the files.\<close>

record lib_result =
  lr_success :: bool
  lr_override :: "u32 option"
  lr_world :: world

definition lib_return :: "lib_args \<Rightarrow> bool \<Rightarrow> u32 option \<Rightarrow> world \<Rightarrow> lib_result" where
  "lib_return a success override w =
     \<lparr> lr_success = success, lr_override = (if la_override a then override else None), lr_world = w \<rparr>"

definition mask_file :: "FileContents \<Rightarrow> u32 option \<Rightarrow> (int \<times> u32 \<times> FileContents) outcome" where
  "mask_file fc desired =
     then_do (live_bytes fc) (\<lambda>d.
     then_do (retouch_mask_data d (to_int32 (fc_size fc)) desired) (\<lambda>(rc, off, d').
       Ok (rc, off, fc\<lparr> fc_data := Live d' \<rparr>)))"

definition rehash :: "('c, 'm) sha_scheme \<Rightarrow> FileContents \<Rightarrow> FileContents" where
  "rehash sh fc = (case fc_data fc of Live d \<Rightarrow> fc\<lparr> fc_sha1 := SHA_hash sh d \<rparr> | _ \<Rightarrow> fc)"

text \<open>The probe of a loaded file: done already, not a retouched file, or the file to go on with.\<close>

definition probe_library ::
  "('c, 'm) sha_scheme \<Rightarrow> lib_args \<Rightarrow> FileContents \<Rightarrow> world \<Rightarrow> (lib_result, FileContents) flow outcome" where
  "probe_library sh a fc w =
     then_do (mask_file fc None) (\<lambda>(probe, inferred, fc).
       if probe = RETOUCH_DATA_MATCHED then
         if la_offset a = inferred \<or> (la_offset a \<noteq> 0 \<and> inferred \<noteq> 0 \<and> la_override a)
         then Ok (Return (lib_return a True (Some inferred) w))
         else then_do (mask_file fc (Some 0)) (\<lambda>(rc, off, fc). Ok (Continue (rehash sh fc)))
       else if probe = RETOUCH_DATA_NOTAPPLICABLE then Ok (Return (lib_return a True (Some 0) w))
       else Ok (Continue fc))"

text \<open>One round of the \<^verbatim>\<open>do\<close> loop: \<^const>\<open>Return\<close> for the jump to \<^verbatim>\<open>out\<close>. The result of the save is
  with the state.\<close>

definition save_round ::
  "sys \<Rightarrow> lib_args \<Rightarrow> string \<Rightarrow> FileContents \<Rightarrow> bool \<Rightarrow> bool \<Rightarrow> world \<Rightarrow> (world, int \<times> bool \<times> world) flow outcome" where
  "save_round sys a fs fc enough made_copy w =
     then_do (if enough then Ok (Continue (made_copy, w))
              else then_do (save_to_cache sys fc w) (\<lambda>(rc, w).
                if rc \<noteq> 0 then Ok (Return w)
                else Ok (Continue (True, snd (FreeSpaceForFile sys fs (sys_unlink sys (la_binary_name a) w))))))
       (\<lambda>f. case f of
          Return w \<Rightarrow> Ok (Return w)
        | Continue (made_copy, w) \<Rightarrow>
            then_do (SaveFileContents sys (atomic_name a) fc w) (\<lambda>(rc, w).
              if rc \<noteq> 0 then Ok (Continue (rc, made_copy, sys_unlink sys (atomic_name a) w))
              else Ok (Continue (rc, made_copy, w))))"

text \<open>A round without enough room is the last one; after a failed save with enough room there is
  one more, as if there were none.\<close>

definition save_rounds ::
  "sys \<Rightarrow> lib_args \<Rightarrow> string \<Rightarrow> FileContents \<Rightarrow> bool \<Rightarrow> world \<Rightarrow> (world, bool \<times> world) flow outcome" where
  "save_rounds sys a fs fc enough w =
     then_do (save_round sys a fs fc enough False w) (\<lambda>f. case f of
       Return w \<Rightarrow> Ok (Return w)
     | Continue (rc, made_copy, w) \<Rightarrow>
         if rc \<noteq> 0 \<and> enough then
           then_do (save_round sys a fs fc False made_copy w) (\<lambda>f. Ok (case f of
             Return w \<Rightarrow> Return w
           | Continue (rc, made_copy, w) \<Rightarrow> Continue (made_copy, w)))
         else Ok (Continue (made_copy, w)))"

text \<open>From \<^verbatim>\<open>chmod\<close> to the deletion of the copy.\<close>

definition swap_library :: "sys \<Rightarrow> lib_args \<Rightarrow> FileContents \<Rightarrow> bool \<Rightarrow> world \<Rightarrow> bool \<times> world" where
  "swap_library sys a fc made_copy w =
     (case sys_chmod sys (atomic_name a) (fc_mode fc) w of (ok, w) \<Rightarrow>
        if \<not> ok then (False, w)
        else case sys_chown sys (atomic_name a) (fc_uid fc) (fc_gid fc) w of (ok, w) \<Rightarrow>
          if \<not> ok then (False, w)
          else case sys_rename sys (atomic_name a) (la_binary_name a) w of (ok, w) \<Rightarrow>
            if \<not> ok then (False, w)
            else (True, if made_copy then sys_unlink sys CACHE_TEMP_SOURCE w else w))"

text \<open>The source: the file itself if its hash is right, else the copy on the cache.\<close>

definition recover_source ::
  "sys \<Rightarrow> ('c, 'm) sha_scheme \<Rightarrow> lib_args \<Rightarrow> int \<Rightarrow> FileContents \<Rightarrow> world \<Rightarrow> (bool \<times> FileContents \<times> world) outcome" where
  "recover_source sys sh a result fc w =
     (if result \<noteq> 0 \<or> FindMatchingPatch (fc_sha1 fc) [la_binary_sha1 a] < 0 then
        then_do (LoadFileContents sys sh CACHE_TEMP_SOURCE fc RETOUCH_DO_MASK w) (\<lambda>(result, fc, w).
          Ok (\<not> (result \<noteq> 0 \<or> FindMatchingPatch (fc_sha1 fc) [la_binary_sha1 a] < 0), fc, w))
      else Ok (True, fc, w))"

definition retouch_file ::
  "sys \<Rightarrow> lib_args \<Rightarrow> string \<Rightarrow> FileContents \<Rightarrow> world \<Rightarrow> lib_result outcome" where
  "retouch_file sys a fs fc w =
     then_do (mask_file fc (Some (la_offset a))) (\<lambda>(result, off, fc).
       if result \<noteq> RETOUCH_DATA_MATCHED then Ok (lib_return a False None w)
       else
         (case FreeSpaceForFile sys fs w of (free_space, w) \<Rightarrow>
            then_do (c_off (fc_size fc * 3)) (\<lambda>size3.
            then_do (save_rounds sys a fs fc (free_space > word_of_int (size3 div 2)) w) (\<lambda>f. Ok (case f of
              Return w \<Rightarrow> lib_return a False (Some (la_offset a)) w
            | Continue (made_copy, w) \<Rightarrow>
                (case swap_library sys a fc made_copy w of (success, w) \<Rightarrow>
                   lib_return a success (Some (la_offset a)) w))))))"

definition clean_up :: "sys \<Rightarrow> lib_args \<Rightarrow> lib_result \<Rightarrow> lib_result" where
  "clean_up sys a r = r\<lparr> lr_world := sys_unlink sys (atomic_name a) (lr_world r) \<rparr>"

definition retouch_one_library ::
  "sys \<Rightarrow> ('c, 'm) sha_scheme \<Rightarrow> FileContents \<Rightarrow> lib_args \<Rightarrow> world \<Rightarrow> lib_result outcome" where
  "retouch_one_library sys sh fc0 a w =
     then_do (target_fs (la_binary_name a)) (\<lambda>fs.
     then_do (LoadFileContents sys sh (la_binary_name a) fc0 RETOUCH_DONT_MASK w) (\<lambda>(result, fc, w).
     then_do (if result = 0 then probe_library sh a fc w else Ok (Continue fc)) (\<lambda>f. case f of
       Return r \<Rightarrow> Ok (clean_up sys a r)
     | Continue fc \<Rightarrow>
         then_do (recover_source sys sh a result fc w) (\<lambda>(found, fc, w).
           if \<not> found then Ok (clean_up sys a (lib_return a False None w))
           else then_do (retouch_file sys a fs fc w) (\<lambda>r. Ok (clean_up sys a r))))))"

section \<open>What a failed run leaves\<close>

lemma mask_loop_probe_buf:
  "mask_loop b r p None q st = Ok f \<Longrightarrow> (case f of Return x \<Rightarrow> snd x | Continue x \<Rightarrow> ms_buf (snd x)) = ms_buf st"
proof (induction b r p "None :: u32 option" q st rule: mask_loop.induct)
  case (1 b r p q st)
  show ?case
  proof (cases "q < r")
    case False
    then show ?thesis using "1.prems" by (subst (asm) mask_loop.simps) auto
  next
    case True
    obtain q' off orig cs where d: "decode_in_memory (ms_buf st) q (ms_cs st) = Ok (q', off, orig, cs)"
      using "1.prems" True by (subst (asm) mask_loop.simps) (auto split: sum.splits)
    show ?thesis
    proof (cases "off < -1 \<or> off \<ge> b")
      case o: True
      then show ?thesis using "1.prems" True d by (subst (asm) mask_loop.simps) auto
    next
      case o: False
      obtain st' where e: "mask_entry p None off orig (st\<lparr> ms_cs := cs \<rparr>) = Ok st'"
        using "1.prems" True d o by (subst (asm) mask_loop.simps) (auto split: sum.splits)
      have "mask_loop b r p None q' st' = Ok f"
        using "1.prems" True d o e by (subst (asm) mask_loop.simps) auto
      moreover have "ms_buf st' = ms_buf st"
        using e by (auto simp: mask_entry_def Let_def elim!: then_do_Ok_E split: option.splits)
      ultimately show ?thesis using "1.hyps"[OF True d refl refl refl o e] by simp
    qed
  qed
qed

lemma retouch_probe_buf:
  assumes "retouch_mask_data buf n None = Ok (rc, off, buf')"
  shows "buf' = buf"
  using assms
  by (auto simp: retouch_mask_data_def Let_def elim!: then_do_Ok_E dest!: mask_loop_probe_buf
      split: if_split_asm flow.split_asm prod.split_asm)

text \<open>A file in memory that is what its hash says.\<close>

definition good_fc :: "('c, 'm) sha_scheme \<Rightarrow> FileContents \<Rightarrow> bool" where
  "good_fc sh fc \<longleftrightarrow> (\<exists>d. fc_data fc = Live d \<and> fc_size fc = int (length d) \<and> fc_sha1 fc = SHA_hash sh d)"

lemma mask_file_Ok:
  "mask_file fc x = Ok (rc, off, fc') \<Longrightarrow>
     \<exists>d d'. fc_data fc = Live d \<and> fc_size fc = int (length d) \<and> length d' = length d \<and> fc' = fc\<lparr> fc_data := Live d' \<rparr> \<and>
       retouch_mask_data d (to_int32 (fc_size fc)) x = Ok (rc, off, d')"
  by (auto simp: mask_file_def live_bytes_def elim!: then_do_Ok_E dest: retouch_mask_data_length split: buf.split_asm if_split_asm)

lemma probe_library_cases:
  assumes "probe_library sh a fc w = Ok f" "good_fc sh fc"
  shows "case f of Return r \<Rightarrow> lr_success r \<and> lr_world r = w | Continue fc' \<Rightarrow> good_fc sh fc'"
proof -
  obtain rc off fc1 where m: "mask_file fc None = Ok (rc, off, fc1)"
    using assms(1) by (auto simp: probe_library_def elim!: then_do_Ok_E)
  have fc1: "fc1 = fc" using mask_file_Ok[OF m] retouch_probe_buf by fastforce
  have "good_fc sh (rehash sh fc2)" if "mask_file fc1 (Some 0) = Ok (rc2, off2, fc2)" for rc2 off2 fc2
    using mask_file_Ok[OF that] by (auto simp: good_fc_def rehash_def)
  then show ?thesis using assms m fc1
    by (auto simp: probe_library_def lib_return_def elim!: then_do_Ok_E split: if_split_asm)
qed

lemma recover_source_found:
  assumes "recover_source sys sh a result fc w = Ok (found, fc', w')" "result = 0 \<longrightarrow> good_fc sh fc"
  shows "w_files w' = w_files w" "found \<Longrightarrow> good_fc sh fc' \<and> ParseSha1 (la_binary_sha1 a) = Some (fc_sha1 fc')"
proof -
  have e: "\<not> is_emmc CACHE_TEMP_SOURCE" by code_simp
  have f: "FindMatchingPatch s [t] < 0 \<longleftrightarrow> ParseSha1 t \<noteq> Some s" for s t by (simp add: FindMatchingPatch_def)
  show "w_files w' = w_files w"
    using assms(1) by (auto simp: recover_source_def elim!: then_do_Ok_E dest!: LoadFileContents_files split: if_split_asm)
  show "found \<Longrightarrow> good_fc sh fc' \<and> ParseSha1 (la_binary_sha1 a) = Some (fc_sha1 fc')"
    using assms e by (auto simp: recover_source_def good_fc_def loaded_def f elim!: then_do_Ok_E dest!: LoadFileContents_result split: if_split_asm)
qed

text \<open>The file with the offset applied, in the place the run left it.\<close>

definition holds :: "world \<Rightarrow> string \<Rightarrow> bytes \<Rightarrow> bool" where
  "holds w name d \<longleftrightarrow> (\<exists>i. w_files w name = Some i \<and> i_data i = d)"

lemma cache_not_atomic: "CACHE_TEMP_SOURCE \<noteq> atomic_name a"
proof
  assume "CACHE_TEMP_SOURCE = atomic_name a"
  then have "rev CACHE_TEMP_SOURCE = rev (atomic_name a)" by simp
  then show False by (simp add: CACHE_TEMP_SOURCE_def atomic_name_def)
qed

lemma save_round_cases:
  assumes "save_round sys a fs fc enough made w = Ok f" "fc_data fc = Live d" "fc_size fc = int (length d)"
    "off_cache (la_binary_name a)" "plain_path w CACHE_TEMP_SOURCE"
  shows "case f of
      Return w' \<Rightarrow> same_file (la_binary_name a) w w'
    | Continue (rc, made', w') \<Rightarrow>
        (if enough then same_file (la_binary_name a) w w' \<and> same_file CACHE_TEMP_SOURCE w w'
         else holds w' CACHE_TEMP_SOURCE d)"
proof -
  have na: "la_binary_name a \<noteq> atomic_name a" by (simp add: atomic_name_def)
  note ca = cache_not_atomic[of a]
  have u: "q \<noteq> atomic_name a \<Longrightarrow> same_file q v (sys_unlink sys (atomic_name a) v')" if "same_file q v v'" for q v v'
    using that sys_unlink_other[of q "atomic_name a" v' sys] by (auto simp: same_file_def)
  have h: "holds v' CACHE_TEMP_SOURCE d" if "holds v CACHE_TEMP_SOURCE d" "same_file CACHE_TEMP_SOURCE v v'" for v v'
    using that by (simp add: holds_def same_file_def)
  show ?thesis
  proof (cases enough)
    case True
    obtain rc w1 where s: "SaveFileContents sys (atomic_name a) fc w = Ok (rc, w1)"
      using assms(1) True by (auto simp: save_round_def elim!: then_do_Ok_E)
    show ?thesis using assms(1) True s SaveFileContents_other[OF s na] SaveFileContents_other[OF s ca] na ca
      by (auto simp: save_round_def intro: u split: if_split_asm)
  next
    case False
    obtain rc w1 where c: "save_to_cache sys fc w = Ok (rc, w1)"
      using assms(1) False by (auto simp: save_round_def elim!: then_do_Ok_E)
    show ?thesis
    proof (cases "rc = 0")
      case False
      then show ?thesis using assms(1) \<open>\<not> enough\<close> c save_to_cache_other[OF c assms(4)] by (auto simp: save_round_def)
    next
      case rc: True
      define w2 where "w2 = snd (FreeSpaceForFile sys fs (sys_unlink sys (la_binary_name a) w1))"
      have "holds w1 CACHE_TEMP_SOURCE d"
        using save_to_cache_saves[OF c[unfolded rc] assms(5,2,3)] by (simp add: holds_def)
      then have w2: "holds w2 CACHE_TEMP_SOURCE d"
        using h[of w1] sys_unlink_other[of CACHE_TEMP_SOURCE "la_binary_name a" w1 sys] off_cache_saved[OF assms(4)]
        by (simp add: w2_def FreeSpaceForFile_def holds_def same_file_def)
      obtain rc' w3 where s: "SaveFileContents sys (atomic_name a) fc w2 = Ok (rc', w3)"
        using assms(1) \<open>\<not> enough\<close> c rc by (auto simp: save_round_def w2_def elim!: then_do_Ok_E)
      have w3: "holds w3 CACHE_TEMP_SOURCE d" by (rule h[OF w2 SaveFileContents_other[OF s ca]])
      then have "holds (sys_unlink sys (atomic_name a) w3) CACHE_TEMP_SOURCE d"
        by (rule h) (rule sys_unlink_other[OF ca])
      then show ?thesis using assms(1) \<open>\<not> enough\<close> c rc s w3
        by (auto simp: save_round_def simp flip: w2_def split: if_split_asm)
    qed
  qed
qed

lemma save_rounds_cases:
  assumes "save_rounds sys a fs fc enough w = Ok f" "fc_data fc = Live d" "fc_size fc = int (length d)"
    "off_cache (la_binary_name a)" "plain_path w CACHE_TEMP_SOURCE"
  shows "case f of
      Return w' \<Rightarrow> same_file (la_binary_name a) w w'
    | Continue (made', w') \<Rightarrow> same_file (la_binary_name a) w w' \<or> holds w' CACHE_TEMP_SOURCE d"
proof -
  obtain g where g: "save_round sys a fs fc enough False w = Ok g"
    using assms(1) by (auto simp: save_rounds_def elim!: then_do_Ok_E)
  note c = save_round_cases[OF g assms(2-5)]
  show ?thesis
  proof (cases g)
    case (Return x)
    then show ?thesis using assms(1) g c by (auto simp: save_rounds_def)
  next
    case (Continue x)
    obtain rc made w1 where x: "x = (rc, made, w1)" by (cases x)
    show ?thesis
    proof (cases "rc \<noteq> 0 \<and> enough")
      case False
      then show ?thesis using assms(1) g c Continue x by (auto simp: save_rounds_def split: if_split_asm)
    next
      case True
      then have s: "same_file (la_binary_name a) w w1" "same_file CACHE_TEMP_SOURCE w w1" using c Continue x by auto
      obtain g2 where g2: "save_round sys a fs fc False made w1 = Ok g2"
        using assms(1) g Continue x True by (auto simp: save_rounds_def elim!: then_do_Ok_E)
      have "plain_path w1 CACHE_TEMP_SOURCE" using assms(5) s(2) by (simp add: plain_path_def same_file_def)
      from save_round_cases[OF g2 assms(2-4) this] assms(1) g Continue x True g2 s(1) show ?thesis
        by (cases g2) (auto simp: save_rounds_def intro: same_file_trans)
    qed
  qed
qed

lemma swap_library_fails:
  assumes "swap_library sys a fc made w = (False, w')" "q \<noteq> atomic_name a"
  shows "same_file q w w'"
proof -
  obtain b1 w1 where m: "sys_chmod sys (atomic_name a) (fc_mode fc) w = (b1, w1)" by force
  obtain b2 w2 where o: "sys_chown sys (atomic_name a) (fc_uid fc) (fc_gid fc) w1 = (b2, w2)" by force
  have s1: "same_file q w w1" using sys_chmod_other[OF m assms(2)] .
  have s2: "same_file q w w2" using same_file_trans[OF s1 sys_chown_other[OF o assms(2)]] .
  show ?thesis using assms(1) m o s1 s2
    by (auto simp: swap_library_def sys_rename_def same_file_def split: if_split_asm)
qed

text \<open>Writing the rewritten library: while it fails, the old one is there or the copy is.\<close>

lemma retouch_file_fails:
  assumes "retouch_file sys a fs fc w = Ok r" "\<not> lr_success r" "off_cache (la_binary_name a)"
    "plain_path w CACHE_TEMP_SOURCE" "fc_data fc = Live d"
  shows "w_files (lr_world r) (la_binary_name a) = w_files w (la_binary_name a) \<or>
    (\<exists>off d'. holds (lr_world r) CACHE_TEMP_SOURCE d' \<and>
       retouch_mask_data d (to_int32 (int (length d))) (Some (la_offset a)) = Ok (RETOUCH_DATA_MATCHED, off, d'))"
proof -
  have na: "la_binary_name a \<noteq> atomic_name a" by (simp add: atomic_name_def)
  obtain rc off fc3 where m: "mask_file fc (Some (la_offset a)) = Ok (rc, off, fc3)"
    using assms(1) by (auto simp: retouch_file_def elim!: then_do_Ok_E)
  obtain d' where d: "fc_size fc = int (length d)" "length d' = length d"
    "fc3 = fc\<lparr> fc_data := Live d' \<rparr>" "retouch_mask_data d (to_int32 (fc_size fc)) (Some (la_offset a)) = Ok (rc, off, d')"
    using mask_file_Ok[OF m] assms(5) by auto
  show ?thesis
  proof (cases "rc = RETOUCH_DATA_MATCHED")
    case False
    then show ?thesis using assms(1) m by (auto simp: retouch_file_def lib_return_def)
  next
    case rc: True
    obtain free w1 where fr: "FreeSpaceForFile sys fs w = (free, w1)" by force
    have w1: "w_files w1 = w_files w" using fr by (auto simp: FreeSpaceForFile_def)
    have pl: "plain_path w1 CACHE_TEMP_SOURCE" using assms(4) w1 by (simp add: plain_path_def)
    obtain sz g where g: "save_rounds sys a fs fc3 (free > word_of_int (sz div 2)) w1 = Ok g"
      "r = (case g of Return w \<Rightarrow> lib_return a False (Some (la_offset a)) w
          | Continue (made_copy, w) \<Rightarrow>
              (case swap_library sys a fc3 made_copy w of (success, w) \<Rightarrow> lib_return a success (Some (la_offset a)) w))"
      using assms(1) m rc fr by (auto simp: retouch_file_def elim!: then_do_Ok_E)
    have c: "case g of Return w' \<Rightarrow> same_file (la_binary_name a) w1 w'
       | Continue (made', w') \<Rightarrow> same_file (la_binary_name a) w1 w' \<or> holds w' CACHE_TEMP_SOURCE d'"
      by (rule save_rounds_cases[OF g(1) _ _ assms(3) pl]) (use d in simp_all)
    show ?thesis
    proof (cases g)
      case (Return x)
      then show ?thesis using c g(2) w1 by (simp add: lib_return_def same_file_def)
    next
      case (Continue x)
      obtain made w4 where x: "x = (made, w4)" by force
      obtain ok w5 where sw: "swap_library sys a fc3 made w4 = (ok, w5)" by force
      have "\<not> ok" using assms(2) g(2) Continue x sw by (simp add: lib_return_def)
      then show ?thesis using c g(2) Continue x sw w1 rc d(1,4)
          swap_library_fails[of sys a fc3 made w4 w5, OF _ na] swap_library_fails[of sys a fc3 made w4 w5, OF _ cache_not_atomic]
        by (auto simp: lib_return_def same_file_def holds_def)
    qed
  qed
qed

text \<open>
  C19: when \<^verbatim>\<open>retouch_one_library\<close> reports failure, whatever system calls failed, the library is
  still as it was, or the copy on the cache holds it: the contents whose hash is the expected
  one, with the offset already applied, which masking takes away again when the copy is loaded.
\<close>

theorem retouch_failure_safe:
  assumes "retouch_one_library sys sh fc0 a w = Ok r" "\<not> lr_success r" "\<not> is_emmc (la_binary_name a)"
    "off_cache (la_binary_name a)" "plain_path w CACHE_TEMP_SOURCE"
  shows "w_files (lr_world r) (la_binary_name a) = w_files w (la_binary_name a) \<or>
    (\<exists>i d off. w_files (lr_world r) CACHE_TEMP_SOURCE = Some i \<and>
       ParseSha1 (la_binary_sha1 a) = Some (SHA_hash sh d) \<and>
       retouch_mask_data d (to_int32 (int (length d))) (Some (la_offset a)) = Ok (RETOUCH_DATA_MATCHED, off, i_data i))"
proof -
  let ?n = "la_binary_name a"
  have na: "?n \<noteq> atomic_name a" by (simp add: atomic_name_def)
  note ca = cache_not_atomic[of a]
  obtain fs result fc w1 where l: "target_fs ?n = Ok fs" "LoadFileContents sys sh ?n fc0 RETOUCH_DONT_MASK w = Ok (result, fc, w1)"
    using assms(1) by (auto simp: retouch_one_library_def elim!: then_do_Ok_E)
  have w1: "w_files w1 = w_files w" by (rule LoadFileContents_files[OF l(2)])
  have good: "result = 0 \<longrightarrow> good_fc sh fc"
    using LoadFileContents_result[OF l(2)] assms(3) by (auto simp: good_fc_def loaded_def)
  obtain f where f: "(if result = 0 then probe_library sh a fc w1 else Ok (Continue fc)) = Ok f"
    using assms(1) l by (auto simp: retouch_one_library_def elim!: then_do_Ok_E)
  obtain fc1 where fc1: "f = Continue fc1" "result = 0 \<longrightarrow> good_fc sh fc1"
  proof (cases f)
    case (Return r')
    then have "result = 0" "probe_library sh a fc w1 = Ok (Return r')" using f by (auto split: if_split_asm)
    from probe_library_cases[OF this(2)] good this(1) have "lr_success r'" by simp
    moreover have "r = clean_up sys a r'" using assms(1) l f Return by (simp add: retouch_one_library_def)
    ultimately show ?thesis using assms(2) by (simp add: clean_up_def)
  next
    case (Continue fc1)
    then show ?thesis using that f good probe_library_cases[of sh a fc w1 f] by (auto split: if_split_asm)
  qed
  obtain found fc2 w2 where rs: "recover_source sys sh a result fc1 w1 = Ok (found, fc2, w2)"
    using assms(1) l f fc1(1) by (auto simp: retouch_one_library_def elim!: then_do_Ok_E)
  note rf = recover_source_found[OF rs fc1(2)]
  have w2: "w_files w2 = w_files w" using rf(1) w1 by simp
  have up: "w_files (lr_world (clean_up sys a r')) q = w_files (lr_world r') q" if "q \<noteq> atomic_name a" for r' q
    using sys_unlink_other[OF that, of "lr_world r'" sys] by (simp add: clean_up_def same_file_def)
  show ?thesis
  proof (cases found)
    case False
    then have "r = clean_up sys a (lib_return a False None w2)"
      using assms(1) l f fc1(1) rs by (simp add: retouch_one_library_def)
    then show ?thesis using up[OF na] w2 by (simp add: lib_return_def)
  next
    case True
    obtain r' where r': "retouch_file sys a fs fc2 w2 = Ok r'" "r = clean_up sys a r'"
      using assms(1) l f fc1(1) rs True by (auto simp: retouch_one_library_def elim!: then_do_Ok_E)
    obtain d where d: "fc_data fc2 = Live d" "ParseSha1 (la_binary_sha1 a) = Some (SHA_hash sh d)"
      using rf(2)[OF True] by (auto simp: good_fc_def)
    have "\<not> lr_success r'" using assms(2) r'(2) by (simp add: clean_up_def)
    moreover have "plain_path w2 CACHE_TEMP_SOURCE" using assms(5) w2 by (simp add: plain_path_def)
    ultimately show ?thesis
      using retouch_file_fails[OF r'(1) _ assms(4) _ d(1)] r'(2) up[OF na] up[OF ca] d(2) w2
      by (auto simp: holds_def)
  qed
qed

text \<open>A run on a full file system whose renaming of the rewritten library fails.\<close>

definition lib_sys :: sys where
  "lib_sys = \<lparr> s_fail = \<lambda>t. t = 22, s_count = \<lambda>t. 40, s_statfs = \<lambda>t p. if p = ''/cache'' then (32, 2) else (0, 0),
     s_readdir = \<lambda>t p. [], s_readlink = \<lambda>t p. None \<rparr>"

definition demo_lib_args :: lib_args where
  "demo_lib_args = \<lparr> la_binary_name = ''/system/l'',
     la_binary_sha1 = PrintSha1 [1, 2, 3, 4, 0x10, 0, 0, 0, 0, 0, 0, 4, 0, 0, 0, 0x10, 0x52, 0x45, 0x54, 0x4F],
     la_offset = 0x100, la_override = False \<rparr>"

definition lib_files :: world where
  "lib_files = \<lparr> w_files = [''/system/l'' \<mapsto>
     new_file\<lparr> i_data := [1, 2, 3, 4, 0x10, 0, 0, 0] @ drop 8 demo_library \<rparr>], w_tick = 0 \<rparr>"

theorem retouch_failure_safe_witness:
  "\<exists>r. retouch_one_library lib_sys demo_sha demo_fc demo_lib_args lib_files = Ok r \<and> \<not> lr_success r \<and>
     w_files (lr_world r) ''/system/l'' = None \<and>
     (\<exists>i d off. w_files (lr_world r) CACHE_TEMP_SOURCE = Some i \<and>
        ParseSha1 (la_binary_sha1 demo_lib_args) = Some (SHA_hash demo_sha d) \<and>
        retouch_mask_data d (to_int32 (int (length d))) (Some 0x100) = Ok (RETOUCH_DATA_MATCHED, off, i_data i))"
proof -
  have "(case retouch_one_library lib_sys demo_sha demo_fc demo_lib_args lib_files of
      Inr r \<Rightarrow> \<not> lr_success r \<and> w_files (lr_world r) ''/system/l'' = None | _ \<Rightarrow> False)" by code_simp
  then obtain r where r: "retouch_one_library lib_sys demo_sha demo_fc demo_lib_args lib_files = Ok r" "\<not> lr_success r"
    "w_files (lr_world r) ''/system/l'' = None" by (auto split: sum.splits)
  have n: "la_binary_name demo_lib_args = ''/system/l''" "la_offset demo_lib_args = 0x100" by (simp_all add: demo_lib_args_def)
  have "\<not> is_emmc (la_binary_name demo_lib_args)" "off_cache (la_binary_name demo_lib_args)"
    "plain_path lib_files CACHE_TEMP_SOURCE"
    by (simp_all add: n is_emmc_def strncmp_def off_cache_def plain_path_def lib_files_def CACHE_TEMP_SOURCE_def)
  from retouch_failure_safe[OF r(1,2) this] r n show ?thesis by (auto simp: lib_files_def)
qed

end
