(* ===== verification/Zip_Archive.thy ===== *)
theory Zip_Archive
  imports Mz_Hash
begin

text \<open>
  The Zip reader \<^verbatim>\<open>src/minzip/Zip.c\<close>, without extraction to the file system: parsing the central
  directory into a sorted array and a hash table, finding entries, and streaming the contents of
  an entry through a function. Pointers into the mapped file are offsets from its start; pointers
  stored in the hash table are indices into the entry array or names to look up.
\<close>

section \<open>Reading the map\<close>

definition byte_at :: "bytes \<Rightarrow> int \<Rightarrow> u8 outcome" where
  "byte_at m p = (if 0 \<le> p \<and> p < int (length m) then Ok (m ! nat p) else Inl OutOfBounds)"

definition get2LE :: "bytes \<Rightarrow> int \<Rightarrow> 16 word outcome" where
  "get2LE m p =
     then_do (byte_at m p) (\<lambda>b0. then_do (byte_at m (p + 1)) (\<lambda>b1.
       Ok (ucast b0 OR push_bit 8 (ucast b1))))"

definition get4LE :: "bytes \<Rightarrow> int \<Rightarrow> u32 outcome" where
  "get4LE m p =
     then_do (byte_at m p) (\<lambda>b0. then_do (byte_at m (p + 1)) (\<lambda>b1.
     then_do (byte_at m (p + 2)) (\<lambda>b2. then_do (byte_at m (p + 3)) (\<lambda>b3.
       Ok (ucast b0 OR push_bit 8 (ucast b1) OR push_bit 16 (ucast b2) OR push_bit 24 (ucast b3))))))"

definition CENSIG :: u32 where "CENSIG = 0x02014b50"
definition CENHDR :: int where "CENHDR = 46"
definition CENVEM :: int where "CENVEM = 4"
definition CENHOW :: int where "CENHOW = 10"
definition CENTIM :: int where "CENTIM = 12"
definition CENCRC :: int where "CENCRC = 16"
definition CENSIZ :: int where "CENSIZ = 20"
definition CENLEN :: int where "CENLEN = 24"
definition CENNAM :: int where "CENNAM = 28"
definition CENEXT :: int where "CENEXT = 30"
definition CENCOM :: int where "CENCOM = 32"
definition CENATX :: int where "CENATX = 38"
definition CENOFF :: int where "CENOFF = 42"
definition ENDSIG :: u32 where "ENDSIG = 0x06054b50"
definition ENDHDR :: int where "ENDHDR = 22"
definition ENDSUB :: int where "ENDSUB = 8"
definition ENDOFF :: int where "ENDOFF = 16"
definition LOCSIG :: u32 where "LOCSIG = 0x04034b50"
definition LOCHDR :: int where "LOCHDR = 30"
definition LOCNAM :: int where "LOCNAM = 26"
definition LOCEXT :: int where "LOCEXT = 28"
definition STORED :: int where "STORED = 0"
definition DEFLATED :: int where "DEFLATED = 8"
definition CENVEM_UNIX :: "16 word" where "CENVEM_UNIX = 0x0300"

lemmas zip_consts = CENHDR_def CENVEM_def CENHOW_def CENTIM_def CENCRC_def CENSIZ_def CENLEN_def CENNAM_def
  CENEXT_def CENCOM_def CENATX_def CENOFF_def ENDHDR_def ENDSUB_def ENDOFF_def LOCHDR_def LOCNAM_def LOCEXT_def

section \<open>Entries\<close>

text \<open>\<^verbatim>\<open>fileName\<close> and \<^verbatim>\<open>fileNameLen\<close> are one list of bytes.\<close>

record ZipEntry =
  fileName :: bytes
  offset :: int
  compLen :: int
  uncompLen :: int
  compression :: int
  modTime :: int
  ze_crc32 :: int
  versionMadeBy :: "16 word"
  externalFileAttributes :: u32

text \<open>The pointers the hash table holds or is asked for.\<close>

datatype zip_ptr = EntryPtr nat | NamePtr bytes

fun mem_diff :: "bytes \<Rightarrow> bytes \<Rightarrow> int" where
  "mem_diff (a # as) (b # bs) = (if a \<noteq> b then uint a - uint b else mem_diff as bs)"
| "mem_diff _ _ = 0"

definition name_of :: "ZipEntry list \<Rightarrow> zip_ptr \<Rightarrow> bytes" where
  "name_of es p = (case p of EntryPtr i \<Rightarrow> if i < length es then fileName (es ! i) else [] | NamePtr s \<Rightarrow> s)"

definition hashcmpZipEntry :: "ZipEntry list \<Rightarrow> zip_ptr \<Rightarrow> zip_ptr \<Rightarrow> int" where
  "hashcmpZipEntry es p q =
     (if length (name_of es p) \<noteq> length (name_of es q)
      then int (length (name_of es p)) - int (length (name_of es q))
      else mem_diff (name_of es p) (name_of es q))"

text \<open>\<^verbatim>\<open>strlen\<close> of the name stops at a NUL.\<close>

definition hashcmpZipName :: "ZipEntry list \<Rightarrow> zip_ptr \<Rightarrow> zip_ptr \<Rightarrow> int" where
  "hashcmpZipName es p q =
     (let name = takeWhile (\<lambda>c. c \<noteq> 0) (name_of es q)
      in if length (name_of es p) \<noteq> length name then int (length (name_of es p)) - int (length name)
         else mem_diff (name_of es p) name)"

definition computeHash :: "bytes \<Rightarrow> u32" where
  "computeHash name = foldl (\<lambda>hash c. hash * 31 + ucast c) 2 name"

definition PATH_MAX :: nat where "PATH_MAX = 4096"

definition validFilename :: "bytes \<Rightarrow> bool" where
  "validFilename name \<longleftrightarrow> length name < PATH_MAX \<and> list_all (\<lambda>c. 32 \<le> c \<and> c < 127) name"

text \<open>The warning about a duplicate is only printed.\<close>

definition addEntryToHashTable ::
  "(int \<Rightarrow> bool) \<Rightarrow> ZipEntry list \<Rightarrow> (zip_ptr, unit) HashTable \<Rightarrow> nat \<Rightarrow> (zip_ptr, unit) HashTable outcome" where
  "addEntryToHashTable calloc_ok es t i =
     then_do (mzHashTableLookup calloc_ok t (computeHash (name_of es (EntryPtr i))) (Item (EntryPtr i))
                (hashcmpZipEntry es) True) (\<lambda>(found, t'). Ok t')"

fun add_all ::
  "(int \<Rightarrow> bool) \<Rightarrow> ZipEntry list \<Rightarrow> nat list \<Rightarrow> (zip_ptr, unit) HashTable \<Rightarrow> (zip_ptr, unit) HashTable outcome" where
  "add_all calloc_ok es [] t = Ok t"
| "add_all calloc_ok es (i # is) t = then_do (addEntryToHashTable calloc_ok es t i) (add_all calloc_ok es is)"

section \<open>Sorted insertion\<close>

fun strncmp_bytes :: "bytes \<Rightarrow> bytes \<Rightarrow> nat \<Rightarrow> int" where
  "strncmp_bytes (a # as) (b # bs) (Suc n) =
     (if a \<noteq> b then uint a - uint b else if a = 0 then 0 else strncmp_bytes as bs n)"
| "strncmp_bytes _ _ _ = 0"

definition name_diff :: "bytes \<Rightarrow> bytes \<Rightarrow> int" where
  "name_diff a b =
     (let diff = strncmp_bytes a b (min (length a) (length b))
      in if diff = 0 then int (length a) - int (length b) else diff)"

text \<open>The binary search; the result is \<^verbatim>\<open>high\<close> at the end.\<close>

function slot_search :: "ZipEntry list \<Rightarrow> bytes \<Rightarrow> int \<Rightarrow> int \<Rightarrow> int outcome" where
  "slot_search es name low high =
     (if low \<le> high then
        let mid = low + (high - low) div 2
        in if 0 \<le> mid \<and> mid < int (length es) then
             let diff = name_diff (fileName (es ! nat mid)) name
             in if diff < 0 then slot_search es name (mid + 1) high
                else if diff > 0 then slot_search es name low (mid - 1)
                else Ok mid
           else Inl OutOfBounds
      else Ok high)"
  by pat_completeness auto
termination
  by (relation "measure (\<lambda>(es, name, low, high). nat (high - low + 1))") (auto simp: Let_def)

declare slot_search.simps [simp del]

definition insert_entry :: "ZipEntry list \<Rightarrow> ZipEntry \<Rightarrow> ZipEntry list outcome" where
  "insert_entry es e =
     (if es = [] then Ok [e]
      else then_do (slot_search es (fileName e) 0 (int (length es) - 1)) (\<lambda>high.
        let target = nat (high + 1)
        in then_do (c_assert (target \<le> length es)) (\<lambda>_. Ok (take target es @ e # drop target es))))"

section \<open>Parsing\<close>

text \<open>What comes from outside: \<^verbatim>\<open>safe_add\<close> of \<^verbatim>\<open>safe_iop\<close> (whether a sum does not overflow), the
  address of the map, and which allocations succeed.\<close>

record zip_env =
  env_safe_add :: "int \<Rightarrow> int \<Rightarrow> bool"
  env_addr :: int
  env_entries_ok :: bool
  env_hash_ok :: bool
  env_calloc :: "int \<Rightarrow> bool"

record ZipArchive =
  za_file :: bytes
  za_entries :: "ZipEntry list"
  za_hash :: "(zip_ptr, unit) HashTable"

text \<open>The backward scan for the end of central directory.\<close>

function eocd_scan :: "bytes \<Rightarrow> int \<Rightarrow> int option outcome" where
  "eocd_scan m p =
     (if p \<ge> 0 then
        then_do (byte_at m p) (\<lambda>b.
        then_do (if b = 0x50 then then_do (get4LE m p) (\<lambda>v. Ok (v = ENDSIG)) else Ok False) (\<lambda>found.
          if found then Ok (Some p) else eocd_scan m (p - 1)))
      else Ok None)"
  by pat_completeness auto
termination
  by (relation "measure (\<lambda>(m, p). nat (p + 1))") auto

declare eocd_scan.simps [simp del]

text \<open>The fields of the central directory entry at \<^verbatim>\<open>ptr\<close> that are stored as they are.\<close>

definition read_fields :: "bytes \<Rightarrow> int \<Rightarrow> bytes \<Rightarrow> ZipEntry outcome" where
  "read_fields m ptr name =
     then_do (get4LE m (ptr + CENSIZ)) (\<lambda>siz.
     then_do (get4LE m (ptr + CENLEN)) (\<lambda>len.
     then_do (get2LE m (ptr + CENHOW)) (\<lambda>how.
     then_do (get4LE m (ptr + CENTIM)) (\<lambda>tim.
     then_do (get4LE m (ptr + CENCRC)) (\<lambda>crc.
     then_do (get2LE m (ptr + CENVEM)) (\<lambda>vem.
     then_do (get4LE m (ptr + CENATX)) (\<lambda>atx.
       Ok \<lparr> fileName = name, offset = 0, compLen = uint siz, uncompLen = uint len, compression = uint how,
            modTime = uint tim, ze_crc32 = uint crc, versionMadeBy = vem, externalFileAttributes = atx \<rparr>)))))))"

text \<open>The checks on the local header: the entry with its offset, or nothing on \<^verbatim>\<open>bail\<close>.\<close>

definition locate_data :: "zip_env \<Rightarrow> bytes \<Rightarrow> u32 \<Rightarrow> ZipEntry \<Rightarrow> ZipEntry option outcome" where
  "locate_data env m localHdrOffset e =
     (let localHdr = uint localHdrOffset
      in if \<not> env_safe_add env (env_addr env) localHdr then Ok None
         else if localHdr + LOCHDR > int (length m) then Ok None
         else then_do (get4LE m localHdr) (\<lambda>sig.
           if sig \<noteq> LOCSIG then Ok None
           else then_do (get2LE m (localHdr + LOCNAM)) (\<lambda>nam.
                then_do (get2LE m (localHdr + LOCEXT)) (\<lambda>ext.
                  let off = uint (localHdrOffset + word_of_int LOCHDR + ucast nam + ucast ext)
                  in if \<not> env_safe_add env off (compLen e) then Ok None
                     else if off + compLen e > int (length m) then Ok None
                     else Ok (Some (e\<lparr> offset := off \<rparr>))))))"

definition vem_ok :: "16 word \<Rightarrow> bool" where
  "vem_ok v \<longleftrightarrow> v AND 0xff00 = 0 \<or> v AND 0xff00 = CENVEM_UNIX"

text \<open>One central directory entry: the entry and where the next one starts.\<close>

definition parse_entry :: "zip_env \<Rightarrow> bytes \<Rightarrow> int \<Rightarrow> (ZipEntry \<times> int) option outcome" where
  "parse_entry env m ptr =
     (if ptr + CENHDR > int (length m) then Ok None
      else then_do (get4LE m ptr) (\<lambda>sig.
        if sig \<noteq> CENSIG then Ok None
        else
          then_do (get4LE m (ptr + CENOFF)) (\<lambda>localHdrOffset.
          then_do (get2LE m (ptr + CENNAM)) (\<lambda>fileNameLen.
          then_do (get2LE m (ptr + CENEXT)) (\<lambda>extraLen.
          then_do (get2LE m (ptr + CENCOM)) (\<lambda>commentLen.
            if ptr + CENHDR + uint fileNameLen > int (length m) then Ok None
            else
              let name = take (unat fileNameLen) (drop (nat (ptr + CENHDR)) m)
              in if \<not> validFilename name then Ok None
                 else then_do (read_fields m ptr name) (\<lambda>e.
                   if \<not> vem_ok (versionMadeBy e) then Ok None
                   else then_do (locate_data env m localHdrOffset e) (\<lambda>r. Ok (map_option
                     (\<lambda>e. (e, ptr + (CENHDR + uint fileNameLen + uint extraLen + uint commentLen))) r)))))))))"

fun parse_entries :: "zip_env \<Rightarrow> bytes \<Rightarrow> nat \<Rightarrow> int \<Rightarrow> ZipEntry list \<Rightarrow> ZipEntry list option outcome" where
  "parse_entries env m 0 ptr es = Ok (Some es)"
| "parse_entries env m (Suc n) ptr es =
     then_do (parse_entry env m ptr) (\<lambda>r. case r of
       None \<Rightarrow> Ok None
     | Some (e, ptr') \<Rightarrow> then_do (insert_entry es e) (\<lambda>es'. parse_entries env m n ptr' es'))"

definition parseZipArchive :: "zip_env \<Rightarrow> bytes \<Rightarrow> ZipArchive option outcome" where
  "parseZipArchive env m =
     then_do (get4LE m 0) (\<lambda>val.
       if val = ENDSIG \<or> val \<noteq> LOCSIG then Ok None
       else then_do (eocd_scan m (int (length m) - ENDHDR)) (\<lambda>r. case r of
         None \<Rightarrow> Ok None
       | Some ptr \<Rightarrow>
           then_do (get2LE m (ptr + ENDSUB)) (\<lambda>numEntries.
           then_do (get4LE m (ptr + ENDOFF)) (\<lambda>cdOffset.
             if numEntries = 0 \<or> uint cdOffset \<ge> int (length m) then Ok None
             else then_do (mzHashTableCreate (env_hash_ok env) (env_calloc env) (mzHashSize (ucast numEntries)) None) (\<lambda>h.
               case h of
                 None \<Rightarrow> Ok None
               | Some t \<Rightarrow>
                   if \<not> env_entries_ok env then Ok None
                   else then_do (parse_entries env m (unat numEntries) (uint cdOffset) []) (\<lambda>r. case r of
                     None \<Rightarrow> Ok None
                   | Some es \<Rightarrow>
                       then_do (add_all (env_calloc env) es [0 ..< length es] t) (\<lambda>t.
                         Ok (Some \<lparr> za_file = m, za_entries = es, za_hash = t \<rparr>))))))))"

text \<open>\<^verbatim>\<open>mzOpenZipArchive\<close>: the argument is what \<^verbatim>\<open>open\<close> and \<^verbatim>\<open>sysMapFileInShmem\<close> gave, an
  \<^verbatim>\<open>errno\<close>, a failed map or the contents.\<close>

definition mzOpenZipArchive :: "zip_env \<Rightarrow> int + bytes option \<Rightarrow> (int \<times> ZipArchive option) outcome" where
  "mzOpenZipArchive env file =
     (case file of
        Inl err \<Rightarrow> Ok (if err \<noteq> 0 then err else -1, None)
      | Inr None \<Rightarrow> Ok (-1, None)
      | Inr (Some m) \<Rightarrow>
          if int (length m) < ENDHDR then Ok (-1, None)
          else then_do (parseZipArchive env m) (\<lambda>r. Ok (if r = None then -1 else 0, r)))"

definition mzFindZipEntry :: "(int \<Rightarrow> bool) \<Rightarrow> ZipArchive \<Rightarrow> bytes \<Rightarrow> ZipEntry option outcome" where
  "mzFindZipEntry calloc_ok za entryName =
     (let es = za_entries za
      in then_do (mzHashTableLookup calloc_ok (za_hash za) (computeHash (takeWhile (\<lambda>c. c \<noteq> 0) entryName))
                    (Item (NamePtr entryName)) (hashcmpZipName es) False) (\<lambda>(r, t).
           Ok (case r of Item (EntryPtr i) \<Rightarrow> if i < length es then Some (es ! i) else None | _ \<Rightarrow> None)))"

definition mzIsZipEntrySymlink :: "ZipEntry \<Rightarrow> bool" where
  "mzIsZipEntrySymlink e \<longleftrightarrow>
     versionMadeBy e AND 0xff00 = CENVEM_UNIX \<and>
     drop_bit 16 (externalFileAttributes e) AND 0xf000 = 0xa000"

section \<open>The order of names\<close>

lemma uint_eq_iff [simp]: "uint (x :: u8) = uint y \<longleftrightarrow> x = y"
  by (simp add: word_uint_eq_iff)

definition nul_free_bytes :: "bytes \<Rightarrow> bool" where
  "nul_free_bytes name \<longleftrightarrow> 0 \<notin> set name"

lemma name_diff_simps:
  "name_diff [] b = - int (length b)"
  "name_diff a [] = int (length a)"
  "x \<noteq> 0 \<Longrightarrow> name_diff (x # a) (y # b) = (if x \<noteq> y then uint x - uint y else name_diff a b)"
  by (auto simp: name_diff_def Let_def uint_0_iff)

lemma name_diff_self [simp]: "nul_free_bytes a \<Longrightarrow> name_diff a a = 0"
  by (induction a) (auto simp: name_diff_simps nul_free_bytes_def)

lemma name_diff_swap: "nul_free_bytes a \<Longrightarrow> nul_free_bytes b \<Longrightarrow> name_diff b a = - name_diff a b"
proof (induction a arbitrary: b)
  case (Cons x a)
  then show ?case by (cases b) (auto simp: name_diff_simps nul_free_bytes_def)
qed (simp add: name_diff_simps)

lemma name_diff_eq_0: "nul_free_bytes a \<Longrightarrow> nul_free_bytes b \<Longrightarrow> name_diff a b = 0 \<longleftrightarrow> a = b"
proof (induction a arbitrary: b)
  case (Cons x a)
  then show ?case by (cases b) (auto simp: name_diff_simps nul_free_bytes_def)
qed (auto simp: name_diff_simps)

lemma name_diff_trans:
  "\<lbrakk>nul_free_bytes a; nul_free_bytes b; nul_free_bytes c; name_diff a b \<le> 0; name_diff b c \<le> 0\<rbrakk> \<Longrightarrow> name_diff a c \<le> 0"
proof (induction a arbitrary: b c)
  case (Cons x a)
  obtain y b' where b: "b = y # b'" using Cons.prems(4) by (cases b) (auto simp: name_diff_simps)
  obtain z c' where c: "c = z # c'" using Cons.prems(5) b by (cases c) (auto simp: name_diff_simps)
  have nz: "x \<noteq> 0" "y \<noteq> 0" using Cons.prems b by (auto simp: nul_free_bytes_def)
  have "name_diff a c' \<le> 0" if "x = y" "y = z"
    using Cons.IH[of b' c'] Cons.prems b c that nz by (auto simp: name_diff_simps nul_free_bytes_def)
  then show ?case using Cons.prems(4,5) b c nz by (auto simp: name_diff_simps split: if_splits)
qed (simp add: name_diff_simps)

definition sorted_entries :: "ZipEntry list \<Rightarrow> bool" where
  "sorted_entries es \<longleftrightarrow> sorted_wrt (\<lambda>a b. name_diff (fileName a) (fileName b) \<le> 0) es \<and>
     list_all (\<lambda>e. nul_free_bytes (fileName e)) es"

lemma sorted_entries_le:
  "\<lbrakk>sorted_entries es; i \<le> j; j < length es\<rbrakk> \<Longrightarrow> name_diff (fileName (es ! i)) (fileName (es ! j)) \<le> 0"
  by (cases "i = j") (auto simp: sorted_entries_def sorted_wrt_iff_nth_less list_all_length)

lemma slot_search_ok:
  assumes s: "sorted_entries es" and nf: "nul_free_bytes name"
  shows "\<lbrakk>0 \<le> low; high < int (length es); low \<le> high + 1;
      \<forall>i < length es. int i < low \<longrightarrow> name_diff (fileName (es ! i)) name \<le> 0;
      \<forall>i < length es. int i > high \<longrightarrow> name_diff (fileName (es ! i)) name \<ge> 0\<rbrakk> \<Longrightarrow>
    \<exists>r. slot_search es name low high = Ok r \<and> -1 \<le> r \<and> r < int (length es) \<and>
      (\<forall>i < length es. int i \<le> r \<longrightarrow> name_diff (fileName (es ! i)) name \<le> 0) \<and>
      (\<forall>i < length es. int i > r \<longrightarrow> name_diff (fileName (es ! i)) name \<ge> 0)"
proof (induction "nat (high - low + 1)" arbitrary: low high rule: less_induct)
  case less
  show ?case
  proof (cases "low \<le> high")
    case False
    then have "low = high + 1" using less.prems by simp
    then show ?thesis using less.prems by (subst slot_search.simps) auto
  next
    case True
    define mid where "mid = low + (high - low) div 2"
    have m: "low \<le> mid" "mid \<le> high" "mid < int (length es)" "0 \<le> mid" using True less.prems by (auto simp: mid_def)
    define e where "e = fileName (es ! nat mid)"
    have ne: "nul_free_bytes (fileName (es ! i))" if "i < length es" for i
      using s that by (simp add: sorted_entries_def list_all_length)
    have below: "name_diff (fileName (es ! i)) name \<le> 0" if "i < length es" "int i \<le> mid" "name_diff e name \<le> 0" for i
      using name_diff_trans[OF ne ne nf, of i "nat mid"] sorted_entries_le[OF s, of i "nat mid"] that m by (simp add: e_def nat_le_iff le_nat_iff)
    have above: "name_diff (fileName (es ! i)) name \<ge> 0" if "i < length es" "mid \<le> int i" "name_diff e name \<ge> 0" for i
    proof -
      have "name_diff name e \<le> 0" using name_diff_swap[OF ne nf, of "nat mid"] that m by (simp add: e_def)
      moreover have "name_diff e (fileName (es ! i)) \<le> 0" using sorted_entries_le[OF s, of "nat mid" i] that m by (simp add: e_def)
      ultimately have "name_diff name (fileName (es ! i)) \<le> 0"
        using name_diff_trans[OF nf, of e "fileName (es ! i)"] ne[of "nat mid"] ne[OF that(1)] m by (simp add: e_def)
      then show ?thesis using name_diff_swap[OF ne[OF that(1)] nf] by simp
    qed
    have step: "slot_search es name low high =
       (if name_diff e name < 0 then slot_search es name (mid + 1) high
        else if name_diff e name > 0 then slot_search es name low (mid - 1) else Ok mid)"
      using True m by (subst slot_search.simps) (simp add: Let_def e_def flip: mid_def)
    consider "name_diff e name < 0" | "name_diff e name > 0" | "name_diff e name = 0" by linarith
    then show ?thesis
    proof cases
      case 1
      have "\<exists>r. slot_search es name (mid + 1) high = Ok r \<and> -1 \<le> r \<and> r < int (length es) \<and>
        (\<forall>i < length es. int i \<le> r \<longrightarrow> name_diff (fileName (es ! i)) name \<le> 0) \<and>
        (\<forall>i < length es. int i > r \<longrightarrow> name_diff (fileName (es ! i)) name \<ge> 0)"
        by (rule less.hyps) (use m less.prems below 1 in auto)
      then show ?thesis using step 1 by simp
    next
      case 2
      have "\<exists>r. slot_search es name low (mid - 1) = Ok r \<and> -1 \<le> r \<and> r < int (length es) \<and>
        (\<forall>i < length es. int i \<le> r \<longrightarrow> name_diff (fileName (es ! i)) name \<le> 0) \<and>
        (\<forall>i < length es. int i > r \<longrightarrow> name_diff (fileName (es ! i)) name \<ge> 0)"
        by (rule less.hyps) (use m less.prems above 2 in auto)
      then show ?thesis using step 2 by simp
    next
      case 3
      then show ?thesis using step m below above by auto
    qed
  qed
qed

lemma insert_entry_ok:
  assumes s: "sorted_entries es" and nf: "nul_free_bytes (fileName e)"
  shows "\<exists>es'. insert_entry es e = Ok es' \<and> sorted_entries es' \<and> mset es' = add_mset e (mset es)"
proof (cases "es = []")
  case True
  then show ?thesis using nf by (simp add: insert_entry_def sorted_entries_def)
next
  case False
  obtain r where r: "slot_search es (fileName e) 0 (int (length es) - 1) = Ok r" "-1 \<le> r" "r < int (length es)"
    "\<forall>i < length es. int i \<le> r \<longrightarrow> name_diff (fileName (es ! i)) (fileName e) \<le> 0"
    "\<forall>i < length es. int i > r \<longrightarrow> name_diff (fileName (es ! i)) (fileName e) \<ge> 0"
    using slot_search_ok[OF s nf, of 0 "int (length es) - 1"] by auto
  define t where "t = nat (r + 1)"
  have t: "t \<le> length es" using r by (auto simp: t_def)
  have ins: "insert_entry es e = Ok (take t es @ e # drop t es)"
    using False r(1) t by (simp add: insert_entry_def Let_def t_def)
  have lo: "name_diff (fileName x) (fileName e) \<le> 0" if "x \<in> set (take t es)" for x
    using that r(4) t by (auto simp: in_set_conv_nth t_def)
  have hi: "name_diff (fileName e) (fileName x) \<le> 0" if x: "x \<in> set (drop t es)" for x
  proof -
    obtain k where k: "k < length es - t" "x = es ! (t + k)" using x by (auto simp: in_set_conv_nth)
    then have i: "t + k < length es" "int (t + k) > r" "x = es ! (t + k)" by (auto simp: t_def)
    then show ?thesis using r(5) name_diff_swap[OF _ nf, of "fileName x"] s by (auto simp: sorted_entries_def list_all_length)
  qed
  have "sorted_entries (take t es @ e # drop t es)"
    using s lo hi nf by (auto simp: sorted_entries_def sorted_wrt_append list_all_iff sorted_wrt_take sorted_wrt_drop
        dest: in_set_takeD in_set_dropD)
      (metis append_take_drop_id sorted_wrt_append)
  moreover have "mset (take t es @ e # drop t es) = add_mset e (mset es)"
    by (metis append_take_drop_id mset.simps(2) mset_append union_mset_add_mset_right)
  ultimately show ?thesis using ins by blast
qed

section \<open>Parsing is memory safe\<close>

lemma byte_at_ok [simp]: "\<lbrakk>0 \<le> p; p < int (length m)\<rbrakk> \<Longrightarrow> byte_at m p = Ok (m ! nat p)"
  by (simp add: byte_at_def)

lemma get2LE_ok: "\<lbrakk>0 \<le> p; p + 2 \<le> int (length m)\<rbrakk> \<Longrightarrow> \<exists>v. get2LE m p = Ok v"
  by (simp add: get2LE_def)

lemma get4LE_ok: "\<lbrakk>0 \<le> p; p + 4 \<le> int (length m)\<rbrakk> \<Longrightarrow> \<exists>v. get4LE m p = Ok v"
  by (simp add: get4LE_def)

lemma eocd_scan_ok:
  "p + 4 \<le> int (length m) \<Longrightarrow> \<exists>r. eocd_scan m p = Ok r \<and> (\<forall>q. r = Some q \<longrightarrow> 0 \<le> q \<and> q \<le> p)"
proof (induction "nat (p + 1)" arbitrary: p rule: less_induct)
  case less
  show ?case
  proof (cases "p \<ge> 0")
    case False
    then show ?thesis by (subst eocd_scan.simps) simp
  next
    case True
    obtain v where v: "get4LE m p = Ok v" using get4LE_ok[OF True less.prems] by blast
    define found where "found \<longleftrightarrow> m ! nat p = 0x50 \<and> v = ENDSIG"
    have e: "eocd_scan m p = (if found then Ok (Some p) else eocd_scan m (p - 1))"
      using True less.prems v by (subst eocd_scan.simps) (simp add: found_def)
    show ?thesis
    proof (cases found)
      case False
      have "\<exists>r. eocd_scan m (p - 1) = Ok r \<and> (\<forall>q. r = Some q \<longrightarrow> 0 \<le> q \<and> q \<le> p - 1)"
        by (rule less.hyps) (use True less.prems in auto)
      then show ?thesis using e False by auto
    qed (use e True in simp)
  qed
qed

text \<open>What parsing promises of an entry: its data and its name lie inside the file.\<close>

definition entry_ok :: "bytes \<Rightarrow> ZipEntry \<Rightarrow> bool" where
  "entry_ok m e \<longleftrightarrow> validFilename (fileName e) \<and> 0 \<le> offset e \<and> 0 \<le> compLen e \<and> 0 \<le> uncompLen e \<and>
     offset e + compLen e \<le> int (length m) \<and> vem_ok (versionMadeBy e)"

lemma valid_nul_free: "validFilename n \<Longrightarrow> nul_free_bytes n"
  by (auto simp: validFilename_def nul_free_bytes_def list_all_iff)

lemma read_fields_ok:
  assumes "0 \<le> ptr" "ptr + CENHDR \<le> int (length m)"
  shows "\<exists>e. read_fields m ptr name = Ok e \<and> fileName e = name \<and> 0 \<le> compLen e \<and> 0 \<le> uncompLen e"
proof -
  obtain v1 v2 v3 v4 v5 v6 v7 where
    "get4LE m (ptr + CENSIZ) = Ok v1" "get4LE m (ptr + CENLEN) = Ok v2" "get2LE m (ptr + CENHOW) = Ok v3"
    "get4LE m (ptr + CENTIM) = Ok v4" "get4LE m (ptr + CENCRC) = Ok v5" "get2LE m (ptr + CENVEM) = Ok v6"
    "get4LE m (ptr + CENATX) = Ok v7"
    using assms get4LE_ok[of "ptr + CENSIZ" m] get4LE_ok[of "ptr + CENLEN" m] get2LE_ok[of "ptr + CENHOW" m]
      get4LE_ok[of "ptr + CENTIM" m] get4LE_ok[of "ptr + CENCRC" m] get2LE_ok[of "ptr + CENVEM" m] get4LE_ok[of "ptr + CENATX" m]
    by (auto simp: zip_consts)
  then show ?thesis by (simp add: read_fields_def)
qed

lemma locate_data_ok:
  "\<exists>r. locate_data env m ho e = Ok r \<and>
     (\<forall>e'. r = Some e' \<longrightarrow> fileName e' = fileName e \<and> compLen e' = compLen e \<and> uncompLen e' = uncompLen e \<and>
        versionMadeBy e' = versionMadeBy e \<and> 0 \<le> offset e' \<and> offset e' + compLen e \<le> int (length m))"
proof (cases "env_safe_add env (env_addr env) (uint ho) \<and> uint ho + LOCHDR \<le> int (length m)")
  case False
  then show ?thesis by (auto simp: locate_data_def Let_def)
next
  case True
  obtain sig nam ext where "get4LE m (uint ho) = Ok sig" "get2LE m (uint ho + LOCNAM) = Ok nam" "get2LE m (uint ho + LOCEXT) = Ok ext"
    using True get4LE_ok[of "uint ho" m] get2LE_ok[of "uint ho + LOCNAM" m] get2LE_ok[of "uint ho + LOCEXT" m]
    by (auto simp: zip_consts)
  then show ?thesis using True by (auto simp: locate_data_def Let_def)
qed

lemma parse_entry_ok:
  assumes "0 \<le> ptr"
  shows "\<exists>r. parse_entry env m ptr = Ok r \<and> (\<forall>e ptr'. r = Some (e, ptr') \<longrightarrow> entry_ok m e \<and> ptr \<le> ptr')"
proof (cases "ptr + CENHDR \<le> int (length m)")
  case False
  then show ?thesis by (auto simp: parse_entry_def)
next
  case True
  obtain sig o' nl el cl where g: "get4LE m ptr = Ok sig" "get4LE m (ptr + CENOFF) = Ok o'"
    "get2LE m (ptr + CENNAM) = Ok nl" "get2LE m (ptr + CENEXT) = Ok el" "get2LE m (ptr + CENCOM) = Ok cl"
    using assms True get4LE_ok[of ptr m] get4LE_ok[of "ptr + CENOFF" m] get2LE_ok[of "ptr + CENNAM" m]
      get2LE_ok[of "ptr + CENEXT" m] get2LE_ok[of "ptr + CENCOM" m] by (auto simp: zip_consts)
  define name where "name = take (unat nl) (drop (nat (ptr + CENHDR)) m)"
  obtain e where e: "read_fields m ptr name = Ok e" "fileName e = name" "0 \<le> compLen e" "0 \<le> uncompLen e"
    using read_fields_ok[OF assms True, of name] by blast
  obtain r where r: "locate_data env m o' e = Ok r"
    "\<forall>e'. r = Some e' \<longrightarrow> fileName e' = fileName e \<and> compLen e' = compLen e \<and> uncompLen e' = uncompLen e \<and>
        versionMadeBy e' = versionMadeBy e \<and> 0 \<le> offset e' \<and> offset e' + compLen e \<le> int (length m)"
    using locate_data_ok[of env m o' e] by blast
  have eq: "parse_entry env m ptr =
     (if sig \<noteq> CENSIG \<or> ptr + CENHDR + uint nl > int (length m) \<or> \<not> validFilename name \<or> \<not> vem_ok (versionMadeBy e)
      then Ok None else Ok (map_option (\<lambda>e. (e, ptr + (CENHDR + uint nl + uint el + uint cl))) r))"
    unfolding parse_entry_def Let_def using True g e(1) r(1) by (simp flip: name_def)
  have "0 \<le> CENHDR + uint nl + uint el + uint cl" by (simp add: CENHDR_def)
  then have next_ge: "ptr \<le> ptr + (CENHDR + uint nl + uint el + uint cl)" by simp
  show ?thesis
  proof (cases r)
    case None
    then show ?thesis by (simp add: eq)
  next
    case (Some a)
    then have a: "fileName a = name" "compLen a = compLen e" "uncompLen a = uncompLen e" "versionMadeBy a = versionMadeBy e"
      "0 \<le> offset a" "offset a + compLen e \<le> int (length m)" using r(2) e(2) by simp_all
    have "entry_ok m a" if "validFilename name" "vem_ok (versionMadeBy e)"
      using a e(3,4) that by (simp add: entry_ok_def)
    then show ?thesis using Some next_ge by (simp add: eq)
  qed
qed

lemma parse_entries_ok:
  assumes "0 \<le> ptr" "sorted_entries es" "list_all (entry_ok m) es"
  shows "\<exists>r. parse_entries env m n ptr es = Ok r \<and>
    (\<forall>es'. r = Some es' \<longrightarrow> sorted_entries es' \<and> list_all (entry_ok m) es' \<and> length es' = length es + n)"
  using assms
proof (induction n arbitrary: ptr es)
  case (Suc n)
  obtain r where r: "parse_entry env m ptr = Ok r" "\<forall>e ptr'. r = Some (e, ptr') \<longrightarrow> entry_ok m e \<and> ptr \<le> ptr'"
    using parse_entry_ok[OF Suc.prems(1)] by blast
  show ?case
  proof (cases r)
    case None
    then show ?thesis using r by simp
  next
    case (Some x)
    obtain e ptr' where x: "x = (e, ptr')" by force
    have e: "entry_ok m e" "0 \<le> ptr'" using r Some x Suc.prems(1) by auto
    then have nf: "nul_free_bytes (fileName e)" by (simp add: entry_ok_def valid_nul_free)
    obtain es1 where i: "insert_entry es e = Ok es1" "sorted_entries es1" "mset es1 = add_mset e (mset es)"
      using insert_entry_ok[OF Suc.prems(2) nf] by blast
    have "set es1 = insert e (set es)" "length es1 = Suc (length es)"
      using i(3) by (metis set_mset_add_mset_insert set_mset_mset) (metis i(3) size_add_mset size_mset)
    then have "list_all (entry_ok m) es1" "length es1 = Suc (length es)" using Suc.prems(3) e(1) by (auto simp: list_all_iff)
    from Suc.IH[OF e(2) i(2) this(1)] this(2) show ?thesis using r Some x i(1) by auto
  qed
qed simp

section \<open>The hash table of an archive\<close>

lemma mem_diff_eq_0: "length a = length b \<Longrightarrow> mem_diff a b = 0 \<longleftrightarrow> a = b"
  by (induction a b rule: list_induct2) auto

lemma hashcmpZipEntry_eq_0: "hashcmpZipEntry es p q = 0 \<longleftrightarrow> name_of es p = name_of es q"
  by (auto simp: hashcmpZipEntry_def mem_diff_eq_0)

lemma hashcmpZipName_eq_0: "hashcmpZipName es p q = 0 \<longleftrightarrow> name_of es p = takeWhile (\<lambda>c. c \<noteq> 0) (name_of es q)"
  by (auto simp: hashcmpZipName_def Let_def mem_diff_eq_0)

lemma lookup_add_room:
  assumes "lookup_add calloc_ok t i h x = Ok (r, t')" "(numEntries t + 1 + numDeadEntries t) * 8 \<le> tableSize t * 5"
  shows "tableSize t' = tableSize t \<and> numEntries t' = numEntries t + 1 \<and> numDeadEntries t' = numDeadEntries t"
  using assms by (auto simp: lookup_add_def Let_def c_int_Ok_iff elim!: then_do_Ok_E)

text \<open>\<^verbatim>\<open>n\<close> entries fit into the table; \<^verbatim>\<open>k\<close> were added at most.\<close>

definition table_room :: "nat \<Rightarrow> nat \<Rightarrow> (zip_ptr, unit) HashTable \<Rightarrow> bool" where
  "table_room n k t \<longleftrightarrow> hash_wf t \<and> numDeadEntries t = 0 \<and> numEntries t \<le> int k \<and>
     int n * 8 \<le> tableSize t * 5 \<and> tableSize t \<le> 2 ^ 28"

definition only_entries :: "ZipEntry list \<Rightarrow> (zip_ptr, unit) HashTable \<Rightarrow> bool" where
  "only_entries es t \<longleftrightarrow> (\<forall>h p. (h, p) \<in># contents t \<longrightarrow> (\<exists>j < length es. p = EntryPtr j \<and> h = computeHash (fileName (es ! j))))"

definition has_name :: "ZipEntry list \<Rightarrow> (zip_ptr, unit) HashTable \<Rightarrow> bytes \<Rightarrow> bool" where
  "has_name es t name \<longleftrightarrow> (\<exists>j < length es. fileName (es ! j) = name \<and> (computeHash name, EntryPtr j) \<in># contents t)"

lemma addEntry_ok:
  assumes "table_room n k t" "k < n" "\<And>n. calloc_ok n" "i < length es" "only_entries es t"
  shows "\<exists>t'. addEntryToHashTable calloc_ok es t i = Ok t' \<and> table_room n (Suc k) t' \<and> only_entries es t' \<and>
    has_name es t' (fileName (es ! i)) \<and> (\<forall>x. has_name es t x \<longrightarrow> has_name es t' x)"
proof -
  let ?h = "computeHash (fileName (es ! i))" and ?x = "EntryPtr i"
  have nm: "name_of es ?x = fileName (es ! i)" using assms(4) by (simp add: name_of_def)
  have wf: "hash_wf t" using assms(1) by (simp add: table_room_def)
  show ?thesis
  proof (rule lookup_hit_or_null[OF wf, of ?h "hashcmpZipEntry es" ?x calloc_ok True])
    fix y assume hit: "(?h, y) \<in># contents t" "hashcmpZipEntry es y ?x = 0"
      "mzHashTableLookup calloc_ok t ?h (Item ?x) (hashcmpZipEntry es) True = Ok (Item y, t)"
    obtain j where j: "j < length es" "y = EntryPtr j" using hit(1) assms(5) by (auto simp: only_entries_def)
    then have "fileName (es ! j) = fileName (es ! i)"
      using hit(2) nm by (simp add: hashcmpZipEntry_eq_0) (simp add: name_of_def)
    then have "has_name es t (fileName (es ! i))" using j hit(1) by (auto simp: has_name_def)
    then show ?thesis using hit(3) nm assms(1,5) by (auto simp: addEntryToHashTable_def table_room_def)
  next
    fix s assume miss: "\<And>y. (?h, y) \<in># contents t \<Longrightarrow> hashcmpZipEntry es y ?x \<noteq> 0"
      "s < length (pEntries t)" "is_Null (data (pEntries t ! s))" "reach (pEntries t) ?h s"
      "mzHashTableLookup calloc_ok t ?h (Item ?x) (hashcmpZipEntry es) True =
        (if True then lookup_add calloc_ok t s ?h ?x else Ok (Null, t))"
    have g: "can_grow t" using assms(1) by (simp add: table_room_def can_grow_def)
    obtain t' where t': "lookup_add calloc_ok t s ?h ?x = Ok (Item ?x, t')" "hash_wf t'"
      "contents t' = add_mset (?h, ?x) (contents t)"
      using lookup_add_wf[where calloc_ok = calloc_ok and x = ?x, OF wf g _ miss(2-4)] assms(3) by blast
    have "(numEntries t + 1 + numDeadEntries t) * 8 \<le> tableSize t * 5"
      using assms(1,2) by (simp add: table_room_def)
    from lookup_add_room[OF t'(1) this] have room: "table_room n (Suc k) t'"
      using assms(1) t'(2) by (simp add: table_room_def)
    have "only_entries es t'" using assms(4,5) t'(3) by (auto simp: only_entries_def)
    moreover have "has_name es t' (fileName (es ! i))" using assms(4) t'(3) by (auto simp: has_name_def)
    moreover have "\<forall>x. has_name es t x \<longrightarrow> has_name es t' x" using t'(3) by (auto simp: has_name_def)
    ultimately show ?thesis using miss(5) t'(1) room nm by (auto simp: addEntryToHashTable_def)
  qed
qed

lemma add_all_ok:
  assumes "table_room n k t" "k + length is \<le> n" "\<And>n. calloc_ok n" "\<forall>i \<in> set is. i < length es" "only_entries es t"
  shows "\<exists>t'. add_all calloc_ok es is t = Ok t' \<and> table_room n (k + length is) t' \<and> only_entries es t' \<and>
    (\<forall>i \<in> set is. has_name es t' (fileName (es ! i))) \<and> (\<forall>x. has_name es t x \<longrightarrow> has_name es t' x)"
  using assms(1,2,4,5)
proof (induction "is" arbitrary: t k)
  case (Cons i js)
  obtain t1 where t1: "addEntryToHashTable calloc_ok es t i = Ok t1" "table_room n (Suc k) t1" "only_entries es t1"
    "has_name es t1 (fileName (es ! i))" "\<forall>x. has_name es t x \<longrightarrow> has_name es t1 x"
    using addEntry_ok[where calloc_ok = calloc_ok and i = i, OF Cons.prems(1) _ _ _ Cons.prems(4)] Cons.prems assms(3) by auto
  show ?case using Cons.IH[OF t1(2) _ _ t1(3)] Cons.prems t1 by auto
qed simp

text \<open>The result of a successful parse.\<close>

definition archive_ok :: "bytes \<Rightarrow> ZipArchive \<Rightarrow> bool" where
  "archive_ok m za \<longleftrightarrow> za_file za = m \<and> za_entries za \<noteq> [] \<and> sorted_entries (za_entries za) \<and>
     list_all (entry_ok m) (za_entries za) \<and> hash_wf (za_hash za) \<and> only_entries (za_entries za) (za_hash za) \<and>
     (\<forall>e \<in> set (za_entries za). has_name (za_entries za) (za_hash za) (fileName e))"

lemma zip_table_size:
  fixes n :: "16 word"
  shows "unat (mzHashSize (ucast n)) = unat n * 8 div 5 + 1" and "unat n < 65536"
proof -
  show l: "unat n < 65536" using unsigned_less[of n] by simp
  then have n: "unat (ucast n :: u64) = unat n" by (simp add: unsigned_ucast_eq take_bit_nat_eq_self)
  have "unat ((ucast n :: u64) * 8) = unat n * 8" using n l by (simp add: unat_word_ariths)
  then have "unat ((ucast n :: u64) * 8 div 5) = unat n * 8 div 5" by (simp add: unat_div)
  then show "unat (mzHashSize (ucast n)) = unat n * 8 div 5 + 1" using l by (simp add: mzHashSize_def unat_word_ariths)
qed

lemma create_ok:
  assumes "\<And>n. calloc_ok n"
  shows "\<exists>h. mzHashTableCreate ok calloc_ok (mzHashSize (ucast (n :: 16 word))) None = Ok h \<and>
    (\<forall>t :: (zip_ptr, unit) HashTable. h = Some t \<longrightarrow> table_room (unat n) 0 t \<and> contents t = {#})"
proof (cases ok)
  case False
  have "0 < mzHashSize (ucast n)" using zip_table_size(1)[of n] by (simp add: word_less_nat_alt)
  then show ?thesis using False by (simp add: mzHashTableCreate_def)
next
  case True
  let ?s = "mzHashSize (ucast n)"
  have b: "0 < unat ?s" "unat ?s \<le> 2 ^ 30" using zip_table_size[of n] by auto
  then obtain t where t: "mzHashTableCreate ok calloc_ok ?s (None :: (zip_ptr \<Rightarrow> unit \<Rightarrow> unit) option) = Ok (Some t)"
    "hash_wf t" "contents t = {#}" "int (unat ?s) \<le> tableSize t" "tableSize t < 2 * int (unat ?s)"
    using mzHashTableCreate_wf[of ?s calloc_ok "None :: (zip_ptr \<Rightarrow> unit \<Rightarrow> unit) option"] True assms by auto
  have "numEntries t = 0" "numDeadEntries t = 0"
    using t(1) by (auto simp: mzHashTableCreate_def Let_def elim!: then_do_Ok_E split: if_split_asm)
  moreover have "int (unat n) * 8 \<le> tableSize t * 5" "tableSize t \<le> 2 ^ 28"
    using t(4,5) zip_table_size[of n] by (linarith, simp)
  ultimately show ?thesis using t by (simp add: table_room_def)
qed

section \<open>Properties of the parser\<close>

lemma parse_table_ok:
  assumes "\<And>n. env_calloc env n" "nn \<noteq> (0 :: 16 word)" "0 \<le> ptr"
  shows "\<exists>r. then_do (mzHashTableCreate (env_hash_ok env) (env_calloc env) (mzHashSize (ucast nn)) None) (\<lambda>h.
      case h of
        None \<Rightarrow> Ok None
      | Some t \<Rightarrow>
          if \<not> env_entries_ok env then Ok None
          else then_do (parse_entries env m (unat nn) ptr []) (\<lambda>r. case r of
            None \<Rightarrow> Ok None
          | Some es \<Rightarrow>
              then_do (add_all (env_calloc env) es [0 ..< length es] t) (\<lambda>t.
                Ok (Some \<lparr> za_file = m, za_entries = es, za_hash = t \<rparr>)))) = Ok r \<and>
    (\<forall>za. r = Some za \<longrightarrow> archive_ok m za)"
proof -
  obtain h where h: "mzHashTableCreate (env_hash_ok env) (env_calloc env) (mzHashSize (ucast nn)) None = Ok h"
    "\<And>t :: (zip_ptr, unit) HashTable. h = Some t \<Longrightarrow> table_room (unat nn) 0 t \<and> contents t = {#}"
    using create_ok[of "env_calloc env" "env_hash_ok env" nn] assms(1) by blast
  obtain r where r: "parse_entries env m (unat nn) ptr [] = Ok r"
    "\<And>es. r = Some es \<Longrightarrow> sorted_entries es \<and> list_all (entry_ok m) es \<and> length es = unat nn"
    using parse_entries_ok[OF assms(3), of "[]" m env "unat nn"] by (auto simp: sorted_entries_def)
  show ?thesis
  proof (cases h)
    case (Some t)
    note t = h(2)[OF Some]
    show ?thesis
    proof (cases r)
      case (Some es)
      note es = r(2)[OF Some]
      obtain t' where t': "add_all (env_calloc env) es [0 ..< length es] t = Ok t'" "table_room (unat nn) (length es) t'"
        "only_entries es t'" "\<forall>i < length es. has_name es t' (fileName (es ! i))"
        using add_all_ok[of "unat nn" 0 t "[0 ..< length es]" "env_calloc env" es] t es assms(1)
        by (auto simp: only_entries_def)
      have "archive_ok m \<lparr> za_file = m, za_entries = es, za_hash = t' \<rparr>"
        using es t'(2-) assms(2) unat_gt_0[of nn]
        by (auto simp: archive_ok_def table_room_def in_set_conv_nth)
      then show ?thesis using h(1) r(1) \<open>h = Some t\<close> Some t'(1) by auto
    qed (use h(1) r(1) Some in auto)
  qed (use h(1) in auto)
qed

lemma parse_sound:
  assumes "22 \<le> length m" "\<And>n. env_calloc env n"
  shows "\<exists>r. parseZipArchive env m = Ok r \<and> (\<forall>za. r = Some za \<longrightarrow> archive_ok m za)"
proof -
  obtain val where val: "get4LE m 0 = Ok val" using get4LE_ok[of 0 m] assms(1) by auto
  obtain r where r: "eocd_scan m (int (length m) - ENDHDR) = Ok r"
    "\<And>q. r = Some q \<Longrightarrow> 0 \<le> q \<and> q \<le> int (length m) - ENDHDR"
    using eocd_scan_ok[of "int (length m) - ENDHDR" m] by (auto simp: ENDHDR_def)
  show ?thesis
  proof (cases r)
    case None
    then show ?thesis using val r(1) by (auto simp: parseZipArchive_def)
  next
    case (Some q)
    obtain n o' where n: "get2LE m (q + ENDSUB) = Ok n" "get4LE m (q + ENDOFF) = Ok o'"
      using r(2)[OF Some] get2LE_ok[of "q + ENDSUB" m] get4LE_ok[of "q + ENDOFF" m] by (auto simp: zip_consts)
    show ?thesis
    proof (cases "val = ENDSIG \<or> val \<noteq> LOCSIG \<or> n = 0 \<or> uint o' \<ge> int (length m)")
      case True
      then show ?thesis using val r(1) Some n by (auto simp: parseZipArchive_def)
    next
      case False
      then have "n \<noteq> 0" by simp
      show ?thesis
        using parse_table_ok[of env n "uint o'" m, OF assms(2) \<open>n \<noteq> 0\<close> uint_ge_0] val r(1) Some n False
        by (simp add: parseZipArchive_def)
    qed
  qed
qed

text \<open>Looking a name up in a parsed archive.\<close>

lemma find_sound:
  assumes "archive_ok m za" "nul_free_bytes name"
  shows "\<exists>r. mzFindZipEntry calloc_ok za name = Ok r \<and>
    (case r of Some e \<Rightarrow> e \<in> set (za_entries za) \<and> fileName e = name
             | None \<Rightarrow> \<forall>e \<in> set (za_entries za). fileName e \<noteq> name)"
proof -
  let ?es = "za_entries za" and ?t = "za_hash za" and ?h = "computeHash name"
  have tw: "takeWhile (\<lambda>c. c \<noteq> 0) name = name" using assms(2) by (auto simp: nul_free_bytes_def takeWhile_eq_all_conv)
  have wf: "hash_wf ?t" and only: "only_entries ?es ?t" using assms(1) by (auto simp: archive_ok_def)
  show ?thesis
  proof (rule lookup_hit_or_null[OF wf, of ?h "hashcmpZipName ?es" "NamePtr name" calloc_ok False])
    fix y assume hit: "(?h, y) \<in># contents ?t" "hashcmpZipName ?es y (NamePtr name) = 0"
      "mzHashTableLookup calloc_ok ?t ?h (Item (NamePtr name)) (hashcmpZipName ?es) False = Ok (Item y, ?t)"
    obtain j where j: "j < length ?es" "y = EntryPtr j" using hit(1) only by (auto simp: only_entries_def)
    then have "fileName (?es ! j) = name" using hit(2) tw by (simp add: hashcmpZipName_eq_0 name_of_def)
    then show ?thesis using hit(3) j unfolding mzFindZipEntry_def tw by (simp add: Let_def)
  next
    fix s assume miss: "\<And>y. (?h, y) \<in># contents ?t \<Longrightarrow> hashcmpZipName ?es y (NamePtr name) \<noteq> 0"
      "mzHashTableLookup calloc_ok ?t ?h (Item (NamePtr name)) (hashcmpZipName ?es) False =
        (if False then lookup_add calloc_ok ?t s ?h (NamePtr name) else Ok (Null, ?t))"
    have "\<not> has_name ?es ?t name"
    proof
      assume "has_name ?es ?t name"
      then obtain j where "j < length ?es" "fileName (?es ! j) = name" "(?h, EntryPtr j) \<in># contents ?t"
        by (auto simp: has_name_def)
      then show False using miss(1)[of "EntryPtr j"] tw by (simp add: hashcmpZipName_eq_0 name_of_def)
    qed
    then have "\<forall>e \<in> set ?es. fileName e \<noteq> name" using assms(1) by (auto simp: archive_ok_def)
    then show ?thesis using miss(2) unfolding mzFindZipEntry_def tw by (simp add: Let_def)
  qed
qed


text \<open>A file with the stored entry \<^verbatim>\<open>a\<close> of two bytes.\<close>

definition demo_zip :: bytes where
  "demo_zip =
     [80, 75, 3, 4, 20, 0, 0, 0, 0, 0, 0, 0, 0, 0, 0, 0, 0, 0, 2, 0, 0, 0, 2, 0, 0, 0, 1, 0, 0, 0, 97, 104, 105] @
     [80, 75, 1, 2, 20, 3, 20, 0, 0, 0, 0, 0, 0, 0, 0, 0, 0, 0, 0, 0, 2, 0, 0, 0, 2, 0, 0, 0, 1, 0, 0, 0, 0, 0, 0, 0, 0, 0, 0, 0, 0, 0, 0, 0, 0, 0, 97] @
     [80, 75, 5, 6, 0, 0, 0, 0, 1, 0, 1, 0, 47, 0, 0, 0, 33, 0, 0, 0, 0, 0]"

definition demo_entry :: ZipEntry where
  "demo_entry = \<lparr> fileName = [97], offset = 31, compLen = 2, uncompLen = 2, compression = 0, modTime = 0,
     ze_crc32 = 0, versionMadeBy = 0x0314, externalFileAttributes = 0 \<rparr>"

definition demo_env :: zip_env where
  "demo_env = \<lparr> env_safe_add = \<lambda>a b. a + b < 2 ^ 64, env_addr = 4096, env_entries_ok = True, env_hash_ok = True,
     env_calloc = \<lambda>_. True \<rparr>"

definition opened_entries :: "(int \<times> ZipArchive option) outcome \<Rightarrow> (int \<times> ZipEntry list option) outcome" where
  "opened_entries r = then_do r (\<lambda>(err, za). Ok (err, map_option za_entries za))"

declare probe.simps [code]

lemma demo_open: "opened_entries (mzOpenZipArchive demo_env (Inr (Some demo_zip))) = Ok (0, Some [demo_entry])"
  by code_simp


section \<open>The central directory\<close>

text \<open>A reference reader: the entries in the order of the directory, none sorted.\<close>

fun directory :: "zip_env \<Rightarrow> bytes \<Rightarrow> nat \<Rightarrow> int \<Rightarrow> ZipEntry list option" where
  "directory env m 0 ptr = Some []"
| "directory env m (Suc n) ptr =
     (case parse_entry env m ptr of
        Ok (Some (e, ptr')) \<Rightarrow> map_option (Cons e) (directory env m n ptr')
      | _ \<Rightarrow> None)"

lemma parse_entries_directory:
  assumes "parse_entries env m n ptr es = Ok (Some es')" "0 \<le> ptr" "sorted_entries es"
  shows "\<exists>ds. directory env m n ptr = Some ds \<and> mset es' = mset es + mset ds"
  using assms
proof (induction n arbitrary: ptr es)
  case (Suc n)
  obtain r where r: "parse_entry env m ptr = Ok r" "\<forall>e ptr'. r = Some (e, ptr') \<longrightarrow> entry_ok m e \<and> ptr \<le> ptr'"
    using parse_entry_ok[OF Suc.prems(2)] by blast
  obtain e ptr' where x: "r = Some (e, ptr')" using r(1) Suc.prems(1) by (cases r) auto
  have e: "nul_free_bytes (fileName e)" "0 \<le> ptr'" using r(2) x Suc.prems(2) by (auto simp: entry_ok_def valid_nul_free)
  obtain es1 where i: "insert_entry es e = Ok es1" "sorted_entries es1" "mset es1 = add_mset e (mset es)"
    using insert_entry_ok[OF Suc.prems(3) e(1)] by blast
  show ?case using Suc.IH[OF _ e(2) i(2)] Suc.prems(1) r(1) x i(1,3) by auto
qed simp

lemma open_archive_ok:
  assumes "mzOpenZipArchive env (Inr (Some m)) = Ok (err, Some za)" "\<And>n. env_calloc env n"
  shows "archive_ok m za"
proof -
  have m: "22 \<le> length m" using assms(1) by (auto simp: mzOpenZipArchive_def ENDHDR_def split: if_split_asm)
  obtain r where "parseZipArchive env m = Ok r" "\<forall>za. r = Some za \<longrightarrow> archive_ok m za"
    using parse_sound[where env = env, OF m] assms(2) by blast
  then show ?thesis using assms(1) by (auto simp: mzOpenZipArchive_def split: if_split_asm)
qed

text \<open>
  C10: opening any file at all is safe: no read leaves the map, no assertion of the hash table
  fails, and the call returns 0 exactly when there is an archive; then its entries are sorted by
  name, every entry has a printable name, a version the code understands and data inside the
  file, and the hash table holds these entries and nothing else.
\<close>

theorem zip_open_safe:
  assumes "\<And>n. env_calloc env n"
  shows "\<exists>err r. mzOpenZipArchive env (Inr (Some m)) = Ok (err, r) \<and> (err = 0 \<longleftrightarrow> r \<noteq> None) \<and>
    (\<forall>za. r = Some za \<longrightarrow> archive_ok m za)"
proof (cases "22 \<le> length m")
  case True
  then show ?thesis using parse_sound[where env = env, OF True] assms by (auto simp: mzOpenZipArchive_def ENDHDR_def)
qed (auto simp: mzOpenZipArchive_def ENDHDR_def)

lemma opened_entries_Ok:
  "opened_entries r = Ok (err, Some es) \<Longrightarrow> \<exists>za. r = Ok (err, Some za) \<and> za_entries za = es"
  by (auto simp: opened_entries_def elim!: then_do_Ok_E)

theorem zip_open_safe_witness:
  "\<exists>err r. mzOpenZipArchive demo_env (Inr (Some demo_zip)) = Ok (err, r) \<and> (err = 0 \<longleftrightarrow> r \<noteq> None) \<and>
    (\<forall>za. r = Some za \<longrightarrow> archive_ok demo_zip za)"
  by (rule zip_open_safe) (simp add: demo_env_def)

text \<open>
  C23: in an archive that was opened, looking up a name returns an entry with exactly that name,
  and nothing only when the archive has no such entry.
\<close>

theorem zip_find_correct:
  assumes "mzOpenZipArchive env (Inr (Some m)) = Ok (err, Some za)" "\<And>n. env_calloc env n" "nul_free_bytes name"
  shows "\<exists>r. mzFindZipEntry calloc_ok za name = Ok r \<and>
    (case r of Some e \<Rightarrow> e \<in> set (za_entries za) \<and> fileName e = name
             | None \<Rightarrow> \<forall>e \<in> set (za_entries za). fileName e \<noteq> name)"
  using find_sound[OF open_archive_ok[of env] assms(3)] assms by blast

theorem zip_find_correct_witness:
  "\<exists>za. mzOpenZipArchive demo_env (Inr (Some demo_zip)) = Ok (0, Some za) \<and>
    mzFindZipEntry (\<lambda>_. True) za [97] = Ok (Some demo_entry) \<and> mzFindZipEntry (\<lambda>_. True) za [98] = Ok None"
proof -
  obtain za where za: "mzOpenZipArchive demo_env (Inr (Some demo_zip)) = Ok (0, Some za)" "za_entries za = [demo_entry]"
    using opened_entries_Ok[OF demo_open] by blast
  note f = zip_find_correct[where calloc_ok = "\<lambda>_. True", OF za(1)]
  have "mzFindZipEntry (\<lambda>_. True) za [97] = Ok (Some demo_entry)"
    using f[of "[97]"] za(2) by (auto simp: demo_env_def nul_free_bytes_def demo_entry_def split: option.splits)
  moreover have "mzFindZipEntry (\<lambda>_. True) za [98] = Ok None"
    using f[of "[98]"] za(2) by (auto simp: demo_env_def nul_free_bytes_def demo_entry_def split: option.splits)
  ultimately show ?thesis using za(1) by blast
qed

text \<open>
  The sorted array of an opened archive holds exactly the entries of the central directory,
  each as often as it is there.
\<close>

theorem zip_entries_directory:
  assumes "mzOpenZipArchive env (Inr (Some m)) = Ok (err, Some za)"
  shows "\<exists>q n off ds. eocd_scan m (int (length m) - ENDHDR) = Ok (Some q) \<and> get2LE m (q + ENDSUB) = Ok n \<and>
    get4LE m (q + ENDOFF) = Ok off \<and> directory env m (unat n) (uint off) = Some ds \<and> mset (za_entries za) = mset ds"
  using assms
  by (auto simp: mzOpenZipArchive_def parseZipArchive_def Let_def sorted_entries_def uint_ge_0
     elim!: then_do_Ok_E dest!: parse_entries_directory split: if_split_asm option.split_asm)

theorem zip_entries_directory_witness:
  "\<exists>q n off. eocd_scan demo_zip (int (length demo_zip) - ENDHDR) = Ok (Some q) \<and> get2LE demo_zip (q + ENDSUB) = Ok n \<and>
    get4LE demo_zip (q + ENDOFF) = Ok off \<and> directory demo_env demo_zip (unat n) (uint off) = Some [demo_entry]"
proof -
  obtain za where za: "mzOpenZipArchive demo_env (Inr (Some demo_zip)) = Ok (0, Some za)" "za_entries za = [demo_entry]"
    using opened_entries_Ok[OF demo_open] by blast
  show ?thesis using zip_entries_directory[OF za(1)] za(2) by auto
qed

end
