(* ===== verification/Zip_Process.thy ===== *)
theory Zip_Process
  imports Zip_Archive Sys_World Img_Patch "HOL-Library.Sublist"
begin

text \<open>
  Reading the entries of a Zip archive: the second half of \<^verbatim>\<open>src/minzip/Zip.c\<close>. The contents of
  an entry are streamed in pieces of at most 32 KiB through a process function, which works on a
  cookie and on the world. The descriptor of the archive is the contents of the file and an
  offset. zlib is a parameter: a record with what \<^verbatim>\<open>inflateInit2\<close>, \<^verbatim>\<open>inflate\<close> and \<^verbatim>\<open>crc32\<close> give.
\<close>

section \<open>System calls and zlib\<close>

text \<open>\<^verbatim>\<open>read\<close>: -1, or a number of bytes that may be less than asked for.\<close>

definition sys_read :: "sys \<Rightarrow> nat \<Rightarrow> bytes \<Rightarrow> world \<Rightarrow> int \<times> bytes \<times> world" where
  "sys_read sys n xs w =
     (if call_fails sys w then (-1, [], tick w)
      else let ys = take (min n (s_count sys (w_tick w))) xs in (int (length ys), ys, tick w))"

text \<open>\<^verbatim>\<open>inflate\<close> gets the input at \<^verbatim>\<open>next_in\<close> and the room at \<^verbatim>\<open>next_out\<close>; it gives a code, how much
  input it took and what it wrote. \<^verbatim>\<open>zi_eintr\<close> tells whether \<^verbatim>\<open>errno\<close> is \<^verbatim>\<open>EINTR\<close> after the system call
  of that number.\<close>

record 'z zip_lib =
  zi_init :: "int \<times> 'z"
  zi_inflate :: "'z \<Rightarrow> bytes \<Rightarrow> nat \<Rightarrow> int \<times> nat \<times> bytes \<times> 'z"
  zi_crc32 :: "u32 \<Rightarrow> bytes \<Rightarrow> u32"
  zi_eintr :: "nat \<Rightarrow> bool"

type_synonym 'c process = "bytes \<Rightarrow> 'c \<Rightarrow> world \<Rightarrow> (bool \<times> 'c \<times> world) run"

text \<open>The state of a stream of contents: the offset of the descriptor, the cookie, the world.\<close>

record 'c zip_stream =
  zs_pos :: nat
  zs_cookie :: 'c
  zs_world :: world

definition BUF_SIZE :: nat where "BUF_SIZE = 32 * 1024"

text \<open>\<^verbatim>\<open>read(pArchive->fd, buf, count)\<close>, and one call of the process function.\<close>

definition fd_read :: "sys \<Rightarrow> bytes \<Rightarrow> nat \<Rightarrow> 'c zip_stream \<Rightarrow> int \<times> bytes \<times> 'c zip_stream" where
  "fd_read sys m cnt s =
     (case sys_read sys cnt (drop (zs_pos s) m) (zs_world s) of (n, buf, w) \<Rightarrow>
        (n, buf, s\<lparr> zs_pos := zs_pos s + length buf, zs_world := w \<rparr>))"

definition process_piece :: "'c process \<Rightarrow> bytes \<Rightarrow> 'c zip_stream \<Rightarrow> (bool \<times> 'c zip_stream) run" where
  "process_piece f buf s =
     run_then (f buf (zs_cookie s) (zs_world s)) (\<lambda>(ret, c, w). Some (Ok (ret, s\<lparr> zs_cookie := c, zs_world := w \<rparr>)))"

section \<open>Stored entries\<close>

function stored_loop :: "sys \<Rightarrow> bytes \<Rightarrow> 'c process \<Rightarrow> nat \<Rightarrow> 'c zip_stream \<Rightarrow> (bool \<times> 'c zip_stream) run" where
  "stored_loop sys m f bytesLeft s =
     (if bytesLeft > 0 then
        let cnt = min bytesLeft BUF_SIZE
        in case fd_read sys m cnt s of (n, buf, s) \<Rightarrow>
             if n < 0 \<or> nat n \<noteq> cnt then Some (Ok (False, s))
             else run_then (process_piece f buf s) (\<lambda>(ret, s).
               if \<not> ret then Some (Ok (False, s)) else stored_loop sys m f (bytesLeft - cnt) s)
      else Some (Ok (True, s)))"
  by pat_completeness auto
termination
  by (relation "measure (\<lambda>(sys, m, f, n, s). n)") (auto simp: BUF_SIZE_def)

declare stored_loop.simps [simp del]

text \<open>\<^verbatim>\<open>compLen\<close> is a \<^verbatim>\<open>long\<close>, \<^verbatim>\<open>bytesLeft\<close> a \<^verbatim>\<open>size_t\<close>.\<close>

definition processStoredEntry ::
  "sys \<Rightarrow> bytes \<Rightarrow> ZipEntry \<Rightarrow> 'c process \<Rightarrow> 'c zip_stream \<Rightarrow> (bool \<times> 'c zip_stream) run" where
  "processStoredEntry sys m e f s = stored_loop sys m f (unat (word_of_int (compLen e) :: u64)) s"

section \<open>Deflated entries\<close>

text \<open>The local variables: the zlib stream, the bytes at \<^verbatim>\<open>next_in\<close>, those in \<^verbatim>\<open>procBuf\<close>,
  \<^verbatim>\<open>total_out\<close> and \<^verbatim>\<open>compRemaining\<close>.\<close>

record 'z inf_state =
  is_strm :: 'z
  is_in :: bytes
  is_out :: bytes
  is_total :: nat
  is_remaining :: int

text \<open>Refilling the input: false on a read that is not complete.\<close>

definition refill :: "sys \<Rightarrow> bytes \<Rightarrow> 'z inf_state \<Rightarrow> 'c zip_stream \<Rightarrow> bool \<times> 'z inf_state \<times> 'c zip_stream" where
  "refill sys m z s =
     (if is_in z = [] then
        let getSize = (if is_remaining z > int BUF_SIZE then int BUF_SIZE else is_remaining z)
        in case fd_read sys m (nat getSize) s of (cc, buf, s) \<Rightarrow>
             if cc \<noteq> getSize then (False, z, s)
             else (True, z\<lparr> is_remaining := is_remaining z - getSize, is_in := buf \<rparr>, s)
      else (True, z, s))"

text \<open>One call of \<^verbatim>\<open>inflate\<close>.\<close>

definition inflate_some :: "('z, 'm) zip_lib_scheme \<Rightarrow> 'z inf_state \<Rightarrow> int \<times> 'z inf_state" where
  "inflate_some lib z =
     (case zi_inflate lib (is_strm z) (is_in z) (BUF_SIZE - length (is_out z)) of (zerr, k, out', strm) \<Rightarrow>
        (zerr, z\<lparr> is_strm := strm, is_in := drop k (is_in z), is_out := is_out z @ out',
                  is_total := is_total z + length out' \<rparr>))"

text \<open>Is the buffer to be processed.\<close>

definition flush_due :: "int \<Rightarrow> 'z inf_state \<Rightarrow> bool" where
  "flush_due zerr z \<longleftrightarrow> length (is_out z) = BUF_SIZE \<or> (zerr = Z_STREAM_END \<and> is_out z \<noteq> [])"

text \<open>The loop; the result is \<^verbatim>\<open>total_out\<close> at the end of the stream, or -1.\<close>

partial_function (option) deflated_loop ::
  "sys \<Rightarrow> ('z, 'm) zip_lib_scheme \<Rightarrow> bytes \<Rightarrow> 'c process \<Rightarrow> 'z inf_state \<Rightarrow> 'c zip_stream \<Rightarrow> (int \<times> 'c zip_stream) run" where
  "deflated_loop sys lib m f z s =
     (case refill sys m z s of (ok, z, s) \<Rightarrow>
        if \<not> ok then Some (Ok (-1, s))
        else case inflate_some lib z of (zerr, z) \<Rightarrow>
          if zerr \<noteq> Z_OK \<and> zerr \<noteq> Z_STREAM_END then Some (Ok (-1, s))
          else
            (case (if flush_due zerr z then process_piece f (is_out z) s else Some (Ok (True, s))) of
               None \<Rightarrow> None
             | Some r \<Rightarrow>
                 (case r of
                    Inl e \<Rightarrow> Some (Inl e)
                  | Inr p \<Rightarrow>
                      if \<not> fst p then Some (Ok (-1, snd p))
                      else
                        let z = (if flush_due zerr z then z\<lparr> is_out := [] \<rparr> else z)
                        in if zerr = Z_OK then deflated_loop sys lib m f z (snd p)
                           else if zerr \<noteq> Z_STREAM_END then Some (Inl AssertFailed)
                           else Some (Ok (int (is_total z), snd p)))))"

declare deflated_loop.simps [code]

definition processDeflatedEntry ::
  "sys \<Rightarrow> ('z, 'm) zip_lib_scheme \<Rightarrow> bytes \<Rightarrow> ZipEntry \<Rightarrow> 'c process \<Rightarrow> 'c zip_stream \<Rightarrow> (bool \<times> 'c zip_stream) run" where
  "processDeflatedEntry sys lib m e f s =
     (case zi_init lib of (zerr, strm) \<Rightarrow>
        run_then (if zerr \<noteq> Z_OK then Some (Ok (-1, s))
                  else deflated_loop sys lib m f
                         \<lparr> is_strm = strm, is_in = [], is_out = [], is_total = 0, is_remaining = compLen e \<rparr> s)
          (\<lambda>(result, s). Some (Ok (result = uncompLen e, s))))"

definition process_by_method ::
  "sys \<Rightarrow> ('z, 'm) zip_lib_scheme \<Rightarrow> bytes \<Rightarrow> ZipEntry \<Rightarrow> 'c process \<Rightarrow> 'c zip_stream \<Rightarrow> (bool \<times> 'c zip_stream) run" where
  "process_by_method sys lib m e f s =
     (if compression e = STORED then processStoredEntry sys m e f s
      else if compression e = DEFLATED then processDeflatedEntry sys lib m e f s
      else Some (Ok (False, s)))"

text \<open>The offset of the descriptor is saved, moved to the data and restored.\<close>

definition mzProcessZipEntryContents ::
  "sys \<Rightarrow> ('z, 'm) zip_lib_scheme \<Rightarrow> bytes \<Rightarrow> ZipEntry \<Rightarrow> 'c process \<Rightarrow> 'c zip_stream \<Rightarrow> (bool \<times> 'c zip_stream) run" where
  "mzProcessZipEntryContents sys lib m e f s =
     (let oldOff = zs_pos s
      in run_then (process_by_method sys lib m e f (s\<lparr> zs_pos := nat (offset e) \<rparr>))
           (\<lambda>(ret, s). Some (Ok (ret, s\<lparr> zs_pos := oldOff \<rparr>))))"

section \<open>Process functions\<close>

definition crcProcessFunction :: "('z, 'm) zip_lib_scheme \<Rightarrow> u32 process" where
  "crcProcessFunction lib data' crc w = Some (Ok (True, zi_crc32 lib crc data', w))"

definition mzIsZipEntryIntact ::
  "sys \<Rightarrow> ('z, 'm) zip_lib_scheme \<Rightarrow> bytes \<Rightarrow> ZipEntry \<Rightarrow> nat \<Rightarrow> world \<Rightarrow> (bool \<times> world) run" where
  "mzIsZipEntryIntact sys lib m e pos w =
     run_then (mzProcessZipEntryContents sys lib m e (crcProcessFunction lib)
                 \<lparr> zs_pos = pos, zs_cookie = zi_crc32 lib 0 [], zs_world = w \<rparr>)
       (\<lambda>(ret, s). Some (Ok (ret \<and> uint (zs_cookie s) = ze_crc32 e, zs_world s)))"

text \<open>A caller's buffer: its bytes, the write position, and the cnt the cookie keeps.\<close>

record out_buffer =
  ob_mem :: bytes
  ob_pos :: nat
  ob_len :: int

text \<open>\<^verbatim>\<open>memcpy\<close> or \<^verbatim>\<open>memmove\<close> to the write position.\<close>

definition buffer_put :: "bytes \<Rightarrow> out_buffer \<Rightarrow> out_buffer outcome" where
  "buffer_put xs b =
     (if ob_pos b + length xs > length (ob_mem b) then Inl OutOfBounds
      else Ok \<lparr> ob_mem = take (ob_pos b) (ob_mem b) @ xs @ drop (ob_pos b + length xs) (ob_mem b),
                ob_pos = ob_pos b + length xs, ob_len = ob_len b - int (length xs) \<rparr>)"

definition copyProcessFunction :: "out_buffer process" where
  "copyProcessFunction data' args w =
     (if int (length data') \<le> ob_len args
      then run_then (Some (buffer_put data' args)) (\<lambda>args. Some (Ok (True, args, w)))
      else Some (Ok (False, args, w)))"

definition mzReadZipEntry ::
  "sys \<Rightarrow> ('z, 'm) zip_lib_scheme \<Rightarrow> bytes \<Rightarrow> ZipEntry \<Rightarrow> bytes \<Rightarrow> int \<Rightarrow> nat \<Rightarrow> world \<Rightarrow> (bool \<times> bytes \<times> world) run" where
  "mzReadZipEntry sys lib m e buf bufLen pos w =
     run_then (mzProcessZipEntryContents sys lib m e copyProcessFunction
                 \<lparr> zs_pos = pos, zs_cookie = \<lparr> ob_mem = buf, ob_pos = 0, ob_len = bufLen \<rparr>, zs_world = w \<rparr>)
       (\<lambda>(ret, s). Some (Ok (ret, ob_mem (zs_cookie s), zs_world s)))"

text \<open>The loop of \<^verbatim>\<open>writeProcessFunction\<close>; it starts over after \<^verbatim>\<open>EINTR\<close>.\<close>

partial_function (option) write_loop ::
  "sys \<Rightarrow> ('z, 'm) zip_lib_scheme \<Rightarrow> string \<Rightarrow> bytes \<Rightarrow> nat \<Rightarrow> world \<Rightarrow> (bool \<times> world) run" where
  "write_loop sys lib name data' soFar w =
     (case sys_write sys name (drop soFar data') w of (n, w') \<Rightarrow>
        if n \<le> 0 then
          if \<not> zi_eintr lib (w_tick w) then Some (Ok (False, w'))
          else write_loop sys lib name data' soFar w'
        else
          let soFar' = soFar + nat n
          in if soFar' = length data' then Some (Ok (True, w'))
             else if soFar' > length data' then Some (Ok (False, w'))
             else write_loop sys lib name data' soFar' w')"

declare write_loop.simps [code]

definition writeProcessFunction :: "sys \<Rightarrow> ('z, 'm) zip_lib_scheme \<Rightarrow> string process" where
  "writeProcessFunction sys lib data' fd w =
     run_then (write_loop sys lib fd data' 0 w) (\<lambda>(ret, w). Some (Ok (ret, fd, w)))"

text \<open>A descriptor is the file it was opened on.\<close>

definition mzExtractZipEntryToFile ::
  "sys \<Rightarrow> ('z, 'm) zip_lib_scheme \<Rightarrow> bytes \<Rightarrow> ZipEntry \<Rightarrow> string \<Rightarrow> nat \<Rightarrow> world \<Rightarrow> (bool \<times> world) run" where
  "mzExtractZipEntryToFile sys lib m e fd pos w =
     run_then (mzProcessZipEntryContents sys lib m e (writeProcessFunction sys lib)
                 \<lparr> zs_pos = pos, zs_cookie = fd, zs_world = w \<rparr>)
       (\<lambda>(ret, s). Some (Ok (ret, zs_world s)))"

definition bufferProcessFunction :: "out_buffer process" where
  "bufferProcessFunction data' bec w =
     run_then (Some (buffer_put data' bec)) (\<lambda>bec. Some (Ok (True, bec, w)))"

definition mzExtractZipEntryToBuffer ::
  "sys \<Rightarrow> ('z, 'm) zip_lib_scheme \<Rightarrow> bytes \<Rightarrow> ZipEntry \<Rightarrow> bytes \<Rightarrow> nat \<Rightarrow> world \<Rightarrow> (bool \<times> bytes \<times> world) run" where
  "mzExtractZipEntryToBuffer sys lib m e buffer pos w =
     run_then (mzProcessZipEntryContents sys lib m e bufferProcessFunction
                 \<lparr> zs_pos = pos, zs_cookie = \<lparr> ob_mem = buffer, ob_pos = 0, ob_len = uncompLen e \<rparr>, zs_world = w \<rparr>)
       (\<lambda>(ret, s). Some (Ok (ret \<and> ob_len (zs_cookie s) = 0, ob_mem (zs_cookie s), zs_world s)))"

section \<open>What a process function is for\<close>

text \<open>
  The contract of a process function: \<^verbatim>\<open>got acc c w\<close> says that cookie and world stand for the bytes
  \<^verbatim>\<open>acc\<close> received so far. It takes every next piece of \<^verbatim>\<open>contents\<close>, and system calls of the reader do
  not disturb it.
\<close>

locale zip_consumer =
  fixes f :: "'c process" and got :: "bytes \<Rightarrow> 'c \<Rightarrow> world \<Rightarrow> bool" and wanted :: bytes
  assumes takes: "\<lbrakk>got acc c w; xs \<noteq> []; prefix (acc @ xs) wanted\<rbrakk> \<Longrightarrow>
      \<exists>c' w'. f xs c w = Some (Ok (True, c', w')) \<and> got (acc @ xs) c' w'"
    and idle: "got acc c w \<Longrightarrow> got acc c (tick w)"

definition reads_in_full :: "sys \<Rightarrow> bool" where
  "reads_in_full sys \<longleftrightarrow> (\<forall>t. \<not> s_fail sys t \<and> BUF_SIZE \<le> s_count sys t)"

definition inflates :: "('z, 'm) zip_lib_scheme \<Rightarrow> ('z \<Rightarrow> bytes \<Rightarrow> bytes \<Rightarrow> bool) \<Rightarrow> bool" where
  "inflates lib feeds \<longleftrightarrow>
     (\<forall>z rest todo inp room. feeds z rest todo \<and> prefix inp rest \<and> (inp \<noteq> [] \<or> rest = []) \<and> room > 0 \<longrightarrow>
        (case zi_inflate lib z inp room of (zerr, k, out', z') \<Rightarrow>
           k \<le> length inp \<and> length out' \<le> room \<and>
           (\<exists>todo'. todo = out' @ todo' \<and>
             (zerr = Z_STREAM_END \<and> todo' = [] \<or>
              zerr = Z_OK \<and> (k > 0 \<or> out' \<noteq> []) \<and> feeds z' (drop k rest) todo'))))"

lemma inflatesD:
  assumes "inflates lib feeds" "feeds z rest todo" "prefix inp rest" "inp \<noteq> [] \<or> rest = []" "room > 0"
  shows "case zi_inflate lib z inp room of (zerr, k, out', z') \<Rightarrow>
    k \<le> length inp \<and> length out' \<le> room \<and> (\<exists>todo'. todo = out' @ todo' \<and>
      (zerr = Z_STREAM_END \<and> todo' = [] \<or> zerr = Z_OK \<and> (k > 0 \<or> out' \<noteq> []) \<and> feeds z' (drop k rest) todo'))"
proof -
  note a = assms(1)[unfolded inflates_def, THEN spec, THEN spec, THEN spec, THEN spec, THEN spec, of z rest todo inp room]
  show ?thesis by (rule a[THEN mp]) (intro conjI assms(2-))
qed

text \<open>The invariant of the inflating loop.\<close>

definition inflating ::
  "(bytes \<Rightarrow> 'c \<Rightarrow> world \<Rightarrow> bool) \<Rightarrow> bytes \<Rightarrow> ('z \<Rightarrow> bytes \<Rightarrow> bytes \<Rightarrow> bool) \<Rightarrow> bytes \<Rightarrow> bytes \<Rightarrow> bytes \<Rightarrow> bytes \<Rightarrow> 'z inf_state \<Rightarrow> 'c zip_stream \<Rightarrow> bool" where
  "inflating got wanted feeds m acc rest todo z s \<longleftrightarrow>
     feeds (is_strm z) rest todo \<and> got acc (zs_cookie s) (zs_world s) \<and>
     0 \<le> is_remaining z \<and> zs_pos s + nat (is_remaining z) \<le> length m \<and>
     rest = is_in z @ take (nat (is_remaining z)) (drop (zs_pos s) m) \<and>
     length (is_out z) < BUF_SIZE \<and> acc @ is_out z @ todo = wanted \<and> is_total z = length acc + length (is_out z)"

lemma fd_read_full:
  assumes "reads_in_full sys" "n \<le> BUF_SIZE" "zs_pos s + n \<le> length m"
  shows "fd_read sys m n s =
    (int n, take n (drop (zs_pos s) m), s\<lparr> zs_pos := zs_pos s + n, zs_world := tick (zs_world s) \<rparr>)"
proof -
  have "min n (s_count sys (w_tick (zs_world s))) = n"
    using assms(1,2) by (auto simp: reads_in_full_def intro: min_absorb1 order_trans)
  then show ?thesis using assms by (simp add: fd_read_def sys_read_def call_fails_def reads_in_full_def)
qed

text \<open>The end of a round: the buffer is passed on when it is due.\<close>

definition after_flush :: "int \<Rightarrow> 'z inf_state \<Rightarrow> 'z inf_state" where
  "after_flush zerr z = (if flush_due zerr z then z\<lparr> is_out := [] \<rparr> else z)"

lemma after_flush_simps [simp]:
  "is_strm (after_flush zerr z) = is_strm z" "is_in (after_flush zerr z) = is_in z"
  "is_remaining (after_flush zerr z) = is_remaining z" "is_total (after_flush zerr z) = is_total z"
  by (simp_all add: after_flush_def)

lemma after_flush_room: "length (is_out z) \<le> BUF_SIZE \<Longrightarrow> length (is_out (after_flush zerr z)) < BUF_SIZE"
  by (auto simp: after_flush_def flush_due_def BUF_SIZE_def)

text \<open>The contents of an entry: its bytes in the file, inflated for a deflated entry.\<close>

definition entry_bytes :: "bytes \<Rightarrow> ZipEntry \<Rightarrow> bytes" where
  "entry_bytes m e = take (nat (compLen e)) (drop (nat (offset e)) m)"

definition zip_contents ::
  "('z, 'm) zip_lib_scheme \<Rightarrow> ('z \<Rightarrow> bytes \<Rightarrow> bytes \<Rightarrow> bool) \<Rightarrow> bytes \<Rightarrow> ZipEntry \<Rightarrow> bytes \<Rightarrow> bool" where
  "zip_contents lib feeds m e contents' \<longleftrightarrow>
     entry_ok m e \<and> compLen e < 2 ^ 63 \<and>
     (compression e = STORED \<and> contents' = entry_bytes m e \<or>
      compression e = DEFLATED \<and> fst (zi_init lib) = Z_OK \<and>
      feeds (snd (zi_init lib)) (entry_bytes m e) contents' \<and> uncompLen e = int (length contents'))"

context zip_consumer
begin

lemma piece_taken:
  assumes "got acc (zs_cookie s) (zs_world s)" "xs \<noteq> []" "prefix (acc @ xs) wanted"
  obtains s' where "process_piece f xs s = Some (Ok (True, s'))" "got (acc @ xs) (zs_cookie s') (zs_world s')"
    "zs_pos s' = zs_pos s"
proof -
  obtain c w where cw: "f xs (zs_cookie s) (zs_world s) = Some (Ok (True, c, w))" "got (acc @ xs) c w"
    using takes[OF assms] by blast
  show ?thesis by (rule that[of "s\<lparr>zs_cookie := c, zs_world := w\<rparr>"]) (simp_all add: process_piece_def cw)
qed

lemma stored_all:
  assumes "reads_in_full sys"
  shows "\<lbrakk>got acc (zs_cookie s) (zs_world s); zs_pos s + n \<le> length m;
      prefix (acc @ take n (drop (zs_pos s) m)) wanted\<rbrakk> \<Longrightarrow>
    \<exists>s'. stored_loop sys m f n s = Some (Ok (True, s')) \<and>
      got (acc @ take n (drop (zs_pos s) m)) (zs_cookie s') (zs_world s')"
proof (induction n arbitrary: acc s rule: less_induct)
  case (less n)
  show ?case
  proof (cases "n = 0")
    case True
    then show ?thesis using less.prems(1) by (subst stored_loop.simps) simp
  next
    case False
    define k where "k = min n BUF_SIZE"
    define s1 where "s1 = s\<lparr> zs_pos := zs_pos s + k, zs_world := tick (zs_world s) \<rparr>"
    have k: "0 < k" "k \<le> n" "k \<le> BUF_SIZE" using False by (auto simp: k_def BUF_SIZE_def)
    let ?xs = "take k (drop (zs_pos s) m)" and ?ys = "take (n - k) (drop (zs_pos s + k) m)"
    have split: "take n (drop (zs_pos s) m) = ?xs @ ?ys"
      using take_add[of k "n - k" "drop (zs_pos s) m"] k(2) by (simp add: add.commute)
    have rd: "fd_read sys m k s = (int k, ?xs, s1)"
      unfolding s1_def by (rule fd_read_full) (use assms k less.prems(2) in auto)
    have g1: "got acc (zs_cookie s1) (zs_world s1)" using idle[OF less.prems(1)] by (simp add: s1_def)
    have ne: "?xs \<noteq> []" using k less.prems(2) by auto
    have pre: "prefix (acc @ ?xs @ ?ys) wanted" using less.prems(3) by (simp add: split)
    have pre1: "prefix (acc @ ?xs) wanted" using append_prefixD[of "acc @ ?xs" ?ys] pre by simp
    obtain s2 where s2: "process_piece f ?xs s1 = Some (Ok (True, s2))" "got (acc @ ?xs) (zs_cookie s2) (zs_world s2)"
      "zs_pos s2 = zs_pos s + k" using piece_taken[OF g1 ne pre1] by (auto simp: s1_def)
    have step: "stored_loop sys m f n s = stored_loop sys m f (n - k) s2"
      using False rd s2(1) k by (subst stored_loop.simps) (simp add: Let_def flip: k_def)
    have "n - k < n" "zs_pos s2 + (n - k) \<le> length m" "prefix ((acc @ ?xs) @ take (n - k) (drop (zs_pos s2) m)) wanted"
      using k less.prems(2) s2(3) pre by auto
    from less.IH[OF this(1) s2(2) this(2,3)] show ?thesis using s2(3) by (simp add: step split)
  qed
qed

lemma refill_inflating:
  assumes "reads_in_full sys" "inflating got wanted feeds m acc rest todo z s"
  obtains z' s' where "refill sys m z s = (True, z', s')" "inflating got wanted feeds m acc rest todo z' s'"
    "is_in z' \<noteq> [] \<or> rest = []" "prefix (is_in z') rest"
proof (cases "is_in z = []")
  case False
  show ?thesis by (rule that[of z s]) (use False assms(2) in \<open>auto simp: refill_def inflating_def\<close>)
next
  case True
  define g where "g = min (nat (is_remaining z)) BUF_SIZE"
  have g: "int g = (if is_remaining z > int BUF_SIZE then int BUF_SIZE else is_remaining z)"
    and le: "zs_pos s + g \<le> length m" "g \<le> BUF_SIZE"
    using assms(2) by (auto simp: g_def inflating_def)
  define buf where "buf = take g (drop (zs_pos s) m)"
  define s' where "s' = s\<lparr> zs_pos := zs_pos s + g, zs_world := tick (zs_world s) \<rparr>"
  define z' where "z' = z\<lparr> is_remaining := is_remaining z - int g, is_in := buf \<rparr>"
  have rd: "fd_read sys m g s = (int g, buf, s')"
    unfolding buf_def s'_def by (rule fd_read_full) (use assms(1) le in auto)
  have rf: "refill sys m z s = (True, z', s')"
    using True rd by (simp add: refill_def Let_def z'_def flip: g)
  have rem: "nat (is_remaining z) = g + nat (is_remaining z - int g)" using assms(2) by (auto simp: g_def inflating_def)
  have rest: "rest = buf @ take (nat (is_remaining z - int g)) (drop (zs_pos s + g) m)"
    using assms(2) True unfolding inflating_def by (subst (asm) rem) (auto simp: take_add buf_def add.commute)
  show ?thesis
  proof (rule that[OF rf])
    have i: "feeds (is_strm z) rest todo" "got acc (zs_cookie s) (tick (zs_world s))" "0 \<le> is_remaining z"
      "zs_pos s + nat (is_remaining z) \<le> length m" "length (is_out z) < BUF_SIZE" "acc @ is_out z @ todo = wanted"
      "is_total z = length acc + length (is_out z)" using assms(2) idle unfolding inflating_def by blast+
    have "int g \<le> is_remaining z" using i(3) by (simp add: g_def)
    then show "inflating got wanted feeds m acc rest todo z' s'"
      using i(1,2,4-) rem unfolding inflating_def z'_def s'_def by (simp flip: rest)
    show "is_in z' \<noteq> [] \<or> rest = []"
    proof (cases "g = 0")
      case True
      then have "nat (is_remaining z) = 0" by (simp add: g_def BUF_SIZE_def min_def split: if_split_asm)
      then show ?thesis using rest True by (simp add: buf_def)
    next
      case False
      then have "length buf \<noteq> 0" using le(1) by (simp add: buf_def)
      then show ?thesis by (auto simp: z'_def)
    qed
    show "prefix (is_in z') rest" using rest by (auto simp: z'_def)
  qed
qed


lemma inflate_step:
  assumes "inflates lib feeds" "inflating got wanted feeds m acc rest todo z s"
    "is_in z \<noteq> [] \<or> rest = []" "prefix (is_in z) rest"
  obtains zerr z' k out' where "inflate_some lib z = (zerr, z')" "is_out z' = is_out z @ out'" "is_in z' = drop k (is_in z)"
    "k \<le> length (is_in z)" "length (is_out z') \<le> BUF_SIZE" "is_remaining z' = is_remaining z"
    "is_total z' = is_total z + length out'"
    "prefix out' todo" "zerr = Z_STREAM_END \<and> out' = todo \<or>
       zerr = Z_OK \<and> (k > 0 \<or> out' \<noteq> []) \<and> feeds (is_strm z') (drop k rest) (drop (length out') todo)"
proof -
  obtain zerr k out' strm where r: "zi_inflate lib (is_strm z) (is_in z) (BUF_SIZE - length (is_out z)) = (zerr, k, out', strm)"
    by (metis prod_cases4)
  have i: "feeds (is_strm z) rest todo" "BUF_SIZE - length (is_out z) > 0" using assms(2) by (auto simp: inflating_def)
  have "k \<le> length (is_in z) \<and> length out' \<le> BUF_SIZE - length (is_out z) \<and> (\<exists>todo'. todo = out' @ todo' \<and>
      (zerr = Z_STREAM_END \<and> todo' = [] \<or> zerr = Z_OK \<and> (k > 0 \<or> out' \<noteq> []) \<and> feeds strm (drop k rest) todo'))"
    using inflatesD[OF assms(1) i(1) assms(4,3) i(2)] by (simp add: r)
  note step = this
  define z' where "z' = z\<lparr> is_strm := strm, is_in := drop k (is_in z), is_out := is_out z @ out',
                  is_total := is_total z + length out' \<rparr>"
  have "inflate_some lib z = (zerr, z')" by (simp add: inflate_some_def r z'_def)
  moreover have "length (is_out z') \<le> BUF_SIZE" using conjunct1[OF conjunct2[OF step]] i(2) by (simp add: z'_def)
  ultimately show ?thesis using step by (intro that[of zerr z' out' k]) (auto simp: z'_def)
qed

lemma flush_taken:
  assumes "got acc (zs_cookie s) (zs_world s)" "prefix (acc @ is_out z) wanted"
  obtains s' acc' where
    "(if flush_due zerr z then process_piece f (is_out z) s else Some (Ok (True, s))) = Some (Ok (True, s'))"
    "got acc' (zs_cookie s') (zs_world s')" "zs_pos s' = zs_pos s"
    "acc' @ is_out (after_flush zerr z) = acc @ is_out z" "zerr = Z_STREAM_END \<Longrightarrow> acc' = acc @ is_out z"
proof (cases "flush_due zerr z")
  case True
  then have "is_out z \<noteq> []" by (auto simp: flush_due_def BUF_SIZE_def)
  then obtain s' where "process_piece f (is_out z) s = Some (Ok (True, s'))"
    "got (acc @ is_out z) (zs_cookie s') (zs_world s')" "zs_pos s' = zs_pos s"
    using piece_taken[OF assms(1) _ assms(2)] by blast
  then show ?thesis using True by (intro that[of s' "acc @ is_out z"]) (simp_all add: after_flush_def)
next
  case False
  then show ?thesis using assms(1) by (intro that[of s acc]) (auto simp: after_flush_def flush_due_def)
qed

lemma deflated_all:
  assumes full: "reads_in_full sys" and inf: "inflates lib feeds"
  shows "inflating got wanted feeds m acc rest todo z s \<Longrightarrow>
    \<exists>s'. deflated_loop sys lib m f z s = Some (Ok (int (length wanted), s')) \<and> got wanted (zs_cookie s') (zs_world s')"
proof (induction "length rest + length todo" arbitrary: acc rest todo z s rule: less_induct)
  case less
  obtain z1 s1 where r1: "refill sys m z s = (True, z1, s1)" "inflating got wanted feeds m acc rest todo z1 s1"
    "is_in z1 \<noteq> [] \<or> rest = []" "prefix (is_in z1) rest" using refill_inflating[OF full less.prems] by blast
  obtain zerr z2 k out' where r2: "inflate_some lib z1 = (zerr, z2)" "is_out z2 = is_out z1 @ out'" "is_in z2 = drop k (is_in z1)"
    "k \<le> length (is_in z1)" "length (is_out z2) \<le> BUF_SIZE" "is_remaining z2 = is_remaining z1"
    "is_total z2 = is_total z1 + length out'" "prefix out' todo"
    "zerr = Z_STREAM_END \<and> out' = todo \<or>
       zerr = Z_OK \<and> (k > 0 \<or> out' \<noteq> []) \<and> feeds (is_strm z2) (drop k rest) (drop (length out') todo)"
    by (rule inflate_step[OF inf r1(2-4)])
  have i1: "got acc (zs_cookie s1) (zs_world s1)" "0 \<le> is_remaining z1" "zs_pos s1 + nat (is_remaining z1) \<le> length m"
    "rest = is_in z1 @ take (nat (is_remaining z1)) (drop (zs_pos s1) m)" "acc @ is_out z1 @ todo = wanted"
    "is_total z1 = length acc + length (is_out z1)"
    using r1(2) unfolding inflating_def by blast+
  have todo: "todo = out' @ drop (length out') todo" using r2(8) by (auto elim: prefixE)
  then have w: "wanted = acc @ is_out z2 @ drop (length out') todo" using i1(5) r2(2) by (metis append.assoc)
  then have pre: "prefix (acc @ is_out z2) wanted" by simp
  have tot: "is_total z2 = length acc + length (is_out z2)" using i1(6) r2(2,7) by simp
  have codes: "zerr \<noteq> Z_OK \<and> zerr \<noteq> Z_STREAM_END \<longleftrightarrow> False" using r2(9) by auto
  define z3 where "z3 = after_flush zerr z2"
  obtain s3 acc3 where s3: "(if flush_due zerr z2 then process_piece f (is_out z2) s1 else Some (Ok (True, s1))) = Some (Ok (True, s3))"
    "got acc3 (zs_cookie s3) (zs_world s3)" "zs_pos s3 = zs_pos s1"
    "acc3 @ is_out z3 = acc @ is_out z2" "zerr = Z_STREAM_END \<Longrightarrow> acc3 = acc @ is_out z2"
    unfolding z3_def using flush_taken[OF i1(1) pre] by metis
  have step: "deflated_loop sys lib m f z s =
     (if zerr = Z_OK then deflated_loop sys lib m f z3 s3
      else if zerr \<noteq> Z_STREAM_END then Some (Inl AssertFailed) else Some (Ok (int (is_total z3), s3)))"
    by (subst deflated_loop.simps)
      (simp only: r1(1) r2(1) prod.case codes s3(1) option.case sum.case fst_conv snd_conv after_flush_def[symmetric] z3_def[symmetric] Let_def if_False not_True_eq_False)
  show ?case
  proof (cases "zerr = Z_OK")
    case False
    then have e: "zerr = Z_STREAM_END" "out' = todo" using r2(9) by auto
    then have "acc3 = wanted" "is_total z3 = length wanted" using w s3(5) tot by (simp_all add: z3_def)
    then show ?thesis using step s3(2) False e(1) by simp
  next
    case True
    then have f: "k > 0 \<or> out' \<noteq> []" "feeds (is_strm z2) (drop k rest) (drop (length out') todo)"
      using r2(9) by (auto simp: Z_OK_def Z_STREAM_END_def)
    have "length (is_out z3) < BUF_SIZE" using after_flush_room[OF r2(5)] by (simp add: z3_def)
    moreover have "drop k rest = is_in z3 @ take (nat (is_remaining z3)) (drop (zs_pos s3) m)"
      using i1(4) r2(3,4,6) s3(3) by (simp add: z3_def)
    moreover have "acc3 @ is_out z3 @ drop (length out') todo = wanted" using w s3(4) by (metis append.assoc)
    moreover have "is_total z3 = length acc3 + length (is_out z3)"
      using tot arg_cong[OF s3(4), of length] by (simp add: z3_def)
    moreover have "feeds (is_strm z3) (drop k rest) (drop (length out') todo)" "0 \<le> is_remaining z3"
      "zs_pos s3 + nat (is_remaining z3) \<le> length m" using f(2) i1(2,3) s3(3) r2(6) by (simp_all add: z3_def)
    ultimately have inv: "inflating got wanted feeds m acc3 (drop k rest) (drop (length out') todo) z3 s3"
      using s3(2) unfolding inflating_def by blast
    have "length (drop k rest) + length (drop (length out') todo) < length rest + length todo"
    proof -
      have "k \<le> length rest" "length out' \<le> length todo" "k > 0 \<or> length out' > 0"
        using r2(4,8) r1(4) f(1) by (auto dest: prefix_length_le)
      then show ?thesis unfolding length_drop by linarith
    qed
    from less.hyps[OF this inv] show ?thesis using step True by simp
  qed
qed


lemma process_all:
  assumes "reads_in_full sys" "inflates lib feeds" "zip_contents lib feeds m e wanted" "got [] c w"
  shows "\<exists>c' w'. mzProcessZipEntryContents sys lib m e f \<lparr> zs_pos = pos, zs_cookie = c, zs_world = w \<rparr> =
      Some (Ok (True, \<lparr> zs_pos = pos, zs_cookie = c', zs_world = w' \<rparr>)) \<and> got wanted c' w'"
proof -
  let ?s = "\<lparr> zs_pos = nat (offset e), zs_cookie = c, zs_world = w \<rparr>"
  have e: "0 \<le> offset e" "0 \<le> compLen e" "offset e + compLen e \<le> int (length m)"
    using assms(3) by (auto simp: zip_contents_def entry_ok_def)
  have len: "nat (offset e) + nat (compLen e) \<le> length m" using e by linarith
  have "\<exists>s'. process_by_method sys lib m e f ?s = Some (Ok (True, s')) \<and> got wanted (zs_cookie s') (zs_world s')"
  proof (cases "compression e = STORED")
    case True
    then have d: "wanted = entry_bytes m e" using assms(3) by (auto simp: zip_contents_def STORED_def DEFLATED_def)
    have n: "unat (word_of_int (compLen e) :: u64) = nat (compLen e)"
      using assms(3) e(2) by (simp add: zip_contents_def unsigned_of_int take_bit_int_eq_self)
    show ?thesis using True stored_all[OF assms(1), of "[]" ?s "nat (compLen e)" m] assms(4) len d
      by (simp add: process_by_method_def processStoredEntry_def n entry_bytes_def)
  next
    case False
    then have d: "compression e = DEFLATED" "fst (zi_init lib) = Z_OK" "feeds (snd (zi_init lib)) (entry_bytes m e) wanted"
      "uncompLen e = int (length wanted)" using assms(3) by (auto simp: zip_contents_def)
    let ?z = "\<lparr> is_strm = snd (zi_init lib), is_in = [], is_out = [], is_total = 0, is_remaining = compLen e \<rparr>"
    have "inflating got wanted feeds m [] (entry_bytes m e) wanted ?z ?s"
      using d(3) e(2) len assms(4) by (simp add: inflating_def entry_bytes_def BUF_SIZE_def)
    from deflated_all[OF assms(1,2) this] show ?thesis
      using d False by (auto simp: process_by_method_def processDeflatedEntry_def split: prod.split)
  qed
  then obtain s' where "process_by_method sys lib m e f ?s = Some (Ok (True, s'))" "got wanted (zs_cookie s') (zs_world s')" by blast
  then show ?thesis unfolding mzProcessZipEntryContents_def Let_def
    by (intro exI[of _ "zs_cookie s'"] exI[of _ "zs_world s'"]) simp
qed

end

section \<open>The four process functions keep the contract\<close>

text \<open>\<^verbatim>\<open>crc32\<close> of zlib can be computed piecewise.\<close>

definition crc_chains :: "('z, 'm) zip_lib_scheme \<Rightarrow> bool" where
  "crc_chains lib \<longleftrightarrow> (\<forall>c a b. zi_crc32 lib (zi_crc32 lib c a) b = zi_crc32 lib c (a @ b))"

definition crc_got :: "('z, 'm) zip_lib_scheme \<Rightarrow> bytes \<Rightarrow> u32 \<Rightarrow> world \<Rightarrow> bool" where
  "crc_got lib acc c w \<longleftrightarrow> crc_chains lib \<and> c = zi_crc32 lib 0 acc"

interpretation crc: zip_consumer "crcProcessFunction lib" "crc_got lib" wanted for lib wanted
  by unfold_locales (auto simp: crc_got_def crc_chains_def crcProcessFunction_def)

text \<open>A buffer that held \<^verbatim>\<open>mem\<close> and was given \<^verbatim>\<open>acc\<close>, with a count that started at \<^verbatim>\<open>n\<close>.\<close>

definition filled :: "bytes \<Rightarrow> int \<Rightarrow> bytes \<Rightarrow> out_buffer" where
  "filled mem n acc = \<lparr> ob_mem = acc @ drop (length acc) mem, ob_pos = length acc, ob_len = n - int (length acc) \<rparr>"

lemma buffer_put_filled:
  "length acc + length xs \<le> length mem \<Longrightarrow> buffer_put xs (filled mem n acc) = Ok (filled mem n (acc @ xs))"
  by (simp add: buffer_put_def filled_def add.commute)

definition copy_got :: "bytes \<Rightarrow> int \<Rightarrow> bytes \<Rightarrow> bytes \<Rightarrow> out_buffer \<Rightarrow> world \<Rightarrow> bool" where
  "copy_got mem n wanted acc b w \<longleftrightarrow> int (length wanted) \<le> n \<and> n \<le> int (length mem) \<and> b = filled mem n acc"

interpretation copy: zip_consumer copyProcessFunction "copy_got mem n wanted" wanted for mem n wanted
proof
  fix acc c w xs assume a: "copy_got mem n wanted acc c w" "prefix (acc @ xs) wanted"
  then have "length acc + length xs \<le> length wanted" using prefix_length_le[OF a(2)] by simp
  then show "\<exists>c' w'. copyProcessFunction xs c w = Some (Ok (True, c', w')) \<and> copy_got mem n wanted (acc @ xs) c' w'"
    using a(1) buffer_put_filled[of acc xs mem n] by (simp add: copyProcessFunction_def copy_got_def) (simp add: filled_def)
qed (simp add: copy_got_def)

definition buffer_got :: "bytes \<Rightarrow> int \<Rightarrow> bytes \<Rightarrow> bytes \<Rightarrow> out_buffer \<Rightarrow> world \<Rightarrow> bool" where
  "buffer_got mem n wanted acc b w \<longleftrightarrow> length wanted \<le> length mem \<and> b = filled mem n acc"

interpretation buffer: zip_consumer bufferProcessFunction "buffer_got mem n wanted" wanted for mem n wanted
proof
  fix acc c w xs assume a: "buffer_got mem n wanted acc c w" "prefix (acc @ xs) wanted"
  then have "length acc + length xs \<le> length wanted" using prefix_length_le[OF a(2)] by simp
  then show "\<exists>c' w'. bufferProcessFunction xs c w = Some (Ok (True, c', w')) \<and> buffer_got mem n wanted (acc @ xs) c' w'"
    using a(1) buffer_put_filled[of acc xs mem n] by (simp add: bufferProcessFunction_def buffer_got_def)
qed (simp add: buffer_got_def)

text \<open>A file that had the inode \<^verbatim>\<open>i\<close> and was given \<^verbatim>\<open>acc\<close>.\<close>

definition write_got :: "sys \<Rightarrow> string \<Rightarrow> inode \<Rightarrow> bytes \<Rightarrow> string \<Rightarrow> world \<Rightarrow> bool" where
  "write_got sys name i acc c w \<longleftrightarrow>
     reads_in_full sys \<and> c = name \<and> w_files w name = Some (i\<lparr> i_data := i_data i @ acc \<rparr>)"

lemma write_loop_all:
  assumes "reads_in_full sys"
  shows "\<lbrakk>w_files w name = Some (i\<lparr> i_data := i_data i @ acc @ take k xs \<rparr>); k < length xs\<rbrakk> \<Longrightarrow>
    \<exists>w'. write_loop sys lib name xs k w = Some (Ok (True, w')) \<and> w_files w' name = Some (i\<lparr> i_data := i_data i @ acc @ xs \<rparr>)"
proof (induction "length xs - k" arbitrary: k w rule: less_induct)
  case less
  define n where "n = min (length xs - k) (s_count sys (w_tick w))"
  have n: "0 < n" "k + n \<le> length xs"
    using less.prems(2) assms by (auto simp: n_def reads_in_full_def BUF_SIZE_def dest: spec[of _ "w_tick w"])
  define w1 where "w1 = append_data name (take n (drop k xs)) (tick w)"
  have wr: "sys_write sys name (drop k xs) w = (int n, w1)"
    using assms by (simp add: sys_write_def call_fails_def reads_in_full_def Let_def n_def w1_def)
  have f1: "w_files w1 name = Some (i\<lparr> i_data := i_data i @ acc @ take (k + n) xs \<rparr>)"
    using less.prems(1) by (simp add: w1_def append_data_def take_add)
  show ?case
  proof (cases "k + n = length xs")
    case True
    then show ?thesis using wr n f1 by (subst write_loop.simps) simp
  next
    case False
    have "write_loop sys lib name xs k w = write_loop sys lib name xs (k + n) w1"
      using wr n False by (subst write_loop.simps) simp
    moreover have "length xs - (k + n) < length xs - k" "k + n < length xs" using n False by auto
    ultimately show ?thesis using less.hyps[OF _ f1] by simp
  qed
qed

interpretation wfile: zip_consumer "writeProcessFunction sys lib" "write_got sys name i" wanted for sys lib name i wanted
proof
  fix acc c w and xs :: bytes assume a: "write_got sys name i acc c w" "xs \<noteq> []"
  then show "\<exists>c' w'. writeProcessFunction sys lib xs c w = Some (Ok (True, c', w')) \<and> write_got sys name i (acc @ xs) c' w'"
    using write_loop_all[of sys w name i acc 0 xs lib] by (auto simp: write_got_def writeProcessFunction_def)
qed (simp add: write_got_def)


section \<open>Process functions that never fail to be safe\<close>

text \<open>
  A weaker contract: whatever piece comes, the function does not go wrong and keeps a predicate of
  its cookie. It is enough for the reader not to go wrong, for every behaviour of zlib and of the
  system calls.
\<close>

locale zip_safe_consumer =
  fixes f :: "'c process" and good :: "'c \<Rightarrow> bool"
  assumes safe: "\<lbrakk>good c; f xs c w = Some r\<rbrakk> \<Longrightarrow> \<exists>ret c' w'. r = Ok (ret, c', w') \<and> good c'"
begin

lemma piece_safe:
  assumes "good (zs_cookie s)" "process_piece f xs s = Some r"
  shows "\<exists>ret s'. r = Ok (ret, s') \<and> good (zs_cookie s')"
proof (cases "f xs (zs_cookie s) (zs_world s)")
  case None
  then show ?thesis using assms(2) by (simp add: process_piece_def)
next
  case (Some r')
  then show ?thesis using safe[OF assms(1) Some] assms(2) by (auto simp: process_piece_def)
qed

lemma fd_read_cookie: "fd_read sys m n s = (k, buf, s') \<Longrightarrow> zs_cookie s' = zs_cookie s"
  by (auto simp: fd_read_def split: prod.splits)

lemma stored_safe:
  "\<lbrakk>good (zs_cookie s); stored_loop sys m f n s = Some r\<rbrakk> \<Longrightarrow> \<exists>ret s'. r = Ok (ret, s') \<and> good (zs_cookie s')"
proof (induction n arbitrary: s rule: less_induct)
  case (less n)
  define k where "k = min n BUF_SIZE"
  obtain c buf s1 where rd: "fd_read sys m k s = (c, buf, s1)" by (metis prod_cases3)
  have g: "good (zs_cookie s1)" using fd_read_cookie[OF rd] less.prems(1) by simp
  have eq: "stored_loop sys m f n s =
     (if n > 0 then if c < 0 \<or> nat c \<noteq> k then Some (Ok (False, s1))
        else run_then (process_piece f buf s1) (\<lambda>(ret, s).
          if \<not> ret then Some (Ok (False, s)) else stored_loop sys m f (n - k) s)
      else Some (Ok (True, s)))"
    by (subst stored_loop.simps) (simp add: Let_def rd flip: k_def)
  show ?case
  proof (cases "n > 0 \<and> \<not> (c < 0 \<or> nat c \<noteq> k)")
    case False
    then show ?thesis using less.prems eq g by (auto split: if_split_asm)
  next
    case True
    obtain r1 where r1: "process_piece f buf s1 = Some r1" using less.prems(2) eq True by (cases "process_piece f buf s1") auto
    obtain ret s2 where s2: "r1 = Ok (ret, s2)" "good (zs_cookie s2)" using piece_safe[OF g r1] by blast
    have "n - k < n" using True by (auto simp: k_def BUF_SIZE_def)
    then show ?thesis using less.IH[OF _ s2(2)] less.prems(2) eq True r1 s2 by (auto split: if_split_asm)
  qed
qed

lemma refill_cookie: "refill sys m z s = (ok, z', s') \<Longrightarrow> zs_cookie s' = zs_cookie s"
  by (auto simp: refill_def Let_def dest: fd_read_cookie split: if_split_asm prod.split_asm)

lemma flush_safe:
  assumes "good (zs_cookie s)" "(if flush_due zerr z then process_piece f (is_out z) s else Some (Ok (True, s))) = Some r"
  shows "\<exists>ret s'. r = Ok (ret, s') \<and> good (zs_cookie s')"
  using assms piece_safe by (auto split: if_split_asm)

lemma deflated_safe:
  assumes "deflated_loop sys lib m f z s = Some r" "good (zs_cookie s)"
  shows "\<exists>n s'. r = Ok (n, s') \<and> good (zs_cookie s')"
proof -
  have "f = f \<longrightarrow> good (zs_cookie s) \<longrightarrow> (\<exists>n s'. r = Ok (n, s') \<and> good (zs_cookie s'))"
  proof (rule deflated_loop.raw_induct[where P = "\<lambda>sys lib m g z s r. g = f \<longrightarrow> good (zs_cookie s) \<longrightarrow>
      (\<exists>n s'. r = Ok (n, s') \<and> good (zs_cookie s'))", OF _ assms(1)], intro impI)
    fix loop sys lib m g z s r
    assume IH: "\<And>sys lib m g z s r. loop sys lib m g z s = Some r \<Longrightarrow>
        g = f \<longrightarrow> good (zs_cookie s) \<longrightarrow> (\<exists>n s'. r = Ok (n, s') \<and> good (zs_cookie s'))"
      and body: "(case refill sys m z s of (ok, z, s) \<Rightarrow>
        if \<not> ok then Some (Ok (-1, s))
        else case inflate_some lib z of (zerr, z) \<Rightarrow>
          if zerr \<noteq> Z_OK \<and> zerr \<noteq> Z_STREAM_END then Some (Ok (-1, s))
          else
            (case (if flush_due zerr z then process_piece g (is_out z) s else Some (Ok (True, s))) of
               None \<Rightarrow> None
             | Some r \<Rightarrow>
                 (case r of
                    Inl e \<Rightarrow> Some (Inl e)
                  | Inr p \<Rightarrow>
                      if \<not> fst p then Some (Ok (-1, snd p))
                      else
                        let z = (if flush_due zerr z then z\<lparr> is_out := [] \<rparr> else z)
                        in if zerr = Z_OK then loop sys lib m g z (snd p)
                           else if zerr \<noteq> Z_STREAM_END then Some (Inl AssertFailed)
                           else Some (Ok (int (is_total z), snd p))))) = Some r"
      and g: "g = f" "good (zs_cookie s)"
    obtain ok z1 s1 where r1: "refill sys m z s = (ok, z1, s1)" by (metis prod_cases3)
    obtain zerr z2 where r2: "inflate_some lib z1 = (zerr, z2)" by force
    have g1: "good (zs_cookie s1)" using refill_cookie[OF r1] g(2) by simp
    show "\<exists>n s'. r = Ok (n, s') \<and> good (zs_cookie s')"
    proof (cases "ok \<and> (zerr = Z_OK \<or> zerr = Z_STREAM_END)")
      case False
      then show ?thesis using body g1 by (auto simp: r1 r2 split: if_split_asm)
    next
      case True
      let ?p = "if flush_due zerr z2 then process_piece f (is_out z2) s1 else Some (Ok (True, s1))"
      have zc: "(\<not> ok) = False" "(zerr \<noteq> Z_OK \<and> zerr \<noteq> Z_STREAM_END) = False" using True by auto
      note body' = body[unfolded r1 prod.case zc r2 if_False g(1)]
      obtain r3 where r3: "?p = Some r3" using body' by (cases ?p) (simp_all only: option.case option.distinct)
      obtain ret s3 where s3: "r3 = Ok (ret, s3)" "good (zs_cookie s3)" using flush_safe[OF g1 r3] by blast
      have "(if \<not> ret then Some (Ok (-1, s3)) else
          let z = (if flush_due zerr z2 then z2\<lparr> is_out := [] \<rparr> else z2)
          in if zerr = Z_OK then loop sys lib m g z s3 else Some (Ok (int (is_total z), s3))) = Some r"
        using body' True by (simp only: g(1) r3 s3(1) option.case sum.case fst_conv snd_conv Let_def) (auto split: if_split_asm)
      then show ?thesis using IH[of sys lib m g _ s3 r] g(1) s3(2) by (auto simp: Let_def split: if_split_asm)
    qed
  qed
  then show ?thesis using assms(2) by simp
qed

lemma process_safe:
  assumes "mzProcessZipEntryContents sys lib m e f s = Some r" "good (zs_cookie s)"
  shows "\<exists>ret s'. r = Ok (ret, s') \<and> good (zs_cookie s') \<and> zs_pos s' = zs_pos s"
proof -
  let ?s = "s\<lparr> zs_pos := nat (offset e) \<rparr>"
  have g: "good (zs_cookie ?s)" using assms(2) by simp
  have "\<exists>ret s'. r' = Ok (ret, s') \<and> good (zs_cookie s')" if r: "process_by_method sys lib m e f ?s = Some r'" for r'
  proof (cases "compression e = DEFLATED \<and> compression e \<noteq> STORED \<and> fst (zi_init lib) = Z_OK")
    case True
    let ?d = "deflated_loop sys lib m f
      \<lparr> is_strm = snd (zi_init lib), is_in = [], is_out = [], is_total = 0, is_remaining = compLen e \<rparr> ?s"
    obtain r1 where "?d = Some r1" using r True by (cases ?d) (auto simp: process_by_method_def processDeflatedEntry_def split: prod.splits)
    then show ?thesis using r True deflated_safe[OF _ g] 
      by (fastforce simp: process_by_method_def processDeflatedEntry_def split: prod.splits)
  qed (use r g stored_safe[OF g] in \<open>auto simp: process_by_method_def processStoredEntry_def processDeflatedEntry_def
        split: if_split_asm prod.splits\<close>)
  note part = this
  obtain r' where r': "process_by_method sys lib m e f ?s = Some r'"
    using assms(1) by (cases "process_by_method sys lib m e f ?s") (auto simp: mzProcessZipEntryContents_def)
  then show ?thesis using part[OF r'] assms(1) by (auto simp: mzProcessZipEntryContents_def)
qed

end

definition within :: "nat \<Rightarrow> out_buffer \<Rightarrow> bool" where
  "within n b \<longleftrightarrow> length (ob_mem b) = n \<and> int (ob_pos b) + ob_len b \<le> int n"

interpretation copy_safe: zip_safe_consumer copyProcessFunction "within n" for n
  by unfold_locales (auto simp: copyProcessFunction_def buffer_put_def within_def split: if_split_asm)

interpretation crc_safe: zip_safe_consumer "crcProcessFunction lib" "\<lambda>_. True" for lib
  by unfold_locales (auto simp: crcProcessFunction_def)

section \<open>Properties of reading entries\<close>

text \<open>A decoder for the witnesses: the compressed form of three bytes is the bytes.\<close>

definition demo_lib :: "nat zip_lib" where
  "demo_lib = \<lparr> zi_init = (Z_OK, 3),
     zi_inflate = \<lambda>z inp room. let k = min z (min (length inp) room) in
       (if k = z then Z_STREAM_END else Z_OK, k, take k inp, z - k),
     zi_crc32 = \<lambda>c xs. foldl (\<lambda>c x. c * 31 + ucast x) c xs, zi_eintr = \<lambda>_. False \<rparr>"

definition demo_feeds :: "nat \<Rightarrow> bytes \<Rightarrow> bytes \<Rightarrow> bool" where
  "demo_feeds z rest todo \<longleftrightarrow> z \<le> length rest \<and> todo = take z rest"

lemma demo_inflates: "inflates demo_lib demo_feeds"
  unfolding inflates_def
proof (intro allI impI)
  fix z rest todo inp and room :: nat
  assume a: "demo_feeds z rest todo \<and> prefix inp rest \<and> (inp \<noteq> [] \<or> rest = []) \<and> room > 0"
  then obtain ys where ys: "rest = inp @ ys" by (auto elim: prefixE)
  define k where "k = min z (min (length inp) room)"
  have k: "k \<le> length inp" "k \<le> room" "k \<le> z" "take k inp = take k rest" "k = z \<or> k > 0" using a ys by (auto simp: k_def demo_feeds_def)
  have "todo = take k inp @ take (z - k) (drop k rest)" using a k by (simp add: demo_feeds_def flip: take_add)
  moreover have "demo_feeds (z - k) (drop k rest) (take (z - k) (drop k rest))" using a by (auto simp: demo_feeds_def)
  ultimately show "case zi_inflate demo_lib z inp room of (zerr, k, out', z') \<Rightarrow>
      k \<le> length inp \<and> length out' \<le> room \<and> (\<exists>todo'. todo = out' @ todo' \<and>
       (zerr = Z_STREAM_END \<and> todo' = [] \<or> zerr = Z_OK \<and> (k > 0 \<or> out' \<noteq> []) \<and> demo_feeds z' (drop k rest) todo'))"
    using k by (auto simp: demo_lib_def Let_def simp flip: k_def)
qed

definition demo_sys :: sys where
  "demo_sys = \<lparr> s_fail = \<lambda>_. False, s_count = \<lambda>_. BUF_SIZE, s_statfs = \<lambda>_ _. (0, 0), s_readdir = \<lambda>_ _. [],
     s_readlink = \<lambda>_ _. None \<rparr>"

definition demo_deflated :: ZipEntry where
  "demo_deflated = demo_entry\<lparr> offset := 1, compLen := 3, uncompLen := 3, compression := DEFLATED \<rparr>"

lemma demo_reads: "reads_in_full demo_sys"
  by (simp add: reads_in_full_def demo_sys_def)

lemma demo_contents: "zip_contents demo_lib demo_feeds [9, 1, 2, 3] demo_deflated [1, 2, 3]"
  by (simp add: zip_contents_def demo_deflated_def demo_entry_def demo_lib_def demo_feeds_def entry_ok_def entry_bytes_def
      validFilename_def PATH_MAX_def vem_ok_def CENVEM_UNIX_def DEFLATED_def)

definition demo_world :: world where
  "demo_world = \<lparr> w_files = [''/out'' \<mapsto> new_file], w_tick = 0 \<rparr>"

text \<open>
  C18: extracting an entry to a file appends exactly its contents (the stored bytes, or what zlib
  makes of them when the size is the announced one), in however many pieces, and returns true;
  system calls are assumed not to fail.
\<close>

theorem zip_extract_exact:
  assumes "reads_in_full sys" "inflates lib feeds" "zip_contents lib feeds m e contents'" "w_files w fd = Some i"
  shows "\<exists>w'. mzExtractZipEntryToFile sys lib m e fd pos w = Some (Ok (True, w')) \<and>
    w_files w' fd = Some (i\<lparr> i_data := i_data i @ contents' \<rparr>)"
proof -
  have "write_got sys fd i [] fd w" using assms(1,4) by (simp add: write_got_def)
  from wfile.process_all[where pos = pos and liba = lib, OF assms(1-3) this] show ?thesis
    by (auto simp: mzExtractZipEntryToFile_def write_got_def)
qed

theorem zip_extract_exact_witness:
  "\<exists>w'. mzExtractZipEntryToFile demo_sys demo_lib [9, 1, 2, 3] demo_deflated ''/out'' 0 demo_world = Some (Ok (True, w')) \<and>
    w_files w' ''/out'' = Some (new_file\<lparr> i_data := [1, 2, 3] \<rparr>)"
  using zip_extract_exact[OF demo_reads demo_inflates demo_contents, of demo_world "''/out''" new_file 0]
  by (simp add: demo_world_def new_file_def)

text \<open>
  An entry is reported intact exactly when the CRC-32 of its contents is the one of the
  central directory.
\<close>

theorem zip_intact_iff:
  assumes "reads_in_full sys" "inflates lib feeds" "zip_contents lib feeds m e contents'" "crc_chains lib"
  shows "\<exists>w'. mzIsZipEntryIntact sys lib m e pos w =
    Some (Ok (uint (zi_crc32 lib (zi_crc32 lib 0 []) contents') = ze_crc32 e, w'))"
proof -
  have "crc_got lib [] (zi_crc32 lib 0 []) w" using assms(4) by (simp add: crc_got_def)
  from crc.process_all[where pos = pos, OF assms(1-3) this] show ?thesis
    using assms(4) by (auto simp: mzIsZipEntryIntact_def crc_got_def crc_chains_def)
qed

theorem zip_intact_iff_witness:
  "\<exists>w'. mzIsZipEntryIntact demo_sys demo_lib [9, 1, 2, 3] (demo_deflated\<lparr> ze_crc32 := 1026 \<rparr>) 0 demo_world = Some (Ok (True, w'))"
proof -
  have c: "zip_contents demo_lib demo_feeds [9, 1, 2, 3] (demo_deflated\<lparr> ze_crc32 := 1026 \<rparr>) [1, 2, 3]"
    using demo_contents by (simp add: zip_contents_def entry_ok_def entry_bytes_def)
  have "crc_chains demo_lib" by (simp add: crc_chains_def demo_lib_def)
  from zip_intact_iff[OF demo_reads demo_inflates c this, of 0 demo_world] show ?thesis by (simp add: demo_lib_def)
qed

lemma read_entry_safe:
  assumes "bufLen \<le> int (length buf)" "mzReadZipEntry sys lib m e buf bufLen pos w = Some r"
  shows "\<exists>ret buf' w'. r = Ok (ret, buf', w') \<and> length buf' = length buf"
proof -
  let ?s = "\<lparr> zs_pos = pos, zs_cookie = \<lparr> ob_mem = buf, ob_pos = 0, ob_len = bufLen \<rparr>, zs_world = w \<rparr>"
  obtain r' where r': "mzProcessZipEntryContents sys lib m e copyProcessFunction ?s = Some r'"
    using assms(2) by (cases "mzProcessZipEntryContents sys lib m e copyProcessFunction ?s") (auto simp: mzReadZipEntry_def)
  have "within (length buf) (zs_cookie ?s)" using assms(1) by (simp add: within_def)
  from copy_safe.process_safe[OF r' this] show ?thesis using assms(2) r' by (auto simp: mzReadZipEntry_def within_def)
qed

text \<open>
  C27: reading an entry into a buffer of the caller never goes wrong, whatever the archive says,
  zlib does and the system calls return: no byte outside the buffer is written, and the size of
  the buffer stays.
\<close>

theorem zip_read_bounded:
  assumes "bufLen \<le> int (length buf)" "mzReadZipEntry sys lib m e buf bufLen pos w = Some r"
  shows "\<exists>ret buf' w'. r = Ok (ret, buf', w') \<and> length buf' = length buf"
  by (rule read_entry_safe[OF assms])

lemma copy_run:
  assumes "reads_in_full sys" "inflates lib feeds" "zip_contents lib feeds m e contents'"
    "int (length contents') \<le> bufLen" "bufLen \<le> int (length buf)"
  shows "\<exists>w'. mzReadZipEntry sys lib m e buf bufLen pos w = Some (Ok (True, contents' @ drop (length contents') buf, w'))"
proof -
  have "copy_got buf bufLen contents' [] \<lparr> ob_mem = buf, ob_pos = 0, ob_len = bufLen \<rparr> w"
    using assms(4,5) by (simp add: copy_got_def filled_def)
  from copy.process_all[where pos = pos, OF assms(1-3) this] show ?thesis
    by (auto simp: mzReadZipEntry_def copy_got_def filled_def)
qed

theorem zip_read_bounded_witness:
  "\<exists>w' r. mzReadZipEntry demo_sys demo_lib [9, 1, 2, 3] demo_deflated [0, 0, 0, 0] 4 0 demo_world = Some r \<and>
    r = Ok (True, [1, 2, 3, 0], w') \<and> (\<exists>ret buf' w'. r = Ok (ret, buf', w') \<and> length buf' = length [0, 0, 0, 0 :: u8])"
proof -
  obtain w' where w': "mzReadZipEntry demo_sys demo_lib [9, 1, 2, 3] demo_deflated [0, 0, 0, 0] 4 0 demo_world =
      Some (Ok (True, [1, 2, 3, 0], w'))"
    using copy_run[OF demo_reads demo_inflates demo_contents, of 4 "[0, 0, 0, 0]" 0 demo_world] by auto
  show ?thesis using w' zip_read_bounded[OF _ w'] by simp
qed

text \<open>
  C33: extracting to a memory buffer, which callers allocate with the announced size, has no such
  check: a stored entry with more data than it announces writes past the end of the buffer.
\<close>

theorem zip_buffer_overrun:
  assumes "reads_in_full sys" "entry_ok m e" "compression e = STORED" "compLen e \<le> int BUF_SIZE"
    "int (length buffer) = uncompLen e" "uncompLen e < compLen e"
  shows "mzExtractZipEntryToBuffer sys lib m e buffer pos w = Some (Inl OutOfBounds)"
proof -
  have n: "unat (word_of_int (compLen e) :: u64) = nat (compLen e)"
    using assms(2,4) by (simp add: entry_ok_def BUF_SIZE_def unsigned_of_int take_bit_int_eq_self)
  have k: "min (nat (compLen e)) BUF_SIZE = nat (compLen e)" using assms(4) by linarith
  have l: "nat (offset e) + nat (compLen e) \<le> length m" using assms(2) by (auto simp: entry_ok_def)
  have pos': "0 < nat (compLen e)" using assms(5,6) by linarith
  have "length buffer < nat (compLen e)" using assms(5,6) by linarith
  moreover have "nat (compLen e) \<le> BUF_SIZE" using assms(4) by linarith
  note rd = fd_read_full[where m = m, OF assms(1) this]
  ultimately show ?thesis
    unfolding mzExtractZipEntryToBuffer_def mzProcessZipEntryContents_def process_by_method_def processStoredEntry_def n
    using pos' l assms(3) k
    by (subst stored_loop.simps) (simp add: rd Let_def process_piece_def bufferProcessFunction_def buffer_put_def)
qed

theorem zip_buffer_overrun_witness:
  "mzExtractZipEntryToBuffer demo_sys demo_lib [9, 1, 2, 3] (demo_deflated\<lparr> compression := STORED, uncompLen := 2 \<rparr>) [0, 0] 0 demo_world =
    Some (Inl OutOfBounds)"
  by (rule zip_buffer_overrun[OF demo_reads])
    (simp_all add: demo_deflated_def demo_entry_def entry_ok_def validFilename_def PATH_MAX_def vem_ok_def CENVEM_UNIX_def BUF_SIZE_def)

end
