(* ===== verification/Dir_Util.thy ===== *)
theory Dir_Util
  imports C_String "HOL-Library.Sublist"
begin

text \<open>
  Directory trees: \<^verbatim>\<open>src/minzip/DirUtil.c\<close>. The kernel is a parameter: a state and a record with the
  result of each system call on it. The recursive functions take the depth to which they may
  recurse; \<^const>\<open>None\<close> is a run that needs more. \<^verbatim>\<open>PATH_MAX\<close> is large enough for the paths built.
\<close>

section \<open>The kernel\<close>

datatype file_kind = KDir | KLink | KOther

definition ENOENT :: int where "ENOENT = 2"

text \<open>\<^verbatim>\<open>stat\<close> and \<^verbatim>\<open>lstat\<close> give an \<^verbatim>\<open>errno\<close> or the kind of the file. \<^verbatim>\<open>opendir\<close> gives what \<^verbatim>\<open>readdir\<close>
  will deliver: the names, and \<^verbatim>\<open>errno\<close> at the end. The other calls return 0 or -1.\<close>

record 'k kernel =
  k_stat :: "string \<Rightarrow> 'k \<Rightarrow> (int + file_kind) \<times> 'k"
  k_lstat :: "string \<Rightarrow> 'k \<Rightarrow> (int + file_kind) \<times> 'k"
  k_mkdir :: "string \<Rightarrow> int \<Rightarrow> 'k \<Rightarrow> int \<times> 'k"
  k_utime :: "string \<Rightarrow> int \<Rightarrow> 'k \<Rightarrow> int \<times> 'k"
  k_unlink :: "string \<Rightarrow> 'k \<Rightarrow> int \<times> 'k"
  k_rmdir :: "string \<Rightarrow> 'k \<Rightarrow> int \<times> 'k"
  k_opendir :: "string \<Rightarrow> 'k \<Rightarrow> (string list \<times> int) option \<times> 'k"
  k_closedir :: "'k \<Rightarrow> int \<times> 'k"
  k_chown :: "string \<Rightarrow> int \<Rightarrow> int \<Rightarrow> 'k \<Rightarrow> int \<times> 'k"
  k_chmod :: "string \<Rightarrow> int \<Rightarrow> 'k \<Rightarrow> int \<times> 'k"
  k_symlink :: "string \<Rightarrow> string \<Rightarrow> 'k \<Rightarrow> int \<times> 'k"
  k_creat :: "string \<Rightarrow> int \<Rightarrow> 'k \<Rightarrow> int \<times> 'k"

section \<open>Creating directories\<close>

datatype DirStatus = DMISSING | DDIR | DILLEGAL

definition getPathDirStatus :: "('k, 'm) kernel_scheme \<Rightarrow> string \<Rightarrow> 'k \<Rightarrow> DirStatus \<times> 'k" where
  "getPathDirStatus K path k =
     (case k_stat K path k of (r, k) \<Rightarrow>
        (case r of
           Inr kind \<Rightarrow> if kind = KDir then DDIR else DILLEGAL
         | Inl errno \<Rightarrow> if errno \<noteq> ENOENT then DILLEGAL else DMISSING, k))"

text \<open>The body of the walk for the directory \<^verbatim>\<open>dir\<close>: false where the function returns -1.\<close>

definition make_level :: "('k, 'm) kernel_scheme \<Rightarrow> int \<Rightarrow> int option \<Rightarrow> string \<Rightarrow> 'k \<Rightarrow> bool \<times> 'k" where
  "make_level K mode timestamp dir k =
     (case getPathDirStatus K dir k of (ds, k) \<Rightarrow>
        if ds = DILLEGAL then (False, k)
        else if ds = DMISSING then
          (case k_mkdir K dir mode k of (err, k) \<Rightarrow>
             if err \<noteq> 0 then (False, k)
             else case timestamp of
               None \<Rightarrow> (True, k)
             | Some t \<Rightarrow> (case k_utime K dir t k of (err, k) \<Rightarrow> (err = 0, k)))
        else (True, k))"

definition slash :: char where "slash = CHR ''/''"

text \<open>The walk up the path: \<^verbatim>\<open>up\<close> is the part before \<^verbatim>\<open>p\<close>, \<^verbatim>\<open>rest\<close> the part from \<^verbatim>\<open>p\<close> on. A last component
  without a slash behind it would make \<^verbatim>\<open>p\<close> run past the end.\<close>

function walk :: "('k, 'm) kernel_scheme \<Rightarrow> int \<Rightarrow> int option \<Rightarrow> string \<Rightarrow> string \<Rightarrow> 'k \<Rightarrow> (int \<times> 'k) outcome" where
  "walk K mode timestamp up rest k =
     (let up' = up @ takeWhile (\<lambda>c. c = slash) rest; rest' = dropWhile (\<lambda>c. c = slash) rest
      in if rest' = [] then Ok (0, k)
         else let dir = up' @ takeWhile (\<lambda>c. c \<noteq> slash) rest'; rest'' = dropWhile (\<lambda>c. c \<noteq> slash) rest'
              in if rest'' = [] then Inl OutOfBounds
                 else case make_level K mode timestamp dir k of (ok, k) \<Rightarrow>
                   if \<not> ok then Ok (-1, k) else walk K mode timestamp dir rest'' k)"
  by pat_completeness auto
termination
proof (relation "measure (\<lambda>(K, mode, t, up, rest, k). length rest)", simp, goal_cases)
  case (1 K mode timestamp up rest k up' rest' dir rest'')
  then have "rest' \<noteq> []" by simp
  moreover have "hd rest' \<noteq> slash" using hd_dropWhile[of "\<lambda>c. c = slash" rest] \<open>rest' \<noteq> []\<close> 1(2) by simp
  ultimately have "takeWhile (\<lambda>c. c \<noteq> slash) rest' \<noteq> []" by (cases rest') auto
  then have "length rest'' < length rest'"
    using 1 arg_cong[OF takeWhile_dropWhile_id, of length "\<lambda>c. c \<noteq> slash" rest']
    by (metis length_append length_greater_0_conv less_add_same_cancel2)
  then show ?case using 1 length_dropWhile_le[of "\<lambda>c. c = slash" rest] by auto
qed

declare walk.simps [simp del]

text \<open>\<^verbatim>\<open>cpath\<close>: the path up to its last slash (which must not be the first character), or with a
  slash at the end.\<close>

definition cpath_of :: "string \<Rightarrow> bool \<Rightarrow> string option" where
  "cpath_of path stripFileName =
     (if stripFileName then
        let c = dropWhile (\<lambda>c. c \<noteq> slash) (rev path)
        in if length c \<le> 1 then None else Some (rev c)
      else Some (path @ [slash]))"

text \<open>\<^verbatim>\<open>malloc_ok\<close>: does the allocation of \<^verbatim>\<open>cpath\<close> succeed.\<close>

definition dirCreateHierarchy ::
  "('k, 'm) kernel_scheme \<Rightarrow> bool \<Rightarrow> string \<Rightarrow> int \<Rightarrow> int option \<Rightarrow> bool \<Rightarrow> 'k \<Rightarrow> (int \<times> 'k) outcome" where
  "dirCreateHierarchy K malloc_ok path mode timestamp stripFileName k =
     (if path = [] then Ok (-1, k)
      else if \<not> malloc_ok then Ok (-1, k)
      else case cpath_of path stripFileName of
        None \<Rightarrow> Ok (-1, k)
      | Some cpath \<Rightarrow>
          (case getPathDirStatus K cpath k of (ds, k) \<Rightarrow>
             if ds = DDIR then Ok (0, k)
             else if ds = DILLEGAL then Ok (-1, k)
             else walk K mode timestamp [] cpath k))"

section \<open>Removing a tree\<close>

definition dots :: "string \<Rightarrow> bool" where
  "dots name \<longleftrightarrow> strcmp name ''..'' = 0 \<or> strcmp name ''.'' = 0"

fun unlink_names :: "(string \<Rightarrow> 'k \<Rightarrow> (int \<times> 'k) option) \<Rightarrow> string \<Rightarrow> string list \<Rightarrow> 'k \<Rightarrow> (bool \<times> 'k) option" where
  "unlink_names unlink' path [] k = Some (False, k)"
| "unlink_names unlink' path (d # ds) k =
     (if dots d then unlink_names unlink' path ds k
      else case unlink' (path @ ''/'' @ d) k of
        None \<Rightarrow> None
      | Some (rc, k) \<Rightarrow> if rc < 0 then Some (True, k) else unlink_names unlink' path ds k)"

text \<open>The result of the loop is \<^verbatim>\<open>fail\<close>; \<^verbatim>\<open>errno\<close> matters only when the whole listing was read.\<close>

fun dirUnlinkHierarchy :: "('k, 'm) kernel_scheme \<Rightarrow> nat \<Rightarrow> string \<Rightarrow> 'k \<Rightarrow> (int \<times> 'k) option" where
  "dirUnlinkHierarchy K 0 path k = None"
| "dirUnlinkHierarchy K (Suc depth) path k =
     (case k_lstat K path k of (st, k) \<Rightarrow>
        case st of
          Inl e \<Rightarrow> Some (-1, k)
        | Inr kind \<Rightarrow>
            if kind \<noteq> KDir then Some (k_unlink K path k)
            else case k_opendir K path k of (dir, k) \<Rightarrow>
              case dir of
                None \<Rightarrow> Some (-1, k)
              | Some (names, errno) \<Rightarrow>
                  (case unlink_names (dirUnlinkHierarchy K depth) path names k of
                     None \<Rightarrow> None
                   | Some (fail, k) \<Rightarrow>
                       (case k_closedir K k of (rc, k) \<Rightarrow>
                          if fail \<or> errno < 0 then Some (-1, k)
                          else if rc < 0 then Some (-1, k)
                          else Some (k_rmdir K path k))))"

section \<open>Permissions of a tree\<close>

text \<open>The loop over the names ends at the first that fails; the result is \<^verbatim>\<open>errno = 0\<close>.\<close>

fun perm_names :: "(string \<Rightarrow> 'k \<Rightarrow> (int \<times> 'k) option) \<Rightarrow> string \<Rightarrow> string list \<Rightarrow> int \<Rightarrow> 'k \<Rightarrow> (bool \<times> 'k) option" where
  "perm_names set_perm path [] errno k = Some (errno = 0, k)"
| "perm_names set_perm path (d # ds) errno k =
     (if dots d then perm_names set_perm path ds errno k
      else case set_perm (path @ ''/'' @ d) k of
        None \<Rightarrow> None
      | Some (rc, k) \<Rightarrow> if rc \<noteq> 0 then Some (False, k) else perm_names set_perm path ds errno k)"

fun dirSetHierarchyPermissions ::
  "('k, 'm) kernel_scheme \<Rightarrow> nat \<Rightarrow> int \<Rightarrow> int \<Rightarrow> int \<Rightarrow> int \<Rightarrow> string \<Rightarrow> 'k \<Rightarrow> (int \<times> 'k) option" where
  "dirSetHierarchyPermissions K 0 uid gid dirMode fileMode path k = None"
| "dirSetHierarchyPermissions K (Suc depth) uid gid dirMode fileMode path k =
     (case k_lstat K path k of (st, k) \<Rightarrow>
        case st of
          Inl e \<Rightarrow> Some (-1, k)
        | Inr kind \<Rightarrow>
            if kind = KLink then Some (0, k)
            else case k_chown K path uid gid k of (rc, k) \<Rightarrow>
              if rc \<noteq> 0 then Some (-1, k)
              else case k_chmod K path (if kind = KDir then dirMode else fileMode) k of (rc, k) \<Rightarrow>
                if rc \<noteq> 0 then Some (-1, k)
                else if kind \<noteq> KDir then Some (0, k)
                else case k_opendir K path k of (dir, k) \<Rightarrow>
                  case dir of
                    None \<Rightarrow> Some (-1, k)
                  | Some (names, errno) \<Rightarrow>
                      (case perm_names (dirSetHierarchyPermissions K depth uid gid dirMode fileMode) path names errno k of
                         None \<Rightarrow> None
                       | Some (ok, k) \<Rightarrow>
                           (case k_closedir K k of (rc, k) \<Rightarrow>
                              if \<not> ok then Some (-1, k) else if rc \<noteq> 0 then Some (-1, k) else Some (0, k))))"

section \<open>Creating directories works\<close>

text \<open>What the code relies on: \<^verbatim>\<open>isdir\<close> tells where the directories are; \<^verbatim>\<open>stat\<close> finds them, \<^verbatim>\<open>mkdir\<close> makes
  one, no call removes one, and what lies above a directory is a directory.\<close>

definition level :: "string \<Rightarrow> string \<Rightarrow> bool" where
  "level q p \<longleftrightarrow> q \<noteq> [] \<and> last q \<noteq> slash \<and> (q = p \<or> prefix (q @ [slash]) p)"

lemma level_alt: "level q p \<longleftrightarrow> q \<noteq> [] \<and> last q \<noteq> slash \<and> (q = p \<or> (\<exists>r. p = q @ slash # r))"
  by (auto simp: level_def prefix_def)

lemma level_trans: "\<lbrakk>level q p; level p d\<rbrakk> \<Longrightarrow> level q d"
  by (auto simp: level_alt)

definition makes_dirs :: "('k, 'm) kernel_scheme \<Rightarrow> ('k \<Rightarrow> string \<Rightarrow> bool) \<Rightarrow> bool" where
  "makes_dirs K isdir \<longleftrightarrow>
     (\<forall>p k r k'. k_stat K p k = (r, k') \<longrightarrow> (r = Inr KDir \<longrightarrow> isdir k p) \<and> isdir k' = isdir k) \<and>
     (\<forall>p m k rc k'. k_mkdir K p m k = (rc, k') \<longrightarrow> (rc = 0 \<longrightarrow> isdir k' p) \<and> isdir k \<le> isdir k') \<and>
     (\<forall>p t k rc k'. k_utime K p t k = (rc, k') \<longrightarrow> isdir k \<le> isdir k') \<and>
     (\<forall>p q k. isdir k p \<and> level q p \<longrightarrow> isdir k q)"

lemma makes_dirsD:
  assumes "makes_dirs K isdir"
  shows "k_stat K p k = (r, k') \<Longrightarrow> (r = Inr KDir \<longrightarrow> isdir k p) \<and> isdir k' = isdir k"
    and "k_mkdir K p m k = (rc, k') \<Longrightarrow> (rc = 0 \<longrightarrow> isdir k' p) \<and> isdir k \<le> isdir k'"
    and "k_utime K p t k = (rc, k') \<Longrightarrow> isdir k \<le> isdir k'"
    and "isdir k p \<Longrightarrow> level q p \<Longrightarrow> isdir k q"
  using assms unfolding makes_dirs_def by blast+

lemma level_slashes:
  assumes "level q (p @ s)" "\<forall>c \<in> set s. c = slash"
  shows "level q p"
proof -
  from assms(1) have q: "q \<noteq> []" "last q \<noteq> slash" by (auto simp: level_alt)
  have no: "us = []" if "q = p @ us" "set us \<subseteq> set s" for us
  proof (rule ccontr)
    assume "us \<noteq> []"
    then have "last q \<in> set s" using that last_in_set[of us] by auto
    then show False using assms(2) q(2) by blast
  qed
  from assms(1) consider "q = p @ s" | r where "p @ s = q @ slash # r" by (auto simp: level_alt)
  then show ?thesis
  proof cases
    case 1
    then show ?thesis using no[of s] q by (auto simp: level_alt)
  next
    case (2 r)
    then consider us where "p = q @ us" "us @ s = slash # r" | us where "q = p @ us" "s = us @ slash # r"
      by (auto simp: append_eq_append_conv2)
    then show ?thesis
    proof cases
      case (1 us)
      then show ?thesis using q by (cases us) (auto simp: level_alt)
    next
      case (2 us)
      then have "us = []" using no[of us] by auto
      then show ?thesis using 2 q by (auto simp: level_alt)
    qed
  qed
qed

lemma level_comp:
  assumes "level q (p @ s)" "slash \<notin> set s"
  shows "level q p \<or> q = p @ s"
proof (rule disjCI)
  assume "q \<noteq> p @ s"
  then obtain r where "p @ s = q @ slash # r" "q \<noteq> []" "last q \<noteq> slash" using assms(1) by (auto simp: level_alt)
  then obtain us where us: "p = q @ us \<and> us @ s = slash # r \<or> q = p @ us \<and> s = us @ slash # r"
    by (auto simp: append_eq_append_conv2)
  then have "p = q @ us" "us @ s = slash # r" using assms(2) by auto
  then have "\<exists>r. p = q @ slash # r" using assms(2) by (cases us) auto
  then show "level q p" using \<open>q \<noteq> []\<close> \<open>last q \<noteq> slash\<close> by (simp add: level_alt)
qed

lemma getPathDirStatus_dirs:
  assumes "makes_dirs K isdir" "getPathDirStatus K p k = (ds, k')"
  shows "(ds = DDIR \<longrightarrow> isdir k' p) \<and> isdir k' = isdir k"
proof -
  obtain r k1 where s: "k_stat K p k = (r, k1)" by force
  have "k1 = k'" "ds = DDIR \<Longrightarrow> r = Inr KDir"
    using assms(2) by (auto simp: getPathDirStatus_def s split: sum.split_asm if_split_asm)
  then show ?thesis using makes_dirsD(1)[OF assms(1) s] by auto
qed

lemma make_level_dirs:
  assumes "makes_dirs K isdir" "make_level K mode t dir k = (ok, k')"
  shows "(ok \<longrightarrow> isdir k' dir) \<and> isdir k \<le> isdir k'"
proof -
  obtain ds k1 where s: "getPathDirStatus K dir k = (ds, k1)" by force
  obtain rc k2 where m: "k_mkdir K dir mode k1 = (rc, k2)" by force
  note d = getPathDirStatus_dirs[OF assms(1) s] makes_dirsD(2)[OF assms(1) m]
  show ?thesis
  proof (cases "ds = DMISSING \<and> rc = 0")
    case True
    then have "(case t of None \<Rightarrow> (True, k2) | Some t \<Rightarrow> (case k_utime K dir t k2 of (err, k) \<Rightarrow> (err = 0, k))) = (ok, k')"
      using assms(2) s m by (simp add: make_level_def)
    then have "isdir k2 \<le> isdir k'" using makes_dirsD(3)[OF assms(1)] by (auto split: option.split_asm prod.split_asm)
    then show ?thesis using d True by auto
  next
    case False
    then show ?thesis using assms(2) s m d by (cases ds) (auto simp: make_level_def)
  qed
qed

lemma make_level_levels:
  assumes "makes_dirs K isdir" "make_level K mode t (up @ c) k = (True, k')" "slash \<notin> set c"
    "\<forall>q. level q up \<longrightarrow> isdir k q" "level q (up @ c)"
  shows "isdir k' q"
proof -
  have "isdir k' (up @ c)" "isdir k \<le> isdir k'" using make_level_dirs[OF assms(1,2)] by auto
  then show ?thesis using level_comp[OF assms(5,3)] assms(4) by (auto simp: le_fun_def)
qed

lemma walk_dirs:
  shows "\<lbrakk>makes_dirs K isdir; rest = [] \<or> last rest = slash; \<forall>q. level q up \<longrightarrow> isdir k q\<rbrakk> \<Longrightarrow>
    \<exists>rc k'. walk K mode t up rest k = Ok (rc, k') \<and> (rc = 0 \<or> rc = -1) \<and>
      (rc = 0 \<longrightarrow> (\<forall>q. level q (up @ rest) \<longrightarrow> isdir k' q))"
proof (induction K mode t up rest k rule: walk.induct)
  case (1 K mode t up rest k)
  define up' rest' where "up' = up @ takeWhile (\<lambda>c. c = slash) rest" and "rest' = dropWhile (\<lambda>c. c = slash) rest"
  define dir rest'' where "dir = up' @ takeWhile (\<lambda>c. c \<noteq> slash) rest'" and "rest'' = dropWhile (\<lambda>c. c \<noteq> slash) rest'"
  have all: "up @ rest = up' @ rest'" "up' @ rest' = dir @ rest''" by (simp_all add: up'_def rest'_def dir_def rest''_def)
  have up': "isdir k q" if "level q up'" for q
    using level_slashes[of q up "takeWhile (\<lambda>c. c = slash) rest"] that 1(4) by (auto simp: up'_def dest: set_takeWhileD)
  show ?case
  proof (cases "rest' = []")
    case True
    then have "walk K mode t up rest k = Ok (0, k)" by (subst walk.simps) (simp add: Let_def rest'_def)
    then show ?thesis using up' True all by simp
  next
    case False
    then have "rest \<noteq> []" by (auto simp: rest'_def)
    then have last: "last rest = slash" using 1(3) by simp
    have "last rest' = slash" using last_appendR[OF False, of "takeWhile (\<lambda>c. c = slash) rest"] last by (simp add: rest'_def)
    then have "slash \<in> set rest'" using last_in_set[OF False] by simp
    then have ne: "rest'' \<noteq> []" by (auto simp: rest''_def dropWhile_eq_Nil_conv)
    have lr: "last rest'' = slash"
      using last_appendR[OF ne, of "takeWhile (\<lambda>c. c \<noteq> slash) rest'"] \<open>last rest' = slash\<close> by (simp add: rest''_def)
    obtain ok k1 where l: "make_level K mode t dir k = (ok, k1)" by force
    have step: "walk K mode t up rest k = (if \<not> ok then Ok (-1, k1) else walk K mode t dir rest'' k1)"
      using False ne l by (subst walk.simps) (simp add: Let_def flip: up'_def rest'_def dir_def rest''_def)
    have nc: "slash \<notin> set (takeWhile (\<lambda>c. c \<noteq> slash) rest')" by (auto dest: set_takeWhileD)
    have lv: "\<forall>q. level q dir \<longrightarrow> isdir k1 q" if "ok"
    proof (intro allI impI)
      fix q assume q: "level q dir"
      have l': "make_level K mode t (up' @ takeWhile (\<lambda>c. c \<noteq> slash) rest') k = (True, k1)"
        using l that by (simp add: dir_def)
      show "isdir k1 q" by (rule make_level_levels[OF 1(2) l' nc]) (use up' q in \<open>auto simp: dir_def\<close>)
    qed
    show ?thesis
    proof (cases ok)
      case True
      have "\<exists>rc k'. walk K mode t dir rest'' k1 = Ok (rc, k') \<and> (rc = 0 \<or> rc = -1) \<and>
          (rc = 0 \<longrightarrow> (\<forall>q. level q (dir @ rest'') \<longrightarrow> isdir k' q))"
        by (rule 1(1)[OF up'_def rest'_def False dir_def rest''_def ne l[symmetric]]) (use True 1(2) lr lv in auto)
      then show ?thesis using step True all by simp
    next
      case False
      then show ?thesis using step by simp
    qed
  qed
qed


lemma create_levels:
  assumes "makes_dirs K isdir"
  shows "\<exists>rc k'. dirCreateHierarchy K malloc_ok path mode t strip k = Ok (rc, k') \<and> (rc = 0 \<or> rc = -1) \<and>
    (rc = 0 \<longrightarrow> (\<exists>cpath. cpath_of path strip = Some cpath \<and> (\<forall>q. level q cpath \<longrightarrow> isdir k' q)))"
proof (cases "path = [] \<or> \<not> malloc_ok \<or> cpath_of path strip = None")
  case True
  then show ?thesis by (auto simp: dirCreateHierarchy_def)
next
  case False
  then obtain cpath where c: "cpath_of path strip = Some cpath" by auto
  obtain ds k1 where s: "getPathDirStatus K cpath k = (ds, k1)" by force
  have "rev (dropWhile (\<lambda>c. c \<noteq> slash) (rev path)) = [] \<or> last (rev (dropWhile (\<lambda>c. c \<noteq> slash) (rev path))) = slash"
    using hd_dropWhile[of "\<lambda>c. c \<noteq> slash" "rev path"] by (cases "dropWhile (\<lambda>c. c \<noteq> slash) (rev path)") auto
  then have e: "cpath = [] \<or> last cpath = slash"
    using c by (auto simp: cpath_of_def Let_def split: if_split_asm)
  have w: "\<exists>rc k'. walk K mode t [] cpath k1 = Ok (rc, k') \<and> (rc = 0 \<or> rc = -1) \<and>
      (rc = 0 \<longrightarrow> (\<forall>q. level q ([] @ cpath) \<longrightarrow> isdir k' q))"
    by (rule walk_dirs[OF assms e]) (simp add: level_alt)
  have "ds = DDIR \<Longrightarrow> level q cpath \<Longrightarrow> isdir k1 q" for q
    using getPathDirStatus_dirs[OF assms s] makes_dirsD(4)[OF assms] by blast
  then show ?thesis using False c s w by (cases ds) (auto simp: dirCreateHierarchy_def)
qed

text \<open>
  Creating the directories of a path returns 0 or -1 and never reads past the end of its copy
  of the path; when it returns 0, every directory on the path exists.
\<close>

theorem dirCreateHierarchy_makes:
  assumes "makes_dirs K isdir"
  shows "\<exists>rc k'. dirCreateHierarchy K malloc_ok path mode t strip k = Ok (rc, k') \<and> (rc = 0 \<or> rc = -1) \<and>
    (rc = 0 \<longrightarrow> (\<exists>cpath. cpath_of path strip = Some cpath \<and> (\<forall>q. level q cpath \<longrightarrow> isdir k' q)))"
  by (rule create_levels[OF assms])

text \<open>A kernel for the witness: the state is a list of directories that are there with all above them.\<close>

definition known_dir :: "string list \<Rightarrow> string \<Rightarrow> bool" where
  "known_dir k p \<longleftrightarrow> list_ex (\<lambda>d. p = d \<or> level p d) k"

definition demo_kernel :: "string list kernel" where
  "demo_kernel = \<lparr> k_stat = \<lambda>p k. (if known_dir k p then Inr KDir else Inl ENOENT, k),
     k_lstat = \<lambda>p k. (if known_dir k p then Inr KDir else Inl ENOENT, k),
     k_mkdir = \<lambda>p m k. (0, k @ [p]), k_utime = \<lambda>p t k. (0, k), k_unlink = \<lambda>p k. (-1, k),
     k_rmdir = \<lambda>p k. (0, removeAll p k),
     k_opendir = \<lambda>p k. (if known_dir k p then Some ([''.'', ''..''], 0) else None, k), k_closedir = \<lambda>k. (0, k),
     k_chown = \<lambda>p u g k. (0, k), k_chmod = \<lambda>p m k. (0, k), k_symlink = \<lambda>a b k. (-1, k), k_creat = \<lambda>p m k. (-1, k) \<rparr>"

lemma demo_makes_dirs: "makes_dirs demo_kernel known_dir"
  unfolding makes_dirs_def
  by (auto simp: demo_kernel_def known_dir_def list_ex_iff le_fun_def dest: level_trans)

theorem dirCreateHierarchy_makes_witness:
  "\<exists>k'. dirCreateHierarchy demo_kernel True ''/a/b/f'' 493 None True [''/a''] = Ok (0, k') \<and> known_dir k' ''/a'' \<and> known_dir k' ''/a/b''"
proof -
  have ev: "dirCreateHierarchy demo_kernel True ''/a/b/f'' 493 None True [''/a''] = Ok (0, [''/a'', ''/a/b''])"
    by code_simp
  show ?thesis
    using dirCreateHierarchy_makes[OF demo_makes_dirs, of True "''/a/b/f''" 493 None True "[''/a'']"]
    by (auto simp: ev cpath_of_def slash_def level_def)
qed

text \<open>
  A file directly in the root directory has no containing directory for the code: its only
  slash is the first character, and the call fails with \<^verbatim>\<open>ENOENT\<close> although the root exists.
\<close>

theorem dirCreateHierarchy_root_file:
  assumes "slash \<notin> set name"
  shows "dirCreateHierarchy K malloc_ok (slash # name) mode t True k = Ok (-1, k)"
proof -
  have "dropWhile (\<lambda>c. c \<noteq> slash) (rev (slash # name)) = [slash]"
    using assms by (simp add: dropWhile_append)
  then show ?thesis by (simp add: dirCreateHierarchy_def cpath_of_def)
qed

theorem dirCreateHierarchy_root_file_witness:
  "dirCreateHierarchy demo_kernel True ''/f'' 493 None True [''/''] = Ok (-1, [''/''])"
  using dirCreateHierarchy_root_file[of "''f''" demo_kernel True 493 None "[''/'']"] by (simp add: slash_def)

end
