(* ===== verification/Zip_Extract.thy ===== *)
theory Zip_Extract
  imports Zip_Process Dir_Util
begin

text \<open>
  Extracting a directory of an archive: \<^verbatim>\<open>targetEntryPath\<close> and \<^verbatim>\<open>mzExtractRecursive\<close> of
  \<^verbatim>\<open>src/minzip/Zip.c\<close>. File contents are written through the system calls of \<^verbatim>\<open>Zip_Process\<close>, everything
  else goes through the kernel of \<^verbatim>\<open>Dir_Util\<close>; \<^verbatim>\<open>kx_get\<close> and \<^verbatim>\<open>kx_put\<close> are the contents of files within the
  state of that kernel. The calls of the callback are a list.
\<close>

section \<open>Target paths\<close>

text \<open>The buffer of the helper: its contents, as far as they are set, and its size \<^verbatim>\<open>bufLen\<close>.\<close>

record MzPathHelper =
  ph_targetDir :: string
  ph_targetDirLen :: int
  ph_zipDirLen :: int
  ph_buf :: "string option"
  ph_bufLen :: int

text \<open>\<^verbatim>\<open>memcpy\<close> of \<^verbatim>\<open>xs\<close> to offset \<^verbatim>\<open>p\<close> of a buffer of \<^verbatim>\<open>n\<close> bytes that is set up to \<^verbatim>\<open>p\<close> at least.\<close>

definition put_chars :: "int \<Rightarrow> int \<Rightarrow> string \<Rightarrow> string \<Rightarrow> string outcome" where
  "put_chars n p xs buf =
     (if p < 0 \<or> p > int (length buf) \<or> p + int (length xs) > n then Inl OutOfBounds
      else Ok (take (nat p) buf @ xs @ drop (nat p + length xs) buf))"

text \<open>The first use: target path and slash.\<close>

definition start_path :: "MzPathHelper \<Rightarrow> MzPathHelper outcome" where
  "start_path h =
     then_do (put_chars (ph_bufLen h) 0 (take (nat (ph_targetDirLen h)) (ph_targetDir h)) []) (\<lambda>buf.
       if buf = [] \<or> last buf \<noteq> slash
       then then_do (put_chars (ph_bufLen h) (int (length buf)) [slash] buf) (\<lambda>buf.
              Ok (h\<lparr> ph_buf := Some buf, ph_targetDirLen := ph_targetDirLen h + 1 \<rparr>))
       else Ok (h\<lparr> ph_buf := Some buf \<rparr>))"

text \<open>The rest of the name behind the target path; the result is the string in the buffer.\<close>

definition finish_path :: "MzPathHelper \<Rightarrow> bytes \<Rightarrow> (string \<times> MzPathHelper) outcome" where
  "finish_path h name =
     (case ph_buf h of
        None \<Rightarrow> Inl OutOfBounds
      | Some buf \<Rightarrow>
          if ph_zipDirLen h > int (length name) then Inl OutOfBounds
          else
            let rest = chars_of (drop (nat (ph_zipDirLen h)) name)
            in then_do (put_chars (ph_bufLen h) (ph_targetDirLen h) rest buf) (\<lambda>buf.
               then_do (put_chars (ph_bufLen h) (ph_targetDirLen h + int (length rest)) [CHR 0x00] buf) (\<lambda>buf.
                 Ok (takeWhile (\<lambda>c. c \<noteq> CHR 0x00) buf, h\<lparr> ph_buf := Some buf \<rparr>))))"

definition targetEntryPath ::
  "(int \<Rightarrow> bool) \<Rightarrow> MzPathHelper \<Rightarrow> bytes \<Rightarrow> (string option \<times> MzPathHelper) outcome" where
  "targetEntryPath realloc_ok h name =
     (let firstTime = (ph_buf h = None);
          needLen = ph_targetDirLen h + 1 + int (length name) - ph_zipDirLen h + 1
      in if needLen > ph_bufLen h \<and> \<not> realloc_ok (needLen * 2) then Ok (None, h)
         else
           let h = (if needLen > ph_bufLen h then h\<lparr> ph_bufLen := needLen * 2 \<rparr> else h)
           in then_do (if firstTime then start_path h else Ok h) (\<lambda>h.
              then_do (finish_path h name) (\<lambda>(p, h). Ok (Some p, h))))"

section \<open>The kernel and the arguments\<close>

record 'k xkernel = "'k kernel" +
  kx_get :: "'k \<Rightarrow> world"
  kx_put :: "world \<Rightarrow> 'k \<Rightarrow> 'k"

definition MZ_EXTRACT_FILES_ONLY :: "u32" where "MZ_EXTRACT_FILES_ONLY = 1"
definition MZ_EXTRACT_DRY_RUN :: "u32" where "MZ_EXTRACT_DRY_RUN = 2"
definition UNZIP_DIRMODE :: int where "UNZIP_DIRMODE = 493"
definition UNZIP_FILEMODE :: int where "UNZIP_FILEMODE = 420"

text \<open>What the environment gives: which \<^verbatim>\<open>realloc\<close> and \<^verbatim>\<open>malloc\<close> succeed, and what fresh memory holds.\<close>

record ext_args =
  ea_flags :: u32
  ea_timestamp :: "int option"
  ea_callback :: bool
  ea_realloc :: "int \<Rightarrow> bool"
  ea_malloc :: "int \<Rightarrow> bytes option"

text \<open>The state of the walk: the outer \<^verbatim>\<open>ok\<close>, the helper, the calls of the callback, the kernel and the
  offset of the descriptor of the archive.\<close>

record 'k ext_state =
  es_ok :: bool
  es_helper :: MzPathHelper
  es_called :: "string list"
  es_kernel :: 'k
  es_pos :: nat

section \<open>Extracting one entry\<close>

text \<open>Each part tells whether the walk goes on, and the state; \<^verbatim>\<open>ok = false; break;\<close> is \<^verbatim>\<open>give_up\<close>.\<close>

definition give_up :: "'k ext_state \<Rightarrow> (bool \<times> 'k ext_state) run" where
  "give_up s = Some (Ok (False, s\<lparr> es_ok := False \<rparr>))"

definition make_dirs ::
  "('k, 'm) kernel_scheme \<Rightarrow> ext_args \<Rightarrow> string \<Rightarrow> bool \<Rightarrow> 'k ext_state \<Rightarrow> (bool \<times> 'k ext_state) run" where
  "make_dirs K a targetFile strip s =
     run_then (Some (dirCreateHierarchy K (ea_malloc a (int (length targetFile) + 2) \<noteq> None) targetFile UNZIP_DIRMODE
                       (ea_timestamp a) strip (es_kernel s)))
       (\<lambda>(ret, k). if ret \<noteq> 0 then give_up (s\<lparr> es_kernel := k \<rparr>) else Some (Ok (True, s\<lparr> es_kernel := k \<rparr>)))"

text \<open>A symbolic link: its target is the contents of the entry. A read that fails leaves \<^verbatim>\<open>ok\<close> false.\<close>

definition extract_link ::
  "sys \<Rightarrow> ('z, 'm) zip_lib_scheme \<Rightarrow> ('k, 'n) xkernel_scheme \<Rightarrow> ext_args \<Rightarrow> bytes \<Rightarrow> ZipEntry \<Rightarrow> string \<Rightarrow>
     'k ext_state \<Rightarrow> (bool \<times> 'k ext_state) run" where
  "extract_link sys lib K a m e targetFile s =
     (if uncompLen e = 0 then give_up s
      else case ea_malloc a (uncompLen e + 1) of
        None \<Rightarrow> give_up s
      | Some linkTarget \<Rightarrow>
          run_then (mzReadZipEntry sys lib m e linkTarget (uncompLen e) (es_pos s) (kx_get K (es_kernel s)))
            (\<lambda>(ok, linkTarget, w).
              let s = s\<lparr> es_ok := ok, es_kernel := kx_put K w (es_kernel s) \<rparr>
              in if \<not> ok then Some (Ok (False, s))
                 else if uncompLen e < 0 \<or> uncompLen e \<ge> int (length linkTarget) then Some (Inl OutOfBounds)
                 else
                   let to = takeWhile (\<lambda>c. c \<noteq> CHR 0x00) (chars_of (take (nat (uncompLen e)) linkTarget))
                   in case k_symlink K to targetFile (es_kernel s) of (ret, k) \<Rightarrow>
                        if ret \<noteq> 0 then give_up (s\<lparr> es_kernel := k \<rparr>) else Some (Ok (True, s\<lparr> es_kernel := k \<rparr>))))"

text \<open>A regular file. The \<^verbatim>\<open>ok\<close> of this block is a variable of its own: setting it to false leaves the
  outer one as it is.\<close>

definition extract_file ::
  "sys \<Rightarrow> ('z, 'm) zip_lib_scheme \<Rightarrow> ('k, 'n) xkernel_scheme \<Rightarrow> ext_args \<Rightarrow> bytes \<Rightarrow> ZipEntry \<Rightarrow> string \<Rightarrow>
     'k ext_state \<Rightarrow> (bool \<times> 'k ext_state) run" where
  "extract_file sys lib K a m e targetFile s =
     (case k_creat K targetFile UNZIP_FILEMODE (es_kernel s) of (fd, k) \<Rightarrow>
        if fd < 0 then give_up (s\<lparr> es_kernel := k \<rparr>)
        else
          run_then (mzExtractZipEntryToFile sys lib m e targetFile (es_pos s) (kx_get K k)) (\<lambda>(ok, w).
            let s = s\<lparr> es_kernel := kx_put K w k \<rparr>
            in if \<not> ok then Some (Ok (False, s))
               else case ea_timestamp a of
                 None \<Rightarrow> Some (Ok (True, s))
               | Some t \<Rightarrow>
                   (case k_utime K targetFile t (es_kernel s) of (err, k) \<Rightarrow>
                      let s = s\<lparr> es_kernel := k \<rparr>
                      in if err \<noteq> 0 then Some (Ok (False, s)) else Some (Ok (True, s)))))"

definition flag_set :: "u32 \<Rightarrow> u32 \<Rightarrow> bool" where
  "flag_set flags f \<longleftrightarrow> flags AND f \<noteq> 0"

text \<open>The part of the loop body behind \<^verbatim>\<open>targetEntryPath\<close>. An empty name would make the code read the
  byte before it.\<close>

definition extract_entry ::
  "sys \<Rightarrow> ('z, 'm) zip_lib_scheme \<Rightarrow> ('k, 'n) xkernel_scheme \<Rightarrow> ext_args \<Rightarrow> bytes \<Rightarrow> ZipEntry \<Rightarrow> string \<Rightarrow>
     'k ext_state \<Rightarrow> (bool \<times> 'k ext_state) run" where
  "extract_entry sys lib K a m e targetFile s =
     (if flag_set (ea_flags a) MZ_EXTRACT_DRY_RUN
      then Some (Ok (True, if ea_callback a then s\<lparr> es_called := es_called s @ [targetFile] \<rparr> else s))
      else if fileName e = [] then Some (Inl OutOfBounds)
      else
        run_then
          (if last (fileName e) = 0x2f then
             if \<not> flag_set (ea_flags a) MZ_EXTRACT_FILES_ONLY then make_dirs K a targetFile False s
             else Some (Ok (True, s))
           else run_then (make_dirs K a targetFile True s) (\<lambda>(go, s).
             if \<not> go then Some (Ok (False, s))
             else if \<not> flag_set (ea_flags a) MZ_EXTRACT_FILES_ONLY \<and> mzIsZipEntrySymlink e
                  then extract_link sys lib K a m e targetFile s
                  else extract_file sys lib K a m e targetFile s))
          (\<lambda>(go, s). Some (Ok (go,
             if go \<and> ea_callback a then s\<lparr> es_called := es_called s @ [targetFile] \<rparr> else s))))"

section \<open>The walk over the entries\<close>

definition matches :: "bytes \<Rightarrow> ZipEntry \<Rightarrow> bool" where
  "matches zpath e \<longleftrightarrow> \<not> length (fileName e) < length zpath \<and> strncmp_bytes (fileName e) zpath (length zpath) = 0"

fun extract_loop ::
  "sys \<Rightarrow> ('z, 'm) zip_lib_scheme \<Rightarrow> ('k, 'n) xkernel_scheme \<Rightarrow> ext_args \<Rightarrow> bytes \<Rightarrow> bytes \<Rightarrow> bool \<Rightarrow> ZipEntry list \<Rightarrow>
     'k ext_state \<Rightarrow> 'k ext_state run" where
  "extract_loop sys lib K a m zpath seenMatch [] s = Some (Ok s)"
| "extract_loop sys lib K a m zpath seenMatch (e # es) s =
     (if \<not> matches zpath e then
        if seenMatch then Some (Ok s) else extract_loop sys lib K a m zpath seenMatch es s
      else run_then (Some (targetEntryPath (ea_realloc a) (es_helper s) (fileName e))) (\<lambda>(p, h).
        let s = s\<lparr> es_helper := h \<rparr>
        in case p of
             None \<Rightarrow> Some (Ok (s\<lparr> es_ok := False \<rparr>))
           | Some targetFile \<Rightarrow>
               run_then (extract_entry sys lib K a m e targetFile s) (\<lambda>(go, s).
                 if \<not> go then Some (Ok s) else extract_loop sys lib K a m zpath True es s)))"

definition canonical :: "bytes \<Rightarrow> bytes" where
  "canonical zipDir = (if zipDir \<noteq> [] \<and> last zipDir \<noteq> 0x2f then zipDir @ [0x2f] else zipDir)"

definition mzExtractRecursive ::
  "sys \<Rightarrow> ('z, 'm) zip_lib_scheme \<Rightarrow> ('k, 'n) xkernel_scheme \<Rightarrow> ext_args \<Rightarrow> ZipArchive \<Rightarrow> bytes \<Rightarrow> string \<Rightarrow> nat \<Rightarrow> 'k \<Rightarrow>
     (bool \<times> string list \<times> 'k) run" where
  "mzExtractRecursive sys lib K a za zipDir targetDir pos k =
     (if zipDir \<noteq> [] \<and> hd zipDir = 0x2f then Some (Ok (False, [], k))
      else if targetDir = [] \<or> hd targetDir \<noteq> slash then Some (Ok (False, [], k))
      else if ea_malloc a (int (length zipDir) + 2) = None then Some (Ok (False, [], k))
      else
        let zpath = canonical zipDir;
            h = \<lparr> ph_targetDir = targetDir, ph_targetDirLen = int (length targetDir), ph_zipDirLen = int (length zpath),
                  ph_buf = None, ph_bufLen = 0 \<rparr>
        in run_then (extract_loop sys lib K a (za_file za) zpath False (za_entries za)
                       \<lparr> es_ok = True, es_helper = h, es_called = [], es_kernel = k, es_pos = pos \<rparr>)
             (\<lambda>s. Some (Ok (es_ok s, es_called s, es_kernel s))))"

section \<open>Target paths stay in their buffer\<close>

definition with_slash :: "string \<Rightarrow> string" where
  "with_slash d = (if d = [] \<or> last d \<noteq> slash then d @ [slash] else d)"

definition helper_ok :: "string \<Rightarrow> nat \<Rightarrow> MzPathHelper \<Rightarrow> bool" where
  "helper_ok td zl h \<longleftrightarrow> ph_zipDirLen h = int zl \<and>
     (case ph_buf h of
        None \<Rightarrow> ph_targetDir h = td \<and> ph_targetDirLen h = int (length td) \<and> ph_bufLen h = 0
      | Some buf \<Rightarrow> prefix (with_slash td) buf \<and> ph_targetDirLen h = int (length (with_slash td)) \<and> int (length buf) \<le> ph_bufLen h)"

lemma chars_nul_free: "nul_free_bytes xs \<Longrightarrow> nul_free (chars_of xs)"
  unfolding nul_free_def
proof
  assume a: "nul_free_bytes xs" "CHR 0x00 \<in> set (chars_of xs)"
  then obtain b where b: "b \<in> set xs" "char_of (unat b) = CHR 0x00" by (auto simp: chars_of_def)
  have "of_char (char_of (unat b) :: char) = unat b mod 256" by simp
  then have "unat b mod 256 = 0" unfolding b(2) by simp
  moreover have "unat b < 256" using unsigned_less[of b] by simp
  ultimately have "b = 0" by (simp add: unat_eq_0)
  then show False using a(1) b(1) by (simp add: nul_free_bytes_def)
qed

lemma start_path_ok:
  assumes "ph_targetDir h = td" "ph_targetDirLen h = int (length td)" "int (length td) + 1 \<le> ph_bufLen h"
  shows "start_path h = Ok (h\<lparr> ph_buf := Some (with_slash td), ph_targetDirLen := int (length (with_slash td)) \<rparr>)"
  using assms by (auto simp: start_path_def put_chars_def with_slash_def)

lemma finish_path_ok:
  assumes "ph_buf h = Some buf" "prefix (with_slash td) buf" "ph_targetDirLen h = int (length (with_slash td))"
    "ph_zipDirLen h = int zl" "zl \<le> length name"
    "int (length (with_slash td) + (length name - zl)) + 1 \<le> ph_bufLen h" "int (length buf) \<le> ph_bufLen h"
    "nul_free td" "nul_free_bytes name"
  shows "\<exists>buf'. finish_path h name = Ok (with_slash td @ chars_of (drop zl name), h\<lparr> ph_buf := Some buf' \<rparr>) \<and>
    prefix (with_slash td) buf' \<and> int (length buf') \<le> ph_bufLen h"
proof -
  let ?d = "with_slash td"
  define r where "r = chars_of (drop zl name)"
  have lr: "int (length ?d) + int (length r) + 1 \<le> ph_bufLen h" using assms(5,6) by (simp add: r_def of_nat_diff)
  obtain ys where buf: "buf = ?d @ ys" using assms(2) by (auto elim: prefixE)
  define buf' where "buf' = ?d @ r @ [CHR 0x00] @ drop (length r + 1) ys"
  have nf: "nul_free (?d @ r)"
    using assms(8,9) chars_nul_free[of "drop zl name"]
    by (auto simp: r_def with_slash_def slash_def nul_free_def nul_free_bytes_def dest: in_set_dropD)
  have p1: "put_chars (ph_bufLen h) (int (length ?d)) r buf = Ok (?d @ r @ drop (length r) ys)"
    using lr by (simp add: put_chars_def buf)
  have p2: "put_chars (ph_bufLen h) (int (length ?d) + int (length r)) [CHR 0x00] (?d @ r @ drop (length r) ys) = Ok buf'"
    using lr by (simp add: put_chars_def buf'_def nat_add_distrib)
  have "takeWhile (\<lambda>c. c \<noteq> CHR 0x00) buf' = ?d @ r"
  proof -
    have "c \<noteq> CHR 0x00" if "c \<in> set (?d @ r)" for c using nf that unfolding nul_free_def by metis
    from takeWhile_append2[of "?d @ r" "\<lambda>c. c \<noteq> CHR 0x00", OF this] show ?thesis by (simp add: buf'_def)
  qed
  then have "finish_path h name = Ok (?d @ r, h\<lparr> ph_buf := Some buf' \<rparr>)"
    unfolding finish_path_def assms(1,3,4) using assms(5) p1 p2 by (simp add: Let_def flip: r_def)
  moreover have "int (length buf') \<le> ph_bufLen h"
    using lr assms(7) by (auto simp: buf'_def buf)
  ultimately show ?thesis by (auto simp: buf'_def r_def)
qed

lemma targetEntryPath_ok:
  assumes "helper_ok td zl h" "zl \<le> length name" "nul_free td" "nul_free_bytes name"
  shows "\<exists>p h'. targetEntryPath realloc_ok h name = Ok (p, h') \<and> helper_ok td zl h' \<and>
    (p = None \<or> p = Some (with_slash td @ chars_of (drop zl name))) \<and> ((\<forall>n. realloc_ok n) \<longrightarrow> p \<noteq> None)"
proof -
  define need where "need = ph_targetDirLen h + 1 + int (length name) - ph_zipDirLen h + 1"
  define h1 where "h1 = (if need > ph_bufLen h then h\<lparr> ph_bufLen := need * 2 \<rparr> else h)"
  have b1: "need \<le> ph_bufLen h1" "ph_bufLen h \<le> ph_bufLen h1"
    using assms(1,2) by (auto simp: h1_def need_def helper_ok_def split: option.splits)
  have len: "length (with_slash td) \<le> length td + 1" by (simp add: with_slash_def)
  show ?thesis
  proof (cases "need > ph_bufLen h \<and> \<not> realloc_ok (need * 2)")
    case True
    then show ?thesis using assms(1) by (auto simp: targetEntryPath_def Let_def need_def)
  next
    case False
    obtain h2 buf where h2: "(if ph_buf h = None then start_path h1 else Ok h1) = Ok h2" "ph_buf h2 = Some buf"
      "prefix (with_slash td) buf" "ph_targetDirLen h2 = int (length (with_slash td))" "ph_zipDirLen h2 = int zl"
      "int (length buf) \<le> ph_bufLen h2" "int (length (with_slash td) + (length name - zl)) + 1 \<le> ph_bufLen h2"
    proof (cases "ph_buf h")
      case None
      then have "start_path h1 = Ok (h1\<lparr> ph_buf := Some (with_slash td), ph_targetDirLen := int (length (with_slash td)) \<rparr>)"
        using assms(1,2) b1 by (intro start_path_ok) (auto simp: h1_def need_def helper_ok_def)
      then show ?thesis using None that assms(1,2) b1 len by (auto simp: h1_def need_def helper_ok_def of_nat_diff)
    next
      case (Some buf)
      then show ?thesis using that[of h1 buf] assms(1,2) b1 by (auto simp: h1_def need_def helper_ok_def of_nat_diff)
    qed
    obtain buf' where "finish_path h2 name = Ok (with_slash td @ chars_of (drop zl name), h2\<lparr> ph_buf := Some buf' \<rparr>)"
      "prefix (with_slash td) buf'" "int (length buf') \<le> ph_bufLen h2"
      using finish_path_ok[OF h2(2-5) assms(2) h2(7,6) assms(3,4)] by blast
    then show ?thesis using False h2(1,4,5)
      by (auto simp: targetEntryPath_def Let_def helper_ok_def simp flip: need_def h1_def)
  qed
qed

section \<open>Sorted entries: the matches are one run\<close>

lemma matches_prefix: "nul_free_bytes (fileName e) \<Longrightarrow> matches z e \<longleftrightarrow> prefix z (fileName e)"
proof -
  have "length z \<le> length n \<Longrightarrow> strncmp_bytes n z (length z) = 0 \<longleftrightarrow> prefix z n" if "nul_free_bytes n" for n
    using that
  proof (induction z arbitrary: n)
    case (Cons x z)
    then show ?case by (cases n) (auto simp: nul_free_bytes_def)
  qed simp
  then show "nul_free_bytes (fileName e) \<Longrightarrow> ?thesis" by (auto simp: matches_def not_less dest: prefix_length_le)
qed

lemma between_prefix:
  "\<lbrakk>name_diff a b \<le> 0; name_diff b c \<le> 0; prefix z a; prefix z c; nul_free_bytes a; nul_free_bytes b\<rbrakk> \<Longrightarrow> prefix z b"
proof (induction z arbitrary: a b c)
  case (Cons x z)
  obtain a' c' where ac: "a = x # a'" "c = x # c'" using Cons.prems(3,4) by (auto elim!: prefixE)
  obtain y b' where b: "b = y # b'" using Cons.prems(1) ac by (cases b) (auto simp: name_diff_simps)
  have nz: "x \<noteq> 0" "y \<noteq> 0" using Cons.prems(5,6) ac b by (auto simp: nul_free_bytes_def)
  then have "x = y" using Cons.prems(1,2) ac b by (auto simp: name_diff_simps split: if_split_asm)
  then show ?case using Cons.IH[of a' b' c'] Cons.prems ac b nz by (auto simp: name_diff_simps nul_free_bytes_def)
qed simp

lemma no_later_match:
  assumes "sorted_entries (e # f # es)" "matches z e" "\<not> matches z f" "g \<in> set es"
  shows "\<not> matches z g"
  using assms between_prefix[of "fileName e" "fileName f" "fileName g" z]
  by (auto simp: sorted_entries_def matches_prefix list_all_iff)

section \<open>Properties of extraction\<close>

definition target_of :: "string \<Rightarrow> bytes \<Rightarrow> ZipEntry \<Rightarrow> string" where
  "target_of td zpath e = with_slash td @ chars_of (drop (length zpath) (fileName e))"

lemma dry_loop:
  assumes dry: "flag_set (ea_flags a) MZ_EXTRACT_DRY_RUN" "ea_callback a" "\<forall>n. ea_realloc a n" and td: "nul_free td"
  shows "\<lbrakk>sorted_entries es; seen \<Longrightarrow> \<exists>e. sorted_entries (e # es) \<and> matches zpath e; helper_ok td (length zpath) (es_helper s)\<rbrakk> \<Longrightarrow>
    \<exists>s'. extract_loop sys lib K a m zpath seen es s = Some (Ok s') \<and> es_ok s' = es_ok s \<and> es_kernel s' = es_kernel s \<and>
      es_called s' = es_called s @ map (target_of td zpath) (filter (matches zpath) es)"
proof (induction es arbitrary: seen s)
  case (Cons e es)
  have srt: "sorted_entries es" "nul_free_bytes (fileName e)" using Cons.prems(1) by (auto simp: sorted_entries_def)
  show ?case
  proof (cases "matches zpath e")
    case False
    show ?thesis
    proof (cases seen)
      case True
      then obtain e0 where "sorted_entries (e0 # e # es)" "matches zpath e0" using Cons.prems(2) by blast
      then have "filter (matches zpath) es = []" using no_later_match[OF _ _ False] by (auto simp: filter_empty_conv)
      then show ?thesis using False True by simp
    qed (use Cons.IH[of seen s] Cons.prems srt False in auto)
  next
    case True
    then have "length zpath \<le> length (fileName e)" by (simp add: matches_def)
    then obtain p h where "targetEntryPath (ea_realloc a) (es_helper s) (fileName e) = Ok (p, h)"
      "helper_ok td (length zpath) h" "p = None \<or> p = Some (target_of td zpath e)" "p \<noteq> None"
      using targetEntryPath_ok[OF Cons.prems(3) _ td srt(2), of "ea_realloc a"] dry(3) unfolding target_of_def by blast
    then have h: "targetEntryPath (ea_realloc a) (es_helper s) (fileName e) = Ok (Some (target_of td zpath e), h)"
      "helper_ok td (length zpath) h" by simp_all
    let ?s = "s\<lparr> es_helper := h, es_called := es_called s @ [target_of td zpath e] \<rparr>"
    have x: "extract_entry sys lib K a m e (target_of td zpath e) (s\<lparr> es_helper := h \<rparr>) = Some (Ok (True, ?s))"
      using dry by (simp add: extract_entry_def)
    have "\<exists>s'. extract_loop sys lib K a m zpath True es ?s = Some (Ok s') \<and> es_ok s' = es_ok ?s \<and> es_kernel s' = es_kernel ?s \<and>
      es_called s' = es_called ?s @ map (target_of td zpath) (filter (matches zpath) es)"
      by (rule Cons.IH) (use srt(1) Cons.prems(1) True h(2) in auto)
    then show ?thesis using True h(1) x by auto
  qed
qed simp

text \<open>
  C26: a dry run on an opened archive passes to the callback the target of exactly the entries whose
  names begin with the canonical form of the directory, in sorted order, and changes nothing. So
  giving up at the first entry that does not match after one that did loses nothing, and the
  path buffer is never overrun.
\<close>

theorem extract_dry_run:
  assumes "archive_ok m za" "flag_set (ea_flags a) MZ_EXTRACT_DRY_RUN" "ea_callback a" "\<forall>n. ea_realloc a n"
    "\<forall>n. ea_malloc a n \<noteq> None" "zipDir = [] \<or> hd zipDir \<noteq> 0x2f" "targetDir \<noteq> []" "hd targetDir = slash" "nul_free targetDir"
  shows "mzExtractRecursive sys lib K a za zipDir targetDir pos k =
    Some (Ok (True, map (target_of targetDir (canonical zipDir))
      (filter (\<lambda>e. prefix (canonical zipDir) (fileName e)) (za_entries za)), k))"
proof -
  let ?z = "canonical zipDir"
  let ?h = "\<lparr> ph_targetDir = targetDir, ph_targetDirLen = int (length targetDir), ph_zipDirLen = int (length ?z),
              ph_buf = None, ph_bufLen = 0 \<rparr>"
  have s: "sorted_entries (za_entries za)" using assms(1) by (simp add: archive_ok_def)
  have "filter (matches ?z) (za_entries za) = filter (\<lambda>e. prefix ?z (fileName e)) (za_entries za)"
    using s by (intro filter_cong) (auto simp: matches_prefix sorted_entries_def list_all_iff)
  moreover have "helper_ok targetDir (length ?z) ?h" by (simp add: helper_ok_def)
  ultimately show ?thesis
    using dry_loop[OF assms(2-4,9) s, of False ?z "\<lparr> es_ok = True, es_helper = ?h, es_called = [], es_kernel = k, es_pos = pos \<rparr>" sys lib K "za_file za"]
      assms(1,5-8) by (auto simp: mzExtractRecursive_def Let_def)
qed


text \<open>A kernel over the file contents alone, for the witnesses: every path is a directory.\<close>

definition flat_kernel :: "world xkernel" where
  "flat_kernel = \<lparr> k_stat = \<lambda>p k. (Inr KDir, k), k_lstat = \<lambda>p k. (Inr KDir, k), k_mkdir = \<lambda>p m k. (0, k),
     k_utime = \<lambda>p t k. (0, k), k_unlink = \<lambda>p k. (0, k), k_rmdir = \<lambda>p k. (0, k), k_opendir = \<lambda>p k. (None, k),
     k_closedir = \<lambda>k. (0, k), k_chown = \<lambda>p u g k. (0, k), k_chmod = \<lambda>p m k. (0, k), k_symlink = \<lambda>a b k. (0, k),
     k_creat = \<lambda>p m k. (3, k\<lparr> w_files := (w_files k)(p \<mapsto> new_file) \<rparr>), kx_get = \<lambda>k. k, kx_put = \<lambda>w k. w \<rparr>"

definition demo_args :: "u32 \<Rightarrow> ext_args" where
  "demo_args flags = \<lparr> ea_flags = flags, ea_timestamp = None, ea_callback = True, ea_realloc = \<lambda>_. True,
     ea_malloc = \<lambda>n. Some (replicate (nat n) 0) \<rparr>"

lemma demo_archive:
  obtains za where "archive_ok demo_zip za" "za_entries za = [demo_entry]"
proof -
  obtain za where za: "mzOpenZipArchive demo_env (Inr (Some demo_zip)) = Ok (0, Some za)" "za_entries za = [demo_entry]"
    using opened_entries_Ok[OF demo_open] by blast
  show ?thesis by (rule that[OF open_archive_ok[OF za(1)] za(2)]) (simp add: demo_env_def)
qed

lemma demo_target: "target_of ''/tmp'' [] demo_entry = ''/tmp/a''"
  by code_simp

theorem extract_dry_run_witness:
  "\<exists>za. za_entries za = [demo_entry] \<and>
    mzExtractRecursive demo_sys demo_lib flat_kernel (demo_args 2) za [] ''/tmp'' 0 demo_world = Some (Ok (True, [''/tmp/a''], demo_world))"
proof -
  obtain za where za: "archive_ok demo_zip za" "za_entries za = [demo_entry]" by (rule demo_archive)
  show ?thesis
    using extract_dry_run[OF za(1), of "demo_args 2" "[]" "''/tmp''" demo_sys demo_lib flat_kernel 0 demo_world] za(2) demo_target
    by (auto simp: demo_args_def flag_set_def MZ_EXTRACT_DRY_RUN_def canonical_def slash_def nul_free_def)
qed

text \<open>
  C32: a file whose contents cannot be extracted makes the walk stop, but the function returns
  true: the variable that is set to false is the one of the inner block.
\<close>

theorem extract_failure_returns_true:
  assumes "za_entries za = [e]" "fileName e \<noteq> []" "nul_free_bytes (fileName e)" "last (fileName e) \<noteq> 0x2f"
    "\<not> mzIsZipEntrySymlink e" "\<not> flag_set (ea_flags a) MZ_EXTRACT_DRY_RUN" "\<forall>n. ea_realloc a n" "\<forall>n. ea_malloc a n \<noteq> None"
    "targetDir \<noteq> []" "hd targetDir = slash" "nul_free targetDir"
    "dirCreateHierarchy K True (target_of targetDir [] e) UNZIP_DIRMODE (ea_timestamp a) True k = Ok (0, k1)"
    "k_creat K (target_of targetDir [] e) UNZIP_FILEMODE k1 = (fd, k2)" "0 \<le> fd"
    "mzExtractZipEntryToFile sys lib (za_file za) e (target_of targetDir [] e) pos (kx_get K k2) = Some (Ok (False, w))"
  shows "mzExtractRecursive sys lib K a za [] targetDir pos k = Some (Ok (True, [], kx_put K w k2))"
proof -
  let ?h = "\<lparr> ph_targetDir = targetDir, ph_targetDirLen = int (length targetDir), ph_zipDirLen = 0, ph_buf = None, ph_bufLen = 0 \<rparr>"
  have hok: "helper_ok targetDir 0 ?h" by (simp add: helper_ok_def)
  obtain h where h: "targetEntryPath (ea_realloc a) ?h (fileName e) = Ok (Some (target_of targetDir [] e), h)"
    using targetEntryPath_ok[OF hok _ assms(11,3), of "ea_realloc a"] assms(7) by (auto simp: target_of_def)
  show ?thesis
    using assms h by (simp add: mzExtractRecursive_def canonical_def Let_def matches_def extract_entry_def make_dirs_def extract_file_def)
qed

theorem extract_failure_returns_true_witness:
  "\<exists>za w. za_entries za = [demo_entry] \<and>
    mzExtractRecursive (demo_sys\<lparr> s_fail := \<lambda>_. True \<rparr>) demo_lib flat_kernel (demo_args 0) za [] ''/tmp'' 0 demo_world = Some (Ok (True, [], w)) \<and>
    w_files w ''/tmp/a'' = Some new_file"
proof -
  obtain za where za: "archive_ok demo_zip za" "za_entries za = [demo_entry]" by (rule demo_archive)
  let ?sys = "demo_sys\<lparr> s_fail := \<lambda>_. True \<rparr>" and ?w = "demo_world\<lparr> w_files := (w_files demo_world)(''/tmp/a'' \<mapsto> new_file) \<rparr>"
  have x: "mzExtractZipEntryToFile ?sys demo_lib (za_file za) demo_entry ''/tmp/a'' 0 ?w = Some (Ok (False, tick ?w))"
    by (simp add: mzExtractZipEntryToFile_def mzProcessZipEntryContents_def process_by_method_def demo_entry_def STORED_def
        processStoredEntry_def stored_loop.simps fd_read_def sys_read_def call_fails_def BUF_SIZE_def)
  have d: "dirCreateHierarchy flat_kernel True ''/tmp/a'' UNZIP_DIRMODE None True demo_world = Ok (0, demo_world)"
    by (simp add: dirCreateHierarchy_def cpath_of_def slash_def getPathDirStatus_def flat_kernel_def)
  have "mzExtractRecursive ?sys demo_lib flat_kernel (demo_args 0) za [] ''/tmp'' 0 demo_world =
      Some (Ok (True, [], kx_put flat_kernel (tick ?w) ?w))"
    by (rule extract_failure_returns_true[OF za(2), where fd = 3 and ?k1.0 = demo_world])
      (use x d demo_target in \<open>simp_all add: demo_args_def flag_set_def slash_def nul_free_def nul_free_bytes_def demo_entry_def
        mzIsZipEntrySymlink_def flat_kernel_def\<close>)
  then show ?thesis using za(2) by (auto simp: flat_kernel_def)
qed

section \<open>Extraction is memory safe\<close>

lemma write_loop_safe: "write_loop sys lib name xs k w = Some r \<Longrightarrow> \<exists>ret w'. r = Ok (ret, w')"
  by (rule write_loop.raw_induct[where P = "\<lambda>sys lib name xs k w r. \<exists>ret w'. r = Ok (ret, w')"])
    (auto simp: Let_def split: prod.split_asm if_split_asm)

interpretation file_safe: zip_safe_consumer "writeProcessFunction sys lib" "\<lambda>_. True" for sys lib
proof
  fix c xs w r assume "writeProcessFunction sys lib xs c w = Some r"
  then show "\<exists>ret c' w'. r = Ok (ret, c', w') \<and> True"
    using write_loop_safe[of sys lib c xs 0 w] by (cases "write_loop sys lib c xs 0 w") (auto simp: writeProcessFunction_def)
qed

lemma extract_to_file_safe:
  assumes "mzExtractZipEntryToFile sys lib m e fd pos w = Some r"
  shows "\<exists>ret w'. r = Ok (ret, w')"
proof -
  let ?p = "mzProcessZipEntryContents sys lib m e (writeProcessFunction sys lib) \<lparr> zs_pos = pos, zs_cookie = fd, zs_world = w \<rparr>"
  obtain r' where r': "?p = Some r'" using assms by (cases ?p) (auto simp: mzExtractZipEntryToFile_def)
  from file_safe.process_safe[OF r'] show ?thesis using assms r' by (auto simp: mzExtractZipEntryToFile_def)
qed

definition sized_blocks :: "ext_args \<Rightarrow> bool" where
  "sized_blocks a \<longleftrightarrow> (\<forall>n x. ea_malloc a n = Some x \<longrightarrow> length x = nat n)"

text \<open>A part of the loop body that does not go wrong and leaves the helper alone.\<close>

definition safe_part :: "'k ext_state \<Rightarrow> (bool \<times> 'k ext_state) run \<Rightarrow> bool" where
  "safe_part s r \<longleftrightarrow> r = None \<or> (\<exists>go s'. r = Some (Ok (go, s')) \<and> es_helper s' = es_helper s)"

lemma safe_part_simps [simp]:
  "safe_part s (Some (Ok (go, s'))) \<longleftrightarrow> es_helper s' = es_helper s" "safe_part s (give_up s') \<longleftrightarrow> es_helper s' = es_helper s"
  "safe_part s None" "\<not> safe_part s (Some (Inl e))"
  by (auto simp: safe_part_def give_up_def)

lemma safe_part_then:
  assumes "safe_part s r" "\<And>go s'. es_helper s' = es_helper s \<Longrightarrow> safe_part s (f (go, s'))"
  shows "safe_part s (run_then r f)"
proof (cases "r = None")
  case False
  then obtain go s' where "r = Some (Ok (go, s'))" "es_helper s' = es_helper s" using assms(1) by (auto simp: safe_part_def)
  then show ?thesis using assms(2)[of s' go] by simp
qed simp

lemma safe_part_cong: "es_helper s' = es_helper s \<Longrightarrow> safe_part s' r \<Longrightarrow> safe_part s r"
  by (simp add: safe_part_def)

lemma make_dirs_safe: "safe_part s (make_dirs K a p strip s)"
proof -
  have "makes_dirs K (\<lambda>_ _. True)" by (simp add: makes_dirs_def)
  from create_levels[OF this] obtain rc k where
    "dirCreateHierarchy K (ea_malloc a (int (length p) + 2) \<noteq> None) p UNZIP_DIRMODE (ea_timestamp a) strip (es_kernel s) = Ok (rc, k)"
    by blast
  then show ?thesis by (simp add: make_dirs_def)
qed

lemma extract_file_safe: "safe_part s (extract_file sys lib K a m e p s)"
proof -
  obtain fd k where c: "k_creat K p UNZIP_FILEMODE (es_kernel s) = (fd, k)" by force
  let ?x = "mzExtractZipEntryToFile sys lib m e p (es_pos s) (kx_get K k)"
  show ?thesis
  proof (cases ?x)
    case (Some r)
    then obtain ok w where "r = Ok (ok, w)" using extract_to_file_safe[OF Some] by blast
    then show ?thesis using Some c by (auto simp: extract_file_def Let_def split: option.split prod.split)
  qed (use c in \<open>auto simp: extract_file_def\<close>)
qed

lemma extract_link_safe:
  assumes "sized_blocks a" "0 \<le> uncompLen e"
  shows "safe_part s (extract_link sys lib K a m e p s)"
proof (cases "uncompLen e = 0 \<or> ea_malloc a (uncompLen e + 1) = None")
  case True
  then show ?thesis by (auto simp: extract_link_def)
next
  case False
  then obtain x where x: "ea_malloc a (uncompLen e + 1) = Some x" by auto
  then have l: "int (length x) = uncompLen e + 1" using assms by (simp add: sized_blocks_def)
  let ?r = "mzReadZipEntry sys lib m e x (uncompLen e) (es_pos s) (kx_get K (es_kernel s))"
  show ?thesis
  proof (cases ?r)
    case (Some r)
    then obtain ok y w where "r = Ok (ok, y, w)" "length y = length x" using read_entry_safe[OF _ Some] l by auto
    then show ?thesis using Some x l False assms(2) by (auto simp: extract_link_def Let_def split: prod.split)
  qed (use x False in \<open>auto simp: extract_link_def\<close>)
qed

lemma extract_entry_safe:
  assumes "sized_blocks a" "0 \<le> uncompLen e" "fileName e \<noteq> []"
  shows "safe_part s (extract_entry sys lib K a m e p s)"
proof -
  have f: "safe_part s (extract_file sys lib K a m e p s')" if "es_helper s' = es_helper s" for s'
    using safe_part_cong[OF that extract_file_safe] .
  have l: "safe_part s (extract_link sys lib K a m e p s')" if "es_helper s' = es_helper s" for s'
    using safe_part_cong[OF that extract_link_safe[OF assms(1,2)]] .
  show ?thesis using assms(3) by (auto simp: extract_entry_def intro!: safe_part_then make_dirs_safe f l)
qed

lemma extract_loop_safe:
  assumes "sized_blocks a" "nul_free td"
  shows "\<lbrakk>\<forall>e \<in> set es. 0 \<le> uncompLen e \<and> fileName e \<noteq> [] \<and> nul_free_bytes (fileName e);
      helper_ok td (length zpath) (es_helper s); extract_loop sys lib K a m zpath seen es s = Some r\<rbrakk> \<Longrightarrow> \<exists>s'. r = Ok s'"
proof (induction es arbitrary: seen s)
  case (Cons e es)
  have e: "0 \<le> uncompLen e" "fileName e \<noteq> []" "nul_free_bytes (fileName e)" using Cons.prems(1) by auto
  show ?case
  proof (cases "matches zpath e")
    case False
    then show ?thesis using Cons by (auto split: if_split_asm)
  next
    case True
    then have "length zpath \<le> length (fileName e)" by (simp add: matches_def)
    then obtain p h where h: "targetEntryPath (ea_realloc a) (es_helper s) (fileName e) = Ok (p, h)" "helper_ok td (length zpath) h"
      using targetEntryPath_ok[OF Cons.prems(2) _ assms(2) e(3), of "ea_realloc a"] by blast
    show ?thesis
    proof (cases p)
      case None
      then show ?thesis using True h Cons.prems(3) by auto
    next
      case (Some t)
      let ?x = "extract_entry sys lib K a m e t (s\<lparr> es_helper := h \<rparr>)"
      have "safe_part (s\<lparr> es_helper := h \<rparr>) ?x" by (rule extract_entry_safe[OF assms(1) e(1,2)])
      moreover have "?x \<noteq> None" using True h(1) Some Cons.prems(3) by (cases ?x) auto
      ultimately obtain go s' where x: "?x = Some (Ok (go, s'))" "es_helper s' = h" by (auto simp: safe_part_def)
      have "helper_ok td (length zpath) (es_helper s')" using x(2) h(2) by simp
      moreover have "extract_loop sys lib K a m zpath seen (e # es) s =
          (if \<not> go then Some (Ok s') else extract_loop sys lib K a m zpath True es s')"
        using True h(1) Some x(1) by simp
      ultimately show ?thesis using Cons.IH[of s' True] Cons.prems(1,3) by (cases go) auto
    qed
  qed
qed auto



end
