(* ===== verification/Volumes.thy ===== *)
theory Volumes
  imports C_String
begin

text \<open>
  Volumes and mounts: \<^verbatim>\<open>src/mounts.c\<close> and \<^verbatim>\<open>src/roots.c\<close>. The kernel is a parameter: a state and the
  results of the calls on it. The module state is the volume table and the list of mounted volumes
  of the last scan. \<^verbatim>\<open>malloc\<close> fails only where the code looks at it.
\<close>

section \<open>Reading text\<close>

text \<open>\<^verbatim>\<open>strtok\<close> with a set of delimiters, and \<^verbatim>\<open>fgets\<close> with a buffer of \<^verbatim>\<open>n\<close> bytes.\<close>

definition strtok_any :: "string \<Rightarrow> string \<Rightarrow> (string \<times> string) option" where
  "strtok_any ds s =
     (let s1 = dropWhile (\<lambda>c. c \<in> set ds) s in
      if s1 = [] then None
      else Some (takeWhile (\<lambda>c. c \<notin> set ds) s1, drop 1 (dropWhile (\<lambda>c. c \<notin> set ds) s1)))"

abbreviation newline :: char where
  "newline \<equiv> CHR 0x0A"

definition fgets :: "nat \<Rightarrow> string \<Rightarrow> (string \<times> string) option" where
  "fgets n s =
     (if s = [] \<or> n \<le> 1 then None
      else let line = takeWhile (\<lambda>c. c \<noteq> newline) s;
               whole = (if length line < length s then line @ [newline] else line);
               got = take (n - 1) whole
           in Some (got, drop (length got) s))"

lemma drop1_shorter: "s \<noteq> [] \<Longrightarrow> length (drop 1 (dropWhile P s)) < length s"
proof -
  assume "s \<noteq> []"
  then have "0 < length s" by simp
  then show ?thesis using length_dropWhile_le[of P s] unfolding length_drop by linarith
qed

lemma strtok_any_shorter:
  assumes "strtok_any ds s = Some (t, r)"
  shows "length r < length s"
proof -
  let ?s = "dropWhile (\<lambda>c. c \<in> set ds) s"
  have r: "?s \<noteq> []" "r = drop 1 (dropWhile (\<lambda>c. c \<notin> set ds) ?s)"
    using assms unfolding strtok_any_def Let_def by (auto split: if_split_asm)
  have "length r < length ?s" unfolding r(2) by (rule drop1_shorter[OF r(1)])
  then show ?thesis using length_dropWhile_le[of "\<lambda>c. c \<in> set ds" s] by linarith
qed

lemma fgets_shorter: "fgets n s = Some (l, r) \<Longrightarrow> length r < length s"
proof -
  assume a: "fgets n s = Some (l, r)"
  then have s: "s \<noteq> []" "n > 1" by (auto simp: fgets_def Let_def split: if_split_asm)
  let ?line = "takeWhile (\<lambda>c. c \<noteq> newline) s"
  let ?whole = "if length ?line < length s then ?line @ [newline] else ?line"
  have r: "r = drop (length (take (n - 1) ?whole)) s" using a by (auto simp: fgets_def Let_def split: if_split_asm)
  have "?whole \<noteq> []" using s by (cases s) auto
  then have "0 < length (take (n - 1) ?whole)" using s(2) by simp
  then show ?thesis using s(1) unfolding r length_drop by simp
qed

section \<open>The kernel\<close>

text \<open>\<^verbatim>\<open>/proc/mounts\<close> as far as one \<^verbatim>\<open>read\<close> into the buffer of 2047 bytes gives it (nothing when it cannot be
  opened or read); the contents of \<^verbatim>\<open>/etc/recovery.fstab\<close>; running a program and waiting for it
  (\<^verbatim>\<open>run_command\<close>, \<^verbatim>\<open>run_shell_script\<close>).\<close>

record 'k vol_kernel =
  vk_alloc :: bool
  vk_proc_mounts :: "'k \<Rightarrow> string option \<times> 'k"
  vk_fstab :: "'k \<Rightarrow> string option \<times> 'k"
  vk_mount :: "string option \<Rightarrow> string \<Rightarrow> string \<Rightarrow> string \<Rightarrow> 'k \<Rightarrow> int \<times> 'k"
  vk_remount :: "string option \<Rightarrow> string option \<Rightarrow> string option \<Rightarrow> 'k \<Rightarrow> int \<times> 'k"
  vk_umount :: "string option \<Rightarrow> 'k \<Rightarrow> int \<times> 'k"
  vk_mkdir :: "string \<Rightarrow> int \<Rightarrow> 'k \<Rightarrow> int \<times> 'k"
  vk_stat :: "string option \<Rightarrow> 'k \<Rightarrow> int \<times> 'k"
  vk_run :: "string list \<Rightarrow> 'k \<Rightarrow> int \<times> 'k"

record Volume =
  vol_mount_point :: string
  vol_fs_type :: string
  vol_device :: "string option"
  vol_device2 :: "string option"
  vol_length :: int

text \<open>The fields are \<^verbatim>\<open>NULL\<close> after the volume was unmounted.\<close>

record MountedVolume =
  mv_device :: "string option"
  mv_mount_point :: "string option"
  mv_filesystem :: "string option"
  mv_flags :: "string option"

text \<open>\<^verbatim>\<open>device_volumes\<close>, \<^verbatim>\<open>g_mounts_state\<close> (nothing before the first scan) and the kernel.\<close>

record 'k vol_state =
  vs_table :: "Volume list"
  vs_mounts :: "MountedVolume list option"
  vs_kernel :: 'k

section \<open>Scanning the mounted volumes\<close>

text \<open>\<^verbatim>\<open>%<n>s\<close> of \<^verbatim>\<open>sscanf\<close>: white space, newlines too, is skipped.\<close>

definition scan_field :: "nat \<Rightarrow> string \<Rightarrow> (string \<times> string) option" where
  "scan_field n s =
     (let s' = dropWhile is_space s; tok = take n (takeWhile (\<lambda>c. \<not> is_space c) s')
      in if tok = [] then None else Some (tok, drop (length tok) s'))"

definition scan_mount :: "string \<Rightarrow> MountedVolume option" where
  "scan_mount bufp =
     (case scan_field 63 bufp of None \<Rightarrow> None | Some (dev, s) \<Rightarrow>
        (case scan_field 63 s of None \<Rightarrow> None | Some (mp, s) \<Rightarrow>
           (case scan_field 63 s of None \<Rightarrow> None | Some (fs, s) \<Rightarrow>
              (case scan_field 127 s of None \<Rightarrow> None | Some (fl, s) \<Rightarrow>
                 Some \<lparr> mv_device = Some dev, mv_mount_point = Some mp, mv_filesystem = Some fs, mv_flags = Some fl \<rparr>))))"

definition eat_line :: "string \<Rightarrow> string" where
  "eat_line s = drop 1 (dropWhile (\<lambda>c. c \<noteq> newline) s)"

lemma eat_line_shorter: "s \<noteq> [] \<Longrightarrow> length (eat_line s) < length s"
  unfolding eat_line_def by (rule drop1_shorter)

definition VOLUMES_ALLOCD :: nat where "VOLUMES_ALLOCD = 32"

text \<open>The array of 32 entries is filled without a look at its size.\<close>

function parse_mounts :: "string \<Rightarrow> MountedVolume list \<Rightarrow> MountedVolume list outcome" where
  "parse_mounts bufp vs =
     (if bufp = [] then Ok vs
      else then_do
        (case scan_mount bufp of
           None \<Rightarrow> Ok vs
         | Some v \<Rightarrow> if length vs < VOLUMES_ALLOCD then Ok (vs @ [v]) else Inl OutOfBounds)
        (\<lambda>vs. parse_mounts (eat_line bufp) vs))"
  by pat_completeness auto
termination
  by (relation "measure (\<lambda>(s, vs). length s)") (auto simp: eat_line_shorter)

declare parse_mounts.simps [simp del]

definition scan_mounted_volumes :: "('k, 'm) vol_kernel_scheme \<Rightarrow> 'k vol_state \<Rightarrow> (int \<times> 'k vol_state) outcome" where
  "scan_mounted_volumes K s =
     (if vs_mounts s = None \<and> \<not> vk_alloc K then Ok (-1, s)
      else case vk_proc_mounts K (vs_kernel s) of (buf, k) \<Rightarrow>
        let s = s\<lparr> vs_mounts := Some [], vs_kernel := k \<rparr>
        in case buf of
             None \<Rightarrow> Ok (-1, s)
           | Some buf \<Rightarrow> then_do (parse_mounts buf []) (\<lambda>vs. Ok (0, s\<lparr> vs_mounts := Some vs \<rparr>)))"

text \<open>The index of an entry.\<close>

fun first_index :: "('a \<Rightarrow> bool) \<Rightarrow> 'a list \<Rightarrow> nat option" where
  "first_index P [] = None"
| "first_index P (x # xs) = (if P x then Some 0 else map_option Suc (first_index P xs))"

definition same_name :: "string \<Rightarrow> string option \<Rightarrow> bool" where
  "same_name name f = (case f of None \<Rightarrow> False | Some x \<Rightarrow> strcmp x name = 0)"

definition find_mounted_volume_by_device :: "string \<Rightarrow> 'k vol_state \<Rightarrow> nat option" where
  "find_mounted_volume_by_device device s =
     (case vs_mounts s of None \<Rightarrow> None | Some vs \<Rightarrow> first_index (\<lambda>v. same_name device (mv_device v)) vs)"

definition find_mounted_volume_by_mount_point :: "string \<Rightarrow> 'k vol_state \<Rightarrow> nat option" where
  "find_mounted_volume_by_mount_point mount_point s =
     (case vs_mounts s of None \<Rightarrow> None | Some vs \<Rightarrow> first_index (\<lambda>v. same_name mount_point (mv_mount_point v)) vs)"

definition zero_volume :: MountedVolume where
  "zero_volume = \<lparr> mv_device = None, mv_mount_point = None, mv_filesystem = None, mv_flags = None \<rparr>"

definition mounted_at :: "nat \<Rightarrow> 'k vol_state \<Rightarrow> MountedVolume outcome" where
  "mounted_at i s =
     (case vs_mounts s of None \<Rightarrow> Inl OutOfBounds | Some vs \<Rightarrow> if i < length vs then Ok (vs ! i) else Inl OutOfBounds)"

definition unmount_mounted_volume :: "('k, 'm) vol_kernel_scheme \<Rightarrow> nat \<Rightarrow> 'k vol_state \<Rightarrow> (int \<times> 'k vol_state) outcome" where
  "unmount_mounted_volume K i s =
     then_do (mounted_at i s) (\<lambda>v.
       case vk_umount K (mv_mount_point v) (vs_kernel s) of (ret, k) \<Rightarrow>
         let s = s\<lparr> vs_kernel := k \<rparr>
         in if ret = 0 then Ok (0, s\<lparr> vs_mounts := map_option (\<lambda>vs. vs[i := zero_volume]) (vs_mounts s) \<rparr>)
            else Ok (ret, s))"

definition remount_read_only :: "('k, 'm) vol_kernel_scheme \<Rightarrow> nat \<Rightarrow> 'k vol_state \<Rightarrow> (int \<times> 'k vol_state) outcome" where
  "remount_read_only K i s =
     then_do (mounted_at i s) (\<lambda>v.
       case vk_remount K (mv_device v) (mv_mount_point v) (mv_filesystem v) (vs_kernel s) of (ret, k) \<Rightarrow>
         Ok (ret, s\<lparr> vs_kernel := k \<rparr>))"

section \<open>The volume table\<close>

definition ramdisk :: "string \<Rightarrow> Volume" where
  "ramdisk mp = \<lparr> vol_mount_point = mp, vol_fs_type = ''ramdisk'', vol_device = None, vol_device2 = None, vol_length = 0 \<rparr>"

text \<open>The options of a line: the volume with its length, or nothing for an unknown option.\<close>

function parse_options :: "string \<Rightarrow> Volume \<Rightarrow> Volume option" where
  "parse_options options v =
     (case strtok_any '','' options of
        None \<Rightarrow> Some v
      | Some (opt, rest) \<Rightarrow>
          if strncmp opt ''length='' 7 = 0
          then parse_options rest (v\<lparr> vol_length := fst (strtol10 (drop 7 opt)) \<rparr>)
          else None)"
  by pat_completeness auto
termination
  by (relation "measure (\<lambda>(s, v). length s)") (auto dest: strtok_any_shorter)

declare parse_options.simps [simp del]

abbreviation blanks :: string where
  "blanks \<equiv> [CHR '' '', CHR 0x09, CHR 0x0A]"

text \<open>The second device may be missing; what stands in its place is then the options.\<close>

definition parse_volume :: "string \<Rightarrow> Volume option" where
  "parse_volume line =
     (case strtok_any blanks line of None \<Rightarrow> None | Some (mp, r) \<Rightarrow>
        (case strtok_any blanks r of None \<Rightarrow> None | Some (fs, r) \<Rightarrow>
           (case strtok_any blanks r of None \<Rightarrow> None | Some (dev, r) \<Rightarrow>
              let (dev2, options) =
                    (case strtok_any blanks r of
                       None \<Rightarrow> (None, None)
                     | Some (d, r) \<Rightarrow> if d \<noteq> [] \<and> hd d = CHR ''/'' then (Some d, map_option fst (strtok_any blanks r))
                                      else (None, Some d));
                  v = \<lparr> vol_mount_point = mp, vol_fs_type = fs, vol_device = Some dev, vol_device2 = dev2, vol_length = 0 \<rparr>
              in case options of None \<Rightarrow> Some v | Some opts \<Rightarrow> parse_options opts v)))"

function parse_fstab :: "string \<Rightarrow> Volume list \<Rightarrow> Volume list" where
  "parse_fstab text vs =
     (case fgets 1023 text of
        None \<Rightarrow> vs
      | Some (buffer, rest) \<Rightarrow>
          let b = dropWhile is_space buffer
          in parse_fstab rest
               (if b = [] \<or> hd b = CHR ''#'' then vs
                else case parse_volume b of None \<Rightarrow> vs | Some v \<Rightarrow> vs @ [v]))"
  by pat_completeness auto
termination
  by (relation "measure (\<lambda>(s, vs). length s)") (auto dest!: sym[of "Some _"] fgets_shorter)

declare parse_fstab.simps [simp del]

definition load_volume_table :: "('k, 'm) vol_kernel_scheme \<Rightarrow> 'k vol_state \<Rightarrow> 'k vol_state" where
  "load_volume_table K s =
     (case vk_fstab K (vs_kernel s) of (fstab, k) \<Rightarrow>
        let vs = [ramdisk ''/tmp'', ramdisk ''/install'']
        in s\<lparr> vs_table := (case fstab of None \<Rightarrow> vs | Some text \<Rightarrow> parse_fstab text vs), vs_kernel := k \<rparr>)"

text \<open>Is the mount point the path or a directory above it.\<close>

definition on_volume :: "string \<Rightarrow> Volume \<Rightarrow> bool" where
  "on_volume path v \<longleftrightarrow>
     (let len = length (vol_mount_point v)
      in strncmp path (vol_mount_point v) len = 0 \<and> (drop len path = [] \<or> hd (drop len path) = CHR ''/''))"

definition volume_for_path :: "string \<Rightarrow> 'k vol_state \<Rightarrow> Volume option" where
  "volume_for_path path s = find (on_volume path) (vs_table s)"

section \<open>Mounting\<close>

definition INTERNAL_SDCARD_ROOT :: string where "INTERNAL_SDCARD_ROOT = ''/mnt/sdcard''"
definition INTERNAL_SDCARD_LEGACY_ROOT :: string where "INTERNAL_SDCARD_LEGACY_ROOT = ''/sdcard''"

definition redirected :: "string \<Rightarrow> string" where
  "redirected path =
     (if strncmp path INTERNAL_SDCARD_ROOT (length INTERNAL_SDCARD_ROOT) = 0 \<or>
         strncmp path INTERNAL_SDCARD_LEGACY_ROOT (length INTERNAL_SDCARD_LEGACY_ROOT) = 0 then ''/data'' else path)"

text \<open>Mounting the first or else the second device.\<close>

definition mount_volume :: "('k, 'm) vol_kernel_scheme \<Rightarrow> Volume \<Rightarrow> 'k vol_state \<Rightarrow> int \<times> 'k vol_state" where
  "mount_volume K v s =
     (if strcmp (vol_fs_type v) ''ext4'' = 0 \<or> strcmp (vol_fs_type v) ''vfat'' = 0 \<or> strcmp (vol_fs_type v) ''f2fs'' = 0 then
        let additional_data = (if strcmp (vol_fs_type v) ''f2fs'' = 0 then ''inline_xattr'' else [])
        in case vk_mount K (vol_device v) (vol_mount_point v) (vol_fs_type v) additional_data (vs_kernel s) of (result, k) \<Rightarrow>
             if result = 0 then (0, s\<lparr> vs_kernel := k \<rparr>)
             else case vol_device2 v of
               None \<Rightarrow> (-1, s\<lparr> vs_kernel := k \<rparr>)
             | Some d \<Rightarrow>
                 (case vk_mount K (Some d) (vol_mount_point v) (vol_fs_type v) additional_data k of (result, k) \<Rightarrow>
                    (if result = 0 then 0 else -1, s\<lparr> vs_kernel := k \<rparr>))
      else (-1, s))"

definition ensure_path_mounted :: "('k, 'm) vol_kernel_scheme \<Rightarrow> string \<Rightarrow> 'k vol_state \<Rightarrow> (int \<times> 'k vol_state) outcome" where
  "ensure_path_mounted K path s =
     (case volume_for_path (redirected path) s of
        None \<Rightarrow> Ok (-1, s)
      | Some v \<Rightarrow>
          if strcmp (vol_fs_type v) ''ramdisk'' = 0 then Ok (0, s)
          else then_do (scan_mounted_volumes K s) (\<lambda>(result, s).
            if result < 0 then Ok (-1, s)
            else if find_mounted_volume_by_mount_point (vol_mount_point v) s \<noteq> None then Ok (0, s)
            else case vk_mkdir K (vol_mount_point v) 493 (vs_kernel s) of (rc, k) \<Rightarrow>
              Ok (mount_volume K v (s\<lparr> vs_kernel := k \<rparr>))))"

definition ensure_path_unmounted :: "('k, 'm) vol_kernel_scheme \<Rightarrow> string \<Rightarrow> 'k vol_state \<Rightarrow> (int \<times> 'k vol_state) outcome" where
  "ensure_path_unmounted K path s =
     (case volume_for_path path s of
        None \<Rightarrow> Ok (-1, s)
      | Some v \<Rightarrow>
          if strcmp (vol_fs_type v) ''ramdisk'' = 0 then Ok (-1, s)
          else then_do (scan_mounted_volumes K s) (\<lambda>(result, s).
            if result < 0 then Ok (-1, s)
            else case find_mounted_volume_by_mount_point (vol_mount_point v) s of
              None \<Rightarrow> Ok (0, s)
            | Some i \<Rightarrow> unmount_mounted_volume K i s))"

text \<open>1, 0, or -1 for a path without a volume.\<close>

definition device_node_exists :: "('k, 'm) vol_kernel_scheme \<Rightarrow> string \<Rightarrow> 'k vol_state \<Rightarrow> int \<times> 'k vol_state" where
  "device_node_exists K path s =
     (case volume_for_path path s of
        None \<Rightarrow> (-1, s)
      | Some v \<Rightarrow>
          (case vk_stat K (vol_device v) (vs_kernel s) of (sts, k) \<Rightarrow>
             if sts = 0 then (1, s\<lparr> vs_kernel := k \<rparr>)
             else case vol_device2 v of
               None \<Rightarrow> (0, s\<lparr> vs_kernel := k \<rparr>)
             | Some d \<Rightarrow> (case vk_stat K (Some d) k of (sts, k) \<Rightarrow> (if sts = 0 then 1 else 0, s\<lparr> vs_kernel := k \<rparr>))))"

fun each_path ::
  "(string \<Rightarrow> 'k vol_state \<Rightarrow> (int \<times> 'k vol_state) outcome) \<Rightarrow> string list \<Rightarrow> 'k vol_state \<Rightarrow> 'k vol_state outcome" where
  "each_path f [] s = Ok s"
| "each_path f (p # ps) s = then_do (f p s) (\<lambda>(rc, s). each_path f ps s)"

text \<open>The last argument of both: does the device have an external card.\<close>

definition external_roots :: "('k, 'm) vol_kernel_scheme \<Rightarrow> bool \<Rightarrow> 'k vol_state \<Rightarrow> string list \<times> 'k vol_state" where
  "external_roots K has_external_sdcard s =
     (if has_external_sdcard then
        (case device_node_exists K ''/mnt/external_sdcard'' s of (r, s) \<Rightarrow> (if r \<noteq> 0 then [''/mnt/external_sdcard''] else [], s))
      else ([], s))"

definition ensure_common_roots_mounted :: "('k, 'm) vol_kernel_scheme \<Rightarrow> bool \<Rightarrow> 'k vol_state \<Rightarrow> 'k vol_state outcome" where
  "ensure_common_roots_mounted K has_external_sdcard s =
     then_do (each_path (ensure_path_mounted K) [''/system'', ''/cache'', ''/data''] s) (\<lambda>s.
       case external_roots K has_external_sdcard s of (ps, s) \<Rightarrow> each_path (ensure_path_mounted K) ps s)"

definition ensure_common_roots_unmounted :: "('k, 'm) vol_kernel_scheme \<Rightarrow> bool \<Rightarrow> 'k vol_state \<Rightarrow> 'k vol_state outcome" where
  "ensure_common_roots_unmounted K has_external_sdcard s =
     then_do (each_path (ensure_path_unmounted K) [''/system'', ''/cache'', ''/data''] s) (\<lambda>s.
       case external_roots K has_external_sdcard s of (ps, s) \<Rightarrow> each_path (ensure_path_unmounted K) ps s)"

section \<open>Formatting\<close>

definition run_and_check :: "('k, 'm) vol_kernel_scheme \<Rightarrow> string list \<Rightarrow> 'k vol_state \<Rightarrow> (int \<times> 'k vol_state) outcome" where
  "run_and_check K args s =
     (case vk_run K args (vs_kernel s) of (result, k) \<Rightarrow> Ok (if result \<noteq> 0 then -1 else 0, s\<lparr> vs_kernel := k \<rparr>))"

definition device_arg :: "Volume \<Rightarrow> string list" where
  "device_arg v = (case vol_device v of None \<Rightarrow> [] | Some d \<Rightarrow> [d])"

definition format_volume :: "('k, 'm) vol_kernel_scheme \<Rightarrow> string \<Rightarrow> 'k vol_state \<Rightarrow> (int \<times> 'k vol_state) outcome" where
  "format_volume K volume s =
     (case volume_for_path volume s of
        None \<Rightarrow> Ok (-1, s)
      | Some v \<Rightarrow>
          if strcmp (vol_fs_type v) ''ramdisk'' = 0 then Ok (-1, s)
          else if strcmp (vol_mount_point v) volume \<noteq> 0 then Ok (-1, s)
          else then_do (ensure_path_unmounted K volume s) (\<lambda>(rc, s).
            if rc \<noteq> 0 then Ok (-1, s)
            else if strcmp (vol_mount_point v) ''/data'' = 0 then
              then_do (ensure_path_mounted K ''/data'' s) (\<lambda>(_, s).
              then_do (run_and_check K [''/sbin/erase_data''] s) (\<lambda>(rc, s).
              then_do (ensure_path_unmounted K ''/data'' s) (\<lambda>(_, s). Ok (rc, s))))
            else if strcmp (vol_fs_type v) ''ext4'' = 0
            then run_and_check K ([''/sbin/make_ext4fs''] @ device_arg v) s
            else if strcmp (vol_fs_type v) ''f2fs'' = 0
            then run_and_check K ([''/sbin/mkfs.f2fs'', ''-t''] @ device_arg v) s
            else Ok (-1, s)))"

section \<open>Properties of mounting\<close>

text \<open>What the listing says, without an array to put it in.\<close>

function mounts_of :: "string \<Rightarrow> MountedVolume list" where
  "mounts_of bufp =
     (if bufp = [] then []
      else (case scan_mount bufp of None \<Rightarrow> [] | Some v \<Rightarrow> [v]) @ mounts_of (eat_line bufp))"
  by pat_completeness auto
termination
  by (relation "measure length") (auto simp: eat_line_shorter)

declare mounts_of.simps [simp del]

lemma mounts_of_Nil [simp]: "mounts_of [] = []"
  by (simp add: mounts_of.simps)

lemma mounts_of_step:
  "s \<noteq> [] \<Longrightarrow> mounts_of s = (case scan_mount s of None \<Rightarrow> [] | Some v \<Rightarrow> [v]) @ mounts_of (eat_line s)"
  by (subst mounts_of.simps) simp

lemma parse_mounts_of:
  "length vs \<le> VOLUMES_ALLOCD \<Longrightarrow> parse_mounts bufp vs =
    (if length vs + length (mounts_of bufp) \<le> VOLUMES_ALLOCD then Ok (vs @ mounts_of bufp) else Inl OutOfBounds)"
proof (induction bufp vs rule: parse_mounts.induct)
  case (1 bufp vs)
  show ?case
  proof (cases "bufp = []")
    case True
    then show ?thesis using 1(2) by (subst parse_mounts.simps) simp
  next
    case False
    show ?thesis
    proof (cases "scan_mount bufp")
      case None
      then show ?thesis using 1 False by (subst parse_mounts.simps) (simp add: mounts_of_step[of bufp])
    next
      case (Some v)
      then show ?thesis using 1 False by (subst parse_mounts.simps) (auto simp: mounts_of_step[of bufp])
    qed
  qed
qed

text \<open>
  C31: scanning \<^verbatim>\<open>/proc/mounts\<close> gives the volumes of the listing as long as there are at most 32; one
  more is written behind the end of the array.
\<close>

theorem scan_mounts_limit:
  assumes "vk_proc_mounts K (vs_kernel s) = (Some buf, k)" "vk_alloc K"
  shows "scan_mounted_volumes K s =
    (if length (mounts_of buf) \<le> 32 then Ok (0, s\<lparr> vs_mounts := Some (mounts_of buf), vs_kernel := k \<rparr>)
     else Inl OutOfBounds)"
  using assms parse_mounts_of[of "[]" buf] by (auto simp: scan_mounted_volumes_def VOLUMES_ALLOCD_def)

definition demo_vk :: "string \<Rightarrow> nat vol_kernel" where
  "demo_vk buf = \<lparr> vk_alloc = True, vk_proc_mounts = \<lambda>k. (Some buf, k), vk_fstab = \<lambda>k. (None, k),
     vk_mount = \<lambda>d m t x k. (0, Suc k), vk_remount = \<lambda>d m t k. (0, k), vk_umount = \<lambda>m k. (0, k), vk_mkdir = \<lambda>p m k. (0, k),
     vk_stat = \<lambda>d k. (0, k), vk_run = \<lambda>a k. (0, k) \<rparr>"

definition demo_line :: string where
  "demo_line = ''/dev/a /a ext4 rw 0 0'' @ [newline]"

lemma demo_line_ne: "demo_line \<noteq> []" "eat_line (demo_line @ rest) = rest"
  by (simp_all add: demo_line_def eat_line_def)

lemma demo_scan: "scan_mount (demo_line @ rest) = Some \<lparr> mv_device = Some ''/dev/a'', mv_mount_point = Some ''/a'',
    mv_filesystem = Some ''ext4'', mv_flags = Some ''rw'' \<rparr>"
  by (simp add: scan_mount_def demo_line_def scan_field_def is_space_def)

lemma demo_mounts: "length (mounts_of (concat (replicate n demo_line))) = n"
proof (induction n)
  case (Suc n)
  then show ?case by (simp add: mounts_of_step demo_line_ne demo_scan)
qed simp

theorem scan_mounts_limit_witness:
  "scan_mounted_volumes (demo_vk (concat (replicate 33 demo_line))) \<lparr> vs_table = [], vs_mounts = None, vs_kernel = 0 \<rparr> = Inl OutOfBounds"
  by (subst scan_mounts_limit[where buf = "concat (replicate 33 demo_line)" and k = 0])
    (simp_all only: demo_mounts, simp_all add: demo_vk_def)

text \<open>What the code relies on: the kernel's table of mounts.\<close>

definition mounts_known :: "('k, 'm) vol_kernel_scheme \<Rightarrow> ('k \<Rightarrow> string \<Rightarrow> bool) \<Rightarrow> bool" where
  "mounts_known K mounted \<longleftrightarrow>
     (\<forall>k buf k' v mp. vk_proc_mounts K k = (Some buf, k') \<and> v \<in> set (mounts_of buf) \<and> same_name mp (mv_mount_point v) \<longrightarrow> mounted k' mp) \<and>
     (\<forall>d mp t x k k'. vk_mount K d mp t x k = (0, k') \<longrightarrow> mounted k' mp)"

lemma first_index_Some: "first_index P xs = Some i \<Longrightarrow> i < length xs \<and> P (xs ! i)"
  by (induction xs arbitrary: i) (auto split: if_split_asm)

lemma scan_sound:
  assumes "mounts_known K mounted" "scan_mounted_volumes K s = Ok (r, s')" "\<not> r < 0"
    "find_mounted_volume_by_mount_point mp s' = Some i"
  shows "mounted (vs_kernel s') mp"
proof -
  obtain buf k where b: "vk_proc_mounts K (vs_kernel s) = (Some buf, k)"
    using assms(2,3) by (auto simp: scan_mounted_volumes_def Let_def split: if_split_asm prod.split_asm option.split_asm)
  have "parse_mounts buf [] = Ok (mounts_of buf) \<or> parse_mounts buf [] = Inl OutOfBounds"
    using parse_mounts_of[of "[]" buf] by (simp add: VOLUMES_ALLOCD_def)
  then have s': "vs_kernel s' = k" "vs_mounts s' = Some (mounts_of buf)"
    using assms(2,3) b by (auto simp: scan_mounted_volumes_def split: if_split_asm)
  from assms(4) s'(2) have "first_index (\<lambda>v. same_name mp (mv_mount_point v)) (mounts_of buf) = Some i"
    by (simp add: find_mounted_volume_by_mount_point_def)
  then have "\<exists>v \<in> set (mounts_of buf). same_name mp (mv_mount_point v)" using first_index_Some nth_mem by blast
  then show ?thesis using assms(1) b s'(1) unfolding mounts_known_def by blast
qed

lemma mount_volume_sound:
  assumes "mounts_known K mounted" "mount_volume K v s = (0, s')"
  shows "mounted (vs_kernel s') (vol_mount_point v)"
proof -
  let ?x = "if strcmp (vol_fs_type v) ''f2fs'' = 0 then ''inline_xattr'' else []"
  have m: "mounted k' mp" if "vk_mount K d mp t x k = (0, k')" for d mp t x k k'
    using assms(1) that unfolding mounts_known_def by blast
  obtain r1 k1 where m1: "vk_mount K (vol_device v) (vol_mount_point v) (vol_fs_type v) ?x (vs_kernel s) = (r1, k1)" by force
  show ?thesis
  proof (cases "vol_device2 v")
    case None
    then show ?thesis using assms(2) m1 m by (auto simp: mount_volume_def Let_def split: if_split_asm)
  next
    case (Some d)
    obtain r2 k2 where m2: "vk_mount K (Some d) (vol_mount_point v) (vol_fs_type v) ?x k1 = (r2, k2)" by force
    show ?thesis using assms(2) m1 m2 m Some by (auto simp: mount_volume_def Let_def split: if_split_asm)
  qed
qed

text \<open>Ensuring that a path is mounted: 0 means that its volume is mounted or is the ramdisk.\<close>

lemma ensure_path_mounted_sound:
  assumes "mounts_known K mounted" "ensure_path_mounted K path s = Ok (0, s')"
  shows "\<exists>v. volume_for_path (redirected path) s = Some v \<and>
    (strcmp (vol_fs_type v) ''ramdisk'' = 0 \<or> mounted (vs_kernel s') (vol_mount_point v))"
proof -
  obtain v where v: "volume_for_path (redirected path) s = Some v"
    using assms(2) by (cases "volume_for_path (redirected path) s") (auto simp: ensure_path_mounted_def)
  have "mounted (vs_kernel s') (vol_mount_point v)" if nr: "strcmp (vol_fs_type v) ''ramdisk'' \<noteq> 0"
  proof -
    obtain r s1 where s1: "scan_mounted_volumes K s = Ok (r, s1)" "\<not> r < 0"
      using assms(2) v nr by (auto simp: ensure_path_mounted_def elim!: then_do_Ok_E split: if_split_asm)
    show ?thesis
    proof (cases "find_mounted_volume_by_mount_point (vol_mount_point v) s1")
      case (Some i)
      then show ?thesis using scan_sound[OF assms(1) s1 Some] assms(2) v nr s1 by (auto simp: ensure_path_mounted_def)
    next
      case None
      then have "\<exists>k. mount_volume K v (s1\<lparr> vs_kernel := k \<rparr>) = (0, s')"
        using assms(2) v nr s1 by (auto simp: ensure_path_mounted_def split: prod.split_asm)
      then show ?thesis using mount_volume_sound[OF assms(1)] by blast
    qed
  qed
  then show ?thesis using v by blast
qed

end
