(* ===== verification/Update_Functions.thy ===== *)
theory Update_Functions
  imports Retouch_Library Zip_Extract Volumes
begin

text \<open>
  The functions an update script can call besides the builtins: \<^verbatim>\<open>src/updater/install.c\<close>. They are
  edify functions over a cookie, the \<^verbatim>\<open>UpdaterInfo\<close> struct with the state of the process beside it:
  the list of mounted volumes and the files. Everything they use is the model of the component that
  has it (archives, directories, volumes, patches, retouching). What is not in the repository is in
  the environment: the kernel, zlib, bzip2, SHA-1, \<^verbatim>\<open>make_ext4fs\<close>, system properties, child processes, the
  clock, the text of \<^verbatim>\<open>strtod\<close> printed by \<^verbatim>\<open>%f\<close>, and what uninitialised variables hold. Messages that go only
  to \<^verbatim>\<open>stderr\<close> are left out.
\<close>

section \<open>Numbers as text\<close>

definition digit_char :: "nat \<Rightarrow> char" where
  "digit_char d = ''0123456789abcdef'' ! d"

fun print_base :: "nat \<Rightarrow> nat \<Rightarrow> string" where
  "print_base b n =
     (if n < b \<or> b < 2 then [digit_char n] else print_base b (n div b) @ [digit_char (n mod b)])"

declare print_base.simps [simp del]

text \<open>\<^verbatim>\<open>%d\<close> and \<^verbatim>\<open>%x\<close>.\<close>

definition print_int :: "int \<Rightarrow> string" where
  "print_int v = (if v < 0 then CHR ''-'' # print_base 10 (nat (- v)) else print_base 10 (nat v))"

definition print_hex :: "int \<Rightarrow> string" where
  "print_hex v = print_base 16 (unat (word_of_int v :: u32))"

text \<open>\<^verbatim>\<open>strtoul(s, &end, 0)\<close>: the value and the string from \<^verbatim>\<open>end\<close> on.\<close>

definition hex_val :: "char \<Rightarrow> int" where
  "hex_val c =
     (if is_digit c then digit_val c
      else if byte_of CHR ''a'' \<le> byte_of c \<and> byte_of c \<le> byte_of CHR ''f'' then byte_of c - byte_of CHR ''a'' + 10
      else if byte_of CHR ''A'' \<le> byte_of c \<and> byte_of c \<le> byte_of CHR ''F'' then byte_of c - byte_of CHR ''A'' + 10
      else 16)"

definition strtoul_base :: "string \<Rightarrow> int \<times> string" where
  "strtoul_base s =
     (case s of
        CHR ''0'' # x # c # cs \<Rightarrow>
          if (x = CHR ''x'' \<or> x = CHR ''X'') \<and> hex_val c < 16 then (16, c # cs) else (8, s)
      | CHR ''0'' # cs \<Rightarrow> (8, s)
      | _ \<Rightarrow> (10, s))"

definition strtoul0 :: "string \<Rightarrow> int \<times> string" where
  "strtoul0 s =
     (let s1 = dropWhile is_space s;
          neg = (s1 \<noteq> [] \<and> hd s1 = CHR ''-'');
          s2 = (if s1 \<noteq> [] \<and> (hd s1 = CHR ''-'' \<or> hd s1 = CHR ''+'') then tl s1 else s1);
          (b, s3) = strtoul_base s2;
          ds = takeWhile (\<lambda>c. hex_val c < b) s3;
          v = foldl (\<lambda>v c. v * b + hex_val c) 0 ds
      in if ds = [] then (0, s)
         else (if v \<ge> 2 ^ 64 then 2 ^ 64 - 1 else if neg then (- v) mod 2 ^ 64 else v, drop (length ds) s3))"

section \<open>The state of an update\<close>

record UpdaterInfo =
  cmd_pipe :: string
  package_zip :: ZipArchive
  api_version :: int
  ui_proc :: "world vol_state"

type_synonym upd_state = "UpdaterInfo State"

record ('z, 's, 'd, 'c, 'q) upd_env =
  ue_sys :: sys
  ue_libs :: "('z, 's, 'd, 'c) libs"
  ue_zip :: "'q zip_lib"
  ue_vols :: "world vol_kernel"
  ue_dirs :: "world xkernel"
  ue_depth :: nat
  ue_calloc :: "int \<Rightarrow> bool"
  ue_realloc :: "int \<Rightarrow> bool"
  ue_malloc :: "int \<Rightarrow> bytes option"
  ue_fresh :: FileContents
  ue_stray :: "string option"
  ue_mkfs :: "string \<Rightarrow> int \<Rightarrow> string \<Rightarrow> world \<Rightarrow> int \<times> world"
  ue_run :: "string list \<Rightarrow> world \<Rightarrow> int \<times> world"
  ue_time :: int
  ue_random :: "bytes option"
  ue_getprop :: "string \<Rightarrow> string"
  ue_frac :: "string \<Rightarrow> string"
  ue_strerror :: "world \<Rightarrow> string"

definition files :: "upd_state \<Rightarrow> world" where
  "files st = vs_kernel (ui_proc (cookie st))"

definition set_files :: "world \<Rightarrow> upd_state \<Rightarrow> upd_state" where
  "set_files w st = st\<lparr> cookie := (cookie st)\<lparr> ui_proc := (ui_proc (cookie st))\<lparr> vs_kernel := w \<rparr> \<rparr> \<rparr>"

definition set_proc :: "world vol_state \<Rightarrow> upd_state \<Rightarrow> upd_state" where
  "set_proc s st = st\<lparr> cookie := (cookie st)\<lparr> ui_proc := s \<rparr> \<rparr>"

definition send :: "string \<Rightarrow> upd_state \<Rightarrow> upd_state" where
  "send text st = st\<lparr> cookie := (cookie st)\<lparr> cmd_pipe := cmd_pipe (cookie st) @ text @ [newline] \<rparr> \<rparr>"

text \<open>\<^verbatim>\<open>return ErrorAbort(state, ...)\<close>; \<^verbatim>\<open>return StringValue(strdup(s))\<close>; a run as an outcome.\<close>

definition fail_with :: "'c State \<Rightarrow> string \<Rightarrow> (Value option \<times> 'c State) outcome" where
  "fail_with st msg = Ok (None, ErrorAbort st msg)"

definition give :: "string \<Rightarrow> 'c State \<Rightarrow> (Value option \<times> 'c State) outcome" where
  "give s st = Ok (StringValue (Some s), st)"

definition returned :: "'a run \<Rightarrow> 'a outcome" where
  "returned r = (case r of None \<Rightarrow> Inl Diverges | Some x \<Rightarrow> x)"

definition returned_value :: "'a option \<Rightarrow> 'a outcome" where
  "returned_value r = (case r of None \<Rightarrow> Inl Diverges | Some x \<Rightarrow> Ok x)"

definition wrong_count :: "string \<Rightarrow> string \<Rightarrow> nat \<Rightarrow> string" where
  "wrong_count name wanted argc = name @ ''() expects '' @ wanted @ '', got '' @ print_int (int argc)"

definition cant_be_empty :: "string \<Rightarrow> string \<Rightarrow> string" where
  "cant_be_empty what name = what @ '' argument to '' @ name @ ''() can't be empty''"

section \<open>Volumes\<close>

definition MountFn :: "('z, 's, 'd, 'c, 'q) upd_env \<Rightarrow> UpdaterInfo Function" where
  "MountFn U name st argv =
     (if length argv \<noteq> 4 then fail_with st (wrong_count name ''4 args'' (length argv))
      else unless_null (ReadArgs st argv 4) (\<lambda>vals st.
        let fs_type = vals ! 0; partition_type = vals ! 1; location = vals ! 2; mount_point = vals ! 3 in
        if fs_type = [] then fail_with st (cant_be_empty ''fs_type'' name)
        else if partition_type = [] then fail_with st (cant_be_empty ''partition_type'' name)
        else if location = [] then fail_with st (cant_be_empty ''location'' name)
        else if mount_point = [] then fail_with st (cant_be_empty ''mount_point'' name)
        else case vk_mkdir (ue_vols U) mount_point 493 (files st) of (_, w) \<Rightarrow>
          case vk_mount (ue_vols U) (Some location) mount_point fs_type [] w of (rc, w) \<Rightarrow>
            give (if rc < 0 then [] else mount_point) (set_files w st)))"

definition IsMountedFn :: "('z, 's, 'd, 'c, 'q) upd_env \<Rightarrow> UpdaterInfo Function" where
  "IsMountedFn U name st argv =
     (if length argv \<noteq> 1 then fail_with st (wrong_count name ''1 arg'' (length argv))
      else unless_null (ReadArgs st argv 1) (\<lambda>vals st.
        let mount_point = vals ! 0 in
        if mount_point = [] then fail_with st (cant_be_empty ''mount_point'' ''unmount'')
        else then_do (scan_mounted_volumes (ue_vols U) (ui_proc (cookie st))) (\<lambda>(_, s).
          give (if find_mounted_volume_by_mount_point mount_point s = None then [] else mount_point) (set_proc s st))))"

definition UnmountFn :: "('z, 's, 'd, 'c, 'q) upd_env \<Rightarrow> UpdaterInfo Function" where
  "UnmountFn U name st argv =
     (if length argv \<noteq> 1 then fail_with st (wrong_count name ''1 arg'' (length argv))
      else unless_null (ReadArgs st argv 1) (\<lambda>vals st.
        let mount_point = vals ! 0 in
        if mount_point = [] then fail_with st (cant_be_empty ''mount_point'' ''unmount'')
        else then_do (scan_mounted_volumes (ue_vols U) (ui_proc (cookie st))) (\<lambda>(_, s).
          case find_mounted_volume_by_mount_point mount_point s of
            None \<Rightarrow> give [] (set_proc s st)
          | Some vol \<Rightarrow>
              then_do (unmount_mounted_volume (ue_vols U) vol s) (\<lambda>(_, s). give mount_point (set_proc s st)))))"

text \<open>Five variables are passed to \<^verbatim>\<open>ReadArgs\<close>, which fills four: \<^verbatim>\<open>mount_point\<close> is whatever the
  uninitialised pointer points to, if that can be read at all.\<close>

definition FormatFn :: "('z, 's, 'd, 'c, 'q) upd_env \<Rightarrow> UpdaterInfo Function" where
  "FormatFn U name st argv =
     (if length argv \<noteq> 4 then fail_with st (wrong_count name ''5 args'' (length argv))
      else unless_null (ReadArgs st argv 4) (\<lambda>vals st.
        let fs_type = vals ! 0; partition_type = vals ! 1; location = vals ! 2; fs_size = vals ! 3 in
        if fs_type = [] then fail_with st (cant_be_empty ''fs_type'' name)
        else if partition_type = [] then fail_with st (cant_be_empty ''partition_type'' name)
        else if location = [] then fail_with st (cant_be_empty ''location'' name)
        else case ue_stray U of
          None \<Rightarrow> Inl OutOfBounds
        | Some mount_point \<Rightarrow>
            if mount_point = [] then fail_with st (cant_be_empty ''mount_point'' name)
            else if strcmp fs_type ''ext4'' = 0 then
              (case ue_mkfs U location (fst (strtol10 fs_size)) mount_point (files st) of (status, w) \<Rightarrow>
                 give (if status \<noteq> 0 then [] else location) (set_files w st))
            else Ok (None, st)))"

section \<open>Files\<close>

text \<open>The paths. When the evaluation of a later one fails, the clean-up loop counts up \<^verbatim>\<open>i\<close> instead of
  \<^verbatim>\<open>j\<close> and frees the first path again.\<close>

fun delete_paths :: "nat \<Rightarrow> 'c State \<Rightarrow> 'c Arg list \<Rightarrow> (string list option \<times> 'c State) outcome" where
  "delete_paths i st [] = Ok (Some [], st)"
| "delete_paths i st (a # as) =
     then_do (Evaluate st a) (\<lambda>(p, st).
       case p of
         None \<Rightarrow> if i = 0 then Ok (None, st) else Inl OutOfBounds
       | Some path \<Rightarrow> unless_null (delete_paths (Suc i) st as) (\<lambda>ps st. Ok (Some (path # ps), st)))"

fun delete_loop :: "('z, 's, 'd, 'c, 'q) upd_env \<Rightarrow> bool \<Rightarrow> string list \<Rightarrow> nat \<Rightarrow> world \<Rightarrow> (nat \<times> world) outcome" where
  "delete_loop U rec [] success w = Ok (success, w)"
| "delete_loop U rec (p # ps) success w =
     then_do (if rec then returned_value (dirUnlinkHierarchy (ue_dirs U) (ue_depth U) p w) else Ok (k_unlink (ue_dirs U) p w))
       (\<lambda>(rc, w). delete_loop U rec ps (if rc = 0 then Suc success else success) w)"

text \<open>The count is printed into ten bytes.\<close>

definition DeleteFn :: "('z, 's, 'd, 'c, 'q) upd_env \<Rightarrow> UpdaterInfo Function" where
  "DeleteFn U name st argv =
     unless_null (delete_paths 0 st argv) (\<lambda>paths st.
       then_do (delete_loop U (strcmp name ''delete_recursive'' = 0) paths 0 (files st)) (\<lambda>(success, w).
         let buffer = print_int (int success)
         in if length buffer \<ge> 10 then Inl OutOfBounds else give buffer (set_files w st)))"

definition ShowProgressFn :: "('z, 's, 'd, 'c, 'q) upd_env \<Rightarrow> UpdaterInfo Function" where
  "ShowProgressFn U name st argv =
     (if length argv \<noteq> 2 then fail_with st (wrong_count name ''2 args'' (length argv))
      else unless_null (ReadArgs st argv 2) (\<lambda>vals st.
        let frac_str = vals ! 0; sec = to_int32 (fst (strtol10 (vals ! 1)))
        in give frac_str (send (''progress '' @ ue_frac U frac_str @ '' '' @ print_int sec) st)))"

definition SetProgressFn :: "('z, 's, 'd, 'c, 'q) upd_env \<Rightarrow> UpdaterInfo Function" where
  "SetProgressFn U name st argv =
     (if length argv \<noteq> 1 then fail_with st (wrong_count name ''1 arg'' (length argv))
      else unless_null (ReadArgs st argv 1) (\<lambda>vals st.
        give (vals ! 0) (send (''set_progress '' @ ue_frac U (vals ! 0)) st)))"

section \<open>The package\<close>

definition extract_args :: "('z, 's, 'd, 'c, 'q) upd_env \<Rightarrow> ext_args" where
  "extract_args U =
     \<lparr> ea_flags = MZ_EXTRACT_FILES_ONLY, ea_timestamp = Some 1217592000, ea_callback = False,
       ea_realloc = ue_realloc U, ea_malloc = ue_malloc U \<rparr>"

definition PackageExtractDirFn :: "('z, 's, 'd, 'c, 'q) upd_env \<Rightarrow> UpdaterInfo Function" where
  "PackageExtractDirFn U name st argv =
     (if length argv \<noteq> 2 then fail_with st (wrong_count name ''2 args'' (length argv))
      else unless_null (ReadArgs st argv 2) (\<lambda>vals st.
        then_do (returned (mzExtractRecursive (ue_sys U) (ue_zip U) (ue_dirs U) (extract_args U)
                             (package_zip (cookie st)) (bytes_of (vals ! 0)) (vals ! 1) 0 (files st)))
          (\<lambda>(success, _, w). give (truth success) (set_files w st))))"

text \<open>The version with two arguments.\<close>

definition extract_to_file :: "('z, 's, 'd, 'c, 'q) upd_env \<Rightarrow> string \<Rightarrow> string \<Rightarrow> upd_state \<Rightarrow> (bool \<times> upd_state) outcome" where
  "extract_to_file U zip_path dest_path st =
     (let za = package_zip (cookie st)
      in then_do (mzFindZipEntry (ue_calloc U) za (bytes_of zip_path)) (\<lambda>entry.
           case entry of
             None \<Rightarrow> Ok (False, st)
           | Some e \<Rightarrow>
               (case sys_fopen_write (ue_sys U) dest_path (files st) of (f, w) \<Rightarrow>
                  if \<not> f then Ok (False, set_files w st)
                  else then_do (returned (mzExtractZipEntryToFile (ue_sys U) (ue_zip U) (za_file za) e dest_path 0 w))
                    (\<lambda>(success, w). Ok (success, set_files (snd (sys_fclose (ue_sys U) w)) st)))))"

text \<open>The version with one argument: the blob, without data on a failure.\<close>

definition extract_to_blob :: "('z, 's, 'd, 'c, 'q) upd_env \<Rightarrow> string \<Rightarrow> upd_state \<Rightarrow> (Value option \<times> upd_state) outcome" where
  "extract_to_blob U zip_path st =
     (let za = package_zip (cookie st)
      in then_do (mzFindZipEntry (ue_calloc U) za (bytes_of zip_path)) (\<lambda>entry.
           case entry of
             None \<Rightarrow> Ok (Some (VAL_BLOB None), st)
           | Some e \<Rightarrow>
               (case ue_malloc U (uncompLen e) of
                  None \<Rightarrow> Ok (Some (VAL_BLOB None), st)
                | Some buf \<Rightarrow>
                    then_do (returned (mzExtractZipEntryToBuffer (ue_sys U) (ue_zip U) (za_file za) e buf 0 (files st)))
                      (\<lambda>(success, buf, w). Ok (Some (VAL_BLOB (if success then Some buf else None)), set_files w st)))))"

definition PackageExtractFileFn :: "('z, 's, 'd, 'c, 'q) upd_env \<Rightarrow> UpdaterInfo Function" where
  "PackageExtractFileFn U name st argv =
     (if length argv \<noteq> 1 \<and> length argv \<noteq> 2 then fail_with st (wrong_count name ''1 or 2 args'' (length argv))
      else if length argv = 2 then
        unless_null (ReadArgs st argv 2) (\<lambda>vals st.
          then_do (extract_to_file U (vals ! 0) (vals ! 1) st) (\<lambda>(success, st). give (truth success) st))
      else unless_null (ReadArgs st argv 1) (\<lambda>vals st. extract_to_blob U (vals ! 0) st))"

section \<open>Retouching\<close>

text \<open>The clock and \<^verbatim>\<open>/dev/random\<close> make the offset: pages 1 to 1023 below zero.\<close>

definition random_bits :: "('z, 's, 'd, 'c, 'q) upd_env \<Rightarrow> int" where
  "random_bits U = (case ue_random U of None \<Rightarrow> 0
     | Some xs \<Rightarrow> foldr (\<lambda>x v. uint x + 256 * v) (take 2 xs) 0 mod 1024)"

definition random_base :: "('z, 's, 'd, 'c, 'q) upd_env \<Rightarrow> int" where
  "random_base U = (ue_time U mod 1024 + random_bits U) mod 1024"

definition page_offset :: "int \<Rightarrow> u32" where
  "page_offset r = word_of_int ((if r = 0 then 1 else r) * (- 0x1000))"

definition call_retouch ::
  "('z, 's, 'd, 'c, 'q) upd_env \<Rightarrow> string \<Rightarrow> string \<Rightarrow> u32 \<Rightarrow> bool \<Rightarrow> upd_state \<Rightarrow> (bool \<times> u32 option \<times> upd_state) outcome" where
  "call_retouch U lib sha1 off override st =
     then_do (retouch_one_library (ue_sys U) (lb_sha (ue_libs U)) (ue_fresh U)
        \<lparr> la_binary_name = lib, la_binary_sha1 = sha1, la_offset = off, la_override = override \<rparr> (files st)) (\<lambda>r.
       Ok (lr_success r, lr_override r, set_files (lr_world r) st))"

text \<open>The loop over the pairs: \<^verbatim>\<open>base\<close> is \<^verbatim>\<open>random_base\<close>, \<^verbatim>\<open>obase\<close> is \<^verbatim>\<open>override_base\<close>, \<^verbatim>\<open>oset\<close> is \<^verbatim>\<open>override_set\<close>.\<close>

fun retouch_loop ::
  "('z, 's, 'd, 'c, 'q) upd_env \<Rightarrow> string list \<Rightarrow> bool \<Rightarrow> u32 \<Rightarrow> u32 \<Rightarrow> bool \<Rightarrow> upd_state \<Rightarrow> (bool \<times> upd_state) outcome" where
  "retouch_loop U [] success base obase oset st = Ok (success, st)"
| "retouch_loop U [lib] success base obase oset st = Ok (False, st)"
| "retouch_loop U (lib # sha1 # rest) success base obase oset st =
     then_do (if success then call_retouch U lib sha1 base (\<not> oset) st else Ok (False, None, st)) (\<lambda>(success, override, st).
       let obase = (case override of None \<Rightarrow> obase | Some b \<Rightarrow> b);
           st = (if success then st else ErrorAbort st (''Failed to retouch '' @ [CHR 0x27] @ lib @ [CHR 0x27] @ ''.''))
       in if success \<and> obase \<noteq> 0 then retouch_loop U rest success obase obase True st
          else retouch_loop U rest success base obase oset st)"

definition string_result :: "bool \<Rightarrow> 'c State \<Rightarrow> (Value option \<times> 'c State) outcome" where
  "string_result success st = (if success then give ''t'' st else Ok (Some (VAL_STRING None), st))"

text \<open>A failing evaluation of the arguments is reported as success.\<close>

definition RetouchBinariesFn :: "('z, 's, 'd, 'c, 'q) upd_env \<Rightarrow> UpdaterInfo Function" where
  "RetouchBinariesFn U name st argv =
     then_do (ReadVarArgs st argv) (\<lambda>(entries, st).
       case entries of
         None \<Rightarrow> give ''t'' st
       | Some entries \<Rightarrow>
           let r = random_base U; off = page_offset r;
               st = send ''ui_print'' (send (''ui_print Random offset: 0x'' @ print_hex r) st)
           in then_do (retouch_loop U entries True off off False st) (\<lambda>(success, st). string_result success st))"

fun undo_loop :: "('z, 's, 'd, 'c, 'q) upd_env \<Rightarrow> string list \<Rightarrow> bool \<Rightarrow> upd_state \<Rightarrow> (bool \<times> upd_state) outcome" where
  "undo_loop U [] success st = Ok (success, st)"
| "undo_loop U [lib] success st = Ok (False, st)"
| "undo_loop U (lib # sha1 # rest) success st =
     then_do (if success then call_retouch U lib sha1 0 False st else Ok (False, None, st)) (\<lambda>(success, _, st).
       undo_loop U rest success
         (if success then st else ErrorAbort st (''Failed to unretouch '' @ [CHR 0x27] @ lib @ [CHR 0x27] @ ''.'')))"

definition UndoRetouchBinariesFn :: "('z, 's, 'd, 'c, 'q) upd_env \<Rightarrow> UpdaterInfo Function" where
  "UndoRetouchBinariesFn U name st argv =
     then_do (ReadVarArgs st argv) (\<lambda>(entries, st).
       case entries of
         None \<Rightarrow> give ''t'' st
       | Some entries \<Rightarrow> then_do (undo_loop U entries True st) (\<lambda>(success, st). string_result success st))"

section \<open>Links and permissions\<close>

fun symlink_loop :: "('z, 's, 'd, 'c, 'q) upd_env \<Rightarrow> string \<Rightarrow> string list \<Rightarrow> world \<Rightarrow> world" where
  "symlink_loop U target [] w = w"
| "symlink_loop U target (src # srcs) w =
     symlink_loop U target srcs (snd (k_symlink (ue_dirs U) target src (snd (k_unlink (ue_dirs U) src w))))"

definition SymlinkFn :: "('z, 's, 'd, 'c, 'q) upd_env \<Rightarrow> UpdaterInfo Function" where
  "SymlinkFn U name st argv =
     (if length argv = 0 then fail_with st (wrong_count name ''1+ args'' (length argv))
      else unless_null (eval_arg st argv 0) (\<lambda>target st.
           unless_null (ReadVarArgs st (drop 1 argv)) (\<lambda>srcs st.
             give [] (set_files (symlink_loop U target srcs (files st)) st))))"

text \<open>A number in one of the first arguments.\<close>

definition perm_number :: "string \<Rightarrow> int option" where
  "perm_number s = (if snd (strtoul0 s) \<noteq> [] \<or> s = [] then None else Some (to_int32 (fst (strtoul0 s))))"

definition not_valid :: "string \<Rightarrow> string \<Rightarrow> string \<Rightarrow> string" where
  "not_valid name s what = name @ '': '' @ [CHR 0x22] @ s @ [CHR 0x22] @ '' not a valid '' @ what"

fun chmod_loop :: "('z, 's, 'd, 'c, 'q) upd_env \<Rightarrow> int \<Rightarrow> int \<Rightarrow> int \<Rightarrow> string list \<Rightarrow> world \<Rightarrow> world" where
  "chmod_loop U uid gid mode [] w = w"
| "chmod_loop U uid gid mode (p # ps) w =
     chmod_loop U uid gid mode ps (snd (k_chmod (ue_dirs U) p mode (snd (k_chown (ue_dirs U) p uid gid w))))"

fun perm_loop :: "('z, 's, 'd, 'c, 'q) upd_env \<Rightarrow> int \<Rightarrow> int \<Rightarrow> int \<Rightarrow> int \<Rightarrow> string list \<Rightarrow> world \<Rightarrow> world outcome" where
  "perm_loop U uid gid dir_mode file_mode [] w = Ok w"
| "perm_loop U uid gid dir_mode file_mode (p # ps) w =
     then_do (returned_value (dirSetHierarchyPermissions (ue_dirs U) (ue_depth U) uid gid dir_mode file_mode p w))
       (\<lambda>(_, w). perm_loop U uid gid dir_mode file_mode ps w)"

text \<open>With too few arguments the message has three conversions and two arguments.\<close>

definition SetPermFn :: "('z, 's, 'd, 'c, 'q) upd_env \<Rightarrow> UpdaterInfo Function" where
  "SetPermFn U name st argv =
     (let recursive = (strcmp name ''set_perm_recursive'' = 0) in
      if length argv < (if recursive then 5 else 4) then Inl OutOfBounds
      else unless_null (ReadVarArgs st argv) (\<lambda>args st.
        case perm_number (args ! 0) of
          None \<Rightarrow> fail_with st (not_valid name (args ! 0) ''uid'')
        | Some uid \<Rightarrow>
            (case perm_number (args ! 1) of
               None \<Rightarrow> fail_with st (not_valid name (args ! 1) ''gid'')
             | Some gid \<Rightarrow>
                 if recursive then
                   (case perm_number (args ! 2) of
                      None \<Rightarrow> fail_with st (not_valid name (args ! 2) ''dirmode'')
                    | Some dir_mode \<Rightarrow>
                        (case perm_number (args ! 3) of
                           None \<Rightarrow> fail_with st (not_valid name (args ! 3) ''filemode'')
                         | Some file_mode \<Rightarrow>
                             then_do (perm_loop U uid gid dir_mode file_mode (drop 4 args) (files st)) (\<lambda>w.
                               give [] (set_files w st))))
                 else
                   (case perm_number (args ! 2) of
                      None \<Rightarrow> fail_with st (not_valid name (args ! 2) ''mode'')
                    | Some mode \<Rightarrow> give [] (set_files (chmod_loop U uid gid mode (drop 3 args) (files st)) st)))))"

section \<open>Properties\<close>

definition GetPropFn :: "('z, 's, 'd, 'c, 'q) upd_env \<Rightarrow> UpdaterInfo Function" where
  "GetPropFn U name st argv =
     (if length argv \<noteq> 1 then fail_with st (wrong_count name ''1 arg'' (length argv))
      else unless_null (eval_arg st argv 0) (\<lambda>pkey st. give (ue_getprop U pkey) st))"

definition rtrim :: "string \<Rightarrow> string" where
  "rtrim s = rev (dropWhile is_space (rev s))"

definition MAX_FILE_GETPROP_SIZE :: nat where "MAX_FILE_GETPROP_SIZE = 65536"

text \<open>What the loop makes of a line: nothing for a blank line, a comment or another key, the value, or an
  error for a line without an equals sign, with the rest of the line from its first character on.\<close>

datatype prop_line = Skip | Found string | Malformed string

definition prop_of_line :: "string \<Rightarrow> string \<Rightarrow> prop_line" where
  "prop_of_line pkey line =
     (let line = dropWhile is_space line in
      if line = [] \<or> hd line = CHR ''#'' then Skip
      else if CHR ''='' \<notin> set line then Malformed line
      else if strcmp pkey (rtrim (takeWhile (\<lambda>c. c \<noteq> CHR ''='') line)) \<noteq> 0 then Skip
      else Found (rtrim (dropWhile is_space (drop 1 (dropWhile (\<lambda>c. c \<noteq> CHR ''='') line)))))"

lemma strtok_rest_shorter: "strtok d s = Some (t, r) \<Longrightarrow> length r < length s"
proof -
  let ?s = "dropWhile (\<lambda>c. c = d) s"
  assume a: "strtok d s = Some (t, r)"
  then have "?s \<noteq> []" "r = drop 1 (dropWhile (\<lambda>c. c \<noteq> d) ?s)" by (auto simp: strtok_def Let_def split: if_splits)
  moreover have "length (dropWhile (\<lambda>c. c \<noteq> d) ?s) \<le> length ?s" "length ?s \<le> length s"
    by (simp_all add: length_dropWhile_le)
  ultimately show ?thesis by (cases ?s) (auto split: if_splits)
qed

function getprop_loop :: "string \<Rightarrow> string \<Rightarrow> string \<Rightarrow> string + string" where
  "getprop_loop pkey line rest =
     (case prop_of_line pkey line of
        Malformed l \<Rightarrow> Inl l
      | Found v \<Rightarrow> Inr v
      | Skip \<Rightarrow>
          (case strtok newline rest of
             None \<Rightarrow> Inr []
           | Some (line, rest) \<Rightarrow> getprop_loop pkey line rest))"
  by pat_completeness auto
termination
  by (relation "measure (\<lambda>(k, l, rest). length rest)") (auto dest!: sym[of "Some _"] strtok_rest_shorter)

declare getprop_loop.simps [simp del]

text \<open>\<^verbatim>\<open>argc\<close> is not looked at. A file without a token makes \<^verbatim>\<open>strtok\<close> return \<^verbatim>\<open>NULL\<close>, from which the loop reads.\<close>

definition FileGetPropFn :: "('z, 's, 'd, 'c, 'q) upd_env \<Rightarrow> UpdaterInfo Function" where
  "FileGetPropFn U name st argv =
     unless_null (ReadArgs st argv 2) (\<lambda>vals st.
       let filename = vals ! 0; pkey = vals ! 1 in
       case sys_stat (ue_sys U) filename (files st) of (i, w) \<Rightarrow>
         case i of
           None \<Rightarrow> fail_with (set_files w st)
             (name @ '': failed to stat '' @ [CHR 0x22] @ filename @ [CHR 0x22] @ '': '' @ ue_strerror U w)
         | Some i \<Rightarrow>
             let size = length (i_data i) in
             if size > MAX_FILE_GETPROP_SIZE then fail_with (set_files w st)
               (filename @ '' too large for '' @ name @ '' (max '' @ print_int (int MAX_FILE_GETPROP_SIZE) @ '')'')
             else if ue_malloc U (int size + 1) = None then fail_with (set_files w st)
               (name @ '': failed to alloc '' @ print_int (int size + 1) @ '' bytes'')
             else case sys_fopen_read (ue_sys U) filename w of (f, w) \<Rightarrow>
               case f of
                 None \<Rightarrow> fail_with (set_files w st) (name @ '': failed to open '' @ filename @ '': '' @ ue_strerror U w)
               | Some xs \<Rightarrow>
                   (case sys_fread (ue_sys U) size xs w of (got, w) \<Rightarrow>
                      if length got \<noteq> size then fail_with (set_files (sys_ignored w) st)
                        (name @ '': failed to read '' @ print_int (int size + 1) @ '' bytes from '' @ filename)
                      else
                        let st = set_files (sys_ignored w) st
                        in case strtok newline (takeWhile (\<lambda>c. c \<noteq> CHR 0x00) (chars_of got)) of
                             None \<Rightarrow> Inl OutOfBounds
                           | Some (line, rest) \<Rightarrow>
                               (case getprop_loop pkey line rest of
                                  Inl l \<Rightarrow> fail_with st (name @ '': malformed line '' @ [CHR 0x22] @ l @ [CHR 0x22] @ '': '' @
                                    filename @ '' not a prop file?'')
                                | Inr v \<Rightarrow> give v st)))"

section \<open>Patches\<close>

definition cant_parse :: "string \<Rightarrow> string \<Rightarrow> string" where
  "cant_parse name s = name @ ''(): can't parse '' @ [CHR 0x22] @ s @ [CHR 0x22] @ '' as byte count''"

text \<open>\<^verbatim>\<open>size_t bytes = strtol(s, &endptr, 10)\<close>; nothing if there is no number.\<close>

definition byte_count :: "string \<Rightarrow> u64 option" where
  "byte_count s =
     (let n = word_of_int (fst (strtol10 s)) in if n = 0 \<and> snd (strtol10 s) = s then None else Some n)"

definition ApplyPatchSpaceFn :: "('z, 's, 'd, 'c, 'q) upd_env \<Rightarrow> UpdaterInfo Function" where
  "ApplyPatchSpaceFn U name st argv =
     unless_null (ReadArgs st argv 1) (\<lambda>vals st.
       case byte_count (vals ! 0) of
         None \<Rightarrow> fail_with st (cant_parse name (vals ! 0) @ [newline, newline])
       | Some n \<Rightarrow>
           (case CacheSizeCheck (ue_sys U) n (files st) of (rc, w) \<Rightarrow> give (truth (rc = 0)) (set_files w st)))"

text \<open>The loop over the pairs of a SHA-1 and a patch: an error message, or the two arrays. A string value
  without data, which only a failed \<^verbatim>\<open>retouch_binaries\<close> returns, would be a null pointer in the first array.\<close>

fun patch_pairs :: "string \<Rightarrow> nat \<Rightarrow> Value list \<Rightarrow> (string + string list \<times> Value list) outcome" where
  "patch_pairs name i (sha1 # patch # vs) =
     (case sha1 of
        VAL_BLOB _ \<Rightarrow> Ok (Inl (name @ ''(): sha-1 #'' @ print_int (int i) @ '' is not string''))
      | VAL_STRING s \<Rightarrow>
          (case patch of
             VAL_STRING _ \<Rightarrow> Ok (Inl (name @ ''(): patch #'' @ print_int (int i) @ '' is not blob''))
           | VAL_BLOB _ \<Rightarrow>
               then_do (patch_pairs name (Suc i) vs) (\<lambda>r. case r of
                 Inl msg \<Rightarrow> Ok (Inl msg)
               | Inr (ss, ps) \<Rightarrow>
                   (case s of None \<Rightarrow> Inl OutOfBounds | Some s \<Rightarrow> Ok (Inr (s # ss, patch # ps))))))"
| "patch_pairs name i vs = Ok (Inr ([], []))"

text \<open>The result of \<^verbatim>\<open>ReadValueVarArgs\<close> is not looked at: \<^verbatim>\<open>NULL\<close> is read from.\<close>

definition ApplyPatchFn :: "('z, 's, 'd, 'c, 'q) upd_env \<Rightarrow> UpdaterInfo Function" where
  "ApplyPatchFn U name st argv =
     (if length argv < 6 \<or> length argv mod 2 = 1 then
        fail_with st (name @ ''(): expected at least 6 args and an even number, got '' @ print_int (int (length argv)))
      else unless_null (ReadArgs st argv 4) (\<lambda>vals st.
        case byte_count (vals ! 3) of
          None \<Rightarrow> fail_with st (cant_parse name (vals ! 3))
        | Some tsize \<Rightarrow>
            then_do (ReadValueVarArgs st (drop 4 argv)) (\<lambda>(patches, st).
              case patches of
                None \<Rightarrow> Inl OutOfBounds
              | Some patches \<Rightarrow>
                  then_do (patch_pairs name 0 patches) (\<lambda>r. case r of
                    Inl msg \<Rightarrow> fail_with st msg
                  | Inr (sha1s, blobs) \<Rightarrow>
                      then_do (returned (applypatch (ue_sys U) (ue_libs U) (ue_fresh U) (ue_fresh U)
                        \<lparr> ap_source_filename = vals ! 0, ap_target_filename = vals ! 1, ap_target_sha1_str = vals ! 2,
                          ap_target_size = tsize, ap_patch_sha1_str = sha1s, ap_patch_data = blobs \<rparr> (files st)))
                        (\<lambda>(result, w). give (truth (result = 0)) (set_files w st))))))"

definition ApplyPatchCheckFn :: "('z, 's, 'd, 'c, 'q) upd_env \<Rightarrow> UpdaterInfo Function" where
  "ApplyPatchCheckFn U name st argv =
     (if length argv < 1 then
        fail_with st (name @ ''(): expected at least 1 arg, got '' @ print_int (int (length argv)))
      else unless_null (ReadArgs st argv 1) (\<lambda>vals st.
        then_do (ReadVarArgs st (drop 1 argv)) (\<lambda>(sha1s, st).
          case sha1s of
            None \<Rightarrow> Inl OutOfBounds
          | Some sha1s \<Rightarrow>
              then_do (applypatch_check (ue_sys U) (lb_sha (ue_libs U)) (ue_fresh U) (vals ! 0) sha1s (files st))
                (\<lambda>(result, w). give (truth (result = 0)) (set_files w st)))))"

section \<open>The screen and programs\<close>

text \<open>The \<^verbatim>\<open>strtok\<close> loop over the lines of a text.\<close>

function print_lines :: "string \<Rightarrow> upd_state \<Rightarrow> upd_state" where
  "print_lines text st =
     (case strtok newline text of
        None \<Rightarrow> st
      | Some (line, rest) \<Rightarrow> print_lines rest (send (''ui_print '' @ line) st))"
  by pat_completeness auto
termination
  by (relation "measure (\<lambda>(text, st). length text)") (auto dest!: sym[of "Some _"] strtok_rest_shorter)

declare print_lines.simps [simp del]

text \<open>\<^verbatim>\<open>strtok\<close> has put a NUL behind the first line, where the string that is returned ends.\<close>

definition cut_at_line :: "string \<Rightarrow> string" where
  "cut_at_line s = takeWhile (\<lambda>c. c = newline) s @ takeWhile (\<lambda>c. c \<noteq> newline) (dropWhile (\<lambda>c. c = newline) s)"

definition UIPrintFn :: "('z, 's, 'd, 'c, 'q) upd_env \<Rightarrow> UpdaterInfo Function" where
  "UIPrintFn U name st argv =
     unless_null (ReadVarArgs st argv) (\<lambda>args st.
       let buffer = concat args
       in give (cut_at_line buffer) (send ''ui_print'' (print_lines buffer st)))"

definition WipeCacheFn :: "('z, 's, 'd, 'c, 'q) upd_env \<Rightarrow> UpdaterInfo Function" where
  "WipeCacheFn U name st argv =
     (if length argv \<noteq> 0 then fail_with st (wrong_count name ''no args'' (length argv))
      else give ''t'' (send ''wipe_cache'' st))"

definition RunProgramFn :: "('z, 's, 'd, 'c, 'q) upd_env \<Rightarrow> UpdaterInfo Function" where
  "RunProgramFn U name st argv =
     (if length argv < 1 then fail_with st (name @ ''() expects at least 1 arg'')
      else unless_null (ReadVarArgs st argv) (\<lambda>args st.
        case ue_run U args (files st) of (status, w) \<Rightarrow> give (print_int status) (set_files w st)))"

section \<open>Hashes\<close>

definition value_bytes :: "Value \<Rightarrow> bytes option" where
  "value_bytes v = (case v of VAL_STRING s \<Rightarrow> map_option bytes_of s | VAL_BLOB d \<Rightarrow> d)"

text \<open>The loop over the other arguments: the first string that is the digest.\<close>

fun match_loop :: "bytes \<Rightarrow> Value list \<Rightarrow> Value option outcome" where
  "match_loop digest [] = Ok None"
| "match_loop digest (v # vs) =
     (case v of
        VAL_BLOB _ \<Rightarrow> match_loop digest vs
      | VAL_STRING None \<Rightarrow> Inl OutOfBounds
      | VAL_STRING (Some s) \<Rightarrow> if ParseSha1 s = Some digest then Ok (Some v) else match_loop digest vs)"

definition Sha1CheckFn :: "('z, 's, 'd, 'c, 'q) upd_env \<Rightarrow> UpdaterInfo Function" where
  "Sha1CheckFn U name st argv =
     (if length argv < 1 then fail_with st (name @ ''() expects at least 1 arg'')
      else unless_null (ReadValueVarArgs st argv) (\<lambda>args st.
        case value_bytes (args ! 0) of
          None \<Rightarrow> give [] st
        | Some data' \<Rightarrow>
            let digest = SHA_hash (lb_sha (ue_libs U)) data'
            in if length argv = 1 then give (PrintSha1 digest) st
               else then_do (match_loop digest (drop 1 args)) (\<lambda>r.
                 case r of None \<Rightarrow> give [] st | Some v \<Rightarrow> Ok (Some v, st))))"

definition ReadFileFn :: "('z, 's, 'd, 'c, 'q) upd_env \<Rightarrow> UpdaterInfo Function" where
  "ReadFileFn U name st argv =
     (if length argv \<noteq> 1 then fail_with st (wrong_count name ''1 arg'' (length argv))
      else unless_null (ReadArgs st argv 1) (\<lambda>vals st.
        then_do (LoadFileContents (ue_sys U) (lb_sha (ue_libs U)) (vals ! 0) (ue_fresh U) RETOUCH_DONT_MASK (files st))
          (\<lambda>(rc, fc, w).
            if rc \<noteq> 0 then fail_with (set_files w st)
              (name @ ''() loading '' @ [CHR 0x22] @ vals ! 0 @ [CHR 0x22] @ '' failed: '' @ ue_strerror U w)
            else then_do (live_bytes fc) (\<lambda>d. Ok (Some (VAL_BLOB (Some d)), set_files w st)))))"

section \<open>Registration\<close>

text \<open>The functions of the table; \<^verbatim>\<open>Device\<close> is one of \<^verbatim>\<open>RegisterDeviceExtensions\<close>, which the build generates.\<close>

datatype 'e install_fn = I_Mount | I_IsMounted | I_Unmount | I_Format | I_ShowProgress | I_SetProgress | I_Delete
  | I_PackageExtractDir | I_PackageExtractFile | I_RetouchBinaries | I_UndoRetouchBinaries | I_Symlink | I_SetPerm
  | I_GetProp | I_FileGetProp | I_ApplyPatch | I_ApplyPatchCheck | I_ApplyPatchSpace | I_ReadFile | I_Sha1Check
  | I_WipeCache | I_UIPrint | I_RunProgram | Device 'e

fun install_native ::
  "('z, 's, 'd, 'c, 'q) upd_env \<Rightarrow> ('e \<Rightarrow> UpdaterInfo Function) \<Rightarrow> 'e install_fn \<Rightarrow> UpdaterInfo Function" where
  "install_native U ext I_Mount = MountFn U"
| "install_native U ext I_IsMounted = IsMountedFn U"
| "install_native U ext I_Unmount = UnmountFn U"
| "install_native U ext I_Format = FormatFn U"
| "install_native U ext I_ShowProgress = ShowProgressFn U"
| "install_native U ext I_SetProgress = SetProgressFn U"
| "install_native U ext I_Delete = DeleteFn U"
| "install_native U ext I_PackageExtractDir = PackageExtractDirFn U"
| "install_native U ext I_PackageExtractFile = PackageExtractFileFn U"
| "install_native U ext I_RetouchBinaries = RetouchBinariesFn U"
| "install_native U ext I_UndoRetouchBinaries = UndoRetouchBinariesFn U"
| "install_native U ext I_Symlink = SymlinkFn U"
| "install_native U ext I_SetPerm = SetPermFn U"
| "install_native U ext I_GetProp = GetPropFn U"
| "install_native U ext I_FileGetProp = FileGetPropFn U"
| "install_native U ext I_ApplyPatch = ApplyPatchFn U"
| "install_native U ext I_ApplyPatchCheck = ApplyPatchCheckFn U"
| "install_native U ext I_ApplyPatchSpace = ApplyPatchSpaceFn U"
| "install_native U ext I_ReadFile = ReadFileFn U"
| "install_native U ext I_Sha1Check = Sha1CheckFn U"
| "install_native U ext I_WipeCache = WipeCacheFn U"
| "install_native U ext I_UIPrint = UIPrintFn U"
| "install_native U ext I_RunProgram = RunProgramFn U"
| "install_native U ext (Device e) = ext e"

definition install_functions :: "'e install_fn NamedFunction list" where
  "install_functions =
     [(''mount'', Native I_Mount), (''is_mounted'', Native I_IsMounted), (''unmount'', Native I_Unmount),
      (''format'', Native I_Format), (''show_progress'', Native I_ShowProgress), (''set_progress'', Native I_SetProgress),
      (''delete'', Native I_Delete), (''delete_recursive'', Native I_Delete),
      (''package_extract_dir'', Native I_PackageExtractDir), (''package_extract_file'', Native I_PackageExtractFile),
      (''retouch_binaries'', Native I_RetouchBinaries), (''undo_retouch_binaries'', Native I_UndoRetouchBinaries),
      (''symlink'', Native I_Symlink), (''set_perm'', Native I_SetPerm), (''set_perm_recursive'', Native I_SetPerm),
      (''getprop'', Native I_GetProp), (''file_getprop'', Native I_FileGetProp), (''apply_patch'', Native I_ApplyPatch),
      (''apply_patch_check'', Native I_ApplyPatchCheck), (''apply_patch_space'', Native I_ApplyPatchSpace),
      (''read_file'', Native I_ReadFile), (''sha1_check'', Native I_Sha1Check), (''wipe_cache'', Native I_WipeCache),
      (''ui_print'', Native I_UIPrint), (''run_program'', Native I_RunProgram)]"

definition RegisterInstallFunctions :: "'e install_fn FnTable \<Rightarrow> 'e install_fn FnTable outcome" where
  "RegisterInstallFunctions t = register_all install_functions t"

end
