(* ===== verification/Boot_Message.thy ===== *)
theory Boot_Message
  imports Volumes Sys_World Dir_Util
begin

text \<open>
  The bootloader message, and how the recovery program takes its arguments and finishes:
  \<^verbatim>\<open>src/bootloader.c\<close> and, of \<^verbatim>\<open>src/recovery.c\<close>, \<^verbatim>\<open>fopen_path\<close>, \<^verbatim>\<open>get_args\<close>, \<^verbatim>\<open>finish_recovery\<close> and the functions
  they use. The kernel of \<^verbatim>\<open>Volumes\<close> and that of \<^verbatim>\<open>Dir_Util\<close> work on the world of \<^verbatim>\<open>Sys_World\<close>, whose files
  keep their contents while they are not mounted.
\<close>

section \<open>C arrays of characters\<close>

abbreviation NUL :: char where
  "NUL \<equiv> CHR 0x00"

definition c_str :: "string \<Rightarrow> string" where
  "c_str arr = takeWhile (\<lambda>c. c \<noteq> NUL) arr"

text \<open>\<^verbatim>\<open>strlcpy\<close> and \<^verbatim>\<open>strlcat\<close> into an array of its full size.\<close>

definition put_at :: "nat \<Rightarrow> string \<Rightarrow> string \<Rightarrow> string" where
  "put_at p xs arr = take p arr @ xs @ drop (p + length xs) arr"

definition strlcpy :: "string \<Rightarrow> string \<Rightarrow> string" where
  "strlcpy arr src = (if arr = [] then [] else put_at 0 (take (length arr - 1) src @ [NUL]) arr)"

definition strlcat :: "string \<Rightarrow> string \<Rightarrow> string" where
  "strlcat arr src =
     (let n = length (c_str arr)
      in if n \<ge> length arr then arr else put_at n (take (length arr - 1 - n) src @ [NUL]) arr)"

text \<open>\<^verbatim>\<open>strtok(arr, "\n")\<close> at a position: the token, the array with the newline behind it replaced, and
  where the next call goes on.\<close>

definition strtok_line :: "string \<Rightarrow> nat \<Rightarrow> (string \<times> string \<times> nat) option" where
  "strtok_line arr p =
     (let s = c_str (drop p arr); skip = length (takeWhile (\<lambda>c. c = newline) s)
      in if skip = length s then None
         else let tok = takeWhile (\<lambda>c. c \<noteq> newline) (drop skip s); e = p + skip + length tok
              in if skip + length tok < length s then Some (tok, arr[e := NUL], e + 1) else Some (tok, arr, e))"

section \<open>The message on the misc partition\<close>

record bootloader_message =
  bm_command :: string
  bm_status :: string
  bm_recovery :: string

definition zero_message :: bootloader_message where
  "zero_message = \<lparr> bm_command = replicate 32 NUL, bm_status = replicate 32 NUL, bm_recovery = replicate 1024 NUL \<rparr>"

text \<open>The memory of the structure: 1088 bytes.\<close>

definition message_bytes :: "bootloader_message \<Rightarrow> bytes" where
  "message_bytes m = bytes_of (bm_command m @ bm_status m @ bm_recovery m)"

definition message_of :: "bytes \<Rightarrow> bootloader_message" where
  "message_of xs = \<lparr> bm_command = chars_of (take 32 xs), bm_status = chars_of (take 32 (drop 32 xs)),
     bm_recovery = chars_of (take 1024 (drop 64 xs)) \<rparr>"

definition MESSAGE_SIZE :: nat where "MESSAGE_SIZE = 1088"

fun wait_loop :: "sys \<Rightarrow> string \<Rightarrow> nat \<Rightarrow> world \<Rightarrow> world" where
  "wait_loop sys fn 0 w = w"
| "wait_loop sys fn (Suc tries) w =
     (case sys_stat sys fn w of (st, w) \<Rightarrow> if st = None then wait_loop sys fn tries w else w)"

definition wait_for_device :: "sys \<Rightarrow> string \<Rightarrow> world \<Rightarrow> world" where
  "wait_for_device sys fn w = wait_loop sys fn 10 w"

definition get_bootloader_message_block :: "sys \<Rightarrow> bootloader_message \<Rightarrow> string \<Rightarrow> world \<Rightarrow> int \<times> bootloader_message \<times> world" where
  "get_bootloader_message_block sys out' dev w =
     (case sys_fopen_read sys dev (wait_for_device sys dev w) of (f, w) \<Rightarrow>
        case f of
          None \<Rightarrow> (-1, out', w)
        | Some xs \<Rightarrow>
            (case sys_fread sys MESSAGE_SIZE xs w of (temp, w) \<Rightarrow>
               if length temp \<noteq> MESSAGE_SIZE then (-1, out', w)
               else case sys_fclose sys w of (ok, w) \<Rightarrow>
                 if \<not> ok then (-1, out', w) else (0, message_of temp, w)))"

definition set_bootloader_message_block :: "sys \<Rightarrow> bootloader_message \<Rightarrow> string \<Rightarrow> world \<Rightarrow> int \<times> world" where
  "set_bootloader_message_block sys m dev w =
     (case sys_fopen_write sys dev (wait_for_device sys dev w) of (ok, w) \<Rightarrow>
        if \<not> ok then (-1, w)
        else case sys_fwrite sys dev (message_bytes m) w of (ok, w) \<Rightarrow>
          if \<not> ok then (-1, w)
          else case sys_fclose sys w of (ok, w) \<Rightarrow> (if ok then 0 else -1, w))"

type_synonym rec_state = "world vol_state"

text \<open>The device of \<^verbatim>\<open>/misc\<close>, if it is one the code can use.\<close>

definition misc_device :: "rec_state \<Rightarrow> string option" where
  "misc_device s =
     (case volume_for_path ''/misc'' s of
        None \<Rightarrow> None
      | Some v \<Rightarrow> if strcmp (vol_fs_type v) ''emmc'' = 0 then vol_device v else None)"

definition get_bootloader_message :: "sys \<Rightarrow> bootloader_message \<Rightarrow> rec_state \<Rightarrow> int \<times> bootloader_message \<times> rec_state" where
  "get_bootloader_message sys out' s =
     (case misc_device s of
        None \<Rightarrow> (-1, out', s)
      | Some dev \<Rightarrow>
          (case get_bootloader_message_block sys out' dev (vs_kernel s) of (rc, m, w) \<Rightarrow> (rc, m, s\<lparr> vs_kernel := w \<rparr>)))"

definition set_bootloader_message :: "sys \<Rightarrow> bootloader_message \<Rightarrow> rec_state \<Rightarrow> int \<times> rec_state" where
  "set_bootloader_message sys m s =
     (case misc_device s of
        None \<Rightarrow> (-1, s)
      | Some dev \<Rightarrow>
          (case set_bootloader_message_block sys m dev (vs_kernel s) of (rc, w) \<Rightarrow> (rc, s\<lparr> vs_kernel := w \<rparr>)))"

section \<open>Arguments\<close>

definition COMMAND_FILE :: string where "COMMAND_FILE = ''/cache/recovery/command''"
definition INTENT_FILE :: string where "INTENT_FILE = ''/cache/recovery/intent''"
definition LOG_FILE :: string where "LOG_FILE = ''/cache/recovery/log''"
definition LAST_LOG_FILE :: string where "LAST_LOG_FILE = ''/cache/recovery/last_log''"
definition LAST_INSTALL_FILE :: string where "LAST_INSTALL_FILE = ''/cache/recovery/last_install''"
definition CACHE_ROOT :: string where "CACHE_ROOT = ''/cache''"
definition TEMPORARY_LOG_FILE :: string where "TEMPORARY_LOG_FILE = ''/tmp/recovery.log''"
definition TEMPORARY_INSTALL_FILE :: string where "TEMPORARY_INSTALL_FILE = ''/tmp/last_install''"
definition MAX_ARG_LENGTH :: nat where "MAX_ARG_LENGTH = 4096"
definition MAX_ARGS :: nat where "MAX_ARGS = 100"

text \<open>\<^verbatim>\<open>fopen_path(path, "r")\<close>: the contents of the file.\<close>

definition fopen_path_read :: "world vol_kernel \<Rightarrow> sys \<Rightarrow> string \<Rightarrow> rec_state \<Rightarrow> (bytes option \<times> rec_state) outcome" where
  "fopen_path_read K sys path s =
     then_do (ensure_path_mounted K path s) (\<lambda>(rc, s).
       if rc \<noteq> 0 then Ok (None, s)
       else case sys_fopen_read sys path (vs_kernel s) of (f, w) \<Rightarrow> Ok (f, s\<lparr> vs_kernel := w \<rparr>))"

text \<open>The arguments after the first in the message, and the array as \<^verbatim>\<open>strtok\<close> leaves it.\<close>

fun message_args :: "nat \<Rightarrow> string \<Rightarrow> nat \<Rightarrow> string list \<Rightarrow> string list \<times> string" where
  "message_args 0 arr p args = (args, arr)"
| "message_args (Suc n) arr p args =
     (case strtok_line arr p of
        None \<Rightarrow> (args, arr)
      | Some (arg, arr, p) \<Rightarrow> message_args n arr p (args @ [arg]))"

text \<open>The block \<^verbatim>\<open>if (*argc <= 1)\<close> on the message: the arguments and the array.\<close>

definition args_from_message :: "string list \<Rightarrow> string \<Rightarrow> string list \<times> string" where
  "args_from_message argv recovery =
     (if length argv \<le> 1 then
        let arr = recovery[length recovery - 1 := NUL]
        in case strtok_line arr 0 of
             None \<Rightarrow> (argv, arr)
           | Some (arg, arr, p) \<Rightarrow>
               if strcmp arg ''recovery'' = 0 then message_args (MAX_ARGS - 1) arr p [arg] else (argv, arr)
      else (argv, recovery))"

text \<open>The lines of the command file. \<^verbatim>\<open>strtok\<close> gives \<^verbatim>\<open>NULL\<close> on a line without a character besides the line
  end, and \<^verbatim>\<open>strdup\<close> reads from there.\<close>

fun command_args :: "nat \<Rightarrow> string \<Rightarrow> string list \<Rightarrow> string list outcome" where
  "command_args 0 text args = Ok args"
| "command_args (Suc n) text args =
     (case fgets MAX_ARG_LENGTH text of
        None \<Rightarrow> Ok args
      | Some (buf, rest) \<Rightarrow>
          (case strtok_any [CHR 0x0D, newline] (c_str buf) of
             None \<Rightarrow> Inl OutOfBounds
           | Some (arg, _) \<Rightarrow> command_args n rest (args @ [arg])))"

definition args_from_file :: "world vol_kernel \<Rightarrow> sys \<Rightarrow> string list \<Rightarrow> rec_state \<Rightarrow> (string list \<times> rec_state) outcome" where
  "args_from_file K sys argv s =
     (if length argv \<le> 1 then
        then_do (fopen_path_read K sys COMMAND_FILE s) (\<lambda>(fp, s).
          case fp of
            None \<Rightarrow> Ok (argv, s)
          | Some xs \<Rightarrow>
              if argv = [] then Inl OutOfBounds
              else case sys_fread sys (length xs) xs (vs_kernel s) of (got, w) \<Rightarrow>
                then_do (command_args (MAX_ARGS - 1) (chars_of got) [hd argv]) (\<lambda>args.
                  Ok (args, s\<lparr> vs_kernel := sys_ignored w \<rparr>)))
      else Ok (argv, s))"

text \<open>The message that is written back.\<close>

definition back_message :: "bootloader_message \<Rightarrow> string list \<Rightarrow> bootloader_message" where
  "back_message boot args =
     boot\<lparr> bm_command := strlcpy (bm_command boot) ''boot-recovery'',
           bm_recovery := foldl (\<lambda>arr arg. strlcat (strlcat arr arg) [newline])
             (strlcpy (bm_recovery boot) (''recovery'' @ [newline])) args \<rparr>"

definition get_args :: "world vol_kernel \<Rightarrow> sys \<Rightarrow> string list \<Rightarrow> rec_state \<Rightarrow> (string list \<times> rec_state) outcome" where
  "get_args K sys argv s =
     (case get_bootloader_message sys zero_message s of (rc, boot, s) \<Rightarrow>
        case args_from_message argv (bm_recovery boot) of (argv, arr) \<Rightarrow>
          then_do (args_from_file K sys argv s) (\<lambda>(argv, s).
            Ok (argv, snd (set_bootloader_message sys (back_message (boot\<lparr> bm_recovery := arr \<rparr>) (drop 1 argv)) s))))"

definition set_sdcard_update_bootloader_message :: "sys \<Rightarrow> rec_state \<Rightarrow> rec_state" where
  "set_sdcard_update_bootloader_message sys s =
     snd (set_bootloader_message sys
       (zero_message\<lparr> bm_command := strlcpy (bm_command zero_message) ''boot-recovery'',
                      bm_recovery := strlcpy (bm_recovery zero_message) (''recovery'' @ [newline]) \<rparr>) s)"

section \<open>Finishing\<close>

text \<open>\<^verbatim>\<open>fopen_path\<close> for writing or appending: is the file open; a file opened for writing is empty.
  \<^verbatim>\<open>D\<close> is the kernel for the directories.\<close>

definition fopen_path_write :: "world vol_kernel \<Rightarrow> world kernel \<Rightarrow> sys \<Rightarrow> string \<Rightarrow> bool \<Rightarrow> rec_state \<Rightarrow> (bool \<times> rec_state) outcome" where
  "fopen_path_write K D sys path app s =
     then_do (ensure_path_mounted K path s) (\<lambda>(rc, s).
       if rc \<noteq> 0 then Ok (False, s)
       else then_do (dirCreateHierarchy D True path 511 None True (vs_kernel s)) (\<lambda>(_, w).
         if call_fails sys w then Ok (False, s\<lparr> vs_kernel := tick w \<rparr>)
         else Ok (True, s\<lparr> vs_kernel := (tick w)\<lparr> w_files := (w_files w)(path \<mapsto>
                (case w_files w path of None \<Rightarrow> new_file | Some i \<Rightarrow> if app then i else overwrite i [])) \<rparr> \<rparr>)))"

text \<open>What \<^verbatim>\<open>fgets\<close> and \<^verbatim>\<open>fputs\<close> copy of a text.\<close>

function copied_lines :: "string \<Rightarrow> string" where
  "copied_lines text =
     (case fgets 4096 text of None \<Rightarrow> [] | Some (buf, rest) \<Rightarrow> c_str buf @ copied_lines rest)"
  by pat_completeness auto
termination
  by (relation "measure length") (auto dest!: sym[of "Some _"] fgets_shorter)

declare copied_lines.simps [simp del]

text \<open>Writing a text to an open file: a failing call may lose some of it.\<close>

definition put_text :: "sys \<Rightarrow> string \<Rightarrow> string \<Rightarrow> world \<Rightarrow> world" where
  "put_text sys name text w =
     append_data name (bytes_of (if call_fails sys w then take (s_count sys (w_tick w)) text else text)) (tick w)"

text \<open>\<^verbatim>\<open>off\<close> is \<^verbatim>\<open>tmplog_offset\<close>.\<close>

definition copy_log_file ::
  "world vol_kernel \<Rightarrow> world kernel \<Rightarrow> sys \<Rightarrow> string \<Rightarrow> string \<Rightarrow> bool \<Rightarrow> nat \<Rightarrow> rec_state \<Rightarrow> (nat \<times> rec_state) outcome" where
  "copy_log_file K D sys source destination app off s =
     then_do (fopen_path_write K D sys destination app s) (\<lambda>(ok, s).
       if \<not> ok then Ok (off, s)
       else case sys_fopen_read sys source (vs_kernel s) of (tmplog, w) \<Rightarrow>
         case tmplog of
           None \<Rightarrow> Ok (off, s\<lparr> vs_kernel := sys_ignored w \<rparr>)
         | Some xs \<Rightarrow>
             (case sys_fread sys (length xs) (if app then drop off xs else xs) w of (got, w) \<Rightarrow>
                Ok (if app then off + length got else off,
                    s\<lparr> vs_kernel := sys_ignored (put_text sys destination (copied_lines (chars_of got)) w) \<rparr>)))"

definition write_intent ::
  "world vol_kernel \<Rightarrow> world kernel \<Rightarrow> sys \<Rightarrow> string option \<Rightarrow> rec_state \<Rightarrow> rec_state outcome" where
  "write_intent K D sys send_intent s =
     (case send_intent of
        None \<Rightarrow> Ok s
      | Some intent \<Rightarrow>
          then_do (fopen_path_write K D sys INTENT_FILE False s) (\<lambda>(ok, s).
            Ok (if ok then s\<lparr> vs_kernel := sys_ignored (put_text sys INTENT_FILE intent (vs_kernel s)) \<rparr> else s)))"

definition with_world :: "(world \<Rightarrow> world) \<Rightarrow> rec_state \<Rightarrow> rec_state" where
  "with_world f s = s\<lparr> vs_kernel := f (vs_kernel s) \<rparr>"

definition finish_recovery ::
  "world vol_kernel \<Rightarrow> world kernel \<Rightarrow> sys \<Rightarrow> string option \<Rightarrow> nat \<Rightarrow> rec_state \<Rightarrow> (nat \<times> rec_state) outcome" where
  "finish_recovery K D sys send_intent off s =
     then_do (write_intent K D sys send_intent s) (\<lambda>s.
     then_do (copy_log_file K D sys TEMPORARY_LOG_FILE LOG_FILE True off s) (\<lambda>(off, s).
     then_do (copy_log_file K D sys TEMPORARY_LOG_FILE LAST_LOG_FILE False off s) (\<lambda>(off, s).
     then_do (copy_log_file K D sys TEMPORARY_INSTALL_FILE LAST_INSTALL_FILE False off s) (\<lambda>(off, s).
       let s = with_world (\<lambda>w. snd (sys_chmod sys LOG_FILE 384 w)) s;
           s = with_world (\<lambda>w. snd (sys_chown sys LOG_FILE 1000 1000 w)) s;
           s = with_world (\<lambda>w. snd (sys_chmod sys LAST_LOG_FILE 416 w)) s;
           s = with_world (\<lambda>w. snd (sys_chmod sys LAST_INSTALL_FILE 420 w)) s;
           s = snd (set_bootloader_message sys zero_message s)
       in then_do (ensure_path_mounted K COMMAND_FILE s) (\<lambda>(rc, s).
          let s = (if rc \<noteq> 0 then s else with_world (sys_unlink sys COMMAND_FILE) s)
          in then_do (ensure_path_unmounted K CACHE_ROOT s) (\<lambda>(_, s).
               Ok (off, with_world sys_ignored s)))))))"

definition erase_volume :: "world vol_kernel \<Rightarrow> string \<Rightarrow> nat \<Rightarrow> rec_state \<Rightarrow> (int \<times> nat \<times> rec_state) outcome" where
  "erase_volume K volume off s =
     then_do (ensure_path_unmounted K volume s) (\<lambda>(_, s).
       let off = (if strcmp volume ''/cache'' = 0 then 0 else off)
       in then_do (format_volume K volume s) (\<lambda>(rc, s). Ok (rc, off, s)))"

section \<open>Arrays\<close>

lemma c_str_prefix: "c_str arr @ drop (length (c_str arr)) arr = arr"
  by (metis append_take_drop_id c_str_def takeWhile_eq_take)

lemma c_str_nul: "nul_free xs \<Longrightarrow> c_str (xs @ NUL # ys) = xs"
  by (auto simp: c_str_def nul_free_def takeWhile_append)

lemma nul_free_c_str: "nul_free (c_str arr)"
  by (auto simp: nul_free_def c_str_def dest: set_takeWhileD)

lemma c_str_tail: "c_str arr = u @ v \<Longrightarrow> c_str (drop (length u) arr) = v"
proof -
  assume a: "c_str arr = u @ v"
  have "u @ v @ drop (length (u @ v)) arr = arr" using c_str_prefix[of arr] by (simp add: a)
  then have d: "drop (length u) arr = v @ drop (length (u @ v)) arr" by (metis append_eq_conv_conj)
  show ?thesis
  proof (cases "drop (length (u @ v)) arr")
    case Nil
    have "nul_free v" using nul_free_c_str[of arr] by (simp add: a)
    then show ?thesis using d Nil by (auto simp: c_str_def nul_free_def takeWhile_eq_all_conv)
  next
    case (Cons x xs)
    have "x = NUL"
    proof -
      have l: "length (c_str arr) < length arr" using Cons a by (metis drop_eq_Nil linorder_not_le list.distinct(1))
      have "arr ! length (c_str arr) = NUL" using nth_length_takeWhile[of "\<lambda>c. c \<noteq> NUL" arr] l by (simp add: c_str_def)
      moreover have "arr ! length (c_str arr) = x" using Cons a l by (metis Cons_nth_drop_Suc list.inject)
      ultimately show ?thesis by simp
    qed
    moreover have "nul_free v" using nul_free_c_str[of arr] by (simp add: a)
    ultimately show ?thesis using d Cons c_str_nul[of v xs] by simp
  qed
qed

lemma strlcpy_ok:
  assumes "length src < length arr" "nul_free src"
  shows "c_str (strlcpy arr src) = src" and "length (strlcpy arr src) = length arr"
  using assms c_str_nul[of src "drop (Suc (length src)) arr"] by (auto simp: strlcpy_def put_at_def)

lemma strlcat_ok:
  assumes "length (c_str arr) + length src < length arr" "nul_free src"
  shows "c_str (strlcat arr src) = c_str arr @ src" and "length (strlcat arr src) = length arr"
proof -
  let ?n = "length (c_str arr)"
  have t: "take ?n arr = c_str arr" using c_str_prefix[of arr] by (metis append_eq_conv_conj)
  have "strlcat arr src = c_str arr @ (src @ [NUL]) @ drop (?n + length src + 1) arr"
    using assms(1) t by (simp add: strlcat_def put_at_def)
  then show "c_str (strlcat arr src) = c_str arr @ src" "length (strlcat arr src) = length arr"
    using c_str_nul[of "c_str arr @ src"] nul_free_c_str[of arr] assms by auto
qed

definition lines_of :: "string list \<Rightarrow> string" where
  "lines_of args = concat (map (\<lambda>a. a @ [newline]) args)"

lemma lines_of_simps [simp]: "lines_of [] = []" "lines_of (a # as) = a @ newline # lines_of as"
  by (simp_all add: lines_of_def)

text \<open>Arguments that can be written one per line.\<close>

definition plain_args :: "string list \<Rightarrow> bool" where
  "plain_args args \<longleftrightarrow> list_all (\<lambda>a. a \<noteq> [] \<and> newline \<notin> set a \<and> nul_free a) args"

lemma written_args:
  "\<lbrakk>plain_args args; length (c_str arr) + length (lines_of args) < length arr\<rbrakk> \<Longrightarrow>
    c_str (foldl (\<lambda>arr arg. strlcat (strlcat arr arg) [newline]) arr args) = c_str arr @ lines_of args \<and>
    length (foldl (\<lambda>arr arg. strlcat (strlcat arr arg) [newline]) arr args) = length arr"
proof (induction args arbitrary: arr)
  case (Cons a args)
  have a: "nul_free a" "plain_args args" using Cons.prems(1) by (auto simp: plain_args_def)
  have 1: "c_str (strlcat arr a) = c_str arr @ a" "length (strlcat arr a) = length arr"
    by (rule strlcat_ok; use Cons.prems a in simp)+
  have 2: "c_str (strlcat (strlcat arr a) [newline]) = c_str arr @ a @ [newline]"
    "length (strlcat (strlcat arr a) [newline]) = length arr"
    using strlcat_ok[of "strlcat arr a" "[newline]"] 1 Cons.prems(2) by auto
  show ?case using Cons.IH[OF a(2), of "strlcat (strlcat arr a) [newline]"] 2 Cons.prems(2) by auto
qed simp

section \<open>Reading the arguments back\<close>

lemma strtok_first:
  assumes "c_str (drop p arr) = a @ newline # rest" "a \<noteq> []" "newline \<notin> set a"
  shows "\<exists>arr'. strtok_line arr p = Some (a, arr', p + length a + 1) \<and> c_str (drop (p + length a + 1) arr') = rest \<and>
    length arr' = length arr"
proof -
  obtain x xs where x: "a = x # xs" "x \<noteq> newline" using assms(2,3) by (cases a) auto
  have skip: "takeWhile (\<lambda>c. c = newline) (a @ newline # rest) = []" using x by simp
  have tok: "takeWhile (\<lambda>c. c \<noteq> newline) (a @ newline # rest) = a" using assms(3) by (auto simp: takeWhile_append)
  have "c_str (drop (length (a @ [newline])) (drop p arr)) = rest" by (rule c_str_tail) (simp add: assms(1))
  then have "c_str (drop (p + length a + 1) (arr[p + length a := NUL])) = rest" by (simp add: add.commute add.left_commute)
  then show ?thesis by (simp add: strtok_line_def Let_def assms(1) skip tok)
qed

lemma strtok_none: "c_str (drop p arr) = [] \<Longrightarrow> strtok_line arr p = None"
  by (simp add: strtok_line_def)

lemma message_args_ok:
  "\<lbrakk>plain_args args; c_str (drop p arr) = lines_of args; length args \<le> n\<rbrakk> \<Longrightarrow>
    fst (message_args n arr p acc) = acc @ args"
proof (induction args arbitrary: n p arr acc)
  case Nil
  then show ?case by (cases n) (simp_all add: strtok_none)
next
  case (Cons a args)
  obtain m where n: "n = Suc m" "length args \<le> m" using Cons.prems(3) by (cases n) auto
  have a: "a \<noteq> []" "newline \<notin> set a" "plain_args args" using Cons.prems(1) by (auto simp: plain_args_def)
  obtain arr' where "strtok_line arr p = Some (a, arr', p + length a + 1)" "c_str (drop (p + length a + 1) arr') = lines_of args"
    using strtok_first[of p arr a "lines_of args"] Cons.prems(2) a by auto
  then show ?case using Cons.IH[OF a(3) _ n(2)] n(1) by simp
qed

lemma message_args_length: "length (snd (message_args n arr p acc)) = length arr"
proof (induction n arbitrary: arr p acc)
  case (Suc n)
  have "length arr' = length arr" if "strtok_line arr p = Some (t, arr', q)" for t arr' q
    using that by (auto simp: strtok_line_def Let_def split: if_split_asm)
  then show ?case using Suc by (auto split: option.split)
qed simp

lemma args_from_message_length: "length (snd (args_from_message argv arr)) = length arr"
proof -
  have "length arr' = length arr0" if "strtok_line arr0 p = Some (t, arr', q)" for t arr0 arr' p q
    using that by (auto simp: strtok_line_def Let_def split: if_split_asm)
  then show ?thesis by (auto simp: args_from_message_def Let_def message_args_length split: option.split)
qed

lemma args_from_message_ok:
  assumes "c_str arr = ''recovery'' @ newline # lines_of args" "length (c_str arr) < length arr" "plain_args args" "length args < MAX_ARGS"
  shows "fst (args_from_message [q] arr) = ''recovery'' # args"
proof -
  let ?arr = "arr[length arr - 1 := NUL]"
  have c: "c_str ?arr = c_str arr"
  proof -
    let ?n = "length (c_str arr)"
    have nth: "arr ! ?n = NUL" using nth_length_takeWhile[of "\<lambda>c. c \<noteq> NUL" arr] assms(2) by (simp add: c_str_def)
    have t: "take ?n arr = c_str arr" using c_str_prefix[of arr] by (metis append_eq_conv_conj)
    have "?arr = take ?n ?arr @ ?arr ! ?n # drop (Suc ?n) ?arr" by (rule id_take_nth_drop) (use assms(2) in simp)
    moreover have "take ?n ?arr = c_str arr" using t assms(2) by (simp add: take_update_swap list_update_beyond)
    moreover have "?arr ! ?n = NUL" using nth assms(2) by (cases "?n = length arr - 1") auto
    ultimately show ?thesis using c_str_nul[OF nul_free_c_str[of arr]] by metis
  qed
  obtain arr' where s: "strtok_line ?arr 0 = Some (''recovery'', arr', 9)" "c_str (drop 9 arr') = lines_of args"
    using strtok_first[of 0 ?arr "''recovery''" "lines_of args"] c assms(1) by (auto simp: numeral_eq_Suc)
  have "fst (message_args (MAX_ARGS - 1) arr' 9 [''recovery'']) = [''recovery''] @ args"
    by (rule message_args_ok) (use assms(3,4) s(2) in auto)
  then show ?thesis using s(1) by (simp add: args_from_message_def Let_def)
qed


section \<open>The message on the device\<close>

definition calm :: "sys \<Rightarrow> bool" where
  "calm sys \<longleftrightarrow> (\<forall>t. \<not> s_fail sys t)"

definition message_shape :: "bootloader_message \<Rightarrow> bool" where
  "message_shape m \<longleftrightarrow> length (bm_command m) = 32 \<and> length (bm_status m) = 32 \<and> length (bm_recovery m) = 1024"

text \<open>The device holds the message, and is as long as before.\<close>

definition holds :: "string \<Rightarrow> bootloader_message \<Rightarrow> world \<Rightarrow> bool" where
  "holds dev m w \<longleftrightarrow> (\<exists>i rest. w_files w dev = Some i \<and> i_dev i \<and> i_data i = message_bytes m @ rest)"

definition usable :: "string \<Rightarrow> world \<Rightarrow> bool" where
  "usable dev w \<longleftrightarrow> (\<exists>i. w_files w dev = Some i \<and> i_dev i \<and> MESSAGE_SIZE \<le> length (i_data i))"

lemma message_of_bytes: "message_shape m \<Longrightarrow> message_of (message_bytes m) = m"
  by (simp add: message_of_def message_bytes_def message_shape_def bytes_of_def)
    (simp add: chars_of_def[symmetric] bytes_of_def[symmetric] flip: bytes_of_def)

lemma message_bytes_length: "message_shape m \<Longrightarrow> length (message_bytes m) = MESSAGE_SIZE"
  by (simp add: message_bytes_def message_shape_def MESSAGE_SIZE_def)

lemma message_of_shape: "length xs = MESSAGE_SIZE \<Longrightarrow> message_shape (message_of xs)"
  by (simp add: message_of_def message_shape_def MESSAGE_SIZE_def)

lemma wait_files [simp]: "w_files (wait_for_device sys fn w) = w_files w"
proof -
  have "w_files (wait_loop sys fn n w) = w_files w" for n
    by (induction n arbitrary: w) (auto simp: sys_stat_def)
  then show ?thesis by (simp add: wait_for_device_def)
qed

lemma set_block_holds:
  assumes "calm sys" "usable dev w" "message_shape m" "set_bootloader_message_block sys m dev w = (rc, w')"
  shows "rc = 0 \<and> holds dev m w'"
proof -
  obtain i where i: "w_files w dev = Some i" "i_dev i" "MESSAGE_SIZE \<le> length (i_data i)" using assms(2) by (auto simp: usable_def)
  then show ?thesis using assms(1,4)
    by (auto simp: set_bootloader_message_block_def sys_fopen_write_def sys_fwrite_def sys_fclose_def call_fails_def calm_def
        overwrite_def holds_def Let_def split: if_split_asm)
qed

lemma get_block_holds:
  assumes "calm sys" "holds dev m w" "message_shape m"
  shows "\<exists>w'. get_bootloader_message_block sys out' dev w = (0, m, w') \<and> w_files w' = w_files w"
proof -
  obtain i rest where i: "w_files w dev = Some i" "i_data i = message_bytes m @ rest" using assms(2) by (auto simp: holds_def)
  show ?thesis using assms(1,3) i
    by (auto simp: get_bootloader_message_block_def sys_fopen_read_def sys_fread_def sys_fclose_def call_fails_def calm_def
        message_bytes_length message_of_bytes)
qed

lemma get_block_usable:
  assumes "calm sys" "usable dev w"
  shows "\<exists>m w'. get_bootloader_message_block sys out' dev w = (0, m, w') \<and> w_files w' = w_files w \<and> message_shape m"
proof -
  obtain i where i: "w_files w dev = Some i" "MESSAGE_SIZE \<le> length (i_data i)" using assms(2) by (auto simp: usable_def)
  then show ?thesis using assms(1)
    by (auto simp: get_bootloader_message_block_def sys_fopen_read_def sys_fread_def sys_fclose_def call_fails_def calm_def
        message_of_shape)
qed

section \<open>What mounting leaves alone\<close>

definition keeps_file :: "world vol_kernel \<Rightarrow> string \<Rightarrow> bool" where
  "keeps_file K n \<longleftrightarrow>
     (\<forall>w r w'. vk_proc_mounts K w = (r, w') \<longrightarrow> w_files w' n = w_files w n) \<and>
     (\<forall>p m w r w'. vk_mkdir K p m w = (r, w') \<longrightarrow> w_files w' n = w_files w n) \<and>
     (\<forall>d p t x w r w'. vk_mount K d p t x w = (r, w') \<longrightarrow> w_files w' n = w_files w n) \<and>
     (\<forall>p w r w'. vk_umount K p w = (r, w') \<longrightarrow> w_files w' n = w_files w n)"

lemma keeps_fileD:
  assumes "keeps_file K n"
  shows "vk_proc_mounts K w = (r, w') \<Longrightarrow> w_files w' n = w_files w n"
    and "vk_mkdir K p m w = (r', w') \<Longrightarrow> w_files w' n = w_files w n"
    and "vk_mount K d q t x w = (r', w') \<Longrightarrow> w_files w' n = w_files w n"
    and "vk_umount K d w = (r', w') \<Longrightarrow> w_files w' n = w_files w n"
  using assms unfolding keeps_file_def by blast+

definition same_at :: "string \<Rightarrow> rec_state \<Rightarrow> rec_state \<Rightarrow> bool" where
  "same_at n s s' \<longleftrightarrow> w_files (vs_kernel s') n = w_files (vs_kernel s) n \<and> vs_table s' = vs_table s"

lemma same_at_refl [simp]: "same_at n s s"
  by (simp add: same_at_def)

lemma same_at_trans: "\<lbrakk>same_at n a b; same_at n b c\<rbrakk> \<Longrightarrow> same_at n a c"
  by (simp add: same_at_def)

lemma scan_keeps:
  assumes "keeps_file K n" "scan_mounted_volumes K s = Ok (rc, s')"
  shows "same_at n s s'"
  using assms(2) keeps_fileD(1)[OF assms(1)]
  by (auto simp: scan_mounted_volumes_def same_at_def Let_def elim!: then_do_Ok_E split: if_split_asm prod.split_asm option.split_asm)

lemma mount_volume_keeps:
  assumes "keeps_file K n" "mount_volume K v s = (rc, s')"
  shows "same_at n s s'"
proof -
  let ?x = "if strcmp (vol_fs_type v) ''f2fs'' = 0 then ''inline_xattr'' else []"
  obtain r1 k1 where m1: "vk_mount K (vol_device v) (vol_mount_point v) (vol_fs_type v) ?x (vs_kernel s) = (r1, k1)" by force
  obtain r2 k2 where m2: "vk_mount K (Some (the (vol_device2 v))) (vol_mount_point v) (vol_fs_type v) ?x k1 = (r2, k2)" by force
  have "w_files k1 n = w_files (vs_kernel s) n" "w_files k2 n = w_files k1 n"
    using keeps_fileD(3)[OF assms(1)] m1 m2 by blast+
  then show ?thesis using assms(2) m1 m2
    by (cases "vol_device2 v") (auto simp: mount_volume_def Let_def same_at_def split: if_split_asm)
qed

lemma mounted_keeps:
  assumes "keeps_file K n" "ensure_path_mounted K path s = Ok (rc, s')"
  shows "same_at n s s'"
proof (cases "volume_for_path (redirected path) s")
  case None
  then show ?thesis using assms(2) by (simp add: ensure_path_mounted_def)
next
  case (Some v)
  show ?thesis
  proof (cases "strcmp (vol_fs_type v) ''ramdisk'' = 0")
    case True
    then show ?thesis using assms(2) Some by (simp add: ensure_path_mounted_def)
  next
    case False
    then obtain r s1 where s1: "scan_mounted_volumes K s = Ok (r, s1)"
      using assms(2) Some by (auto simp: ensure_path_mounted_def elim!: then_do_Ok_E)
    obtain r2 k where k: "vk_mkdir K (vol_mount_point v) 493 (vs_kernel s1) = (r2, k)" by force
    have "same_at n s1 (s1\<lparr> vs_kernel := k \<rparr>)" using keeps_fileD(2)[OF assms(1) k] by (simp add: same_at_def)
    then have "same_at n s1 s'" if "mount_volume K v (s1\<lparr> vs_kernel := k \<rparr>) = (rc, s')"
      using mount_volume_keeps[OF assms(1) that] same_at_trans by blast
    then have "same_at n s1 s'" using assms(2) Some False s1 k by (auto simp: ensure_path_mounted_def split: if_split_asm)
    then show ?thesis using scan_keeps[OF assms(1) s1] same_at_trans by blast
  qed
qed

lemma unmounted_keeps:
  assumes "keeps_file K n" "ensure_path_unmounted K path s = Ok (rc, s')"
  shows "same_at n s s'"
proof (cases "volume_for_path path s")
  case None
  then show ?thesis using assms(2) by (simp add: ensure_path_unmounted_def)
next
  case (Some v)
  show ?thesis
  proof (cases "strcmp (vol_fs_type v) ''ramdisk'' = 0")
    case True
    then show ?thesis using assms(2) Some by (simp add: ensure_path_unmounted_def)
  next
    case False
    then obtain r s1 where s1: "scan_mounted_volumes K s = Ok (r, s1)"
      using assms(2) Some by (auto simp: ensure_path_unmounted_def elim!: then_do_Ok_E)
    have "same_at n s1 s'" using assms(2) Some False s1 keeps_fileD(4)[OF assms(1)]
      by (auto simp: ensure_path_unmounted_def unmount_mounted_volume_def same_at_def Let_def elim!: then_do_Ok_E
          split: if_split_asm option.split_asm prod.split_asm)
    then show ?thesis using scan_keeps[OF assms(1) s1] same_at_trans by blast
  qed
qed

lemma args_from_file_keeps:
  assumes "keeps_file K n" "args_from_file K sys argv s = Ok (argv', s')"
  shows "same_at n s s'"
proof (cases "length argv \<le> 1")
  case True
  then obtain rc s1 where s1: "ensure_path_mounted K COMMAND_FILE s = Ok (rc, s1)"
    using assms(2) by (auto simp: args_from_file_def fopen_path_read_def elim!: then_do_Ok_E)
  have "same_at n s1 s'" using assms(2) s1 True
    by (auto simp: args_from_file_def fopen_path_read_def same_at_def sys_fopen_read_def sys_fread_def sys_ignored_def
        elim!: then_do_Ok_E split: if_split_asm option.split_asm)
  then show ?thesis using mounted_keeps[OF assms(1) s1] same_at_trans by blast
qed (use assms(2) in \<open>simp add: args_from_file_def\<close>)

lemma misc_device_same: "same_at n s s' \<Longrightarrow> misc_device s' = misc_device s"
  by (simp add: misc_device_def volume_for_path_def same_at_def)

section \<open>Restarting\<close>

lemma back_message_shape: "message_shape m \<Longrightarrow> length (bm_recovery m) = 1024 \<Longrightarrow>
    plain_args args \<Longrightarrow> 9 + length (lines_of args) < 1024 \<Longrightarrow>
    message_shape (back_message m args) \<and> c_str (bm_recovery (back_message m args)) = ''recovery'' @ newline # lines_of args"
proof -
  assume m: "message_shape m" "plain_args args" "9 + length (lines_of args) < 1024"
  let ?arr = "strlcpy (bm_recovery m) (''recovery'' @ [newline])"
  have "length (bm_recovery m) = 1024" using m(1) by (simp add: message_shape_def)
  then have a: "c_str ?arr = ''recovery'' @ [newline]" "length ?arr = 1024"
    using strlcpy_ok[of "''recovery'' @ [newline]" "bm_recovery m"] by (simp_all add: nul_free_def)
  have c: "length (strlcpy (bm_command m) ''boot-recovery'') = 32"
    using strlcpy_ok(2)[of "''boot-recovery''" "bm_command m"] m(1) by (simp add: nul_free_def message_shape_def)
  show ?thesis using written_args[OF m(2), of ?arr] a c m(1,3) by (simp add: back_message_def message_shape_def)
qed

definition args_fit :: "string list \<Rightarrow> bool" where
  "args_fit args \<longleftrightarrow> plain_args args \<and> length args < MAX_ARGS \<and> 9 + length (lines_of args) < 1024"

lemma get_args_holds:
  assumes "calm sys" "misc_device s = Some dev" "usable dev (vs_kernel s)" "keeps_file K dev"
    "get_args K sys argv s = Ok (argv', s')" "args_fit (drop 1 argv')"
  obtains m where "holds dev (back_message m (drop 1 argv')) (vs_kernel s')" "message_shape m" "misc_device s' = Some dev"
proof -
  obtain b w where b: "get_bootloader_message_block sys zero_message dev (vs_kernel s) = (0, b, w)"
    "w_files w = w_files (vs_kernel s)" "message_shape b" using get_block_usable[OF assms(1,3)] by blast
  let ?s1 = "s\<lparr> vs_kernel := w \<rparr>"
  obtain av arr where av: "args_from_message argv (bm_recovery b) = (av, arr)" by force
  have len: "length arr = 1024" using args_from_message_length[of argv "bm_recovery b"] av b(3) by (simp add: message_shape_def)
  obtain s2 where s2: "args_from_file K sys av ?s1 = Ok (argv', s2)"
    "s' = snd (set_bootloader_message sys (back_message (b\<lparr> bm_recovery := arr \<rparr>) (drop 1 argv')) s2)"
    using assms(5) by (auto simp: get_args_def get_bootloader_message_def assms(2) b(1) av elim!: then_do_Ok_E)
  have k: "same_at dev ?s1 s2" by (rule args_from_file_keeps[OF assms(4) s2(1)])
  have m2: "misc_device s2 = Some dev" using misc_device_same[OF k] assms(2) by (simp add: misc_device_def volume_for_path_def)
  have u2: "usable dev (vs_kernel s2)" using k b(2) assms(3) by (simp add: same_at_def usable_def)
  let ?m = "b\<lparr> bm_recovery := arr \<rparr>"
  have sh: "message_shape ?m" using b(3) len by (simp add: message_shape_def)
  have shb: "message_shape (back_message ?m (drop 1 argv'))"
    using back_message_shape[OF sh] assms(6) len by (simp add: args_fit_def)
  obtain rc w' where st: "set_bootloader_message_block sys (back_message ?m (drop 1 argv')) dev (vs_kernel s2) = (rc, w')" by force
  have "holds dev (back_message ?m (drop 1 argv')) w'" using set_block_holds[OF assms(1) u2 shb st] by simp
  moreover have "s' = s2\<lparr> vs_kernel := w' \<rparr>" using s2(2) m2 st by (simp add: set_bootloader_message_def)
  ultimately show ?thesis using that[of ?m] sh m2 by (simp add: misc_device_def volume_for_path_def)
qed

lemma args_read_back:
  assumes "calm sys" "holds dev (back_message m args) (vs_kernel s')" "message_shape m" "misc_device s' = Some dev" "args_fit args" "args \<noteq> []"
  shows "\<exists>s''. get_args K sys [q] s' = Ok (''recovery'' # args, s'')"
proof -
  let ?b = "back_message m args"
  have b: "message_shape ?b" "c_str (bm_recovery ?b) = ''recovery'' @ newline # lines_of args"
    using back_message_shape[OF assms(3)] assms(3,5) by (auto simp: args_fit_def message_shape_def)
  obtain w where w: "get_bootloader_message_block sys zero_message dev (vs_kernel s') = (0, ?b, w)"
    using get_block_holds[OF assms(1,2) b(1)] by blast
  have "fst (args_from_message [q] (bm_recovery ?b)) = ''recovery'' # args"
    by (rule args_from_message_ok) (use b assms(5) in \<open>auto simp: args_fit_def message_shape_def\<close>)
  then obtain arr where a: "args_from_message [q] (bm_recovery ?b) = (''recovery'' # args, arr)" by (metis prod.collapse)
  have "args_from_file K sys (''recovery'' # args) s0 = Ok (''recovery'' # args, s0)" for s0
    using assms(6) by (cases args) (simp_all add: args_from_file_def)
  then show ?thesis by (simp add: get_args_def get_bootloader_message_def assms(4) w a)
qed

text \<open>
  C4: the arguments survive a restart at any later point. After \<^verbatim>\<open>get_args\<close>, wherever the arguments
  came from, a reboot without arguments reads exactly the same ones from the bootloader message, as
  long as they fit into it (one per line, fewer than 100, at most 1014 bytes), the misc partition
  works, and mounting does not touch it.
\<close>

theorem get_args_restart:
  assumes "calm sys" "misc_device s = Some dev" "usable dev (vs_kernel s)" "keeps_file K dev"
    "get_args K sys argv s = Ok (p # args, s')" "args_fit args" "args \<noteq> []"
  shows "\<exists>s''. get_args K sys [q] s' = Ok (''recovery'' # args, s'')"
proof -
  obtain m where "holds dev (back_message m args) (vs_kernel s')" "message_shape m" "misc_device s' = Some dev"
    using get_args_holds[OF assms(1-5)] assms(6) by auto
  from args_read_back[OF assms(1) this assms(6,7)] show ?thesis .
qed

definition demo_table :: "Volume list" where
  "demo_table = [\<lparr> vol_mount_point = ''/misc'', vol_fs_type = ''emmc'', vol_device = Some ''/dev/misc'', vol_device2 = None, vol_length = 0 \<rparr>,
     ramdisk ''/cache'']"

definition still_kernel :: "world vol_kernel" where
  "still_kernel = \<lparr> vk_alloc = True, vk_proc_mounts = \<lambda>w. (Some [], w), vk_fstab = \<lambda>w. (None, w), vk_mount = \<lambda>d m t x w. (0, w),
     vk_remount = \<lambda>d m t w. (0, w), vk_umount = \<lambda>m w. (0, w), vk_mkdir = \<lambda>p m w. (0, w), vk_stat = \<lambda>d w. (0, w), vk_run = \<lambda>a w. (0, w) \<rparr>"

definition demo_rec :: rec_state where
  "demo_rec = \<lparr> vs_table = demo_table, vs_mounts = None, vs_kernel = \<lparr> w_files = [''/dev/misc'' \<mapsto>
     \<lparr> i_data = replicate 1088 0, i_mode = 384, i_uid = 0, i_gid = 0, i_dev = True, i_reg = False \<rparr>], w_tick = 0 \<rparr> \<rparr>"

definition calm_sys :: sys where
  "calm_sys = \<lparr> s_fail = \<lambda>_. False, s_count = \<lambda>_. 0, s_statfs = \<lambda>_ _. (0, 0), s_readdir = \<lambda>_ _. [], s_readlink = \<lambda>_ _. None \<rparr>"

lemma demo_rec_ok: "calm calm_sys" "misc_device demo_rec = Some ''/dev/misc''" "usable ''/dev/misc'' (vs_kernel demo_rec)" "keeps_file still_kernel n"
  by (simp_all add: calm_def calm_sys_def misc_device_def volume_for_path_def demo_rec_def demo_table_def on_volume_def strncmp_def
      usable_def MESSAGE_SIZE_def keeps_file_def still_kernel_def)

theorem get_args_restart_witness:
  "\<exists>s' s''. get_args still_kernel calm_sys [''recovery'', ''--wipe_data''] demo_rec = Ok ([''recovery'', ''--wipe_data''], s') \<and>
    get_args still_kernel calm_sys [''/sbin/recovery''] s' = Ok ([''recovery'', ''--wipe_data''], s'')"
proof -
  obtain s' where s': "get_args still_kernel calm_sys [''recovery'', ''--wipe_data''] demo_rec = Ok ([''recovery'', ''--wipe_data''], s')"
    by (cases "get_bootloader_message calm_sys zero_message demo_rec") (simp add: get_args_def args_from_message_def args_from_file_def)
  have fit: "args_fit [''--wipe_data'']" by (simp add: args_fit_def plain_args_def nul_free_def MAX_ARGS_def)
  show ?thesis using get_args_restart[OF demo_rec_ok s' fit] s' by blast
qed

section \<open>Finishing ends the cycle\<close>

definition dir_keeps :: "world kernel \<Rightarrow> string \<Rightarrow> bool" where
  "dir_keeps D n \<longleftrightarrow>
     (\<forall>p w r w'. k_stat D p w = (r, w') \<longrightarrow> w_files w' n = w_files w n) \<and>
     (\<forall>p m w r w'. k_mkdir D p m w = (r, w') \<longrightarrow> w_files w' n = w_files w n)"

lemma status_keeps: "\<lbrakk>dir_keeps D n; getPathDirStatus D p w = (ds, w')\<rbrakk> \<Longrightarrow> w_files w' n = w_files w n"
  by (cases "k_stat D p w") (auto simp: getPathDirStatus_def dir_keeps_def)

lemma level_keeps:
  assumes "dir_keeps D n" "make_level D mode None p w = (ok, w')"
  shows "w_files w' n = w_files w n"
proof -
  obtain ds w1 where s: "getPathDirStatus D p w = (ds, w1)" by force
  obtain rc w2 where m: "k_mkdir D p mode w1 = (rc, w2)" by force
  have "w_files w2 n = w_files w1 n" using assms(1) m unfolding dir_keeps_def by blast
  then show ?thesis using assms(2) s m status_keeps[OF assms(1) s] by (auto simp: make_level_def split: if_split_asm)
qed

lemma walk_keeps: "\<lbrakk>walk D mode t up rest w = Ok (rc, w'); dir_keeps D n; t = None\<rbrakk> \<Longrightarrow> w_files w' n = w_files w n"
proof (induction D mode t up rest w rule: walk.induct)
  case (1 D mode t up rest w)
  define up' rest' where "up' = up @ takeWhile (\<lambda>c. c = slash) rest" and "rest' = dropWhile (\<lambda>c. c = slash) rest"
  define dir rest'' where "dir = up' @ takeWhile (\<lambda>c. c \<noteq> slash) rest'" and "rest'' = dropWhile (\<lambda>c. c \<noteq> slash) rest'"
  obtain ok w1 where l: "make_level D mode t dir w = (ok, w1)" by force
  have step: "walk D mode t up rest w = (if rest' = [] then Ok (0, w) else if rest'' = [] then Inl OutOfBounds
      else if \<not> ok then Ok (-1, w1) else walk D mode t dir rest'' w1)"
    using l by (subst walk.simps) (simp add: Let_def flip: up'_def rest'_def dir_def rest''_def)
  have k: "w_files w1 n = w_files w n" using level_keeps[of D n mode dir w ok w1] 1(3,4) l by simp
  show ?case
  proof (cases "rest' = [] \<or> rest'' = [] \<or> \<not> ok")
    case True
    then show ?thesis using 1(2) step k by (auto split: if_split_asm)
  next
    case False
    then have "w_files w' n = w_files w1 n"
      using 1(1)[OF up'_def rest'_def _ dir_def rest''_def _ l[symmetric]] 1(2-) step by auto
    then show ?thesis using k by simp
  qed
qed

lemma create_keeps:
  assumes "dirCreateHierarchy D ok path mode None strip w = Ok (rc, w')" "dir_keeps D n"
  shows "w_files w' n = w_files w n"
proof (cases "path = [] \<or> \<not> ok \<or> cpath_of path strip = None")
  case True
  then have "w' = w" using assms(1) by (auto simp: dirCreateHierarchy_def split: if_split_asm)
  then show ?thesis by simp
next
  case False
  then obtain c where c: "cpath_of path strip = Some c" by auto
  obtain ds w1 where s: "getPathDirStatus D c w = (ds, w1)" by force
  have "w_files w1 n = w_files w n" by (rule status_keeps[OF assms(2) s])
  then show ?thesis using assms False c s walk_keeps[of D mode None "[]" c w1 rc w' n]
    by (auto simp: dirCreateHierarchy_def split: if_split_asm)
qed

lemma fopen_write_keeps:
  assumes "fopen_path_write K D sys path app s = Ok (ok, s')" "keeps_file K n" "dir_keeps D n" "n \<noteq> path"
  shows "same_at n s s'"
proof -
  obtain rc s1 where s1: "ensure_path_mounted K path s = Ok (rc, s1)"
    using assms(1) by (auto simp: fopen_path_write_def elim!: then_do_Ok_E)
  have "same_at n s1 s'"
  proof (cases "rc = 0")
    case False
    then show ?thesis using assms(1) s1 by (simp add: fopen_path_write_def)
  next
    case True
    then obtain r w where d: "dirCreateHierarchy D True path 511 None True (vs_kernel s1) = Ok (r, w)"
      using assms(1) s1 by (auto simp: fopen_path_write_def elim!: then_do_Ok_E)
    show ?thesis using assms(1,4) s1 True d create_keeps[OF d assms(3)]
      by (auto simp: fopen_path_write_def same_at_def split: if_split_asm)
  qed
  then show ?thesis using mounted_keeps[OF assms(2) s1] same_at_trans by blast
qed

lemma put_text_keeps: "n \<noteq> name \<Longrightarrow> w_files (put_text sys name text w) n = w_files w n"
  by (simp add: put_text_def append_data_def split: option.split)

lemma copy_log_keeps:
  assumes "copy_log_file K D sys src dst app off s = Ok (off', s')" "keeps_file K n" "dir_keeps D n" "n \<noteq> dst"
  shows "same_at n s s'"
proof -
  obtain ok s1 where s1: "fopen_path_write K D sys dst app s = Ok (ok, s1)"
    using assms(1) by (auto simp: copy_log_file_def elim!: then_do_Ok_E)
  have "same_at n s1 s'" using assms(1,4) s1
    by (auto simp: copy_log_file_def same_at_def sys_fopen_read_def sys_fread_def sys_ignored_def put_text_keeps
        split: if_split_asm option.split_asm)
  then show ?thesis using fopen_write_keeps[OF s1 assms(2-)] same_at_trans by blast
qed

lemma intent_keeps:
  assumes "write_intent K D sys intent s = Ok s'" "keeps_file K n" "dir_keeps D n" "n \<noteq> INTENT_FILE"
  shows "same_at n s s'"
proof (cases intent)
  case None
  then show ?thesis using assms(1) by (simp add: write_intent_def)
next
  case (Some x)
  obtain ok s1 where s1: "fopen_path_write K D sys INTENT_FILE False s = Ok (ok, s1)"
    using assms(1) Some by (auto simp: write_intent_def elim!: then_do_Ok_E)
  have "same_at n s1 s'" using assms(1,4) s1 Some
    by (auto simp: write_intent_def same_at_def sys_ignored_def put_text_keeps split: if_split_asm)
  then show ?thesis using fopen_write_keeps[OF s1 assms(2-)] same_at_trans by blast
qed


text \<open>Everything of \<^verbatim>\<open>finish_recovery\<close> before the message is cleared.\<close>

lemma reports_keep:
  assumes "write_intent K D sys intent s = Ok s1" "copy_log_file K D sys TEMPORARY_LOG_FILE LOG_FILE True off s1 = Ok (off2, s2)"
    "copy_log_file K D sys TEMPORARY_LOG_FILE LAST_LOG_FILE False off2 s2 = Ok (off3, s3)"
    "copy_log_file K D sys TEMPORARY_INSTALL_FILE LAST_INSTALL_FILE False off3 s3 = Ok (off4, s4)"
    "keeps_file K n" "dir_keeps D n" "n \<notin> {INTENT_FILE, LOG_FILE, LAST_LOG_FILE, LAST_INSTALL_FILE}"
  shows "same_at n s s4"
proof -
  have "same_at n s s1" by (rule intent_keeps[OF assms(1,5,6)]) (use assms(7) in simp)
  moreover have "same_at n s1 s2" by (rule copy_log_keeps[OF assms(2,5,6)]) (use assms(7) in simp)
  moreover have "same_at n s2 s3" by (rule copy_log_keeps[OF assms(3,5,6)]) (use assms(7) in simp)
  moreover have "same_at n s3 s4" by (rule copy_log_keeps[OF assms(4,5,6)]) (use assms(7) in simp)
  ultimately show ?thesis using same_at_trans by metis
qed

lemma chmod_keeps: "n \<noteq> f \<Longrightarrow> w_files (snd (sys_chmod sys f m w)) n = w_files w n"
  by (simp add: sys_chmod_def set_meta_def)

lemma chown_keeps: "n \<noteq> f \<Longrightarrow> w_files (snd (sys_chown sys f u g w)) n = w_files w n"
  by (simp add: sys_chown_def set_meta_def)

lemma zero_shape: "message_shape zero_message" "c_str (bm_recovery zero_message) = []"
  by (simp_all add: message_shape_def zero_message_def c_str_def numeral_eq_Suc)

definition cache_mounts :: "world vol_kernel \<Rightarrow> Volume list \<Rightarrow> bool" where
  "cache_mounts K table \<longleftrightarrow> (\<forall>s. vs_table s = table \<longrightarrow> (\<exists>s'. ensure_path_mounted K COMMAND_FILE s = Ok (0, s')))"

lemma finish_clears:
  assumes "calm sys" "misc_device s = Some dev" "usable dev (vs_kernel s)" "keeps_file K dev" "dir_keeps D dev"
    "dev \<notin> {INTENT_FILE, LOG_FILE, LAST_LOG_FILE, LAST_INSTALL_FILE, COMMAND_FILE}"
    "keeps_file K COMMAND_FILE" "cache_mounts K (vs_table s)" "finish_recovery K D sys intent off s = Ok (off', s')"
  shows "holds dev zero_message (vs_kernel s') \<and> w_files (vs_kernel s') COMMAND_FILE = None \<and> vs_table s' = vs_table s"
proof -
  obtain s1 off2 s2 off3 s3 s4 where st: "write_intent K D sys intent s = Ok s1"
    "copy_log_file K D sys TEMPORARY_LOG_FILE LOG_FILE True off s1 = Ok (off2, s2)"
    "copy_log_file K D sys TEMPORARY_LOG_FILE LAST_LOG_FILE False off2 s2 = Ok (off3, s3)"
    "copy_log_file K D sys TEMPORARY_INSTALL_FILE LAST_INSTALL_FILE False off3 s3 = Ok (off', s4)"
    using assms(9) by (auto simp: finish_recovery_def Let_def elim!: then_do_Ok_E)
  define s5 where "s5 = with_world (\<lambda>w. snd (sys_chmod sys LAST_INSTALL_FILE 420 w))
     (with_world (\<lambda>w. snd (sys_chmod sys LAST_LOG_FILE 416 w)) (with_world (\<lambda>w. snd (sys_chown sys LOG_FILE 1000 1000 w))
       (with_world (\<lambda>w. snd (sys_chmod sys LOG_FILE 384 w)) s4)))"
  have "same_at dev s s4" by (rule reports_keep[OF st assms(4,5)]) (use assms(6) in simp)
  then have k5: "same_at dev s s5"
    using assms(6) by (simp add: same_at_def s5_def with_world_def chmod_keeps chown_keeps)
  have d5: "misc_device s5 = Some dev" "usable dev (vs_kernel s5)"
    using misc_device_same[OF k5] k5 assms(2,3) by (simp_all add: same_at_def usable_def)
  obtain rc w6 where w6: "set_bootloader_message_block sys zero_message dev (vs_kernel s5) = (rc, w6)" by force
  have h6: "holds dev zero_message w6" using set_block_holds[OF assms(1) d5(2) zero_shape(1) w6] by simp
  define s6 where "s6 = s5\<lparr> vs_kernel := w6 \<rparr>"
  have s6: "snd (set_bootloader_message sys zero_message s5) = s6" by (simp add: set_bootloader_message_def d5(1) w6 s6_def)
  have t6: "vs_table s6 = vs_table s" using k5 by (simp add: s6_def same_at_def)
  obtain s7 where s7: "ensure_path_mounted K COMMAND_FILE s6 = Ok (0, s7)" using assms(8) t6 by (auto simp: cache_mounts_def)
  define s8 where "s8 = with_world (sys_unlink sys COMMAND_FILE) s7"
  have "then_do (ensure_path_unmounted K CACHE_ROOT s8) (\<lambda>(_, s). Ok (off', with_world sys_ignored s)) = Ok (off', s')"
    using assms(9) unfolding finish_recovery_def Let_def s8_def
    by (simp add: st s6 s7 flip: s5_def)
  then obtain rc9 s9 where s9: "ensure_path_unmounted K CACHE_ROOT s8 = Ok (rc9, s9)" "s' = with_world sys_ignored s9"
    by (auto elim!: then_do_Ok_E)
  have "same_at dev s6 s7" "same_at dev s8 s9" "same_at COMMAND_FILE s8 s9"
    using mounted_keeps[OF assms(4) s7] unmounted_keeps[OF assms(4) s9(1)] unmounted_keeps[OF assms(7) s9(1)] .
  moreover have "w_files (vs_kernel s8) dev = w_files (vs_kernel s7) dev" "w_files (vs_kernel s8) COMMAND_FILE = None" "vs_table s8 = vs_table s7"
    using assms(1,6) by (simp_all add: s8_def with_world_def sys_unlink_def call_fails_def calm_def)
  ultimately show ?thesis using h6 t6 by (simp add: s9(2) same_at_def with_world_def sys_ignored_def holds_def s6_def)
qed

lemma finish_then_nothing:
  assumes "calm sys" "misc_device s = Some dev" "usable dev (vs_kernel s)" "keeps_file K dev" "dir_keeps D dev"
    "dev \<notin> {INTENT_FILE, LOG_FILE, LAST_LOG_FILE, LAST_INSTALL_FILE, COMMAND_FILE}"
    "keeps_file K COMMAND_FILE" "cache_mounts K (vs_table s)" "finish_recovery K D sys intent off s = Ok (off', s')"
  shows "\<exists>s''. get_args K sys [q] s' = Ok ([q], s'')"
proof -
  have f: "holds dev zero_message (vs_kernel s')" "w_files (vs_kernel s') COMMAND_FILE = None" "vs_table s' = vs_table s"
    using finish_clears[OF assms] by auto
  have d: "misc_device s' = Some dev" using f(3) assms(2) by (simp add: misc_device_def volume_for_path_def)
  obtain w where w: "get_bootloader_message_block sys zero_message dev (vs_kernel s') = (0, zero_message, w)" "w_files w = w_files (vs_kernel s')"
    using get_block_holds[OF assms(1) f(1) zero_shape(1)] by blast
  have "(bm_recovery zero_message)[length (bm_recovery zero_message) - 1 := NUL] = bm_recovery zero_message"
    unfolding zero_message_def by (simp add: list_update_same_conv)
  then have a: "args_from_message [q] (bm_recovery zero_message) = ([q], bm_recovery zero_message)"
    by (simp add: args_from_message_def Let_def strtok_none zero_shape(2))
  let ?s = "s'\<lparr> vs_kernel := w \<rparr>"
  have "vs_table ?s = vs_table s" using f(3) by simp
  then obtain s1 where s1: "ensure_path_mounted K COMMAND_FILE ?s = Ok (0, s1)"
    using assms(8) unfolding cache_mounts_def by blast
  have "w_files (vs_kernel s1) COMMAND_FILE = None"
    using mounted_keeps[OF assms(7) s1] w(2) f(2) by (simp add: same_at_def)
  then have "\<exists>s2. args_from_file K sys [q] ?s = Ok ([q], s2)"
    by (simp add: args_from_file_def fopen_path_read_def s1 sys_fopen_read_def)
  then show ?thesis by (auto simp: get_args_def get_bootloader_message_def d w(1) a)
qed

text \<open>
  C5: after \<^verbatim>\<open>finish_recovery\<close> the next start of the recovery program finds no arguments, neither in the
  bootloader message nor in the command file, so it does not repeat what it was asked to do. The
  misc partition must work and the cache must be mountable; the logs are written before, and
  neither that nor mounting touches the message or brings the command file back.
\<close>

theorem finish_recovery_stops:
  assumes "calm sys" "misc_device s = Some dev" "usable dev (vs_kernel s)" "keeps_file K dev" "dir_keeps D dev"
    "dev \<notin> {INTENT_FILE, LOG_FILE, LAST_LOG_FILE, LAST_INSTALL_FILE, COMMAND_FILE}"
    "keeps_file K COMMAND_FILE" "cache_mounts K (vs_table s)" "finish_recovery K D sys intent off s = Ok (off', s')"
  shows "\<exists>s''. get_args K sys [q] s' = Ok ([q], s'')"
  by (rule finish_then_nothing[OF assms])

definition still_dirs :: "world kernel" where
  "still_dirs = \<lparr> k_stat = \<lambda>p k. (Inr KDir, k), k_lstat = \<lambda>p k. (Inr KDir, k), k_mkdir = \<lambda>p m k. (0, k),
     k_utime = \<lambda>p t k. (0, k), k_unlink = \<lambda>p k. (0, k), k_rmdir = \<lambda>p k. (0, k), k_opendir = \<lambda>p k. (None, k),
     k_closedir = \<lambda>k. (0, k), k_chown = \<lambda>p u g k. (0, k), k_chmod = \<lambda>p m k. (0, k), k_symlink = \<lambda>a b k. (0, k),
     k_creat = \<lambda>p m k. (0, k) \<rparr>"

lemma demo_cache:
  assumes "vs_table s = demo_table" "path \<in> {COMMAND_FILE, LOG_FILE, LAST_LOG_FILE, LAST_INSTALL_FILE}"
  shows "ensure_path_mounted K path s = Ok (0, s)"
  using assms by (auto simp: ensure_path_mounted_def redirected_def volume_for_path_def demo_table_def on_volume_def ramdisk_def
      strncmp_def INTERNAL_SDCARD_ROOT_def INTERNAL_SDCARD_LEGACY_ROOT_def COMMAND_FILE_def LOG_FILE_def LAST_LOG_FILE_def LAST_INSTALL_FILE_def)

lemma demo_copy:
  assumes "vs_table s = demo_table" "dst \<in> {LOG_FILE, LAST_LOG_FILE, LAST_INSTALL_FILE}"
  shows "\<exists>off' s'. copy_log_file K still_dirs calm_sys src dst app off s = Ok (off', s') \<and> vs_table s' = demo_table"
proof -
  have c: "ensure_path_mounted K dst s = Ok (0, s)" using demo_cache[OF assms(1)] assms(2) by blast
  have "cpath_of dst True = Some ''/cache/recovery/''"
    using assms(2) by (auto simp: cpath_of_def slash_def LOG_FILE_def LAST_LOG_FILE_def LAST_INSTALL_FILE_def)
  then have d: "dirCreateHierarchy still_dirs True dst 511 None True w = Ok (0, w)" for w
    using assms(2) by (auto simp: dirCreateHierarchy_def getPathDirStatus_def still_dirs_def LOG_FILE_def LAST_LOG_FILE_def LAST_INSTALL_FILE_def)
  show ?thesis using assms(1)
    by (auto simp: copy_log_file_def fopen_path_write_def c d call_fails_def calm_sys_def sys_fopen_read_def sys_fread_def split: option.split)
qed

theorem finish_recovery_stops_witness:
  "\<exists>off' s' s''. finish_recovery still_kernel still_dirs calm_sys None 0 demo_rec = Ok (off', s') \<and>
    get_args still_kernel calm_sys [''/sbin/recovery''] s' = Ok ([''/sbin/recovery''], s'')"
proof -
  let ?K = still_kernel and ?D = still_dirs and ?S = calm_sys
  have t: "vs_table demo_rec = demo_table" by (simp add: demo_rec_def)
  obtain o1 s1 where 1: "copy_log_file ?K ?D ?S TEMPORARY_LOG_FILE LOG_FILE True 0 demo_rec = Ok (o1, s1)" "vs_table s1 = demo_table"
    using demo_copy[OF t] by blast
  obtain o2 s2 where 2: "copy_log_file ?K ?D ?S TEMPORARY_LOG_FILE LAST_LOG_FILE False o1 s1 = Ok (o2, s2)" "vs_table s2 = demo_table"
    using demo_copy[OF 1(2)] by blast
  obtain o3 s3 where 3: "copy_log_file ?K ?D ?S TEMPORARY_INSTALL_FILE LAST_INSTALL_FILE False o2 s2 = Ok (o3, s3)" "vs_table s3 = demo_table"
    using demo_copy[OF 2(2)] by blast
  have tb: "vs_table (snd (set_bootloader_message sys m s)) = vs_table s" for sys m s
    by (simp add: set_bootloader_message_def split: option.split prod.split)
  have u: "ensure_path_unmounted ?K CACHE_ROOT s = Ok (-1, s)" if "vs_table s = demo_table" for s
    using that by (simp add: ensure_path_unmounted_def volume_for_path_def demo_table_def on_volume_def ramdisk_def strncmp_def CACHE_ROOT_def)
  obtain off' s' where f: "finish_recovery ?K ?D ?S None 0 demo_rec = Ok (off', s')"
    by (simp add: finish_recovery_def write_intent_def 1(1) 2(1) 3(1) Let_def demo_cache tb with_world_def 3(2) u)
  have "cache_mounts ?K (vs_table demo_rec)" using demo_cache t by (auto simp: cache_mounts_def)
  moreover have "dir_keeps ?D ''/dev/misc''" by (simp add: dir_keeps_def still_dirs_def)
  moreover have "''/dev/misc'' \<notin> {INTENT_FILE, LOG_FILE, LAST_LOG_FILE, LAST_INSTALL_FILE, COMMAND_FILE}"
    by (simp add: INTENT_FILE_def LOG_FILE_def LAST_LOG_FILE_def LAST_INSTALL_FILE_def COMMAND_FILE_def)
  ultimately show ?thesis using finish_recovery_stops[OF demo_rec_ok _ _ _ _ f] demo_rec_ok(4) f by blast
qed

text \<open>A line of the command file without characters makes the program read from \<^verbatim>\<open>NULL\<close>, before it has
  written the message.\<close>

lemma blank_command_line: "command_args (Suc n) (newline # text) args = Inl OutOfBounds"
  by (simp add: fgets_def MAX_ARG_LENGTH_def strtok_any_def c_str_def)

end
