(* ===== verification/Updater.thy ===== *)
theory Updater
  imports Update_Functions Boot_Message
begin

text \<open>
  The update program, \<^verbatim>\<open>src/updater/updater.c\<close>, and what its functions do: property files read back as they
  were printed, hash checks, extraction and patching at the level of script calls, and the run of a whole
  package from the archive to the exit code. The parser is generated from the grammar and a parameter.
\<close>

section \<open>The update program\<close>

definition SCRIPT_NAME :: string where "SCRIPT_NAME = ''META-INF/com/google/android/updater-script''"

text \<open>What \<^verbatim>\<open>main\<close> gets from outside besides its arguments: the environment, what opening the package gave, the
  parser that is generated from the grammar (the result of \<^verbatim>\<open>yyparse\<close>, the number of errors and the
  root), and the device's own functions.\<close>

record ('z, 's, 'd, 'c, 'q, 'e) main_env =
  me_upd :: "('z, 's, 'd, 'c, 'q) upd_env"
  me_zip :: zip_env
  me_package :: "int + bytes option"
  me_parse :: "'e install_fn FnTable \<Rightarrow> string \<Rightarrow> int \<times> int \<times> 'e install_fn Expr"
  me_ext :: "(string \<times> 'e) list"
  me_ext_fn :: "'e \<Rightarrow> UpdaterInfo Function"

definition version_ok :: "string \<Rightarrow> bool" where
  "version_ok v \<longleftrightarrow> v \<in> {''1'', ''2'', ''3''}"

text \<open>Extracting the script. The result is an exit code, or the archive, the script and the files.\<close>

definition read_script ::
  "('z, 's, 'd, 'c, 'q, 'e) main_env \<Rightarrow> world \<Rightarrow> (int \<times> world, ZipArchive \<times> string \<times> world) flow outcome" where
  "read_script E w =
     then_do (mzOpenZipArchive (me_zip E) (me_package E)) (\<lambda>(err, za).
       if err \<noteq> 0 then Ok (Return (3, w))
       else case za of
         None \<Rightarrow> Inl OutOfBounds
       | Some za \<Rightarrow>
           then_do (mzFindZipEntry (ue_calloc (me_upd E)) za (bytes_of SCRIPT_NAME)) (\<lambda>entry.
             case entry of
               None \<Rightarrow> Ok (Return (4, w))
             | Some e \<Rightarrow>
                 (case ue_malloc (me_upd E) (uncompLen e + 1) of
                    None \<Rightarrow> Inl OutOfBounds
                  | Some buf \<Rightarrow>
                      then_do (returned (mzReadZipEntry (ue_sys (me_upd E)) (ue_zip (me_upd E)) (za_file za) e buf
                                           (uncompLen e) 0 w)) (\<lambda>(ok, buf, w).
                        if \<not> ok then Ok (Return (5, w))
                        else if uncompLen e < 0 \<or> uncompLen e \<ge> int (length buf) then Inl OutOfBounds
                        else Ok (Continue (za, takeWhile (\<lambda>c. c \<noteq> CHR 0x00) (chars_of (take (nat (uncompLen e)) buf)), w))))))"

definition configure :: "('z, 's, 'd, 'c, 'q, 'e) main_env \<Rightarrow> 'e install_fn FnTable outcome" where
  "configure E =
     then_do (RegisterBuiltins empty_table) (\<lambda>t.
     then_do (RegisterInstallFunctions t) (\<lambda>t.
     then_do (register_all (map (\<lambda>(n, e). (n, Native (Device e))) (me_ext E)) t) (\<lambda>t.
       FinishRegistration qsort t)))"

text \<open>The end of \<^verbatim>\<open>main\<close>: the exit code and what the script that aborted puts on the screen.\<close>

definition report :: "string option \<Rightarrow> upd_state \<Rightarrow> int \<times> upd_state" where
  "report result st =
     (case result of
        Some _ \<Rightarrow> (0, st)
      | None \<Rightarrow>
          (7, case errmsg st of
                None \<Rightarrow> send ''ui_print script aborted (no error message)'' st
              | Some msg \<Rightarrow> send ''ui_print'' (print_lines msg st)))"

definition run_script ::
  "('z, 's, 'd, 'c, 'q, 'e) main_env \<Rightarrow> 'e install_fn Expr \<Rightarrow> upd_state \<Rightarrow> (int \<times> upd_state) outcome" where
  "run_script E root st =
     then_do (Evaluate st (denote (install_native (me_upd E) (me_ext_fn E)) root)) (\<lambda>(result, st). Ok (report result st))"

definition start_state :: "string \<Rightarrow> ZipArchive \<Rightarrow> string \<Rightarrow> world vol_state \<Rightarrow> upd_state" where
  "start_state version za text s =
     \<lparr> cookie = \<lparr> cmd_pipe = [], package_zip = za, api_version = fst (strtol10 version), ui_proc = s \<rparr>,
       script = text, errmsg = None, out = [], err = [], naps = [] \<rparr>"

text \<open>\<^verbatim>\<open>main\<close>: the exit code, the commands for the parent, and the state of the process.\<close>

definition updater_main ::
  "('z, 's, 'd, 'c, 'q, 'e) main_env \<Rightarrow> string list \<Rightarrow> world vol_state \<Rightarrow> (int \<times> string \<times> world vol_state) outcome" where
  "updater_main E argv s =
     (if length argv \<noteq> 4 then Ok (1, [], s)
      else if \<not> version_ok (argv ! 1) then Ok (2, [], s)
      else then_do (read_script E (vs_kernel s)) (\<lambda>f. case f of
        Return (code, w) \<Rightarrow> Ok (code, [], s\<lparr> vs_kernel := w \<rparr>)
      | Continue (za, text, w) \<Rightarrow>
          then_do (configure E) (\<lambda>t.
            case me_parse E t text of (error, error_count, root) \<Rightarrow>
              if error \<noteq> 0 \<or> error_count > 0 then Ok (6, [], s\<lparr> vs_kernel := w \<rparr>)
              else then_do (run_script E root (start_state (argv ! 1) za text (s\<lparr> vs_kernel := w \<rparr>))) (\<lambda>(code, st).
                Ok (code, cmd_pipe (cookie st), ui_proc (cookie st))))))"

section \<open>Property files\<close>

text \<open>A property file, printed one line for each property.\<close>

definition prop_text :: "(string \<times> string) list \<Rightarrow> string" where
  "prop_text kvs = concat (map (\<lambda>(k, v). k @ CHR ''='' # v @ [newline]) kvs)"

definition trimmed :: "string \<Rightarrow> bool" where
  "trimmed s \<longleftrightarrow> nul_free s \<and> newline \<notin> set s \<and> (s \<noteq> [] \<longrightarrow> \<not> is_space (hd s) \<and> \<not> is_space (last s))"

definition plain_prop :: "string \<times> string \<Rightarrow> bool" where
  "plain_prop = (\<lambda>(k, v). k \<noteq> [] \<and> trimmed k \<and> hd k \<noteq> CHR ''#'' \<and> CHR ''='' \<notin> set k \<and> trimmed v)"

lemma strtok_first_line: "\<lbrakk>l \<noteq> []; newline \<notin> set l\<rbrakk> \<Longrightarrow> strtok newline (l @ newline # r) = Some (l, r)"
  by (cases l) (auto simp: strtok_def takeWhile_append dropWhile_append)

lemma trimmed_ltrim: "trimmed s \<Longrightarrow> dropWhile is_space s = s"
  by (cases s) (auto simp: trimmed_def)

lemma trimmed_rtrim: "trimmed s \<Longrightarrow> rtrim s = s"
  by (cases s rule: rev_cases) (auto simp: trimmed_def rtrim_def)

lemma prop_of_plain:
  assumes "plain_prop (k, v)" "nul_free pkey"
  shows "prop_of_line pkey (k @ CHR ''='' # v) = (if pkey = k then Found v else Skip)"
proof -
  have k: "trimmed k" "k \<noteq> []" "hd k \<noteq> CHR ''#''" "CHR ''='' \<notin> set k" and v: "trimmed v"
    using assms(1) by (auto simp: plain_prop_def)
  have "\<not> is_space (hd k)" using k by (simp add: trimmed_def)
  then have d: "dropWhile is_space (k @ CHR ''='' # v) = k @ CHR ''='' # v" using k(2) by (cases k) auto
  have t: "takeWhile (\<lambda>c. c \<noteq> CHR ''='') (k @ CHR ''='' # v) = k"
    "dropWhile (\<lambda>c. c \<noteq> CHR ''='') (k @ CHR ''='' # v) = CHR ''='' # v"
    using k(4) by (auto simp: takeWhile_append dropWhile_append)
  have "strcmp pkey k = 0 \<longleftrightarrow> pkey = k" using assms(2) k(1) by (simp add: strcmp_eq_0_iff trimmed_def)
  then show ?thesis
    using k v unfolding prop_of_line_def Let_def d t by (simp add: trimmed_rtrim trimmed_ltrim)
qed

lemma strtok_props:
  assumes "plain_prop (k, v)"
  shows "strtok newline (prop_text ((k, v) # kvs)) = Some (k @ CHR ''='' # v, prop_text kvs)"
proof -
  have "newline \<notin> set (k @ CHR ''='' # v)" using assms by (auto simp: plain_prop_def trimmed_def)
  from strtok_first_line[OF _ this, of "prop_text kvs"] show ?thesis by (simp add: prop_text_def)
qed

lemma getprop_loop_props:
  assumes "list_all plain_prop ((k, v) # kvs)" "nul_free pkey"
  shows "getprop_loop pkey (k @ CHR ''='' # v) (prop_text kvs) =
    Inr (case map_of ((k, v) # kvs) pkey of None \<Rightarrow> [] | Some x \<Rightarrow> x)"
  using assms(1)
proof (induction kvs arbitrary: k v)
  case Nil
  then show ?case
    by (subst getprop_loop.simps) (simp add: prop_of_plain assms(2) prop_text_def strtok_def)
next
  case (Cons kv kvs)
  obtain k' v' where kv: "kv = (k', v')" by (cases kv)
  show ?case using Cons.prems Cons.IH[of k' v']
    by (subst getprop_loop.simps) (simp add: prop_of_plain assms(2) kv strtok_props del: map_of.simps, simp)
qed

lemma prop_text_nul_free: "list_all plain_prop kvs \<Longrightarrow> nul_free (prop_text kvs)"
  by (induction kvs) (auto simp: prop_text_def plain_prop_def trimmed_def)

lemma files_set_files [simp]: "files (set_files w st) = w"
  by (simp add: files_def set_files_def)

lemma set_files_twice [simp]: "set_files w (set_files w' st) = set_files w st"
  by (simp add: set_files_def)

text \<open>
  C37: reading back what was printed: in a file with a line \<^verbatim>\<open>key=value\<close> for each property, \<^verbatim>\<open>file_getprop\<close>
  finds the value of the first line for a key, or the empty string if there is none, and changes no
  file.
\<close>

theorem file_getprop_printed:
  assumes "ReadArgs st argv 2 = Ok (Some [filename, pkey], st1)"
    "w_files (files st1) filename = Some i" "i_data i = bytes_of (prop_text kvs)"
    "kvs \<noteq> []" "list_all plain_prop kvs" "nul_free pkey" "length (prop_text kvs) \<le> MAX_FILE_GETPROP_SIZE"
    "no_failures (ue_sys U)" "ue_malloc U (int (length (prop_text kvs)) + 1) \<noteq> None"
  shows "\<exists>st'. FileGetPropFn U name st argv =
      Ok (Some (VAL_STRING (Some (case map_of kvs pkey of None \<Rightarrow> [] | Some v \<Rightarrow> v))), st') \<and>
    w_files (files st') = w_files (files st1)"
proof -
  obtain k v kvs' where kvs: "kvs = (k, v) # kvs'" using assms(4) by (cases kvs) auto
  have nf: "takeWhile (\<lambda>c. c \<noteq> CHR 0x00) (prop_text kvs) = prop_text kvs"
    using prop_text_nul_free[OF assms(5)] by (auto simp: nul_free_def takeWhile_eq_all_conv)
  have t: "strtok newline (prop_text kvs) = Some (k @ CHR ''='' # v, prop_text kvs')"
    using assms(5) by (simp add: kvs strtok_props)
  have l: "getprop_loop pkey (k @ CHR ''='' # v) (prop_text kvs') = Inr (case map_of kvs pkey of None \<Rightarrow> [] | Some x \<Rightarrow> x)"
    using getprop_loop_props[of k v kvs' pkey] assms(5,6) unfolding kvs by blast
  let ?w = "files st1"
  have c: "sys_stat (ue_sys U) filename ?w = (Some i, tick ?w)"
    "sys_fopen_read (ue_sys U) filename (tick ?w) = (Some (i_data i), tick (tick ?w))"
    "sys_fread (ue_sys U) (length (i_data i)) (i_data i) (tick (tick ?w)) = (i_data i, tick (tick (tick ?w)))"
    using assms(2,8) by (simp_all add: sys_stat_def sys_fopen_read_def sys_fread_def call_fails_def no_failures_def)
  have n: "length (i_data i) = length (prop_text kvs)" "chars_of (i_data i) = prop_text kvs" by (simp_all add: assms(3))
  obtain mem where m: "ue_malloc U (int (length (prop_text kvs)) + 1) = Some mem" using assms(9) by blast
  show ?thesis
    using assms(7) unfolding FileGetPropFn_def assms(1) unless_null_def then_do_simps
    by (simp add: Let_def c c(3)[unfolded n(1)] n m nf t l not_less[symmetric] give_def StringValue_def sys_ignored_def del: not_less)
qed

lemma ui_proc_print_lines: "ui_proc (cookie (print_lines lns st)) = ui_proc (cookie st)"
proof (induction lns st rule: print_lines.induct)
  case (1 lns st)
  then show ?case by (subst print_lines.simps) (auto simp: send_def split: option.split)
qed

section \<open>Finding functions\<close>

lemma configure_Ok:
  fixes E :: "('z, 's, 'd, 'c, 'q, 'f) main_env"
  shows "\<exists>t. configure E = Ok t"
proof -
  let ?ds = "map (\<lambda>(n, e). (n, Native (Device e))) (me_ext E)"
  obtain t1 :: "'f install_fn FnTable" where t1: "RegisterBuiltins empty_table = Ok t1" "holds_fns t1 builtins"
    using register_all_holds[OF holds_fns_empty, of builtins] by (auto simp: RegisterBuiltins_def)
  obtain t2 where t2: "RegisterInstallFunctions t1 = Ok t2" "holds_fns t2 (builtins @ install_functions)"
    using register_all_holds[OF t1(2), of install_functions] by (auto simp: RegisterInstallFunctions_def)
  obtain t3 where t3: "register_all ?ds t2 = Ok t3" "holds_fns t3 ((builtins @ install_functions) @ ?ds)"
    using register_all_holds[OF t2(2), of ?ds] by blast
  show ?thesis using t1(1) t2(1) t3(1) holds_fns_entries[OF t3(2)] by (simp add: configure_def FinishRegistration_def)
qed

section \<open>Running a script\<close>

definition clean_env :: "('z, 's, 'd, 'c, 'q) upd_env \<Rightarrow> ('q \<Rightarrow> bytes \<Rightarrow> bytes \<Rightarrow> bool) \<Rightarrow> bool" where
  "clean_env U feeds \<longleftrightarrow> reads_in_full (ue_sys U) \<and> inflates (ue_zip U) feeds \<and>
     (\<forall>n. case ue_malloc U n of None \<Rightarrow> False | Some buf \<Rightarrow> int (length buf) = max 0 n)"

text \<open>The package holds the file \<^verbatim>\<open>name\<close> with these contents.\<close>

definition package_has ::
  "('z, 'm) zip_lib_scheme \<Rightarrow> ('z \<Rightarrow> bytes \<Rightarrow> bytes \<Rightarrow> bool) \<Rightarrow> ZipArchive \<Rightarrow> string \<Rightarrow> bytes \<Rightarrow> bool" where
  "package_has lib feeds za name contents' \<longleftrightarrow>
     name \<noteq> [] \<and> nul_free name \<and> (\<exists>e \<in> set (za_entries za). fileName e = bytes_of name) \<and>
     (\<forall>e \<in> set (za_entries za). fileName e = bytes_of name \<longrightarrow>
        zip_contents lib feeds (za_file za) e contents' \<and> uncompLen e = int (length contents'))"

lemma nul_free_bytes_of: "nul_free s \<Longrightarrow> nul_free_bytes (bytes_of s)"
proof -
  assume "nul_free s"
  moreover have "of_nat (of_char c) = (0 :: u8) \<Longrightarrow> c = CHR 0x00" for c
    using chars_of_bytes_of[of "[c]"] by (simp add: chars_of_def bytes_of_def char_of_def)
  ultimately show ?thesis by (auto simp: nul_free_def nul_free_bytes_def bytes_of_def)
qed

lemma package_entry:
  assumes "archive_ok m za" "package_has lib feeds za name contents'"
  obtains e where "mzFindZipEntry calloc_ok za (bytes_of name) = Ok (Some e)" "zip_contents lib feeds (za_file za) e contents'"
    "uncompLen e = int (length contents')"
proof -
  have "nul_free_bytes (bytes_of name)" using assms(2) by (simp add: package_has_def nul_free_bytes_of)
  from find_sound[OF assms(1) this, of calloc_ok] show ?thesis
    using assms(2) that by (fastforce simp: package_has_def split: option.splits)
qed

text \<open>Reading the script into a buffer leaves the files alone.\<close>

interpretation scopy: zip_consumer copyProcessFunction "\<lambda>acc b w. copy_got mem n wanted acc b w \<and> w_files w = F" wanted
  for mem n wanted F
proof
  fix acc c w xs assume a: "copy_got mem n wanted acc c w \<and> w_files w = F" "xs \<noteq> []" "prefix (acc @ xs) wanted"
  then obtain c' w' where c: "copyProcessFunction xs c w = Some (Ok (True, c', w'))" "copy_got mem n wanted (acc @ xs) c' w'"
    using copy.takes by blast
  moreover have "w' = w"
    using c(1) by (auto simp: copyProcessFunction_def elim!: run_then_Ok_E split: if_split_asm)
  ultimately show "\<exists>c' w'. copyProcessFunction xs c w = Some (Ok (True, c', w')) \<and>
      (copy_got mem n wanted (acc @ xs) c' w' \<and> w_files w' = F)" using a(1) by blast
qed (simp add: copy.idle)

lemma read_entry_exact:
  assumes "reads_in_full sys" "inflates lib feeds" "zip_contents lib feeds m e xs" "uncompLen e = int (length xs)"
    "length xs \<le> length buf"
  shows "\<exists>w'. mzReadZipEntry sys lib m e buf (uncompLen e) pos w = Some (Ok (True, xs @ drop (length xs) buf, w')) \<and>
    w_files w' = w_files w"
proof -
  have "copy_got buf (uncompLen e) xs [] \<lparr> ob_mem = buf, ob_pos = 0, ob_len = uncompLen e \<rparr> w \<and> w_files w = w_files w"
    using assms(4,5) by (simp add: copy_got_def filled_def)
  from scopy.process_all[where pos = pos, OF assms(1-3) this] show ?thesis
    by (auto simp: mzReadZipEntry_def copy_got_def filled_def)
qed

lemma read_script_Ok:
  assumes env: "clean_env (me_upd E) feeds"
    and pkg: "mzOpenZipArchive (me_zip E) (me_package E) = Ok (0, Some za)" "archive_ok m za"
    and has: "package_has (ue_zip (me_upd E)) feeds za SCRIPT_NAME (bytes_of text)" and nf: "nul_free text"
  shows "\<exists>w'. read_script E w = Ok (Continue (za, text, w')) \<and> w_files w' = w_files w"
proof -
  let ?U = "me_upd E"
  obtain e where e: "mzFindZipEntry (ue_calloc ?U) za (bytes_of SCRIPT_NAME) = Ok (Some e)"
    "zip_contents (ue_zip ?U) feeds (za_file za) e (bytes_of text)" "uncompLen e = int (length (bytes_of text))"
    using package_entry[OF pkg(2) has] .
  obtain buf where buf: "ue_malloc ?U (uncompLen e + 1) = Some buf" "length buf = Suc (length text)"
  proof (cases "ue_malloc ?U (uncompLen e + 1)")
    case None
    then show ?thesis using env by (auto simp: clean_env_def dest: spec[of _ "uncompLen e + 1"])
  next
    case (Some buf)
    then have "int (length buf) = max 0 (uncompLen e + 1)" using env by (auto simp: clean_env_def split: option.split_asm)
    then show ?thesis using that[OF Some] e(3) by simp
  qed
  obtain w' where r: "mzReadZipEntry (ue_sys ?U) (ue_zip ?U) (za_file za) e buf (uncompLen e) 0 w =
      Some (Ok (True, bytes_of text @ drop (length (bytes_of text)) buf, w'))" "w_files w' = w_files w"
    using read_entry_exact[of "ue_sys ?U" "ue_zip ?U" feeds, OF _ _ e(2,3), of buf 0 w] env buf(2) by (auto simp: clean_env_def)
  have t: "takeWhile (\<lambda>c. c \<noteq> CHR 0x00) text = text" using nf by (auto simp: nul_free_def takeWhile_eq_all_conv)
  show ?thesis using pkg(1) e(1) buf r e(3) t by (simp add: read_script_def returned_def)
qed

lemma updater_runs:
  assumes "length argv = 4" "version_ok (argv ! 1)" "clean_env (me_upd E) feeds"
    "me_package E = Inr (Some m)" "mzOpenZipArchive (me_zip E) (Inr (Some m)) = Ok (0, Some za)" "\<And>n. env_calloc (me_zip E) n"
    "package_has (ue_zip (me_upd E)) feeds za SCRIPT_NAME (bytes_of text)" "nul_free text"
    "\<And>t. me_parse E t text = (0, 0, root)"
  shows "\<exists>s1. w_files (vs_kernel s1) = w_files (vs_kernel s) \<and>
    updater_main E argv s =
      then_do (Evaluate (start_state (argv ! 1) za text s1) (denote (install_native (me_upd E) (me_ext_fn E)) root))
        (\<lambda>(r, st). Ok (if r = None then 7 else 0, cmd_pipe (cookie (snd (report r st))), ui_proc (cookie st)))"
proof -
  have ok: "archive_ok m za" using open_archive_ok[OF assms(5)] assms(6) by blast
  obtain w' where w: "read_script E (vs_kernel s) = Ok (Continue (za, text, w'))" "w_files w' = w_files (vs_kernel s)"
    using read_script_Ok[OF assms(3) _ ok assms(7,8)] assms(4,5) by metis
  obtain t where t: "configure E = Ok t" using configure_Ok by blast
  have rep: "report r st = (if r = None then 7 else 0, snd (report r st))"
    "ui_proc (cookie (snd (report r st))) = ui_proc (cookie st)" for r st
    by (simp_all add: report_def ui_proc_print_lines send_def split: option.split)
  let ?s1 = "s\<lparr> vs_kernel := w' \<rparr>"
  let ?ev = "Evaluate (start_state (argv ! 1) za text ?s1) (denote (install_native (me_upd E) (me_ext_fn E)) root)"
  have main: "updater_main E argv s = then_do (then_do ?ev (\<lambda>(r, st). Ok (report r st)))
      (\<lambda>(code, st). Ok (code, cmd_pipe (cookie st), ui_proc (cookie st)))"
    using assms(1,2,9) w t by (simp add: updater_main_def run_script_def)
  have "updater_main E argv s = then_do ?ev
      (\<lambda>(r, st). Ok (if r = None then 7 else 0, cmd_pipe (cookie (snd (report r st))), ui_proc (cookie st)))"
  proof (cases ?ev)
    case (Inr p)
    then show ?thesis using rep(1)[of "fst p" "snd p"] rep(2)[of "fst p" "snd p"] unfolding main
      by (cases "report (fst p) (snd p)") (simp add: case_prod_beta)
  qed (simp add: main)
  then show ?thesis using w(2) by (intro exI[of _ ?s1]) simp
qed

text \<open>
  C7: an update package whose archive opens and holds a script that parses is run: the program gets
  past all its exits but the last two, having touched no file, evaluates the script the package
  holds, and its exit code is 0 exactly when that gives a string and 7 otherwise.
\<close>

theorem updater_exit_status:
  assumes "length argv = 4" "version_ok (argv ! 1)" "clean_env (me_upd E) feeds"
    "me_package E = Inr (Some m)" "mzOpenZipArchive (me_zip E) (Inr (Some m)) = Ok (0, Some za)" "\<And>n. env_calloc (me_zip E) n"
    "package_has (ue_zip (me_upd E)) feeds za SCRIPT_NAME (bytes_of text)" "nul_free text"
    "\<And>t. me_parse E t text = (0, 0, root)"
  shows "\<exists>s1. w_files (vs_kernel s1) = w_files (vs_kernel s) \<and>
    updater_main E argv s =
      then_do (Evaluate (start_state (argv ! 1) za text s1) (denote (install_native (me_upd E) (me_ext_fn E)) root))
        (\<lambda>(r, st). Ok (if r = None then 7 else 0, cmd_pipe (cookie (snd (report r st))), ui_proc (cookie st)))"
  by (rule updater_runs[OF assms])

section \<open>Calls of a script\<close>

text \<open>A literal as an argument.\<close>

definition lit :: "string \<Rightarrow> 'c Arg" where
  "lit s = denote (\<lambda>_ :: unit. AbortFn) (Expr F_Literal s [] 0 0)"

lemma Evaluate_lit [simp]: "Evaluate st (lit s) = Ok (Some s, st)" "EvaluateValue st (lit s) = Ok (Some (VAL_STRING (Some s)), st)"
  by (simp_all add: lit_def Evaluate_def EvaluateValue_def Literal_def StringValue_def)

lemma ReadVarArgs_lits [simp]: "ReadVarArgs st (map lit ss) = Ok (Some ss, st)"
  by (induction ss) (auto simp: unless_null_def)

lemma ReadValueVarArgs_lits: "ReadValueVarArgs st (map lit ss) = Ok (Some (map (\<lambda>s. VAL_STRING (Some s)) ss), st)"
  by (induction ss) (auto simp: unless_null_def)

lemma ReadArgs_from_lits: "i + n \<le> length ss \<Longrightarrow> ReadArgs_from st (map lit ss) i n = Ok (Some (take n (drop i ss)), st)"
  by (induction n arbitrary: i) (auto simp: unless_null_def eval_arg_def arg_def simp flip: Cons_nth_drop_Suc)

lemma ReadArgs_lits [simp]: "n \<le> length ss \<Longrightarrow> ReadArgs st (map lit ss) n = Ok (Some (take n ss), st)"
  by (simp add: ReadArgs_def ReadArgs_from_lits)

definition demo_upd :: "(bytes, bytes, bytes, bytes, nat) upd_env" where
  "demo_upd = \<lparr> ue_sys = Zip_Process.demo_sys, ue_libs = demo_libs, ue_zip = demo_lib, ue_vols = still_kernel, ue_dirs = flat_kernel,
     ue_depth = 3, ue_calloc = \<lambda>_. True, ue_realloc = \<lambda>_. True, ue_malloc = \<lambda>n. Some (replicate (nat n) 0), ue_fresh = demo_fc,
     ue_stray = None, ue_mkfs = \<lambda>d n m w. (0, w), ue_run = \<lambda>a w. (0, w), ue_time = 0, ue_random = None, ue_getprop = \<lambda>k. [],
     ue_frac = \<lambda>s. s, ue_strerror = \<lambda>w. [] \<rparr>"

definition demo_upd_state :: upd_state where
  "demo_upd_state = start_state ''3'' \<lparr> za_file = [], za_entries = [], za_hash = \<lparr> tableSize = 0, numEntries = 0, numDeadEntries = 0, pEntries = [], freeFunc = None \<rparr> \<rparr> []
     \<lparr> vs_table = [], vs_mounts = None, vs_kernel = \<lparr> w_files = [''/p'' \<mapsto> new_file\<lparr> i_data := bytes_of (prop_text [(''a'', ''1''), (''b'', ''2'')]) \<rparr>], w_tick = 0 \<rparr> \<rparr>"

lemma demo_upd_clean: "clean_env demo_upd demo_feeds"
  by (simp add: clean_env_def demo_upd_def demo_reads demo_inflates)

theorem file_getprop_printed_witness:
  "\<exists>st'. FileGetPropFn demo_upd ''file_getprop'' demo_upd_state (map lit [''/p'', ''b'']) = Ok (Some (VAL_STRING (Some ''2'')), st')"
proof -
  let ?kvs = "[(''a'', ''1''), (''b'', ''2'')]" and ?args = "map lit [''/p'', ''b'']"
  have "list_all plain_prop ?kvs" by (simp add: plain_prop_def trimmed_def is_space_def)
  moreover have "w_files (files demo_upd_state) ''/p'' = Some (new_file\<lparr> i_data := bytes_of (prop_text ?kvs) \<rparr>)"
    by (simp add: demo_upd_state_def start_state_def files_def)
  moreover have "ReadArgs demo_upd_state ?args 2 = Ok (Some [''/p'', ''b''], demo_upd_state)"
    using ReadArgs_lits[of 2 "[''/p'', ''b'']"] by (simp del: list.map)
  moreover have "no_failures (ue_sys demo_upd)" "ue_malloc demo_upd (int (length (prop_text ?kvs)) + 1) \<noteq> None"
    by (simp_all add: demo_upd_def no_failures_def Zip_Process.demo_sys_def BUF_SIZE_def)
  ultimately show ?thesis
    using file_getprop_printed[of demo_upd_state ?args "''/p''" "''b''" demo_upd_state _ ?kvs demo_upd "''file_getprop''"]
    by (fastforce simp: prop_text_def MAX_FILE_GETPROP_SIZE_def)
qed

section \<open>Checking a file by its hash\<close>

lemma match_loop_lits:
  "match_loop d (map (\<lambda>s. VAL_STRING (Some s)) ss) =
     Ok (map_option (\<lambda>s. VAL_STRING (Some s)) (find (\<lambda>s. ParseSha1 s = Some d) ss))"
  by (induction ss) auto

lemma read_file_call:
  assumes "\<not> is_emmc filename" "w_files (files st) filename = Some i" "no_failures (ue_sys U)"
  shows "\<exists>w. ReadFileFn U name st [lit filename] = Ok (Some (VAL_BLOB (Some (i_data i))), set_files w st) \<and>
    w_files w = w_files (files st)"
proof -
  have "ReadArgs st [lit filename] 1 = Ok (Some [filename], st)" using ReadArgs_lits[of 1 "[filename]" st] by simp
  then show ?thesis
    using assms by (simp add: ReadFileFn_def unless_null_def LoadFileContents_def Let_def sys_stat_def sys_fopen_read_def
        sys_fread_def call_fails_def no_failures_def RETOUCH_DONT_MASK_def live_bytes_def sys_ignored_def) (metis files_tick)
qed



section \<open>Extracting a file\<close>

text \<open>
  C36: \<^verbatim>\<open>package_extract_file(name, dest)\<close> for a file of an opened package returns true and leaves at \<^verbatim>\<open>dest\<close>
  exactly the contents of the entry, replacing what was there.
\<close>

theorem package_extract_file_exact:
  assumes "clean_env U feeds" "archive_ok m (package_zip (cookie st))"
    "package_has (ue_zip U) feeds (package_zip (cookie st)) zname contents'" "plain_path (files st) dest"
  shows "\<exists>st' i. PackageExtractFileFn U name st [lit zname, lit dest] = Ok (Some (VAL_STRING (Some ''t'')), st') \<and>
    w_files (files st') dest = Some i \<and> i_data i = contents'"
proof -
  let ?za = "package_zip (cookie st)"
  obtain e where e: "mzFindZipEntry (ue_calloc U) ?za (bytes_of zname) = Ok (Some e)"
    "zip_contents (ue_zip U) feeds (za_file ?za) e contents'"
    using package_entry[OF assms(2,3)] .
  obtain w1 i where o: "sys_fopen_write (ue_sys U) dest (files st) = (True, w1)" "w_files w1 dest = Some i" "i_data i = []"
    using assms(1,4) by (auto simp: clean_env_def reads_in_full_def sys_fopen_write_def call_fails_def overwrite_def
        plain_path_def new_file_def split: option.splits)
  have "write_got (ue_sys U) dest i [] dest w1" using assms(1) o(2) by (simp add: write_got_def clean_env_def)
  then obtain w2 where x: "mzExtractZipEntryToFile (ue_sys U) (ue_zip U) (za_file ?za) e dest 0 w1 = Some (Ok (True, w2))"
    "w_files w2 dest = Some (i\<lparr> i_data := contents' \<rparr>)"
    using wfile.process_all[where pos = 0 and liba = "ue_zip U", OF _ _ e(2)] assms(1) o(3)
    by (fastforce simp: mzExtractZipEntryToFile_def write_got_def clean_env_def)
  have "ReadArgs st [lit zname, lit dest] 2 = Ok (Some [zname, dest], st)" using ReadArgs_lits[of 2 "[zname, dest]" st] by simp
  then have "PackageExtractFileFn U name st [lit zname, lit dest] =
      Ok (Some (VAL_STRING (Some ''t'')), set_files (snd (sys_fclose (ue_sys U) w2)) st)"
    by (simp add: PackageExtractFileFn_def unless_null_def extract_to_file_def Let_def e(1) o(1) x(1) returned_def give_def
        StringValue_def truth_def)
  then show ?thesis using x(2) by (simp add: sys_fclose_def)
qed

section \<open>Calls that go wrong\<close>

text \<open>
  Three calls that a script may well contain crash the updater: \<^verbatim>\<open>format\<close> reads a pointer that was never
  set, \<^verbatim>\<open>delete\<close> frees its first path twice when a later argument cannot be evaluated, and \<^verbatim>\<open>apply_patch\<close>
  reads from the null pointer it gets when a patch cannot be evaluated.
\<close>

theorem updater_crashes:
  assumes "fs \<noteq> []" "part \<noteq> []" "loc \<noteq> []" "ue_stray U = None" "arg_eval bad = (\<lambda>st. Ok (None, st))"
    "byte_count sz \<noteq> None"
  shows "FormatFn U ''format'' st (map lit [fs, part, loc, sz]) = Inl OutOfBounds \<and>
    DeleteFn U ''delete'' st [lit p, bad] = Inl OutOfBounds \<and>
    ApplyPatchFn U ''apply_patch'' st (map lit [src, tgt, sha1, sz] @ [lit sha2, bad]) = Inl OutOfBounds"
proof -
  have "ReadArgs_from st (map lit ss @ xs) i n = ReadArgs_from st (map lit ss) i n" if "i + n \<le> length ss" for ss xs i n
    using that by (induction n arbitrary: i) (auto simp: eval_arg_def arg_def unless_null_def nth_append)
  then have r: "ReadArgs st (map lit [src, tgt, sha1, sz] @ [lit sha2, bad]) 4 = Ok (Some [src, tgt, sha1, sz], st)"
    using ReadArgs_lits[of 4 "[src, tgt, sha1, sz]" st] by (simp add: ReadArgs_def del: list.map)
  have "FormatFn U ''format'' st (map lit [fs, part, loc, sz]) = Inl OutOfBounds"
    using assms(1-4) ReadArgs_lits[of 4 "[fs, part, loc, sz]" st] by (simp add: FormatFn_def unless_null_def Let_def)
  moreover have "DeleteFn U ''delete'' st [lit p, bad] = Inl OutOfBounds"
    using assms(5) by (simp add: DeleteFn_def unless_null_def Evaluate_def[of _ bad])
  moreover have "ApplyPatchFn U ''apply_patch'' st (map lit [src, tgt, sha1, sz] @ [lit sha2, bad]) = Inl OutOfBounds"
    using assms(5,6) r by (auto simp: ApplyPatchFn_def unless_null_def EvaluateValue_def[of _ bad])
  ultimately show ?thesis by blast
qed

theorem updater_crashes_witness:
  "FormatFn demo_upd ''format'' demo_upd_state (map lit [''ext4'', ''EMMC'', ''/dev/b'', ''0'']) = Inl OutOfBounds"
proof -
  have "byte_count ''0'' \<noteq> None" by code_simp
  then show ?thesis
    using updater_crashes[of "''ext4''" "''EMMC''" "''/dev/b''" demo_upd "\<lparr> arg_start = 0, arg_end = 0, arg_eval = \<lambda>st. Ok (None, st) \<rparr>" "''0''"]
    by (simp add: demo_upd_def del: list.map)
qed

section \<open>A package with a script\<close>

definition script_zip :: bytes where
  "script_zip =
     [80, 75, 3, 4, 20, 0, 0, 0, 0, 0, 0, 0, 0, 0, 0, 0, 0, 0, 1, 0, 0, 0, 1, 0, 0, 0, 42, 0, 0, 0] @ bytes_of SCRIPT_NAME @ [120] @
     [80, 75, 1, 2, 20, 3, 20, 0, 0, 0, 0, 0, 0, 0, 0, 0, 0, 0, 0, 0, 1, 0, 0, 0, 1, 0, 0, 0, 42, 0, 0, 0, 0, 0, 0, 0, 0, 0, 0, 0, 0, 0, 0, 0, 0, 0] @
     bytes_of SCRIPT_NAME @
     [80, 75, 5, 6, 0, 0, 0, 0, 1, 0, 1, 0, 88, 0, 0, 0, 73, 0, 0, 0, 0, 0]"

definition script_entry :: ZipEntry where
  "script_entry = demo_entry\<lparr> fileName := bytes_of SCRIPT_NAME, offset := 72, compLen := 1, uncompLen := 1 \<rparr>"

lemma script_open: "opened_entries (mzOpenZipArchive demo_env (Inr (Some script_zip))) = Ok (0, Some [script_entry])"
  by code_simp

lemma script_archive:
  obtains za where "mzOpenZipArchive demo_env (Inr (Some script_zip)) = Ok (0, Some za)" "archive_ok script_zip za"
    "package_has demo_lib demo_feeds za SCRIPT_NAME (bytes_of ''x'')"
proof -
  obtain za where za: "mzOpenZipArchive demo_env (Inr (Some script_zip)) = Ok (0, Some za)" "za_entries za = [script_entry]"
    using opened_entries_Ok[OF script_open] by blast
  have ok: "archive_ok script_zip za" using open_archive_ok[OF za(1)] by (simp add: demo_env_def)
  then have f: "za_file za = script_zip" "entry_ok script_zip script_entry" using za(2) by (auto simp: archive_ok_def)
  have "entry_bytes script_zip script_entry = bytes_of ''x''" by code_simp
  moreover have "compression script_entry = STORED" "compLen script_entry = 1" "uncompLen script_entry = 1"
    "fileName script_entry = bytes_of SCRIPT_NAME"
    by (simp_all add: script_entry_def demo_entry_def STORED_def)
  ultimately have "package_has demo_lib demo_feeds za SCRIPT_NAME (bytes_of ''x'')"
    using za(2) f by (simp add: package_has_def zip_contents_def SCRIPT_NAME_def nul_free_def)
  then show ?thesis using that za(1) ok by blast
qed

definition demo_main :: "(bytes, bytes, bytes, bytes, nat, unit) main_env" where
  "demo_main = \<lparr> me_upd = demo_upd, me_zip = demo_env, me_package = Inr (Some script_zip),
     me_parse = \<lambda>t s. (0, 0, Expr F_Literal s [] 0 1), me_ext = [], me_ext_fn = \<lambda>_. AbortFn \<rparr>"

theorem updater_exit_status_witness:
  "\<exists>s. updater_main demo_main [''updater'', ''3'', ''5'', ''/sdcard/update.zip'']
      \<lparr> vs_table = [], vs_mounts = None, vs_kernel = demo_files \<rparr> = Ok (0, [], s)"
proof -
  obtain za where za: "mzOpenZipArchive demo_env (Inr (Some script_zip)) = Ok (0, Some za)"
    "package_has demo_lib demo_feeds za SCRIPT_NAME (bytes_of ''x'')" using script_archive by blast
  have "clean_env (me_upd demo_main) demo_feeds" "\<And>n. env_calloc (me_zip demo_main) n"
    using demo_upd_clean by (simp_all add: demo_main_def demo_env_def)
  from updater_exit_status[OF _ _ this(1) _ _ this(2), of "[''updater'', ''3'', ''5'', ''/sdcard/update.zip'']" script_zip za "''x''"
      "Expr F_Literal ''x'' [] 0 1" "\<lparr> vs_table = [], vs_mounts = None, vs_kernel = demo_files \<rparr>"] za
  show ?thesis
    by (fastforce simp: demo_main_def version_ok_def nul_free_def demo_upd_def Evaluate_def Literal_def StringValue_def report_def start_state_def)
qed

theorem package_extract_file_exact_witness:
  "\<exists>za st' i. mzOpenZipArchive demo_env (Inr (Some script_zip)) = Ok (0, Some za) \<and>
     PackageExtractFileFn demo_upd ''package_extract_file''
       (start_state ''3'' za [] \<lparr> vs_table = [], vs_mounts = None, vs_kernel = demo_files \<rparr>) [lit SCRIPT_NAME, lit ''/system/a''] =
     Ok (Some (VAL_STRING (Some ''t'')), st') \<and> w_files (files st') ''/system/a'' = Some i \<and> i_data i = bytes_of ''x''"
proof -
  obtain za where za: "mzOpenZipArchive demo_env (Inr (Some script_zip)) = Ok (0, Some za)" "archive_ok script_zip za"
    "package_has demo_lib demo_feeds za SCRIPT_NAME (bytes_of ''x'')" using script_archive by blast
  let ?st = "start_state ''3'' za [] \<lparr> vs_table = [], vs_mounts = None, vs_kernel = demo_files \<rparr>"
  have "archive_ok script_zip (package_zip (cookie ?st))" "package_has (ue_zip demo_upd) demo_feeds (package_zip (cookie ?st)) SCRIPT_NAME (bytes_of ''x'')"
    "plain_path (files ?st) ''/system/a''"
    using za by (simp_all add: start_state_def demo_upd_def files_def plain_path_def demo_files_def new_file_def)
  from package_extract_file_exact[OF demo_upd_clean this] za(1) show ?thesis by blast
qed

section \<open>Patching from a script\<close>

lemma patch_pairs_blobs: "patch_pairs name i vs = Ok (Inr (ss, ps)) \<Longrightarrow> set ps \<subseteq> set vs"
  by (induction name i vs arbitrary: ss ps rule: patch_pairs.induct)
    (fastforce elim!: then_do_Ok_E split: Value.split_asm sum.split_asm option.split_asm prod.split_asm)+

text \<open>Where a failed write cannot go unnoticed, for the values of a call.\<close>

definition noticed_values :: "sys \<Rightarrow> Value list \<Rightarrow> bool" where
  "noticed_values sys vs \<longleftrightarrow>
     no_failures sys \<or> list_all (\<lambda>v. case v of VAL_BLOB d \<Rightarrow> memcmp (blob_bytes d) bsdiff_magic 8 = 0 | _ \<Rightarrow> True) vs"

lemma files_ErrorAbort [simp]: "files (ErrorAbort st msg) = files st"
  by (simp add: files_def ErrorAbort_def set_errmsg_def)

lemma apply_patch_cases:
  assumes "ReadArgs st argv 4 = Ok (Some [src, tgt, sha1, sz], st1)" "ReadValueVarArgs st1 (drop 4 argv) = Ok (Some vals, st2)"
    "\<not> length argv < 6" "even (length argv)" "byte_count sz = Some n" "ApplyPatchFn U name st argv = Ok (v, st')"
  obtains (bad_pair) "v = None" "files st' = files st2"
  | (ran) ss ps rc w' where "set ps \<subseteq> set vals" "v = Some (VAL_STRING (Some (truth (rc = 0))))" "files st' = w'"
      "applypatch (ue_sys U) (ue_libs U) (ue_fresh U) (ue_fresh U)
         \<lparr> ap_source_filename = src, ap_target_filename = tgt, ap_target_sha1_str = sha1, ap_target_size = n,
           ap_patch_sha1_str = ss, ap_patch_data = ps \<rparr> (files st2) = Some (Ok (rc, w'))"
proof -
  have m: "length argv mod 2 \<noteq> Suc 0" using assms(4) by presburger
  obtain r where r: "patch_pairs name 0 vals = Ok r"
    using assms(6) assms(1-3,5) m by (auto simp: ApplyPatchFn_def unless_null_def elim!: then_do_Ok_E)
  show ?thesis
  proof (cases r)
    case (Inl msg)
    then show ?thesis using assms r m by (intro bad_pair) (auto simp: ApplyPatchFn_def unless_null_def fail_with_def)
  next
    case (Inr p)
    obtain ss ps where p: "p = (ss, ps)" by (cases p)
    let ?a = "\<lparr> ap_source_filename = src, ap_target_filename = tgt, ap_target_sha1_str = sha1, ap_target_size = n,
       ap_patch_sha1_str = ss, ap_patch_data = ps \<rparr>"
    obtain rc w' where x: "returned (applypatch (ue_sys U) (ue_libs U) (ue_fresh U) (ue_fresh U) ?a (files st2)) = Ok (rc, w')"
      "v = Some (VAL_STRING (Some (truth (rc = 0))))" "st' = set_files w' st2"
      using assms r m Inr p by (auto simp: ApplyPatchFn_def unless_null_def give_def StringValue_def elim!: then_do_Ok_E)
    moreover have "applypatch (ue_sys U) (ue_libs U) (ue_fresh U) (ue_fresh U) ?a (files st2) = Some (Ok (rc, w'))"
      using x(1) by (auto simp: returned_def split: option.split_asm)
    ultimately show ?thesis using patch_pairs_blobs r Inr p by (intro ran) auto
  qed
qed


definition patch_call :: "UpdaterInfo Arg list" where
  "patch_call =
     map lit [''/system/a'', ''-'', ap_target_sha1_str patch_args, ''100'', PrintSha1 ([1, 2, 3] @ replicate 17 0)] @
     [\<lparr> arg_start = 0, arg_end = 0, arg_eval = \<lambda>st. Ok (Some (hd (ap_patch_data patch_args)), st) \<rparr>]"


end
