(* ===== verification/Install_Package.thy ===== *)
theory Install_Package
  imports Updater
begin

text \<open>
  Installing a package: \<^verbatim>\<open>src/install.c\<close>. The recovery program runs the update program as a child and
  obeys the commands it writes to a pipe. A child process is a parameter: what it writes, the status
  \<^verbatim>\<open>waitpid\<close> gives of it and what it does to the files. What \<^verbatim>\<open>install.c\<close> puts on the screen, its
  error messages included, is a list of events; fractions of the progress bar stay the text they are
  read from.
\<close>

section \<open>The screen\<close>

datatype ui_event = UiPrint string | UiRaw string | UiShowProgress string int | UiSetProgress string | UiIndeterminate
  | UiBackground string

section \<open>Commands of the update program\<close>

text \<open>The screen and \<^verbatim>\<open>*wipe_cache\<close>.\<close>

record cmd_state =
  cs_ui :: "ui_event list"
  cs_wipe :: int

definition show_ui :: "ui_event \<Rightarrow> 'm cmd_state_scheme \<Rightarrow> 'm cmd_state_scheme" where
  "show_ui e c = c\<lparr> cs_ui := cs_ui c @ [e] \<rparr>"

text \<open>\<^verbatim>\<open>LOGE\<close> prints on the screen.\<close>

definition LOGE :: "string \<Rightarrow> 'm cmd_state_scheme \<Rightarrow> 'm cmd_state_scheme" where
  "LOGE msg = show_ui (UiPrint (''E:'' @ msg @ [newline]))"

abbreviation blank_or_nl :: string where
  "blank_or_nl \<equiv> [CHR '' '', newline]"

text \<open>The body of the loop for the line in \<^verbatim>\<open>buffer\<close>. A missing number is a null pointer for \<^verbatim>\<open>strtof\<close> or \<^verbatim>\<open>strtol\<close>.\<close>

definition do_command :: "string \<Rightarrow> cmd_state \<Rightarrow> cmd_state outcome" where
  "do_command buffer c =
     (case strtok_any blank_or_nl (c_str buffer) of
        None \<Rightarrow> Ok c
      | Some (command, rest) \<Rightarrow>
          if strcmp command ''progress'' = 0 then
            (case strtok_any blank_or_nl rest of
               None \<Rightarrow> Inl OutOfBounds
             | Some (fraction_s, rest) \<Rightarrow>
                 (case strtok_any blank_or_nl rest of
                    None \<Rightarrow> Inl OutOfBounds
                  | Some (seconds_s, _) \<Rightarrow> Ok (show_ui (UiShowProgress fraction_s (to_int32 (fst (strtol10 seconds_s)))) c)))
          else if strcmp command ''set_progress'' = 0 then
            (case strtok_any blank_or_nl rest of
               None \<Rightarrow> Inl OutOfBounds
             | Some (fraction_s, _) \<Rightarrow> Ok (show_ui (UiSetProgress fraction_s) c))
          else if strcmp command ''ui_print'' = 0 then
            (case strtok_any [newline] rest of
               None \<Rightarrow> Ok (show_ui (UiPrint [newline]) c)
             | Some (str, _) \<Rightarrow> Ok (show_ui (UiPrint str) c))
          else if strcmp command ''wipe_cache'' = 0 then Ok (c\<lparr> cs_wipe := 1 \<rparr>)
          else Ok (LOGE (''unknown command ['' @ command @ '']'') c))"

function command_loop :: "string \<Rightarrow> cmd_state \<Rightarrow> cmd_state outcome" where
  "command_loop from_child c =
     (case fgets 1024 from_child of
        None \<Rightarrow> Ok c
      | Some (buffer, rest) \<Rightarrow> then_do (do_command buffer c) (\<lambda>c. command_loop rest c))"
  by pat_completeness auto
termination
  by (relation "measure (\<lambda>(t, c). length t)") (auto dest!: sym[of "Some _"] fgets_shorter)

declare command_loop.simps [simp del]

section \<open>The environment\<close>

record 'q inst_env =
  ie_vols :: "world vol_kernel"
  ie_dirs :: "world kernel"
  ie_sys :: sys
  ie_zip :: zip_env
  ie_zlib :: "'q zip_lib"
  ie_calloc :: "int \<Rightarrow> bool"
  ie_child :: "string list \<Rightarrow> world \<Rightarrow> string \<times> int \<times> world"
  ie_version :: string
  ie_fd :: string
  ie_external :: bool
  ie_eexist :: bool
  ie_is_dir :: bool
  ie_malloc :: bool
  ie_strerror :: "world \<Rightarrow> string"

definition INSTALL_SUCCESS :: int where "INSTALL_SUCCESS = 0"
definition INSTALL_ERROR :: int where "INSTALL_ERROR = 1"
definition INSTALL_CORRUPT :: int where "INSTALL_CORRUPT = 2"
definition ASSUMED_UPDATE_BINARY_NAME :: string where
  "ASSUMED_UPDATE_BINARY_NAME = ''META-INF/com/google/android/update-binary''"
definition DEFAULT_UPDATE_BINARY_NAME :: string where "DEFAULT_UPDATE_BINARY_NAME = ''/sbin/updater''"
definition SIDELOAD_TEMP_DIR :: string where "SIDELOAD_TEMP_DIR = ''/install''"
definition EXTERNAL_SDCARD_ROOT :: string where "EXTERNAL_SDCARD_ROOT = ''/mnt/external_sdcard''"
definition UPDATE_BINARY :: string where "UPDATE_BINARY = ''/tmp/update_binary''"

text \<open>The screen, \<^verbatim>\<open>*wipe_cache\<close> and the volumes with the files.\<close>

record inst_state = cmd_state +
  is_rec :: rec_state

definition on_files :: "(world \<Rightarrow> world) \<Rightarrow> inst_state \<Rightarrow> inst_state" where
  "on_files f s = s\<lparr> is_rec := (is_rec s)\<lparr> vs_kernel := f (vs_kernel (is_rec s)) \<rparr> \<rparr>"

definition i_files :: "inst_state \<Rightarrow> world" where
  "i_files s = vs_kernel (is_rec s)"

section \<open>Running the update program\<close>

text \<open>What \<^verbatim>\<open>waitpid\<close> reports: the exit code in the second byte, the signal that ended the process in the first.\<close>

definition WIFEXITED :: "int \<Rightarrow> bool" where "WIFEXITED status \<longleftrightarrow> status mod 128 = 0"
definition WEXITSTATUS :: "int \<Rightarrow> int" where "WEXITSTATUS status = status div 256 mod 256"

definition run_command ::
  "(string \<Rightarrow> string list \<Rightarrow> world \<Rightarrow> int \<times> world) \<Rightarrow> string \<Rightarrow> string list \<Rightarrow> inst_state \<Rightarrow> int \<times> inst_state" where
  "run_command exec path args s =
     (case exec path args (i_files s) of (status, w) \<Rightarrow>
        let s = on_files (\<lambda>_. w) s
        in (WEXITSTATUS status,
            if \<not> WIFEXITED status \<or> WEXITSTATUS status \<noteq> 0
            then LOGE (path @ '' failed with status '' @ print_int (WEXITSTATUS status)) s else s))"

text \<open>\<^verbatim>\<open>creat(name, mode)\<close>.\<close>

definition sys_creat :: "sys \<Rightarrow> string \<Rightarrow> int \<Rightarrow> world \<Rightarrow> bool \<times> world" where
  "sys_creat sys name mode w =
     (if call_fails sys w then (False, tick w)
      else (True, (tick w)\<lparr> w_files := (w_files w)(name \<mapsto>
              (case w_files w name of None \<Rightarrow> new_file\<lparr> i_mode := mode \<rparr> | Some i \<Rightarrow> overwrite i [])) \<rparr>))"

text \<open>The binary to run: that of the package, extracted, or the one of the recovery system; none on an error.\<close>

definition update_binary :: "'q inst_env \<Rightarrow> ZipArchive \<Rightarrow> inst_state \<Rightarrow> (string option \<times> inst_state) outcome" where
  "update_binary I za s =
     then_do (mzFindZipEntry (ie_calloc I) za (bytes_of ASSUMED_UPDATE_BINARY_NAME)) (\<lambda>binary_entry.
       case binary_entry of
         None \<Rightarrow> Ok (Some DEFAULT_UPDATE_BINARY_NAME, s)
       | Some e \<Rightarrow>
           (case sys_creat (ie_sys I) UPDATE_BINARY 493 (sys_unlink (ie_sys I) UPDATE_BINARY (i_files s)) of (fd, w) \<Rightarrow>
              let s = on_files (\<lambda>_. w) s
              in if \<not> fd then Ok (None, LOGE (''Can't make '' @ UPDATE_BINARY) s)
                 else then_do (returned (mzExtractZipEntryToFile (ie_sys I) (ie_zlib I) (za_file za) e UPDATE_BINARY 0 w))
                   (\<lambda>(ok, w). let s = on_files (\<lambda>_. sys_ignored w) s
                      in Ok (if ok then (Some UPDATE_BINARY, s) else (None, LOGE (''Can't copy '' @ ASSUMED_UPDATE_BINARY_NAME) s)))))"

definition try_update_binary :: "'q inst_env \<Rightarrow> string \<Rightarrow> ZipArchive \<Rightarrow> inst_state \<Rightarrow> (int \<times> inst_state) outcome" where
  "try_update_binary I path za s =
     then_do (update_binary I za s) (\<lambda>(binary, s).
       case binary of
         None \<Rightarrow> Ok (INSTALL_ERROR, s)
       | Some binary \<Rightarrow>
           (case ie_child I [binary, ie_version I, ie_fd I, path] (i_files s) of (from_child, status, w) \<Rightarrow>
              then_do (command_loop from_child \<lparr> cs_ui = cs_ui s, cs_wipe = 0 \<rparr>) (\<lambda>c.
                let s = on_files (\<lambda>_. w) (s\<lparr> cs_ui := cs_ui c, cs_wipe := cs_wipe c \<rparr>)
                in Ok (if \<not> WIFEXITED status \<or> WEXITSTATUS status \<noteq> 0
                       then (INSTALL_ERROR, LOGE (''Error in '' @ path @ [newline] @ ''(Status '' @ print_int (WEXITSTATUS status) @ '')'') s)
                       else (INSTALL_SUCCESS, s)))))"

text \<open>What \<^verbatim>\<open>mzOpenZipArchive\<close> gets of the file.\<close>

definition open_package :: "sys \<Rightarrow> string \<Rightarrow> world \<Rightarrow> (int + bytes option) \<times> world" where
  "open_package sys path w =
     (case sys_fopen_read sys path w of (f, w') \<Rightarrow>
        (case f of None \<Rightarrow> Inl ENOENT | Some xs \<Rightarrow> if call_fails sys w' then Inr None else Inr (Some xs), tick w'))"

definition really_install_package :: "'q inst_env \<Rightarrow> string \<Rightarrow> inst_state \<Rightarrow> (int \<times> inst_state) outcome" where
  "really_install_package I path s =
     (let s = show_ui UiIndeterminate (show_ui (UiPrint (''Finding update package...'' @ [newline])) s) in
      then_do (ensure_path_mounted (ie_vols I) path (is_rec s)) (\<lambda>(rc, r).
        let s = s\<lparr> is_rec := r \<rparr> in
        if rc \<noteq> 0 then Ok (INSTALL_CORRUPT, LOGE (''Can't mount '' @ path) s)
        else
          let s = show_ui (UiPrint (''Opening update package...'' @ [newline])) s in
          case open_package (ie_sys I) path (i_files s) of (f, w) \<Rightarrow>
            then_do (mzOpenZipArchive (ie_zip I) f) (\<lambda>(err, za).
              let s = on_files (\<lambda>_. w) s in
              if err \<noteq> 0 then
                Ok (INSTALL_CORRUPT, LOGE (''Can't open '' @ path @ [newline] @ ''('' @ (if err \<noteq> -1 then ie_strerror I w else ''bad'') @ '')'') s)
              else case za of
                None \<Rightarrow> Inl OutOfBounds
              | Some za \<Rightarrow> try_update_binary I path za (show_ui (UiPrint (''Installing update...'' @ [newline])) s))))"

section \<open>Copying the package\<close>

definition BUFSIZ :: nat where "BUFSIZ = 1024"

text \<open>\<^verbatim>\<open>fwrite\<close> behind what was written before.\<close>

definition sys_fput :: "sys \<Rightarrow> string \<Rightarrow> bytes \<Rightarrow> world \<Rightarrow> bool \<times> world" where
  "sys_fput sys name xs w =
     (let k = (if call_fails sys w then min (length xs) (s_count sys (w_tick w)) else length xs)
      in (k = length xs, append_data name (take k xs) (tick w)))"

text \<open>The loop: \<^verbatim>\<open>xs\<close> is what is still to be read. Whether a read of nothing is the end of the file is not
  looked at.\<close>

function copy_loop :: "sys \<Rightarrow> string \<Rightarrow> bytes \<Rightarrow> world \<Rightarrow> bool \<times> world" where
  "copy_loop sys copy_path xs w =
     (case sys_fread sys BUFSIZ xs w of (buffer, w) \<Rightarrow>
        if buffer = [] then (True, w)
        else case sys_fput sys copy_path buffer w of (ok, w) \<Rightarrow>
          if \<not> ok then (False, w) else copy_loop sys copy_path (drop (length buffer) xs) w)"
  by pat_completeness auto
termination
  by (relation "measure (\<lambda>(sys, p, xs, w). length xs)") (auto simp: sys_fread_def)

declare copy_loop.simps [simp del]

definition PACKAGE_COPY :: string where "PACKAGE_COPY = ''/install/package.zip''"

text \<open>The copy itself, from the first \<^verbatim>\<open>fopen\<close> on: an error message or the path of the copy.\<close>

definition copy_file :: "sys \<Rightarrow> (world \<Rightarrow> string) \<Rightarrow> string \<Rightarrow> world \<Rightarrow> (string + string) \<times> world" where
  "copy_file sys strerror original_path w =
     (let failed = \<lambda>what name w. (Inl (what @ name @ '' ('' @ strerror w @ '')''), w) in
      case sys_fopen_read sys original_path w of (fin, w) \<Rightarrow>
        case fin of
          None \<Rightarrow> failed ''Failed to open '' original_path w
        | Some xs \<Rightarrow>
            (case sys_fopen_write sys PACKAGE_COPY w of (fout, w) \<Rightarrow>
               if \<not> fout then failed ''Failed to open '' PACKAGE_COPY w
               else case copy_loop sys PACKAGE_COPY xs w of (ok, w) \<Rightarrow>
                 if \<not> ok then failed ''Short write of '' PACKAGE_COPY w
                 else case sys_fclose sys w of (ok, w) \<Rightarrow>
                   if \<not> ok then failed ''Failed to close '' PACKAGE_COPY w
                   else case sys_fclose sys w of (ok, w) \<Rightarrow>
                     if \<not> ok then failed ''Failed to close '' original_path w
                     else case sys_chmod sys PACKAGE_COPY 256 w of (ok, w) \<Rightarrow>
                       if \<not> ok then failed ''Failed to chmod '' PACKAGE_COPY w else (Inr PACKAGE_COPY, w)))"

text \<open>The directory must be one that only root can use; an error message if it is not.\<close>

definition check_temp_dir :: "'q inst_env \<Rightarrow> world \<Rightarrow> string option \<times> world" where
  "check_temp_dir I w =
     (case sys_stat (ie_sys I) SIDELOAD_TEMP_DIR w of (st, w) \<Rightarrow>
        (case st of
           None \<Rightarrow> Some (''failed to stat '' @ SIDELOAD_TEMP_DIR @ '' ('' @ ie_strerror I w @ '')'')
         | Some i \<Rightarrow>
             if \<not> ie_is_dir I then Some (SIDELOAD_TEMP_DIR @ '' isn't a directory'')
             else if i_mode i mod 512 \<noteq> 448 then Some (SIDELOAD_TEMP_DIR @ '' has perms '' @ print_base 8 (nat (i_mode i)))
             else if i_uid i \<noteq> 0 then Some (SIDELOAD_TEMP_DIR @ '' owned by '' @ print_int (i_uid i) @ ''; not root'')
             else None, w))"

definition copy_package :: "'q inst_env \<Rightarrow> string \<Rightarrow> inst_state \<Rightarrow> (string option \<times> inst_state) outcome" where
  "copy_package I original_path s =
     then_do (ensure_path_mounted (ie_vols I) original_path (is_rec s)) (\<lambda>(rc, r).
       let s = s\<lparr> is_rec := r \<rparr> in
       if rc \<noteq> 0 then Ok (None, LOGE (''Can't mount '' @ original_path) s)
       else then_do (ensure_path_mounted (ie_vols I) SIDELOAD_TEMP_DIR (is_rec s)) (\<lambda>(rc, r).
         let s = s\<lparr> is_rec := r \<rparr> in
         if rc \<noteq> 0 then Ok (None, LOGE (''Can't mount '' @ SIDELOAD_TEMP_DIR) s)
         else case vk_mkdir (ie_vols I) SIDELOAD_TEMP_DIR 448 (i_files s) of (rc, w) \<Rightarrow>
           let s = on_files (\<lambda>_. w) s in
           if rc \<noteq> 0 \<and> \<not> ie_eexist I then Ok (None, LOGE (''Can't mkdir '' @ SIDELOAD_TEMP_DIR @ '' ('' @ ie_strerror I w @ '')'') s)
           else case check_temp_dir I w of (bad, w) \<Rightarrow>
             let s = on_files (\<lambda>_. w) s in
             case bad of
               Some msg \<Rightarrow> Ok (None, LOGE msg s)
             | None \<Rightarrow>
                 if \<not> ie_malloc I then Ok (None, LOGE ''Failed to allocate buffer'' s)
                 else (case copy_file (ie_sys I) (ie_strerror I) original_path w of (copy, w) \<Rightarrow>
                   let s = on_files (\<lambda>_. w) s
                   in Ok (case copy of Inl msg \<Rightarrow> (None, LOGE msg s) | Inr p \<Rightarrow> (Some p, s)))))"

section \<open>Installing\<close>

definition starts_with :: "string \<Rightarrow> string \<Rightarrow> bool" where
  "starts_with root path \<longleftrightarrow> strncmp path root (length root) = 0"

definition requires_copy :: "string \<Rightarrow> bool" where
  "requires_copy path \<longleftrightarrow>
     \<not> starts_with EXTERNAL_SDCARD_ROOT path \<and> \<not> starts_with ''/cache'' path \<and> \<not> starts_with ''/tmp'' path"

text \<open>From the unmounting of the volumes to their mounting.\<close>

definition install_unmounted :: "'q inst_env \<Rightarrow> string \<Rightarrow> inst_state \<Rightarrow> (int \<times> inst_state) outcome" where
  "install_unmounted I path s =
     then_do (ensure_common_roots_unmounted (ie_vols I) (ie_external I) (is_rec s)) (\<lambda>r.
     then_do (ensure_path_mounted (ie_vols I) ''/cache'' r) (\<lambda>(_, r).
     then_do (really_install_package I path (show_ui (UiBackground ''installing'') (s\<lparr> is_rec := r \<rparr>))) (\<lambda>(result, s).
       let s = show_ui (UiBackground ''error'') s
       in then_do (ensure_common_roots_mounted (ie_vols I) (ie_external I) (is_rec s)) (\<lambda>r. Ok (result, s\<lparr> is_rec := r \<rparr>)))))"

definition install_package :: "'q inst_env \<Rightarrow> string \<Rightarrow> string \<Rightarrow> inst_state \<Rightarrow> (int \<times> inst_state) outcome" where
  "install_package I path install_file s =
     then_do (fopen_path_write (ie_vols I) (ie_dirs I) (ie_sys I) install_file False (is_rec s)) (\<lambda>(install_log, r).
       let log_text = (\<lambda>text s. if install_log then on_files (put_text (ie_sys I) install_file text) s else s);
           s = s\<lparr> is_rec := r \<rparr>;
           s = (if install_log then log_text (path @ [newline]) s else LOGE (''failed to open last_install: '' @ ie_strerror I (i_files s)) s)
       in then_do (if requires_copy path then
                     then_do (copy_package I path s) (\<lambda>(copy, s).
                       case copy of None \<Rightarrow> Ok (INSTALL_CORRUPT, s) | Some p \<Rightarrow> install_unmounted I p s)
                   else install_unmounted I path s)
            (\<lambda>(result, s). Ok (result, log_text [if result = INSTALL_SUCCESS then CHR ''1'' else CHR ''0'', newline] s)))"

definition ADB_SIDELOAD_FILENAME :: string where "ADB_SIDELOAD_FILENAME = ''/tmp/update.zip''"

text \<open>\<^verbatim>\<open>chosen\<close> is what the menu returned, negative when the sideload thread cancelled it; \<^verbatim>\<open>status\<close> is how the
  sideload process ended, which the thread reports.\<close>

definition sideload_package :: "'q inst_env \<Rightarrow> int \<Rightarrow> int \<Rightarrow> string \<Rightarrow> inst_state \<Rightarrow> (int \<times> inst_state) outcome" where
  "sideload_package I chosen status install_file s =
     (let s = show_ui (UiPrint (''Starting sideload...'' @ [newline])) s;
          s = (if \<not> WIFEXITED status \<or> WEXITSTATUS status \<noteq> 0
               then show_ui (UiPrint (''Sideload status '' @ print_int (WEXITSTATUS status) @ [newline])) s else s) in
      then_do
        (if chosen < 0 then
           (case sys_stat (ie_sys I) ADB_SIDELOAD_FILENAME (i_files s) of (st, w) \<Rightarrow>
              let s = on_files (\<lambda>_. w) s
              in if st = None then
                   Ok (INSTALL_ERROR, show_ui (UiPrint (if w_files w ADB_SIDELOAD_FILENAME = None then ''No package received.'' @ [newline]
                     else ''Error reading package:'' @ [newline] @ ''  '' @ ie_strerror I w @ [newline])) s)
                 else then_do (install_package I ADB_SIDELOAD_FILENAME install_file s) (\<lambda>(ret, s). Ok (ret, s)))
         else Ok (INSTALL_ERROR, show_ui (UiPrint (''Sideload cancelled.'' @ [newline])) s))
        (\<lambda>(ret, s). Ok (ret, on_files (sys_unlink (ie_sys I) ADB_SIDELOAD_FILENAME) s)))"

section \<open>Scripts with menus\<close>

text \<open>The shared memory between the recovery program and a script.\<close>

record interactive_struct =
  in_trigger :: int
  out_trigger :: int
  ia_header :: string
  ia_items :: "string list"
  ia_reply :: string

definition INTERACTIVE_TRIGGER_MENU :: int where "INTERACTIVE_TRIGGER_MENU = 1"
definition INTERACTIVE_TRIGGER_TEXT :: int where "INTERACTIVE_TRIGGER_TEXT = 2"

text \<open>The items up to the first empty one; the null pointer behind 20 items is written past the array.\<close>

definition menu_items :: "string list \<Rightarrow> string list outcome" where
  "menu_items items =
     (let is = takeWhile (\<lambda>i. i \<noteq> []) (take 20 items) in if length is \<ge> 20 then Inl OutOfBounds else Ok is)"

text \<open>The user: the item chosen from a menu, the answer to a question, and whether there is a keyboard.\<close>

record user =
  us_menu :: "string list \<Rightarrow> string list \<Rightarrow> int"
  us_input :: "string \<Rightarrow> string"
  us_qwerty :: bool

definition clear_request :: "interactive_struct \<Rightarrow> interactive_struct" where
  "clear_request m = m\<lparr> ia_header := [], ia_items := (ia_items m)[0 := []], in_trigger := 0 \<rparr>"

text \<open>The answer in the shared memory, and what appears on the screen.\<close>

definition handle_trigger :: "user \<Rightarrow> interactive_struct \<Rightarrow> (interactive_struct \<times> ui_event list) outcome" where
  "handle_trigger u m =
     (if in_trigger m = INTERACTIVE_TRIGGER_MENU then
        then_do (menu_items (ia_items m)) (\<lambda>items.
          Ok ((clear_request m)\<lparr> ia_reply := [], out_trigger := us_menu u [ia_header m, '' ''] items + 1 \<rparr>, []))
      else if in_trigger m = INTERACTIVE_TRIGGER_TEXT \<and> us_qwerty u then
        Ok ((clear_request m)\<lparr> ia_reply := take 49 (us_input u (ia_header m)), out_trigger := 1 \<rparr>, [])
      else Ok ((clear_request m)\<lparr> ia_reply := [], out_trigger := 1 \<rparr>,
               [UiPrint (''E:Interactive input - invalid switch '' @ print_int (in_trigger m) @ ''.'' @ [newline])]))"

text \<open>One round of the loop, as the script drives it: what it has put into the shared memory, the reads, and whether
  it has ended.\<close>

datatype rd = Got string | Again | ReadError

record poll =
  po_shared :: "interactive_struct option"
  po_before :: rd
  po_read :: rd
  po_done :: bool
  po_last :: rd

definition show_read :: "rd \<Rightarrow> ui_event list \<Rightarrow> ui_event list" where
  "show_read r ui = (case r of Got s \<Rightarrow> ui @ [UiRaw (c_str (take 1024 s))] | _ \<Rightarrow> ui)"

definition round_start :: "user \<Rightarrow> poll \<Rightarrow> ui_event list \<Rightarrow> (ui_event list \<times> interactive_struct option) outcome" where
  "round_start u p ui =
     (case po_shared p of
        None \<Rightarrow> Ok (ui, None)
      | Some m \<Rightarrow>
          if in_trigger m \<noteq> 0 then then_do (handle_trigger u m) (\<lambda>(m, es). Ok (show_read (po_before p) ui @ es, Some m))
          else Ok (ui, Some m))"

text \<open>The loop; the result is the screen and the replies, \<^const>\<open>None\<close> while the script runs on.\<close>

fun shell_loop ::
  "user \<Rightarrow> poll list \<Rightarrow> ui_event list \<Rightarrow> interactive_struct option list \<Rightarrow>
     (ui_event list \<times> interactive_struct option list) option outcome" where
  "shell_loop u [] ui replies = Ok None"
| "shell_loop u (p # ps) ui replies =
     then_do (round_start u p ui) (\<lambda>(ui, m).
       case po_read p of
         Got s \<Rightarrow> shell_loop u ps (show_read (Got s) ui) (replies @ [m])
       | Again \<Rightarrow>
           if po_done p then Ok (Some (show_read (po_last p) ui, replies @ [m]))
           else shell_loop u ps ui (replies @ [m])
       | ReadError \<Rightarrow> Ok (Some (ui, replies @ [m])))"

section \<open>Lines of a text\<close>

fun lines_of_text :: "string \<Rightarrow> string list" where
  "lines_of_text [] = [[]]"
| "lines_of_text (c # cs) =
     (if c = newline then [] # lines_of_text cs
      else case lines_of_text cs of [] \<Rightarrow> [[c]] | l # ls \<Rightarrow> (c # l) # ls)"

text \<open>The lines that are not empty.\<close>

definition text_lines :: "string \<Rightarrow> string list" where
  "text_lines s = filter (\<lambda>l. l \<noteq> []) (lines_of_text s)"

lemma lines_of_one: "newline \<notin> set l \<Longrightarrow> lines_of_text l = [l]"
  by (induction l) auto

lemma lines_of_first: "newline \<notin> set l \<Longrightarrow> lines_of_text (l @ newline # r) = l # lines_of_text r"
  by (induction l) auto

lemma text_lines_skip: "text_lines (dropWhile (\<lambda>c. c = newline) s) = text_lines s"
  by (induction s) (auto simp: text_lines_def)

lemma text_lines_tok:
  assumes "strtok newline s = Some (l, r)"
  shows "text_lines s = l # text_lines r" "newline \<notin> set l" "l \<noteq> []"
proof -
  let ?s = "dropWhile (\<lambda>c. c = newline) s"
  have s: "?s \<noteq> []" "l = takeWhile (\<lambda>c. c \<noteq> newline) ?s" "r = drop 1 (dropWhile (\<lambda>c. c \<noteq> newline) ?s)"
    using assms by (auto simp: strtok_def Let_def split: if_split_asm)
  show nl: "newline \<notin> set l" using s(2) set_takeWhileD by fastforce
  have "hd ?s \<noteq> newline" using s(1) hd_dropWhile[of "\<lambda>c. c = newline" s] by blast
  then show ne: "l \<noteq> []" using s(1,2) by (cases ?s) auto
  show "text_lines s = l # text_lines r"
  proof (cases "dropWhile (\<lambda>c. c \<noteq> newline) ?s")
    case Nil
    have "?s = l" using takeWhile_dropWhile_id[of "\<lambda>c. c \<noteq> newline" ?s] unfolding Nil s(2)[symmetric] append_Nil2 by (rule sym)
    have "r = []" unfolding s(3) Nil by simp
    have "text_lines s = text_lines l" using text_lines_skip[of s] unfolding \<open>?s = l\<close> by (rule sym)
    then show ?thesis using nl ne \<open>r = []\<close> by (simp add: text_lines_def lines_of_one)
  next
    case (Cons c cs)
    then have "c = newline" using hd_dropWhile[of "\<lambda>c. c \<noteq> newline" ?s] by auto
    then have "?s = l @ newline # r" using takeWhile_dropWhile_id[of "\<lambda>c. c \<noteq> newline" ?s] unfolding s(2)[symmetric] s(3) Cons by simp
    have "text_lines s = text_lines (l @ newline # r)" using text_lines_skip[of s] unfolding \<open>?s = l @ newline # r\<close> by (rule sym)
    then show ?thesis using ne lines_of_first[OF nl, of r] by (simp add: text_lines_def)
  qed
qed

lemma text_lines_no_tok:
  assumes "strtok newline s = None"
  shows "text_lines s = []"
proof -
  have d: "dropWhile (\<lambda>c. c = newline) s = []" using assms by (simp add: strtok_def Let_def split: if_split_asm)
  show ?thesis using text_lines_skip[of s] unfolding d by (simp add: text_lines_def)
qed

text \<open>What \<^verbatim>\<open>print_lines\<close> sends.\<close>

definition print_command :: "string \<Rightarrow> string" where
  "print_command l = ''ui_print '' @ l @ [newline]"

lemma send_pipe [simp]: "cmd_pipe (cookie (send t st)) = cmd_pipe (cookie st) @ t @ [newline]"
  by (simp add: send_def)

lemma print_lines_pipe:
  "cmd_pipe (cookie (print_lines s st)) = cmd_pipe (cookie st) @ concat (map print_command (text_lines s))"
proof (induction s st rule: print_lines.induct)
  case (1 s st)
  show ?case
  proof (cases "strtok newline s")
    case None
    then show ?thesis by (subst print_lines.simps) (simp add: text_lines_no_tok)
  next
    case (Some p)
    obtain l r where p: "p = (l, r)" by (cases p)
    show ?thesis using 1[OF Some p[symmetric]] text_lines_tok(1)[OF Some[unfolded p]]
      by (subst print_lines.simps) (simp add: Some p print_command_def[of l])
  qed
qed

section \<open>Commands arrive\<close>

lemma fgets_line:
  assumes "newline \<notin> set l" "Suc (length l) < n"
  shows "fgets n (l @ newline # r) = Some (l @ [newline], r)"
proof -
  have t: "takeWhile (\<lambda>c. c \<noteq> newline) (l @ newline # r) = l"
    using assms(1) by (subst takeWhile_append2) auto
  show ?thesis using assms(2) by (simp add: fgets_def Let_def t)
qed

lemma c_str_all: "nul_free s \<Longrightarrow> c_str s = s"
  by (auto simp: c_str_def nul_free_def takeWhile_eq_all_conv)

lemma do_command_print:
  assumes "l \<noteq> []" "newline \<notin> set l" "nul_free l" "e = [] \<or> e = [newline]"
  shows "do_command (''ui_print '' @ l @ e) c = Ok (show_ui (UiPrint l) c)"
proof -
  have "nul_free (''ui_print '' @ l @ e)" using assms(3,4) by auto
  then have n: "c_str (''ui_print '' @ l @ e) = ''ui_print '' @ l @ e" by (rule c_str_all)
  have a: "strtok_any blank_or_nl (''ui_print '' @ l @ e) = Some (''ui_print'', l @ e)" by (simp add: strtok_any_def)
  have "hd l \<noteq> newline" using assms(1,2) hd_in_set by metis
  then have d: "dropWhile (\<lambda>c. c = newline) (l @ e) = l @ e" using assms(1) by (cases l) auto
  have t: "takeWhile (\<lambda>c. c \<noteq> newline) (l @ e) = l"
    using assms(2,4) by (subst takeWhile_append2) auto
  have b: "\<exists>x. strtok_any [newline] (l @ e) = Some (l, x)" using assms(1) d t by (simp add: strtok_any_def Let_def)
  then show ?thesis using n a by (auto simp: do_command_def)
qed

lemma do_command_newline: "do_command (''ui_print'' @ [newline]) c = Ok (show_ui (UiPrint [newline]) c)"
  by (simp add: do_command_def c_str_def strtok_any_def)

definition short_line :: "string \<Rightarrow> bool" where
  "short_line l \<longleftrightarrow> l \<noteq> [] \<and> newline \<notin> set l \<and> nul_free l \<and> length l \<le> 1013"

section \<open>The channel between the two programs\<close>

text \<open>What one program puts into a pipe line by line, the other obeys line by line.\<close>

locale command_channel =
  fixes pipe_of :: "'s \<Rightarrow> string" and put :: "string \<Rightarrow> 's \<Rightarrow> 's" and obey :: "string \<Rightarrow> 'c \<Rightarrow> 'c outcome"
    and act :: "string \<Rightarrow> 'c \<Rightarrow> 'c" and fits :: "string \<Rightarrow> bool"
  assumes put: "pipe_of (put l s) = pipe_of s @ l @ [newline]"
    and obey: "fits l \<Longrightarrow> obey (l @ newline # t) c = obey t (act l c)"
begin

lemma put_lines: "pipe_of (fold put ls s) = pipe_of s @ concat (map (\<lambda>l. l @ [newline]) ls)"
  by (induction ls arbitrary: s) (simp_all add: put)

lemma obey_lines: "list_all fits ls \<Longrightarrow> obey (concat (map (\<lambda>l. l @ [newline]) ls) @ t) c = obey t (fold act ls c)"
  by (induction ls arbitrary: c) (simp_all add: obey)

end

definition carry_out :: "string \<Rightarrow> cmd_state \<Rightarrow> cmd_state" where
  "carry_out l c = (case do_command (l @ [newline]) c of Inl _ \<Rightarrow> c | Inr d \<Rightarrow> d)"

text \<open>A line that fits into the buffer and does not crash the recovery program.\<close>

definition whole_command :: "string \<Rightarrow> bool" where
  "whole_command l \<longleftrightarrow> newline \<notin> set l \<and> length l \<le> 1022 \<and> (\<forall>c. do_command (l @ [newline]) c = Ok (carry_out l c))"

interpretation updater_pipe: command_channel "\<lambda>st. cmd_pipe (cookie st)" send command_loop carry_out whole_command
proof
  show "command_loop (l @ newline # t) c = command_loop t (carry_out l c)" if "whole_command l" for l t c
    using that fgets_line[of l 1024 t] by (subst command_loop.simps) (simp add: whole_command_def)
qed simp

lemma print_is_command: "short_line l \<Longrightarrow> carry_out (''ui_print '' @ l) c = show_ui (UiPrint l) c \<and> whole_command (''ui_print '' @ l)"
  using do_command_print[of l "[newline]"] by (auto simp: short_line_def carry_out_def whole_command_def)

lemma newline_is_command: "carry_out ''ui_print'' c = show_ui (UiPrint [newline]) c \<and> whole_command ''ui_print''"
  using do_command_newline by (auto simp: carry_out_def whole_command_def)

lemma command_loop_prints:
  assumes "list_all short_line ls"
  shows "command_loop (concat (map print_command ls) @ t) c = command_loop t (c\<lparr> cs_ui := cs_ui c @ map UiPrint ls \<rparr>)"
proof -
  let ?cs = "map ((@) ''ui_print '') ls"
  have "concat (map print_command ls) = concat (map (\<lambda>l. l @ [newline]) ?cs)" by (simp add: print_command_def[abs_def] comp_def)
  moreover have "list_all whole_command ?cs" using assms print_is_command by (auto simp: list_all_iff)
  moreover have "fold carry_out ?cs c = c\<lparr> cs_ui := cs_ui c @ map UiPrint ls \<rparr>"
    using assms by (induction ls arbitrary: c) (simp_all add: print_is_command show_ui_def del: append.simps)
  ultimately show ?thesis using updater_pipe.obey_lines[of ?cs t c] by presburger
qed

lemma command_loop_end: "command_loop [] c = Ok c"
  by (subst command_loop.simps) (simp add: fgets_def)

lemma command_loop_newline: "command_loop (''ui_print'' @ newline # t) c = command_loop t (show_ui (UiPrint [newline]) c)"
  using updater_pipe.obey[of "''ui_print''" t c] newline_is_command by simp

lemma text_lines_set: "l \<in> set (text_lines s) \<Longrightarrow> l \<noteq> [] \<and> newline \<notin> set l \<and> set l \<subseteq> set s"
proof -
  have "\<forall>l \<in> set (lines_of_text s). newline \<notin> set l \<and> set l \<subseteq> set s"
    by (induction s) (auto split: list.split)
  then show "l \<in> set (text_lines s) \<Longrightarrow> l \<noteq> [] \<and> newline \<notin> set l \<and> set l \<subseteq> set s" by (auto simp: text_lines_def)
qed

text \<open>
  C14: what a script prints is shown: the update program sends the text of \<^verbatim>\<open>ui_print\<close> line by line through the
  pipe, and the recovery program takes from the pipe exactly the lines of the text that are not
  empty, and a line end, as long as no line is longer than 1013 characters.
\<close>

theorem ui_print_shown:
  assumes "nul_free (concat args)" "\<forall>l \<in> set (text_lines (concat args)). length l \<le> 1013"
  shows "\<exists>v st' t. UIPrintFn U name st (map lit args) = Ok (v, st') \<and> cmd_pipe (cookie st') = cmd_pipe (cookie st) @ t \<and>
    command_loop t c = Ok (c\<lparr> cs_ui := cs_ui c @ map UiPrint (text_lines (concat args)) @ [UiPrint [newline]] \<rparr>)"
proof -
  let ?ls = "text_lines (concat args)"
  let ?st' = "send ''ui_print'' (print_lines (concat args) st)" and ?t = "concat (map print_command ?ls) @ ''ui_print'' @ [newline]"
  have "list_all short_line ?ls"
    using assms text_lines_set[of _ "concat args"] by (fastforce simp: list_all_iff short_line_def nul_free_def)
  from command_loop_prints[OF this, of "''ui_print'' @ [newline]" c]
  have "command_loop ?t c = Ok (c\<lparr> cs_ui := cs_ui c @ map UiPrint ?ls @ [UiPrint [newline]] \<rparr>)"
    using command_loop_newline[of "[]" "c\<lparr> cs_ui := cs_ui c @ map UiPrint ?ls \<rparr>"] by (simp add: command_loop_end show_ui_def)
  moreover have "UIPrintFn U name st (map lit args) = Ok (StringValue (Some (cut_at_line (concat args))), ?st')"
    by (simp add: UIPrintFn_def unless_null_def give_def Let_def)
  moreover have "cmd_pipe (cookie ?st') = cmd_pipe (cookie st) @ ?t" by (simp add: print_lines_pipe)
  ultimately show ?thesis by blast
qed

text \<open>
  C34: a longer line is not only cut: the buffer of the recovery program ends in the middle of it, and the
  rest is taken for a command. So a text to be printed can make the recovery program wipe the cache.
\<close>

theorem ui_print_injects_command:
  assumes "length x = 1014" "newline \<notin> set x" "nul_free x"
  shows "\<exists>v st' t c'. UIPrintFn U name st [lit (x @ ''wipe_cache'')] = Ok (v, st') \<and>
    cmd_pipe (cookie st') = cmd_pipe (cookie st) @ t \<and> command_loop t c = Ok c' \<and> cs_wipe c' = 1"
proof -
  let ?y = "x @ ''wipe_cache''" and ?st' = "send ''ui_print'' (print_lines (x @ ''wipe_cache'') st)"
  have nl: "newline \<notin> set ?y" using assms(2) by simp
  have xs: "x \<noteq> []" using assms(1) by auto
  have ls: "text_lines ?y = [?y]" using lines_of_one[OF nl] by (simp add: text_lines_def)
  let ?t = "print_command ?y @ ''ui_print'' @ [newline]"
  have p: "cmd_pipe (cookie ?st') = cmd_pipe (cookie st) @ ?t" by (simp add: print_lines_pipe ls)
  have call: "UIPrintFn U name st [lit ?y] = Ok (StringValue (Some (cut_at_line ?y)), ?st')"
    using ReadVarArgs_lits[of st "[?y]"] by (simp add: UIPrintFn_def unless_null_def give_def Let_def)
  have f: "fgets 1024 ?t = Some (''ui_print '' @ x, ''wipe_cache'' @ newline # ''ui_print'' @ [newline])"
    using assms(1,2) by (simp add: fgets_def Let_def print_command_def takeWhile_append)
  have w: "do_command (''wipe_cache'' @ [newline]) d = Ok (d\<lparr> cs_wipe := 1 \<rparr>)" for d
    by (simp add: do_command_def c_str_def strtok_any_def)
  have "command_loop ?t c = command_loop (''ui_print'' @ [newline]) ((show_ui (UiPrint x) c)\<lparr> cs_wipe := 1 \<rparr>)"
    using f do_command_print[OF xs assms(2,3), of "[]"] w fgets_line[of "''wipe_cache''" 1024 "''ui_print'' @ [newline]"]
    by (subst command_loop.simps, simp, subst command_loop.simps, simp)
  then show ?thesis using call p command_loop_newline[of "[]"] by (simp add: command_loop_end show_ui_def)
qed

section \<open>Copies of the package\<close>

lemma copy_loop_appends:
  assumes "w_files w p = Some i" "copy_loop sys p xs w = (True, w')"
  shows "\<exists>ys. prefix ys xs \<and> (no_failures sys \<longrightarrow> ys = xs) \<and> w_files w' = (w_files w)(p \<mapsto> i\<lparr> i_data := i_data i @ ys \<rparr>)"
  using assms
proof (induction sys p xs w arbitrary: i rule: copy_loop.induct)
  case (1 sys p xs w)
  obtain b w1 where b: "sys_fread sys BUFSIZ xs w = (b, w1)" by force
  have f: "w_files w1 = w_files w" "prefix b xs" "no_failures sys \<Longrightarrow> b = [] \<Longrightarrow> xs = []"
    using b by (auto simp: sys_fread_def tick_def take_is_prefix no_failures_def call_fails_def BUFSIZ_def)
  show ?case
  proof (cases "b = []")
    case True
    then have "w' = w1" using "1.prems"(2) b by (simp add: copy_loop.simps[of sys p xs])
    then show ?thesis using f True "1.prems"(1) by (intro exI[of _ "[]"]) auto
  next
    case False
    obtain ok w2 where p: "sys_fput sys p b w1 = (ok, w2)" by force
    have ok: "ok" and l: "copy_loop sys p (drop (length b) xs) w2 = (True, w')"
      using "1.prems"(2) b p False by (auto simp: copy_loop.simps[of sys p xs] split: if_split_asm)
    have w2: "w_files w2 = (w_files w)(p \<mapsto> i\<lparr> i_data := i_data i @ b \<rparr>)"
      using p ok f(1) "1.prems"(1) by (auto simp: sys_fput_def Let_def append_data_def tick_def split: if_split_asm)
    then have "w_files w2 p = Some (i\<lparr> i_data := i_data i @ b \<rparr>)" by simp
    from "1.IH"[OF b[symmetric] False p[symmetric] _ this l] ok obtain ys where
      ys: "prefix ys (drop (length b) xs)" "no_failures sys \<longrightarrow> ys = drop (length b) xs"
        "w_files w' = (w_files w2)(p \<mapsto> i\<lparr> i_data := (i_data i @ b) @ ys \<rparr>)" by (auto simp del: fun_upd_apply append_assoc)
    have "xs = b @ drop (length b) xs" using f(2) by (auto simp: prefix_def)
    then have "prefix (b @ ys) xs" "no_failures sys \<longrightarrow> b @ ys = xs" using ys(1,2) same_prefix_prefix[of b] by metis+
    then show ?thesis using ys(3) w2 by (intro exI[of _ "b @ ys"]) auto
  qed
qed

text \<open>
  C35: where a package is copied before it is installed, a copy that is reported as made is
  a new file that only root can read, begins like the package and changes no other file; it is the
  whole package if no call fails. A failing read is taken for the end, so that nothing more holds in general.
\<close>

theorem copy_file_exact:
  assumes "copy_file sys strerror path w = (Inr p, w')" "w_files w path = Some i" "plain_path w PACKAGE_COPY" "path \<noteq> PACKAGE_COPY"
  shows "p = PACKAGE_COPY \<and> (\<exists>j. w_files w' = (w_files w)(PACKAGE_COPY \<mapsto> j) \<and> i_mode j = 256 \<and> prefix (i_data j) (i_data i) \<and>
    (no_failures sys \<longrightarrow> i_data j = i_data i))"
proof -
  have [simp]: "w_files (tick v) = w_files v" for v by (simp add: tick_def)
  let ?j = "overwrite (case w_files w PACKAGE_COPY of None \<Rightarrow> new_file | Some k \<Rightarrow> k) []"
  obtain w1 w2 where c: "copy_loop sys PACKAGE_COPY (i_data i) w1 = (True, w2)" "w_files w1 = (w_files w)(PACKAGE_COPY \<mapsto> ?j)"
    and p: "p = PACKAGE_COPY" "w_files w' = (w_files w2)(PACKAGE_COPY := map_option (\<lambda>i. i\<lparr> i_mode := 256 \<rparr>) (w_files w2 PACKAGE_COPY))"
    using assms(1,2) by (auto simp: copy_file_def Let_def sys_fopen_read_def sys_fopen_write_def sys_fclose_def sys_chmod_def set_meta_def
        split: if_split_asm prod.split_asm option.split_asm)
  have j: "i_data ?j = []" using assms(3) by (auto simp: overwrite_def plain_path_def new_file_def split: option.split)
  have "w_files w1 PACKAGE_COPY = Some ?j" using c(2) by simp
  from copy_loop_appends[OF this c(1)] obtain ys where ys: "prefix ys (i_data i)" "no_failures sys \<longrightarrow> ys = i_data i"
    "w_files w2 = (w_files w1)(PACKAGE_COPY \<mapsto> ?j\<lparr> i_data := i_data ?j @ ys \<rparr>)" by blast
  have "w_files w' = (w_files w)(PACKAGE_COPY \<mapsto> ?j\<lparr> i_data := ys, i_mode := 256 \<rparr>)"
    using p(2) ys(3) c(2) j by simp
  then show ?thesis using p(1) ys(1,2) by auto
qed

section \<open>A package is installed\<close>

definition line_ended :: "string \<Rightarrow> bool" where
  "line_ended p \<longleftrightarrow> p = [] \<or> last p = newline"

lemma command_loop_append:
  "line_ended p \<Longrightarrow> command_loop (p @ t) c = then_do (command_loop p c) (\<lambda>c. command_loop t c)"
proof (induction "length p" arbitrary: p c rule: less_induct)
  case less
  show ?case
  proof (cases "p = []")
    case True
    then show ?thesis by (simp add: command_loop_end)
  next
    case False
    then have nl: "newline \<in> set p" using less.prems last_in_set[of p] by (auto simp: line_ended_def)
    obtain b r where f: "fgets 1024 p = Some (b, r)" using False by (auto simp: fgets_def Let_def)
    have t: "takeWhile (\<lambda>c. c \<noteq> newline) (p @ t) = takeWhile (\<lambda>c. c \<noteq> newline) p" using nl by (auto simp: takeWhile_append)
    have l: "length (takeWhile (\<lambda>c. c \<noteq> newline) p) < length p"
      using nl takeWhile_eq_all_conv[of "\<lambda>c. c \<noteq> newline" p] length_takeWhile_le[of "\<lambda>c. c \<noteq> newline" p] takeWhile_eq_take[of "\<lambda>c. c \<noteq> newline" p]
      by (metis le_neq_implies_less take_all_iff)
    define g where "g = take 1023 (takeWhile (\<lambda>c. c \<noteq> newline) p @ [newline])"
    have "fgets 1024 p = Some (g, drop (length g) p)" "fgets 1024 (p @ t) = Some (g, drop (length g) (p @ t))"
      using False l unfolding fgets_def Let_def t by (simp_all add: g_def[symmetric] del: take_append)
    moreover have "length g \<le> length p" using l by (simp add: g_def del: take_append)
    ultimately have b: "b = g" "r = drop (length b) p" and ft: "fgets 1024 (p @ t) = Some (b, r @ t)" using f by auto
    have "line_ended r" using less.prems b(2) by (cases "length b < length p") (auto simp: line_ended_def)
    have "length r < length p" using fgets_shorter[OF f] .
    note IH = less.hyps[OF this \<open>line_ended r\<close>]
    show ?thesis
      by (cases "do_command b c") (simp_all add: command_loop.simps[of "p @ t"] command_loop.simps[of p] f ft IH)
  qed
qed

text \<open>What the screen shows at the end of a script that aborted.\<close>

definition abort_shown :: "string option \<Rightarrow> ui_event list" where
  "abort_shown msg = (case msg of
     None \<Rightarrow> [UiPrint ''script aborted (no error message)'']
   | Some m \<Rightarrow> map UiPrint (text_lines m) @ [UiPrint [newline]])"


text \<open>How the child is the update program: it runs on the files, and ends with the exit code of \<^verbatim>\<open>main\<close>.\<close>

definition child_runs :: "('z, 's, 'd, 'c, 'q, 'e) main_env \<Rightarrow> 'p inst_env \<Rightarrow> bool" where
  "child_runs E I \<longleftrightarrow> (\<forall>argv w code pipe s'. argv \<noteq> [] \<and> hd argv = DEFAULT_UPDATE_BINARY_NAME \<and>
     updater_main E argv \<lparr> vs_table = [], vs_mounts = None, vs_kernel = w \<rparr> = Ok (code, pipe, s') \<longrightarrow>
     ie_child I argv w = (pipe, 256 * (code mod 256), vs_kernel s'))"

lemma report_shown:
  assumes "line_ended (cmd_pipe (cookie st))" "command_loop (cmd_pipe (cookie st)) c = Ok c1"
    "case errmsg st of None \<Rightarrow> True | Some m \<Rightarrow> nul_free m \<and> list_all (\<lambda>l. length l \<le> 1013) (text_lines m)"
  shows "command_loop (cmd_pipe (cookie (snd (report r st)))) c =
    Ok (c1\<lparr> cs_ui := cs_ui c1 @ (if r = None then abort_shown (errmsg st) else []) \<rparr>)"
proof (cases r)
  case None
  show ?thesis
  proof (cases "errmsg st")
    case None
    let ?m = "''script aborted (no error message)''"
    have "command_loop (print_command ?m) c1 = Ok (show_ui (UiPrint ?m) c1)"
      using command_loop_prints[of "[?m]" "[]" c1] by (simp add: short_line_def nul_free_def command_loop_end show_ui_def)
    then show ?thesis using assms(1,2) None \<open>r = None\<close>
      by (simp add: report_def command_loop_append abort_shown_def show_ui_def print_command_def)
  next
    case (Some m)
    have "list_all short_line (text_lines m)"
      using assms(3) Some text_lines_set[of _ m] by (fastforce simp: list_all_iff short_line_def nul_free_def)
    from command_loop_prints[OF this, of "''ui_print'' @ [newline]" c1]
    show ?thesis using assms(1,2) Some \<open>r = None\<close> command_loop_newline[of "[]"]
      by (simp add: report_def print_lines_pipe command_loop_append abort_shown_def show_ui_def command_loop_end)
  qed
qed (use assms in \<open>simp add: report_def\<close>)


section \<open>The properties on examples\<close>

theorem ui_print_shown_witness:
  "\<exists>v st' t. UIPrintFn demo_upd ''ui_print'' demo_upd_state (map lit [''hi'' @ [newline], ''you'']) = Ok (v, st') \<and>
     cmd_pipe (cookie st') = cmd_pipe (cookie demo_upd_state) @ t \<and>
     command_loop t \<lparr> cs_ui = [], cs_wipe = 0 \<rparr> = Ok \<lparr> cs_ui = [UiPrint ''hi'', UiPrint ''you'', UiPrint [newline]], cs_wipe = 0 \<rparr>"
proof -
  let ?a = "[''hi'' @ [newline], ''you'']"
  have l: "text_lines (concat ?a) = [''hi'', ''you'']" by (simp add: text_lines_def)
  have ev: "map UiPrint [''hi'', ''you''] @ [UiPrint [newline]] = [UiPrint ''hi'', UiPrint ''you'', UiPrint [newline]]" by simp
  have "nul_free (concat ?a)" by (simp add: nul_free_def)
  moreover have "\<forall>l \<in> set (text_lines (concat ?a)). length l \<le> 1013" unfolding l by simp
  ultimately show ?thesis using ui_print_shown[of ?a demo_upd "''ui_print''" demo_upd_state "\<lparr> cs_ui = [], cs_wipe = 0 \<rparr>"]
    unfolding l ev by (simp del: concat.simps list.map)
qed

theorem ui_print_injects_command_witness:
  "\<exists>v st' t c'. UIPrintFn demo_upd ''ui_print'' demo_upd_state [lit (replicate 1014 CHR ''x'' @ ''wipe_cache'')] = Ok (v, st') \<and>
     cmd_pipe (cookie st') = cmd_pipe (cookie demo_upd_state) @ t \<and>
     command_loop t \<lparr> cs_ui = [], cs_wipe = 0 \<rparr> = Ok c' \<and> cs_wipe c' = 1"
  by (rule ui_print_injects_command) (simp_all add: nul_free_def)

definition package_files :: world where
  "package_files = \<lparr> w_files = [''/sdcard/u.zip'' \<mapsto> new_file\<lparr> i_data := [80, 75] \<rparr>], w_tick = 0 \<rparr>"

theorem copy_file_exact_witness:
  "\<exists>w' j. copy_file full_sys (\<lambda>_. []) ''/sdcard/u.zip'' package_files = (Inr PACKAGE_COPY, w') \<and>
     w_files w' PACKAGE_COPY = Some j \<and> i_mode j = 256 \<and> i_data j = [80, 75]"
proof -
  have n: "no_failures full_sys" by (simp add: no_failures_def full_sys_def)
  obtain w' where w': "copy_file full_sys (\<lambda>_. []) ''/sdcard/u.zip'' package_files = (Inr PACKAGE_COPY, w')"
    by (auto simp: copy_file_def copy_loop.simps sys_fopen_read_def sys_fopen_write_def sys_fclose_def sys_chmod_def sys_fread_def sys_fput_def
        call_fails_def full_sys_def package_files_def BUFSIZ_def append_data_def tick_def Let_def PACKAGE_COPY_def set_meta_def)
  then show ?thesis using copy_file_exact[OF w', of "new_file\<lparr> i_data := [80, 75] \<rparr>"] n
    by (auto simp: package_files_def plain_path_def PACKAGE_COPY_def)
qed

definition demo_inst :: "nat inst_env" where
  "demo_inst = \<lparr> ie_vols = still_kernel, ie_dirs = kernel.truncate flat_kernel, ie_sys = full_sys, ie_zip = demo_env, ie_zlib = demo_lib, ie_calloc = \<lambda>_. True,
     ie_child = \<lambda>argv w. (case updater_main demo_main argv \<lparr> vs_table = [], vs_mounts = None, vs_kernel = w \<rparr> of
       Inl _ \<Rightarrow> ([], 11, w) | Inr (code, pipe, s') \<Rightarrow> (pipe, 256 * (code mod 256), vs_kernel s')),
     ie_version = ''3'', ie_fd = ''5'', ie_external = False, ie_eexist = False, ie_is_dir = True, ie_malloc = True, ie_strerror = \<lambda>_. [] \<rparr>"

definition demo_inst_state :: inst_state where
  "demo_inst_state = \<lparr> cs_ui = [], cs_wipe = 0, is_rec = \<lparr> vs_table = [], vs_mounts = None, vs_kernel = demo_files \<rparr> \<rparr>"


end
