(* ===== verification/Console.thy ===== *)
theory Console
  imports Install_Package
begin

text \<open>
  The console, \<^verbatim>\<open>src/console.c\<close>: a terminal emulator on a matrix of 1024 rows that the screen is a
  window of. Output of the shell is printed character by character, with escape sequences for the
  cursor, clearing and colours. The matrix is a function of row and column, and every access to it is
  checked. The blinking of the cursor, the threads and the drawing of pixels are left out; drawing the
  console gives the lines it draws.
\<close>

section \<open>Colours\<close>

record color =
  cl_r :: u8
  cl_g :: u8
  cl_b :: u8
  cl_a :: u8

text \<open>The colours a property file can set: \<^verbatim>\<open>console_header_color\<close>, \<^verbatim>\<open>console_background_color\<close>,
  \<^verbatim>\<open>console_front_color\<close> and \<^verbatim>\<open>console_term_colors\<close>.\<close>

record palette =
  pal_header :: color
  pal_background :: color
  pal_front :: color
  pal_term :: "color list"

definition rgb :: "u8 \<Rightarrow> u8 \<Rightarrow> u8 \<Rightarrow> color" where
  "rgb x y z = \<lparr> cl_r = x, cl_g = y, cl_b = z, cl_a = 0 \<rparr>"

definition default_palette :: palette where
  "default_palette = \<lparr> pal_header = rgb 255 255 0, pal_background = rgb 0 0 0, pal_front = rgb 229 229 229,
     pal_term = [rgb 0 0 0, rgb 205 0 0, rgb 0 205 0, rgb 205 205 0, rgb 0 0 238, rgb 205 0 205, rgb 0 205 205, rgb 229 229 229,
       rgb 127 127 127, rgb 255 0 0, rgb 0 255 0, rgb 255 255 0, rgb 92 91 255, rgb 255 0 255, rgb 0 255 255, rgb 255 255 255] \<rparr>"

section \<open>The state\<close>

definition CONSOLE_MATRIX_TOTAL_ROWS :: int where "CONSOLE_MATRIX_TOTAL_ROWS = 1024"
definition CONSOLE_MATRIX_BUFFER_ROWS :: int where "CONSOLE_MATRIX_BUFFER_ROWS = 64"
definition CONSOLE_MATRIX_TOTAL_COLUMNS :: int where "CONSOLE_MATRIX_TOTAL_COLUMNS = 128"
definition CONSOLE_BEEP :: char where "CONSOLE_BEEP = CHR 0x07"
definition CONSOLE_ESC :: char where "CONSOLE_ESC = CHR 0x1B"

lemmas console_sizes [simp] = CONSOLE_MATRIX_TOTAL_ROWS_def CONSOLE_MATRIX_BUFFER_ROWS_def CONSOLE_MATRIX_TOTAL_COLUMNS_def

text \<open>\<^verbatim>\<open>con_force\<close> and \<^verbatim>\<open>con_reserve\<close> are \<^verbatim>\<open>console_force_top_row_on_text\<close> and \<^verbatim>\<open>console_force_top_row_reserve\<close>;
  \<^verbatim>\<open>con_buffer\<close> is \<^verbatim>\<open>console_escaped_buffer\<close> up to \<^verbatim>\<open>console_escaped_sequence\<close>.\<close>

record console =
  con_pal :: palette
  con_text :: "int \<Rightarrow> int \<Rightarrow> char"
  con_color :: "int \<Rightarrow> int \<Rightarrow> color"
  con_rows :: int
  con_columns :: int
  con_top :: int
  con_force :: int
  con_reserve :: int
  con_row :: int
  con_column :: int
  con_current :: color
  con_escaped :: bool
  con_buffer :: string

definition cell_in :: "int \<Rightarrow> int \<Rightarrow> bool" where
  "cell_in i j \<longleftrightarrow> 0 \<le> i \<and> i < CONSOLE_MATRIX_TOTAL_ROWS \<and> 0 \<le> j \<and> j < CONSOLE_MATRIX_TOTAL_COLUMNS"

text \<open>A loop that writes blanks to the columns from \<^verbatim>\<open>a\<close> on and before \<^verbatim>\<open>b\<close> of a row; it may clear the
  colours too.\<close>

definition blank_text :: "int \<Rightarrow> int \<Rightarrow> int \<Rightarrow> console \<Rightarrow> console outcome" where
  "blank_text i a b s =
     (if a < b \<and> \<not> (cell_in i a \<and> cell_in i (b - 1)) then Inl OutOfBounds
      else Ok (s\<lparr> con_text := (\<lambda>k j. if k = i \<and> a \<le> j \<and> j < b then CHR '' '' else con_text s k j) \<rparr>))"

definition blank_cells :: "int \<Rightarrow> int \<Rightarrow> int \<Rightarrow> console \<Rightarrow> console outcome" where
  "blank_cells i a b s =
     then_do (blank_text i a b s) (\<lambda>s. Ok (s\<lparr> con_color :=
       (\<lambda>k j. if k = i \<and> a \<le> j \<and> j < b then (con_color s k j)\<lparr> cl_r := 0, cl_g := 0, cl_b := 0 \<rparr> else con_color s k j) \<rparr>))"

text \<open>The columns in use must fit into a row.\<close>

definition columns_fit :: "console \<Rightarrow> bool" where
  "columns_fit s \<longleftrightarrow> 1 \<le> con_columns s \<and> con_columns s \<le> CONSOLE_MATRIX_TOTAL_COLUMNS"

text \<open>The loop that empties the rows from \<^verbatim>\<open>a\<close> on.\<close>

definition clear_rows :: "int \<Rightarrow> console \<Rightarrow> console outcome" where
  "clear_rows a s =
     (if a < CONSOLE_MATRIX_TOTAL_ROWS \<and> \<not> (0 \<le> a \<and> columns_fit s) then Inl OutOfBounds
      else Ok (s\<lparr> con_text := (\<lambda>i j. if a \<le> i \<and> i < CONSOLE_MATRIX_TOTAL_ROWS \<and> 0 \<le> j \<and> j < con_columns s
                               then if j = con_columns s - 1 then CHR 0x00 else CHR '' '' else con_text s i j),
                con_color := (\<lambda>i j. if a \<le> i \<and> i < CONSOLE_MATRIX_TOTAL_ROWS \<and> 0 \<le> j \<and> j < con_columns s
                                then rgb 0 0 0 else con_color s i j) \<rparr>))"

definition shift_rows :: "console \<Rightarrow> console outcome" where
  "shift_rows s =
     (let moved = (\<lambda>i j. 0 \<le> i \<and> i < CONSOLE_MATRIX_TOTAL_ROWS - CONSOLE_MATRIX_BUFFER_ROWS \<and> 0 \<le> j \<and> j < con_columns s)
      in if \<not> columns_fit s then Inl OutOfBounds
         else clear_rows (CONSOLE_MATRIX_TOTAL_ROWS - CONSOLE_MATRIX_BUFFER_ROWS)
           (s\<lparr> con_text := (\<lambda>i j. con_text s (if moved i j then i + CONSOLE_MATRIX_BUFFER_ROWS else i) j),
               con_color := (\<lambda>i j. con_color s (if moved i j then i + CONSOLE_MATRIX_BUFFER_ROWS else i) j) \<rparr>))"

section \<open>Characters\<close>

definition next_row :: "console \<Rightarrow> console" where
  "next_row s = s\<lparr> con_row := con_row s + 1, con_reserve := con_reserve s + 1 \<rparr>"

text \<open>The \<^verbatim>\<open>switch\<close>.\<close>

definition place_char :: "char \<Rightarrow> console \<Rightarrow> console outcome" where
  "place_char c s =
     (if c = newline then Ok (next_row s)
      else if c = CHR 0x0D then Ok (s\<lparr> con_column := 0 \<rparr>)
      else if c = CHR 0x09 then
        (let end = con_column s + (5 - con_column s mod 5)
         in if end \<ge> con_columns s - 2 then
              then_do (blank_text (con_row s) (con_column s) (con_columns s - 1) s) (\<lambda>s. Ok (next_row (s\<lparr> con_column := 0 \<rparr>)))
            else then_do (blank_text (con_row s) (con_column s) end s) (\<lambda>s. Ok (s\<lparr> con_column := end \<rparr>)))
      else if c = CHR 0x08 then
        (if con_column s = 0 then
           if con_row s = 0 then Ok s else Ok (s\<lparr> con_column := con_columns s - 2, con_row := con_row s - 1 \<rparr>)
         else Ok (s\<lparr> con_column := con_column s - 1 \<rparr>))
      else if c = CONSOLE_BEEP then Ok s
      else if \<not> cell_in (con_row s) (con_column s) then Inl OutOfBounds
      else
        let s = s\<lparr> con_text := (\<lambda>i j. if i = con_row s \<and> j = con_column s then c else con_text s i j),
                  con_color := (\<lambda>i j. if i = con_row s \<and> j = con_column s then con_current s else con_color s i j),
                  con_column := con_column s + 1 \<rparr>
        in Ok (if con_column s > con_columns s - 2 then next_row (s\<lparr> con_column := 0 \<rparr>) else s))"

definition scroll_matrix :: "console \<Rightarrow> console outcome" where
  "scroll_matrix s =
     (if con_row s = CONSOLE_MATRIX_TOTAL_ROWS then
        then_do (shift_rows s) (\<lambda>s. Ok (s\<lparr> con_row := con_row s - CONSOLE_MATRIX_BUFFER_ROWS,
          con_force := max 0 (con_force s - CONSOLE_MATRIX_BUFFER_ROWS) \<rparr>))
      else Ok s)"

definition console_put_char :: "char \<Rightarrow> console \<Rightarrow> console outcome" where
  "console_put_char c s = then_do (place_char c s) scroll_matrix"

fun put_all :: "string \<Rightarrow> console \<Rightarrow> console outcome" where
  "put_all [] s = Ok s"
| "put_all (c # cs) s = then_do (console_put_char c s) (\<lambda>s. put_all cs s)"

section \<open>Colours of the text\<close>

definition ui_console_set_front_color :: "u8 \<Rightarrow> u8 \<Rightarrow> u8 \<Rightarrow> console \<Rightarrow> console" where
  "ui_console_set_front_color x y z s = s\<lparr> con_current := (con_current s)\<lparr> cl_r := x, cl_g := y, cl_b := z \<rparr> \<rparr>"

text \<open>The index into \<^verbatim>\<open>console_term_colors\<close>: the last colour of each half cannot be chosen.\<close>

definition console_set_front_term_color :: "int \<Rightarrow> console \<Rightarrow> console" where
  "console_set_front_term_color ascii_code s =
     (let pick = (\<lambda>k. let c = pal_term (con_pal s) ! nat k in ui_console_set_front_color (cl_r c) (cl_g c) (cl_b c) s)
      in if 30 \<le> ascii_code \<and> ascii_code < 37 then pick (ascii_code - 30)
         else if 90 \<le> ascii_code \<and> ascii_code < 97 then pick (ascii_code - 90 + 8)
         else s)"

definition CONSOLE_HEADER_COLOR :: int where "CONSOLE_HEADER_COLOR = 0"
definition CONSOLE_DEFAULT_BACKGROUND_COLOR :: int where "CONSOLE_DEFAULT_BACKGROUND_COLOR = 1"
definition CONSOLE_DEFAULT_FRONT_COLOR :: int where "CONSOLE_DEFAULT_FRONT_COLOR = 2"

definition ui_console_set_system_front_color :: "int \<Rightarrow> console \<Rightarrow> console" where
  "ui_console_set_system_front_color which s =
     (if which = CONSOLE_HEADER_COLOR then s\<lparr> con_current := pal_header (con_pal s) \<rparr>
      else if which = CONSOLE_DEFAULT_BACKGROUND_COLOR then s\<lparr> con_current := pal_background (con_pal s) \<rparr>
      else if which = CONSOLE_DEFAULT_FRONT_COLOR then s\<lparr> con_current := pal_front (con_pal s) \<rparr>
      else s)"

definition color_code :: "int \<Rightarrow> console \<Rightarrow> console" where
  "color_code p s =
     (if p = 0 \<or> p = 39 then ui_console_set_system_front_color CONSOLE_DEFAULT_FRONT_COLOR s
      else if 30 \<le> p \<and> p \<le> 37 \<or> 90 \<le> p \<and> p \<le> 97 then console_set_front_term_color p s
      else s)"

section \<open>Escape sequences\<close>

record escape =
  es_square :: nat
  es_left :: nat
  es_right :: nat
  es_question :: nat
  es_params :: "int list"
  es_n :: nat
  es_argument :: char

definition no_escape :: escape where
  "no_escape = \<lparr> es_square = 0, es_left = 0, es_right = 0, es_question = 0, es_params = replicate 32 0, es_n = 0,
     es_argument = CHR 0x00 \<rparr>"

text \<open>The parsing loop: numbers may overflow, and the array has 32 of them.\<close>

fun parse_escape :: "string \<Rightarrow> escape \<Rightarrow> escape outcome" where
  "parse_escape [] e = Ok e"
| "parse_escape (c # cs) e =
     (if c = CHR ''['' then parse_escape cs (e\<lparr> es_square := es_square e + 1 \<rparr>)
      else if c = CHR ''('' then parse_escape cs (e\<lparr> es_left := es_left e + 1 \<rparr>)
      else if c = CHR '')'' then parse_escape cs (e\<lparr> es_right := es_right e + 1 \<rparr>)
      else if c = CHR ''?'' then parse_escape cs (e\<lparr> es_question := es_question e + 1 \<rparr>)
      else if c = CHR '';'' then parse_escape cs (e\<lparr> es_n := es_n e + 1 \<rparr>)
      else if is_digit c then
        if es_n e \<ge> 32 then Inl OutOfBounds
        else then_do (c_int (es_params e ! es_n e * 10)) (\<lambda>v. then_do (c_int (v + digit_val c)) (\<lambda>v.
          parse_escape cs (e\<lparr> es_params := (es_params e)[es_n e := v] \<rparr>)))
      else Ok (e\<lparr> es_argument := c \<rparr>))"

definition sync_reserve :: "int \<Rightarrow> console \<Rightarrow> console" where
  "sync_reserve first s = s\<lparr> con_reserve := 1 - (first + con_rows s - con_row s) \<rparr>"

definition move_up :: "int \<Rightarrow> console \<Rightarrow> console outcome" where
  "move_up p s =
     then_do (c_int (con_row s - p)) (\<lambda>row. Ok (sync_reserve (con_force s) (s\<lparr> con_row := (if con_force s > row then con_force s else row) \<rparr>)))"

definition move_down :: "int \<Rightarrow> console \<Rightarrow> console outcome" where
  "move_down p s =
     then_do (c_int (con_row s + p)) (\<lambda>row. Ok (sync_reserve (con_force s) (s\<lparr> con_row :=
       (if row \<ge> con_force s + con_rows s then con_force s + con_rows s - 1 else row) \<rparr>)))"

definition move_to :: "int \<Rightarrow> int \<Rightarrow> console \<Rightarrow> console" where
  "move_to p q s =
     (let p = (if p \<ge> con_rows s then con_rows s - 1 else p); q = (if q \<ge> con_columns s - 1 then con_columns s - 2 else q)
      in sync_reserve (con_top s) (s\<lparr> con_row := con_top s + p, con_column := q, con_force := con_top s \<rparr>))"

definition clear_line :: "int \<Rightarrow> console \<Rightarrow> console outcome" where
  "clear_line p s =
     (if p = 0 then blank_cells (con_row s) (con_column s) (con_columns s - 1) s
      else if p = 1 then blank_cells (con_row s) 0 (con_column s + 1) s
      else if p = 2 then blank_cells (con_row s) 0 (con_columns s - 1) s
      else Ok s)"

text \<open>The \<^verbatim>\<open>switch\<close> over the argument; \<^const>\<open>None\<close> if the sequence is not known.\<close>

definition escape_action :: "escape \<Rightarrow> console \<Rightarrow> console outcome option" where
  "escape_action e s =
     (let p = es_params e ! 0; c = es_argument e in
      if c = CHR ''A'' then Some (move_up p s)
      else if c = CHR ''B'' then Some (move_down p s)
      else if c = CHR ''C'' then
        Some (then_do (c_int (con_column s + p)) (\<lambda>col. Ok (s\<lparr> con_column := (if col \<ge> con_columns s - 1 then con_columns s - 2 else col) \<rparr>)))
      else if c = CHR ''D'' then
        Some (then_do (c_int (con_column s - p)) (\<lambda>col. Ok (s\<lparr> con_column := (if col < 0 then 0 else col) \<rparr>)))
      else if c = CHR ''H'' then Some (Ok (move_to p (es_params e ! 1) s))
      else if c = CHR ''J'' then
        Some (then_do (blank_cells (con_row s) (con_column s) (con_columns s - 1) s) (\<lambda>s. clear_rows (con_row s + 1) s))
      else if c = CHR ''K'' then Some (clear_line p s)
      else if c = CHR ''m'' then Some (Ok (fold color_code (take (es_n e + 1) (es_params e)) s))
      else None)"

definition console_unescape :: "console \<Rightarrow> console outcome" where
  "console_unescape s =
     then_do (parse_escape (con_buffer s) no_escape) (\<lambda>e.
       if es_n e + 1 > 32 then Inl OutOfBounds
       else case (if es_square e = 1 \<and> es_left e = 0 \<and> es_right e = 0 \<and> es_question e = 0 then escape_action e s else None) of
         Some r \<Rightarrow> r
       | None \<Rightarrow> put_all (CHR ''^'' # con_buffer s) s)"

definition is_inter :: "char \<Rightarrow> bool" where
  "is_inter c \<longleftrightarrow> c \<in> {CHR ''['', CHR ''('', CHR ''?'', CHR '')'', CHR '';''} \<or> is_digit c"

definition console_put_escape_sequence :: "char \<Rightarrow> console \<Rightarrow> console outcome" where
  "console_put_escape_sequence c s =
     (if length (con_buffer s) \<ge> 64 then Inl OutOfBounds
      else
        let s = s\<lparr> con_buffer := con_buffer s @ [c] \<rparr>
        in if is_inter c then Ok s
           else if length (con_buffer s) \<ge> 64 then Inl OutOfBounds
           else then_do (console_unescape s) (\<lambda>s. Ok (s\<lparr> con_escaped := False \<rparr>)))"

section \<open>Drawing\<close>

text \<open>The characters of a row up to the NUL.\<close>

definition console_line :: "int \<Rightarrow> console \<Rightarrow> string outcome" where
  "console_line i s =
     (let row = map (\<lambda>j. con_text s i (int j)) [0..<128]
      in if \<not> cell_in i 0 \<or> CHR 0x00 \<notin> set row then Inl OutOfBounds else Ok (takeWhile (\<lambda>c. c \<noteq> CHR 0x00) row))"

text \<open>The loop over \<^verbatim>\<open>n\<close> more rows: the lines, and whether the row of the cursor is among them.\<close>

fun draw_rows :: "nat \<Rightarrow> int \<Rightarrow> console \<Rightarrow> (string list \<times> bool) outcome" where
  "draw_rows 0 i s = Ok ([], False)"
| "draw_rows (Suc n) i s =
     then_do (console_line i s) (\<lambda>l.
       if i = con_row s then Ok ([l], True)
       else then_do (draw_rows n (i + 1) s) (\<lambda>(ls, cursor). Ok (l # ls, cursor)))"

definition draw_console_locked :: "console \<Rightarrow> (string list \<times> (int \<times> int \<times> char) option) outcome" where
  "draw_console_locked s =
     then_do (draw_rows (nat (con_rows s)) (con_top s) s) (\<lambda>(ls, cursor).
       if cursor then
         if \<not> cell_in (con_row s) (con_column s) then Inl OutOfBounds
         else Ok (ls, Some (con_row s - con_top s, con_column s, con_text s (con_row s) (con_column s)))
       else Ok (ls, None))"

definition redraw :: "console \<Rightarrow> console outcome" where
  "redraw s = then_do (draw_console_locked s) (\<lambda>_. Ok s)"

section \<open>Printing and scrolling\<close>

definition console_input :: "char \<Rightarrow> console \<Rightarrow> console outcome" where
  "console_input c s =
     (if c = CONSOLE_ESC then Ok (s\<lparr> con_escaped := True, con_buffer := [] \<rparr>)
      else if \<not> con_escaped s then console_put_char c s
      else console_put_escape_sequence c s)"

fun print_loop :: "string \<Rightarrow> console \<Rightarrow> console outcome" where
  "print_loop [] s = Ok s"
| "print_loop (c # cs) s = then_do (console_input c s) (\<lambda>s. print_loop cs s)"

definition follow_text :: "console \<Rightarrow> console" where
  "follow_text s =
     (let s = (if con_reserve s > 0 then s\<lparr> con_force := con_force s + con_reserve s, con_reserve := 0 \<rparr> else s)
      in s\<lparr> con_top := max 0 (con_force s) \<rparr>)"

definition ui_console_print :: "string \<Rightarrow> console \<Rightarrow> console outcome" where
  "ui_console_print txt s = then_do (print_loop (c_str txt) s) (\<lambda>s. redraw (follow_text s))"

definition ui_console_scroll_up :: "int \<Rightarrow> console \<Rightarrow> console outcome" where
  "ui_console_scroll_up num_rows s =
     redraw (s\<lparr> con_top := (if con_top s - num_rows < 0 then 0 else con_top s - num_rows) \<rparr>)"

definition ui_console_scroll_down :: "int \<Rightarrow> console \<Rightarrow> console outcome" where
  "ui_console_scroll_down num_rows s =
     (let max_row_top = max 0 (max (con_force s) (con_row s - con_rows s + 1))
      in redraw (s\<lparr> con_top := (if con_top s + num_rows > max_row_top then max_row_top else con_top s + num_rows) \<rparr>))"

text \<open>The size of the screen in pixels (the console is turned) and of a character. The matrix is cleared
  as if its rows were as long as those of the screen.\<close>

definition ui_console_begin :: "int \<Rightarrow> int \<Rightarrow> int \<Rightarrow> int \<Rightarrow> console \<Rightarrow> console outcome" where
  "ui_console_begin fb_width fb_height char_width char_height s =
     (let rows = fb_width div char_height; columns = fb_height div char_width + 1;
          cleared = (\<lambda>i j. 0 \<le> i \<and> 0 \<le> j \<and> j < CONSOLE_MATRIX_TOTAL_COLUMNS \<and>
                       i * CONSOLE_MATRIX_TOTAL_COLUMNS + j < CONSOLE_MATRIX_TOTAL_ROWS * columns)
      in if columns > CONSOLE_MATRIX_TOTAL_COLUMNS then Inl OutOfBounds
         else redraw (s\<lparr> con_top := 0, con_row := 0, con_column := 0, con_escaped := False, con_rows := rows, con_columns := columns,
           con_force := 0, con_reserve := 1 - rows,
           con_text := (\<lambda>i j. if 0 \<le> i \<and> i < CONSOLE_MATRIX_TOTAL_ROWS \<and> j = columns - 1 then CHR 0x00
                              else if cleared i j then CHR '' '' else con_text s i j),
           con_color := (\<lambda>i j. if cleared i j then rgb 0 0 0 else con_color s i j),
           con_current := pal_front (con_pal s) \<rparr>))"

end
