(* ===== verification/Console_Safety.thy ===== *)
theory Console_Safety
  imports Console
begin

text \<open>
  What the console promises: in a session the cursor and the window stay inside the matrix, and text is shown
  where the cursor was; and a sequence of backspaces and line feeds for which that fails.
\<close>

section \<open>The cursor stays on the screen\<close>

text \<open>What every step keeps: the cursor is in the matrix, every row ends, the window on the text and the
  window shown are in the matrix, and \<^verbatim>\<open>con_reserve\<close> is how far the cursor is below the window.\<close>

definition console_in :: "console \<Rightarrow> bool" where
  "console_in s \<longleftrightarrow> 2 \<le> con_columns s \<and> con_columns s \<le> 128 \<and> 1 \<le> con_rows s \<and>
     0 \<le> con_column s \<and> con_column s \<le> con_columns s - 2 \<and> 0 \<le> con_row s \<and> con_row s < 1024 \<and>
     0 \<le> con_force s \<and> con_force s + con_rows s \<le> 1024 \<and> 0 \<le> con_top s \<and> con_top s + con_rows s \<le> 1024 \<and>
     (\<forall>i. 0 \<le> i \<and> i < 1024 \<longrightarrow> con_text s i (con_columns s - 1) = CHR 0x00)"

definition in_step :: "console \<Rightarrow> bool" where
  "in_step s \<longleftrightarrow> con_reserve s = con_row s - con_force s - con_rows s + 1"

text \<open>What escape sequences and characters leave alone.\<close>

definition same_screen :: "console \<Rightarrow> console \<Rightarrow> bool" where
  "same_screen s s' \<longleftrightarrow> con_rows s' = con_rows s \<and> con_top s' = con_top s \<and> con_buffer s' = con_buffer s \<and> con_escaped s' = con_escaped s"

lemma same_screen_refl [simp]: "same_screen s s" by (simp add: same_screen_def)

lemma same_screen_trans: "\<lbrakk>same_screen a b; same_screen b c\<rbrakk> \<Longrightarrow> same_screen a c" by (simp add: same_screen_def)

lemma place_char_in:
  assumes "console_in s" "in_step s" "c \<noteq> CHR 0x08"
  shows "\<exists>s'. place_char c s = Ok s' \<and> con_row s \<le> con_row s' \<and> con_row s' \<le> con_row s + 1 \<and> in_step s' \<and>
    console_in (s'\<lparr> con_row := con_row s \<rparr>) \<and> same_screen s s' \<and> con_force s' = con_force s"
proof -
  have m: "0 \<le> con_column s mod 5" "con_column s mod 5 < 5" by simp_all
  show ?thesis using assms m
    by (auto simp: place_char_def console_in_def in_step_def next_row_def blank_text_def cell_in_def Let_def same_screen_def)
qed

lemma shift_rows_in:
  assumes "console_in (s\<lparr> con_row := 0 \<rparr>)"
  shows "\<exists>s'. shift_rows s = Ok s' \<and> console_in (s'\<lparr> con_row := 0 \<rparr>) \<and> same_screen s s' \<and> con_row s' = con_row s \<and>
    con_force s' = con_force s \<and> con_reserve s' = con_reserve s"
  using assms by (auto simp: shift_rows_def clear_rows_def console_in_def columns_fit_def Let_def same_screen_def)

text \<open>A character moves the cursor at most one row on, and does not make the window jump as long as the window is not near
  the upper end when the cursor reaches the lower one.\<close>

lemma put_char_in:
  assumes "console_in s" "in_step s" "c \<noteq> CHR 0x08" "con_reserve s \<le> 960 - con_rows s"
  shows "\<exists>s'. console_put_char c s = Ok s' \<and> console_in s' \<and> in_step s' \<and> con_reserve s' \<le> con_reserve s + 1 \<and> same_screen s s'"
proof -
  obtain s1 where p: "place_char c s = Ok s1" "con_row s \<le> con_row s1" "con_row s1 \<le> con_row s + 1" "in_step s1"
    "console_in (s1\<lparr> con_row := con_row s \<rparr>)" "same_screen s s1" "con_force s1 = con_force s"
    using place_char_in[OF assms(1-3)] by blast
  have r: "con_reserve s1 \<le> con_reserve s + 1" using p(3,4,6,7) assms(2) by (simp add: in_step_def same_screen_def)
  show ?thesis
  proof (cases "con_row s1 = 1024")
    case True
    have "console_in (s1\<lparr> con_row := 0 \<rparr>)" using p(5) by (auto simp: console_in_def)
    from shift_rows_in[OF this] obtain s2 where s2: "shift_rows s1 = Ok s2" "console_in (s2\<lparr> con_row := 0 \<rparr>)" "same_screen s1 s2"
      "con_row s2 = con_row s1" "con_force s2 = con_force s1" "con_reserve s2 = con_reserve s1" by blast
    have "64 \<le> con_force s1" using p(4) True r assms(4) p(6) by (simp add: in_step_def same_screen_def)
    then show ?thesis using p(1,4) r s2 True same_screen_trans[OF p(6) s2(3)]
      by (auto simp: console_put_char_def scroll_matrix_def console_in_def in_step_def same_screen_def)
  next
    case False
    have "con_row s1 < 1024" "0 \<le> con_row s1" using p(2,3) False assms(1) by (auto simp: console_in_def)
    then have "console_in s1" using p(5) by (auto simp: console_in_def)
    then show ?thesis using p(1,4,6) r False by (simp add: console_put_char_def scroll_matrix_def)
  qed
qed

lemma put_all_in:
  assumes "console_in s" "in_step s" "CHR 0x08 \<notin> set cs" "con_reserve s + int (length cs) \<le> 961 - con_rows s"
  shows "\<exists>s'. put_all cs s = Ok s' \<and> console_in s' \<and> in_step s' \<and> con_reserve s' \<le> con_reserve s + int (length cs) \<and> same_screen s s'"
  using assms
proof (induction cs arbitrary: s)
  case (Cons c cs)
  have "c \<noteq> CHR 0x08" "con_reserve s \<le> 960 - con_rows s" using Cons.prems(3,4) by auto
  from put_char_in[OF Cons.prems(1,2) this] obtain s1 where s1: "console_put_char c s = Ok s1" "console_in s1" "in_step s1"
    "con_reserve s1 \<le> con_reserve s + 1" "same_screen s s1" by blast
  have "con_reserve s1 + int (length cs) \<le> 961 - con_rows s1" using s1(4,5) Cons.prems(4) by (simp add: same_screen_def)
  from Cons.IH[OF s1(2,3) _ this] Cons.prems(3) obtain s2 where "put_all cs s1 = Ok s2" "console_in s2" "in_step s2"
    "con_reserve s2 \<le> con_reserve s1 + int (length cs)" "same_screen s1 s2" by auto
  then show ?case using s1 same_screen_trans by fastforce
qed simp

section \<open>Escape sequences\<close>

lemma digit_val_range: "is_digit c \<Longrightarrow> 0 \<le> digit_val c \<and> digit_val c \<le> 9"
  by (simp add: is_digit_def digit_val_def)

text \<open>Numbers of at most nine digits.\<close>

lemma parse_escape_ok:
  assumes "length (es_params e) = 32" "\<forall>p \<in> set (es_params e). 0 \<le> p \<and> p < 10 ^ k" "es_n e \<le> k" "k + length (filter is_inter cs) \<le> 9"
  shows "\<exists>e'. parse_escape cs e = Ok e' \<and> length (es_params e') = 32 \<and> (\<forall>p \<in> set (es_params e'). 0 \<le> p \<and> p < 10 ^ 9) \<and> es_n e' \<le> 9"
  using assms
proof (induction cs arbitrary: e k)
  case Nil
  have "(10::int) ^ k \<le> 10 ^ 9" using Nil.prems(4) by (intro power_increasing) auto
  then show ?case using Nil.prems by force
next
  case (Cons c cs)
  have k: "is_inter c \<Longrightarrow> Suc k + length (filter is_inter cs) \<le> 9" using Cons.prems(4) by simp
  have grow: "(10::int) ^ k \<le> 10 ^ Suc k" by simp
  have up: "\<forall>p \<in> set (es_params e). 0 \<le> p \<and> p < 10 ^ Suc k" using Cons.prems(2) grow by fastforce
  show ?case
  proof (cases "is_digit c")
    case True
    let ?p = "es_params e ! es_n e" and ?e = "\<lambda>v. e\<lparr> es_params := (es_params e)[es_n e := v] \<rparr>"
    have inter: "is_inter c" using True by (simp add: is_inter_def)
    have k8: "k \<le> 8" using k[OF inter] by simp
    have n: "es_n e < 32" using Cons.prems(3) k8 by simp
    then have p: "0 \<le> ?p" "?p < 10 ^ k" using Cons.prems(1,2) by auto
    have d: "0 \<le> digit_val c" "digit_val c \<le> 9" using digit_val_range[OF True] by auto
    have "?p * 10 + digit_val c < 10 ^ Suc k" using p(2) d by simp
    moreover have "(10::int) ^ Suc k \<le> 10 ^ 9" using k8 by (intro power_increasing) auto
    ultimately have v: "0 \<le> ?p * 10 + digit_val c" "?p * 10 + digit_val c < 10 ^ Suc k" "?p * 10 + digit_val c < 10 ^ 9" using p d by auto
    have "\<forall>p \<in> set (es_params (?e (?p * 10 + digit_val c))). 0 \<le> p \<and> p < 10 ^ Suc k"
      using up v(1,2) set_update_subset_insert[of "es_params e" "es_n e"] by fastforce
    from Cons.IH[OF _ this] k[OF inter] Cons.prems(1,3)
    have "\<exists>e'. parse_escape cs (?e (?p * 10 + digit_val c)) = Ok e' \<and> length (es_params e') = 32 \<and> (\<forall>p \<in> set (es_params e'). 0 \<le> p \<and> p < 10 ^ 9) \<and> es_n e' \<le> 9"
      by simp
    moreover have "c \<noteq> CHR ''['' \<and> c \<noteq> CHR ''('' \<and> c \<noteq> CHR '')'' \<and> c \<noteq> CHR ''?'' \<and> c \<noteq> CHR '';''"
      using True by (auto simp: is_digit_def)
    moreover have "c_int (?p * 10) = Ok (?p * 10)" "c_int (?p * 10 + digit_val c) = Ok (?p * 10 + digit_val c)"
      using p(1) d v by (auto intro!: c_int_Ok)
    ultimately show ?thesis using True n by simp
  next
    case False
    note IH = Cons.IH[of _ "Suc k", OF _ _ _ k]
    show ?thesis
    proof (cases "is_inter c")
      case True
      then have "c = CHR ''['' \<or> c = CHR ''('' \<or> c = CHR '')'' \<or> c = CHR ''?'' \<or> c = CHR '';''" using False by (auto simp: is_inter_def)
      then show ?thesis using IH[OF _ _ _ True] up Cons.prems(1,3) by (elim disjE) simp_all
    next
      case no: False
      have "(10::int) ^ k \<le> 10 ^ 9" using Cons.prems(4) by (intro power_increasing) auto
      then have "\<forall>p \<in> set (es_params e). 0 \<le> p \<and> p < 10 ^ 9" using Cons.prems(2) by force
      then show ?thesis using False no Cons.prems by (auto simp: is_inter_def)
    qed
  qed
qed

lemma color_code_in:
  "console_in (color_code p s) = console_in s" "in_step (color_code p s) = in_step s" "con_reserve (color_code p s) = con_reserve s"
  "same_screen s (color_code p s)"
  by (simp_all add: color_code_def ui_console_set_system_front_color_def console_set_front_term_color_def ui_console_set_front_color_def
      console_in_def in_step_def same_screen_def Let_def)

lemma fold_color_in:
  "console_in (fold color_code ps s) = console_in s \<and> in_step (fold color_code ps s) = in_step s \<and>
     con_reserve (fold color_code ps s) = con_reserve s \<and> same_screen s (fold color_code ps s)"
  using same_screen_trans[OF color_code_in(4)] by (induction ps arbitrary: s) (auto simp: color_code_in)

lemma blank_cells_in:
  assumes "console_in s" "0 \<le> a" "b \<le> con_columns s - 1"
  shows "\<exists>s'. blank_cells (con_row s) a b s = Ok s' \<and> console_in s' \<and> in_step s' = in_step s \<and> con_reserve s' = con_reserve s \<and> same_screen s s'"
  using assms by (auto simp: blank_cells_def blank_text_def console_in_def in_step_def same_screen_def cell_in_def)

lemma clear_rows_in:
  assumes "console_in s"
  shows "\<exists>s'. clear_rows (con_row s + 1) s = Ok s' \<and> console_in s' \<and> in_step s' = in_step s \<and> con_reserve s' = con_reserve s \<and> same_screen s s'"
  using assms by (auto simp: clear_rows_def console_in_def columns_fit_def in_step_def same_screen_def)

lemma escape_action_in:
  assumes "console_in s" "in_step s" "length (es_params e) = 32" "\<forall>p \<in> set (es_params e). 0 \<le> p \<and> p < 10 ^ 9" "escape_action e s = Some r"
  shows "\<exists>s'. r = Ok s' \<and> console_in s' \<and> in_step s' \<and> con_reserve s' \<le> max 0 (con_reserve s) \<and> same_screen s s'"
proof -
  have p: "0 \<le> es_params e ! 0" "es_params e ! 0 < 10 ^ 9" "0 \<le> es_params e ! 1" "es_params e ! 1 < 10 ^ 9"
    using assms(3,4) by (auto intro: nth_mem)
  consider (A) "r = move_up (es_params e ! 0) s" | (B) "r = move_down (es_params e ! 0) s"
    | (C) "r = then_do (c_int (con_column s + es_params e ! 0)) (\<lambda>col. Ok (s\<lparr> con_column := (if col \<ge> con_columns s - 1 then con_columns s - 2 else col) \<rparr>))"
    | (D) "r = then_do (c_int (con_column s - es_params e ! 0)) (\<lambda>col. Ok (s\<lparr> con_column := (if col < 0 then 0 else col) \<rparr>))"
    | (H) "r = Ok (move_to (es_params e ! 0) (es_params e ! 1) s)"
    | (J) "r = then_do (blank_cells (con_row s) (con_column s) (con_columns s - 1) s) (\<lambda>s. clear_rows (con_row s + 1) s)"
    | (K) "r = clear_line (es_params e ! 0) s" | (m) "r = Ok (fold color_code (take (es_n e + 1) (es_params e)) s)"
    using assms(5) by (auto simp: escape_action_def Let_def split: if_split_asm)
  then show ?thesis
  proof cases
    case A
    have "c_int (con_row s - es_params e ! 0) = Ok (con_row s - es_params e ! 0)" using p assms(1) by (intro c_int_Ok) (auto simp: console_in_def)
    then show ?thesis using A p assms(1,2) by (auto simp: move_up_def console_in_def in_step_def sync_reserve_def same_screen_def)
  next
    case B
    have "c_int (con_row s + es_params e ! 0) = Ok (con_row s + es_params e ! 0)" using p assms(1) by (intro c_int_Ok) (auto simp: console_in_def)
    then show ?thesis using B p assms(1,2) by (auto simp: move_down_def console_in_def in_step_def sync_reserve_def same_screen_def)
  next
    case C
    have "c_int (con_column s + es_params e ! 0) = Ok (con_column s + es_params e ! 0)" using p assms(1) by (intro c_int_Ok) (auto simp: console_in_def)
    then show ?thesis using C p assms(1,2) by (auto simp: console_in_def in_step_def same_screen_def)
  next
    case D
    have "c_int (con_column s - es_params e ! 0) = Ok (con_column s - es_params e ! 0)" using p assms(1) by (intro c_int_Ok) (auto simp: console_in_def)
    then show ?thesis using D p assms(1,2) by (auto simp: console_in_def in_step_def same_screen_def)
  next
    case H
    then show ?thesis using p assms(1,2) by (auto simp: move_to_def console_in_def in_step_def sync_reserve_def same_screen_def Let_def)
  next
    case J
    have c: "0 \<le> con_column s" using assms(1) by (simp add: console_in_def)
    obtain s1 where s1: "blank_cells (con_row s) (con_column s) (con_columns s - 1) s = Ok s1" "console_in s1" "in_step s1 = in_step s"
      "con_reserve s1 = con_reserve s" "same_screen s s1"
      using blank_cells_in[OF assms(1) c, of "con_columns s - 1"] by auto
    then show ?thesis using J clear_rows_in[OF s1(2)] assms(2) same_screen_trans[OF s1(5)] by fastforce
  next
    case K
    have c: "0 \<le> con_column s" "con_column s + 1 \<le> con_columns s - 1" using assms(1) by (auto simp: console_in_def)
    show ?thesis
      using K assms(1,2) blank_cells_in[OF assms(1), of "con_column s" "con_columns s - 1"] blank_cells_in[OF assms(1), of 0 "con_column s + 1"]
        blank_cells_in[OF assms(1), of 0 "con_columns s - 1"] c
      by (fastforce simp: clear_line_def)
  next
    case m
    then show ?thesis using fold_color_in[of "take (es_n e + 1) (es_params e)" s] assms(1,2) by auto
  qed
qed


definition inter_buffer :: "console \<Rightarrow> bool" where
  "inter_buffer s \<longleftrightarrow> (con_escaped s \<longrightarrow> length (con_buffer s) \<le> 9 \<and> list_all is_inter (con_buffer s))"

lemma inter_no_backspace: "list_all is_inter cs \<Longrightarrow> CHR 0x08 \<notin> set cs"
proof -
  have "\<not> is_inter (CHR 0x08)" by (simp add: is_inter_def is_digit_def)
  then show "list_all is_inter cs \<Longrightarrow> CHR 0x08 \<notin> set cs" by (auto simp: list_all_iff)
qed

lemma console_unescape_in:
  assumes "console_in s" "in_step s" "con_buffer s = cs @ [c]" "list_all is_inter cs" "length cs \<le> 9" "\<not> is_inter c" "c \<noteq> CHR 0x08"
    "con_reserve s + int (length cs) + 2 \<le> 961 - con_rows s"
  shows "\<exists>s'. console_unescape s = Ok s' \<and> console_in s' \<and> in_step s' \<and> con_reserve s' \<le> max 0 (con_reserve s + int (length cs) + 2) \<and> same_screen s s'"
proof -
  have "length (filter is_inter (cs @ [c])) \<le> 9" using assms(5,6) by (simp add: le_trans[OF length_filter_le])
  then obtain e where e: "parse_escape (con_buffer s) no_escape = Ok e" "length (es_params e) = 32"
    "\<forall>p \<in> set (es_params e). 0 \<le> p \<and> p < 10 ^ 9" "es_n e \<le> 9"
    using parse_escape_ok[of no_escape 0 "cs @ [c]"] assms(3) by (auto simp: no_escape_def)
  let ?a = "if es_square e = 1 \<and> es_left e = 0 \<and> es_right e = 0 \<and> es_question e = 0 then escape_action e s else None"
  show ?thesis
  proof (cases ?a)
    case None
    have "CHR 0x08 \<notin> set (CHR ''^'' # con_buffer s)" using assms(3,7) inter_no_backspace[OF assms(4)] by auto
    from put_all_in[OF assms(1,2) this] assms(3,8) None e(1,4) show ?thesis by (fastforce simp: console_unescape_def)
  next
    case (Some r)
    then have "escape_action e s = Some r" by (auto split: if_split_asm)
    from escape_action_in[OF assms(1,2) e(2,3) this] obtain s' where s': "r = Ok s'" "console_in s'" "in_step s'"
      "con_reserve s' \<le> max 0 (con_reserve s)" "same_screen s s'" by blast
    have "console_unescape s = Ok s'" using Some e(1,4) s'(1) by (simp add: console_unescape_def)
    then show ?thesis using s' by auto
  qed
qed

section \<open>A whole text\<close>

text \<open>Text without backspaces whose escape sequences have at most nine characters before the last; the argument is
  how much of a sequence has been read.\<close>

fun calm_text :: "nat option \<Rightarrow> string \<Rightarrow> bool" where
  "calm_text e [] \<longleftrightarrow> True"
| "calm_text e (c # cs) \<longleftrightarrow> c \<noteq> CHR 0x08 \<and>
     (if c = CONSOLE_ESC then calm_text (Some 0) cs
      else case e of None \<Rightarrow> calm_text None cs | Some n \<Rightarrow> if is_inter c then n < 9 \<and> calm_text (Some (Suc n)) cs else calm_text None cs)"

definition seen_escape :: "console \<Rightarrow> nat option" where
  "seen_escape s = (if con_escaped s then Some (length (con_buffer s)) else None)"

definition pending :: "console \<Rightarrow> int" where
  "pending s = con_reserve s + (if con_escaped s then int (length (con_buffer s)) + 1 else 0)"

lemma console_input_in:
  assumes "console_in s" "in_step s" "inter_buffer s" "calm_text (seen_escape s) (c # cs)" "pending s \<le> k" "0 \<le> k" "k + 1 \<le> 961 - con_rows s"
  shows "\<exists>s'. console_input c s = Ok s' \<and> console_in s' \<and> in_step s' \<and> inter_buffer s' \<and> calm_text (seen_escape s') cs \<and>
    pending s' \<le> k + 1 \<and> con_rows s' = con_rows s"
proof -
  have c: "c \<noteq> CHR 0x08" using assms(4) by simp
  show ?thesis
  proof (cases "c = CONSOLE_ESC")
    case True
    then show ?thesis using assms by (auto simp: console_input_def console_in_def in_step_def inter_buffer_def seen_escape_def pending_def split: if_split_asm)
  next
    case no_esc: False
    show ?thesis
    proof (cases "con_escaped s")
      case False
      have "con_reserve s \<le> 960 - con_rows s" using assms(5,7) False by (simp add: pending_def)
      from put_char_in[OF assms(1,2) c this] obtain s' where "console_put_char c s = Ok s'" "console_in s'" "in_step s'"
        "con_reserve s' \<le> con_reserve s + 1" "same_screen s s'" by blast
      then show ?thesis using no_esc False assms(4,5)
        by (auto simp: console_input_def inter_buffer_def seen_escape_def pending_def same_screen_def)
    next
      case True
      let ?b = "con_buffer s" and ?s = "s\<lparr> con_buffer := con_buffer s @ [c] \<rparr>"
      have b: "length ?b \<le> 9" "list_all is_inter ?b" using assms(3) True by (auto simp: inter_buffer_def)
      have p: "con_reserve s + int (length ?b) + 1 \<le> k" using assms(5) True by (simp add: pending_def)
      show ?thesis
      proof (cases "is_inter c")
        case True
        then have "console_input c s = Ok ?s" using no_esc b(1) \<open>con_escaped s\<close> by (simp add: console_input_def console_put_escape_sequence_def)
        then show ?thesis using True \<open>con_escaped s\<close> no_esc b p assms(1,2,4)
          by (auto simp: console_in_def in_step_def inter_buffer_def seen_escape_def pending_def)
      next
        case False
        have "console_in ?s" "in_step ?s" using assms(1,2) by (auto simp: console_in_def in_step_def)
        from console_unescape_in[OF this _ b(2,1) False c] p assms(7) obtain s' where s': "console_unescape ?s = Ok s'" "console_in s'" "in_step s'"
          "con_reserve s' \<le> max 0 (con_reserve s + int (length ?b) + 2)" "same_screen ?s s'" by auto
        have "console_input c s = Ok (s'\<lparr> con_escaped := False \<rparr>)"
          using no_esc b(1) \<open>con_escaped s\<close> False s'(1) by (simp add: console_input_def console_put_escape_sequence_def)
        then show ?thesis using s' no_esc False \<open>con_escaped s\<close> p assms(4,6)
          by (auto simp: console_in_def in_step_def inter_buffer_def seen_escape_def pending_def same_screen_def)
      qed
    qed
  qed
qed

lemma print_loop_in:
  assumes "console_in s" "in_step s" "inter_buffer s" "calm_text (seen_escape s) cs" "pending s \<le> k" "0 \<le> k" "k + int (length cs) \<le> 961 - con_rows s"
  shows "\<exists>s'. print_loop cs s = Ok s' \<and> console_in s' \<and> in_step s' \<and> inter_buffer s' \<and> con_rows s' = con_rows s"
  using assms
proof (induction cs arbitrary: s k)
  case (Cons c cs)
  have "k + 1 \<le> 961 - con_rows s" using Cons.prems(7) by simp
  from console_input_in[OF Cons.prems(1-6) this] obtain s1 where s1: "console_input c s = Ok s1" "console_in s1" "in_step s1" "inter_buffer s1"
    "calm_text (seen_escape s1) cs" "pending s1 \<le> k + 1" "con_rows s1 = con_rows s" by blast
  from Cons.IH[OF s1(2-6)] Cons.prems(6,7) s1(1,7) show ?case by auto
qed simp

section \<open>Drawing never leaves the matrix\<close>

lemma console_line_ok: "console_in s \<Longrightarrow> 0 \<le> i \<Longrightarrow> i < 1024 \<Longrightarrow> \<exists>l. console_line i s = Ok l"
proof -
  assume s: "console_in s" and i: "0 \<le> i" "i < 1024"
  let ?j = "nat (con_columns s - 1)"
  have "con_text s i (int ?j) = CHR 0x00" "?j < 128" using s i by (auto simp: console_in_def)
  then have "CHR 0x00 \<in> set (map (\<lambda>j. con_text s i (int j)) [0..<128])"
    unfolding set_map set_upt by (intro image_eqI[of _ _ ?j]) auto
  then show ?thesis using i by (simp add: console_line_def cell_in_def del: upt_rec_numeral)
qed

lemma draw_rows_ok:
  "console_in s \<Longrightarrow> 0 \<le> i \<Longrightarrow> i + int n \<le> 1024 \<Longrightarrow> \<exists>r. draw_rows n i s = Ok r"
proof (induction n arbitrary: i)
  case (Suc n)
  obtain l where l: "console_line i s = Ok l" using console_line_ok[OF Suc.prems(1,2)] Suc.prems(3) by auto
  obtain r where "draw_rows n (i + 1) s = Ok r" using Suc.IH[OF Suc.prems(1), of "i + 1"] Suc.prems by auto
  then show ?case using l by (cases r) auto
qed auto

lemma redraw_ok: "console_in s \<Longrightarrow> redraw s = Ok s"
proof -
  assume s: "console_in s"
  obtain r where r: "draw_rows (nat (con_rows s)) (con_top s) s = Ok r" using draw_rows_ok[OF s, of "con_top s" "nat (con_rows s)"] s by (auto simp: console_in_def)
  then show ?thesis using s by (cases r) (simp add: redraw_def draw_console_locked_def cell_in_def console_in_def)
qed

section \<open>Sessions\<close>

definition console_ready :: "console \<Rightarrow> bool" where
  "console_ready s \<longleftrightarrow> console_in s \<and> in_step s \<and> con_reserve s \<le> 0 \<and> inter_buffer s"

definition short_text :: "string \<Rightarrow> console \<Rightarrow> bool" where
  "short_text txt s \<longleftrightarrow> calm_text (seen_escape s) (c_str txt) \<and> int (length (c_str txt)) + con_rows s \<le> 951"

lemma follow_text_ready: "console_in s \<Longrightarrow> in_step s \<Longrightarrow> inter_buffer s \<Longrightarrow> console_ready (follow_text s)"
  by (auto simp: follow_text_def console_ready_def console_in_def in_step_def inter_buffer_def Let_def)

lemma console_print_ready:
  assumes "console_ready s" "short_text txt s"
  shows "\<exists>s'. ui_console_print txt s = Ok s' \<and> console_ready s'"
proof -
  have "pending s \<le> 10" using assms(1) by (auto simp: pending_def console_ready_def inter_buffer_def)
  then obtain s1 where s1: "print_loop (c_str txt) s = Ok s1" "console_in s1" "in_step s1" "inter_buffer s1"
    using print_loop_in[of s "c_str txt" 10] assms by (auto simp: console_ready_def short_text_def)
  have "console_ready (follow_text s1)" using follow_text_ready[OF s1(2-4)] .
  then show ?thesis using s1(1) redraw_ok[of "follow_text s1"] by (auto simp: ui_console_print_def console_ready_def)
qed

lemma scroll_ready:
  assumes "console_ready s" "0 \<le> n"
  shows "\<exists>s'. ui_console_scroll_up n s = Ok s' \<and> console_ready s'" "\<exists>s'. ui_console_scroll_down n s = Ok s' \<and> console_ready s'"
proof -
  have "console_ready (s\<lparr> con_top := (if con_top s - n < 0 then 0 else con_top s - n) \<rparr>)" (is "console_ready ?u")
    using assms by (auto simp: console_ready_def console_in_def in_step_def inter_buffer_def)
  then show "\<exists>s'. ui_console_scroll_up n s = Ok s' \<and> console_ready s'"
    using redraw_ok[of ?u] by (auto simp: ui_console_scroll_up_def console_ready_def)
  let ?m = "max 0 (max (con_force s) (con_row s - con_rows s + 1))"
  have "console_ready (s\<lparr> con_top := (if con_top s + n > ?m then ?m else con_top s + n) \<rparr>)" (is "console_ready ?d")
    using assms by (auto simp: console_ready_def console_in_def in_step_def inter_buffer_def)
  then show "\<exists>s'. ui_console_scroll_down n s = Ok s' \<and> console_ready s'"
    using redraw_ok[of ?d] by (simp add: ui_console_scroll_down_def console_ready_def Let_def)
qed

text \<open>The states of a console on a screen with between 1 and 1024 rows and at most 127 columns.\<close>

inductive console_session :: "console \<Rightarrow> bool" where
  begins: "\<lbrakk>ui_console_begin fb_w fb_h cw ch s0 = Ok s; 1 \<le> fb_w div ch; fb_w div ch \<le> 1024; 1 \<le> fb_h div cw; fb_h div cw \<le> 127\<rbrakk> \<Longrightarrow> console_session s"
| prints: "\<lbrakk>console_session s; short_text txt s; ui_console_print txt s = Ok s'\<rbrakk> \<Longrightarrow> console_session s'"
| scrolls_up: "\<lbrakk>console_session s; 0 \<le> n; ui_console_scroll_up n s = Ok s'\<rbrakk> \<Longrightarrow> console_session s'"
| scrolls_down: "\<lbrakk>console_session s; 0 \<le> n; ui_console_scroll_down n s = Ok s'\<rbrakk> \<Longrightarrow> console_session s'"
| colours: "console_session s \<Longrightarrow> console_session (ui_console_set_system_front_color which s)"

lemma begin_ready:
  assumes "ui_console_begin fb_w fb_h cw ch s0 = Ok s" "1 \<le> fb_w div ch" "fb_w div ch \<le> 1024" "1 \<le> fb_h div cw" "fb_h div cw \<le> 127"
  shows "console_ready s"
  using assms by (auto simp: ui_console_begin_def Let_def redraw_def console_ready_def console_in_def in_step_def inter_buffer_def
      elim!: then_do_Ok_E)

lemma session_ready: "console_session s \<Longrightarrow> console_ready s"
proof (induction rule: console_session.induct)
  case (prints s t s')
  then show ?case using console_print_ready[of s t] by auto
next
  case (scrolls_up s n s')
  then show ?case using scroll_ready(1)[of s n] by auto
next
  case (scrolls_down s n s')
  then show ?case using scroll_ready(2)[of s n] by auto
next
  case (colours s which)
  then show ?case by (auto simp: console_ready_def console_in_def in_step_def inter_buffer_def ui_console_set_system_front_color_def)
qed (rule begin_ready)

text \<open>
  C8: in a session of the console, whatever was printed and however it was scrolled, printing a text of at
  most 951 characters less the rows of the screen, without backspaces and with short escape sequences, and scrolling never
  leave the matrix or overflow, and afterwards the cursor is inside the matrix and at or above the last row of the window.
\<close>

theorem console_session_safe:
  assumes "console_session s"
  shows "console_ready s \<and> (\<forall>txt. short_text txt s \<longrightarrow> (\<exists>s'. ui_console_print txt s = Ok s')) \<and>
    (\<forall>n \<ge> 0. (\<exists>s'. ui_console_scroll_up n s = Ok s') \<and> (\<exists>s'. ui_console_scroll_down n s = Ok s'))"
  using session_ready[OF assms] console_print_ready scroll_ready by blast

section \<open>What is printed is on the screen\<close>

definition printable :: "char \<Rightarrow> bool" where
  "printable c \<longleftrightarrow> c \<notin> {CHR 0x00, CHR 0x07, CHR 0x08, CHR 0x09, CHR 0x0A, CHR 0x0D, CHR 0x1B}"

lemma print_loop_printable:
  assumes "list_all printable cs" "\<not> con_escaped s" "cell_in (con_row s) (con_column s)" "con_columns s \<le> 128"
    "con_column s + int (length cs) \<le> con_columns s - 2" "con_row s < 1024"
  shows "print_loop cs s = Ok (s\<lparr> con_column := con_column s + int (length cs),
     con_text := (\<lambda>i j. if i = con_row s \<and> con_column s \<le> j \<and> j < con_column s + int (length cs) then cs ! nat (j - con_column s) else con_text s i j),
     con_color := (\<lambda>i j. if i = con_row s \<and> con_column s \<le> j \<and> j < con_column s + int (length cs) then con_current s else con_color s i j) \<rparr>)"
  using assms
proof (induction cs arbitrary: s)
  case (Cons c cs)
  let ?s = "s\<lparr> con_text := (\<lambda>i j. if i = con_row s \<and> j = con_column s then c else con_text s i j),
      con_color := (\<lambda>i j. if i = con_row s \<and> j = con_column s then con_current s else con_color s i j), con_column := con_column s + 1 \<rparr>"
  have "console_input c s = Ok ?s"
    using Cons.prems by (simp add: console_input_def console_put_char_def place_char_def printable_def CONSOLE_BEEP_def CONSOLE_ESC_def
        scroll_matrix_def Let_def)
  moreover have "print_loop cs ?s = Ok (?s\<lparr> con_column := con_column ?s + int (length cs),
     con_text := (\<lambda>i j. if i = con_row ?s \<and> con_column ?s \<le> j \<and> j < con_column ?s + int (length cs) then cs ! nat (j - con_column ?s) else con_text ?s i j),
     con_color := (\<lambda>i j. if i = con_row ?s \<and> con_column ?s \<le> j \<and> j < con_column ?s + int (length cs) then con_current ?s else con_color ?s i j) \<rparr>)"
    using Cons.prems by (intro Cons.IH) (auto simp: cell_in_def)
  moreover have "cs ! nat (j - (con_column s + 1)) = (c # cs) ! nat (j - con_column s)" if "con_column s + 1 \<le> j" for j
  proof -
    have "nat (j - con_column s) = Suc (nat (j - (con_column s + 1)))" using that by linarith
    then show ?thesis by simp
  qed
  ultimately show ?case by (auto simp: fun_eq_iff intro!: console.equality)
qed (auto simp: fun_eq_iff intro!: console.equality)


section \<open>Backspaces push the window out of the matrix\<close>

text \<open>A backspace at the start of a row goes back to the row before, the line feed comes back from there and counts as a
  new row.\<close>

definition bounce :: string where
  "bounce = [CHR 0x08, CHR 0x0A, CHR 0x0D]"

lemma print_loop_append: "print_loop (xs @ ys) s = then_do (print_loop xs s) (\<lambda>s. print_loop ys s)"
  by (induction xs arbitrary: s) (auto simp: then_do_def split: sum.split)

lemma bounces:
  assumes "\<not> con_escaped s" "con_column s = 0" "0 < con_row s" "con_row s < 1024"
  shows "print_loop (concat (replicate n bounce)) s = Ok (s\<lparr> con_reserve := con_reserve s + int n \<rparr>)"
  using assms
proof (induction n arbitrary: s)
  case (Suc n)
  have "print_loop bounce s = Ok (s\<lparr> con_reserve := con_reserve s + 1 \<rparr>)"
    using Suc.prems by (simp add: bounce_def console_input_def console_put_char_def place_char_def next_row_def scroll_matrix_def CONSOLE_ESC_def)
  then show ?case using Suc.IH[of "s\<lparr> con_reserve := con_reserve s + 1 \<rparr>"] Suc.prems by (simp add: print_loop_append)
qed simp

text \<open>
  C40: a program in the console can make the recovery program read behind the matrix: at the start of any row but the
  first, backspace, line feed and carriage return in turn let the window wander down although the cursor stays where it is.
\<close>

theorem console_window_leaves:
  assumes "console_session s" "\<not> con_escaped s" "con_column s = 0" "0 < con_row s" "con_rows s \<le> int n" "1024 \<le> con_row s + int n"
  shows "ui_console_print (concat (replicate n bounce)) s = Inl OutOfBounds"
proof -
  have r: "console_in s" "in_step s" "con_reserve s \<le> 0" using session_ready[OF assms(1)] by (auto simp: console_ready_def)
  let ?s = "follow_text (s\<lparr> con_reserve := con_reserve s + int n \<rparr>)"
  have "c_str (concat (replicate n bounce)) = concat (replicate n bounce)"
    by (intro c_str_all) (auto simp: nul_free_def bounce_def)
  then have p: "print_loop (c_str (concat (replicate n bounce))) s = Ok (s\<lparr> con_reserve := con_reserve s + int n \<rparr>)"
    using bounces[OF assms(2-4)] r(1) by (simp add: console_in_def)
  have t: "con_top ?s = con_row s - con_rows s + 1 + int n" "con_rows ?s = con_rows s" "con_row ?s = con_row s"
    using r assms(5,6) by (auto simp: follow_text_def in_step_def console_in_def Let_def)
  have out: "\<exists>e. draw_rows m i ?s = Inl OutOfBounds" if "con_row s < i" "1024 < i + int m" "0 < m" for m i
    using that
  proof (induction m arbitrary: i)
    case (Suc m)
    show ?case
    proof (cases "console_line i ?s")
      case (Inl e)
      then have "e = OutOfBounds" by (auto simp: console_line_def Let_def split: if_split_asm)
      then show ?thesis using Inl by simp
    next
      case (Inr l)
      then have "i < 1024" by (auto simp: console_line_def cell_in_def Let_def split: if_split_asm)
      then have "draw_rows m (i + 1) ?s = Inl OutOfBounds" using Suc.IH[of "i + 1"] Suc.prems by auto
      then show ?thesis using Inr Suc.prems(1) t(3) by simp
    qed
  qed simp
  have "draw_rows (nat (con_rows ?s)) (con_top ?s) ?s = Inl OutOfBounds"
    using out[of "con_top ?s" "nat (con_rows ?s)"] t r(1) assms(5,6) by (auto simp: console_in_def)
  then show ?thesis using p by (simp add: ui_console_print_def redraw_def draw_console_locked_def)
qed


section \<open>The properties on examples\<close>

definition fresh_console :: console where
  "fresh_console = \<lparr> con_pal = default_palette, con_text = \<lambda>i j. CHR 0x00, con_color = \<lambda>i j. rgb 0 0 0, con_rows = 0, con_columns = 0, con_top = 0,
     con_force = 0, con_reserve = 0, con_row = 0, con_column = 0, con_current = rgb 0 0 0, con_escaped = False, con_buffer = [] \<rparr>"

text \<open>A screen of 10 rows and 40 columns.\<close>

lemma demo_begins:
  obtains s where "ui_console_begin 200 400 10 20 fresh_console = Ok s" "console_session s" "con_row s = 0" "con_column s = 0"
    "con_rows s = 10" "con_columns s = 41" "\<not> con_escaped s"
proof -
  let ?c = "400 div 10 + 1 :: int" and ?f = fresh_console
  let ?cl = "\<lambda>i j. 0 \<le> i \<and> 0 \<le> j \<and> j < CONSOLE_MATRIX_TOTAL_COLUMNS \<and> i * CONSOLE_MATRIX_TOTAL_COLUMNS + j < CONSOLE_MATRIX_TOTAL_ROWS * ?c"
  let ?s = "?f\<lparr> con_top := 0, con_row := 0, con_column := 0, con_escaped := False, con_rows := 200 div 20, con_columns := ?c, con_force := 0,
      con_reserve := 1 - 200 div 20,
      con_text := (\<lambda>i j. if 0 \<le> i \<and> i < CONSOLE_MATRIX_TOTAL_ROWS \<and> j = ?c - 1 then CHR 0x00
                         else if ?cl i j then CHR '' '' else con_text ?f i j),
      con_color := (\<lambda>i j. if ?cl i j then rgb 0 0 0 else con_color ?f i j), con_current := pal_front (con_pal ?f) \<rparr>"
  have g: "(?c > CONSOLE_MATRIX_TOTAL_COLUMNS) = False" by simp
  have "redraw ?s = Ok ?s" by (intro redraw_ok) (simp add: console_in_def)
  then have b: "ui_console_begin 200 400 10 20 fresh_console = Ok ?s" by (simp only: ui_console_begin_def Let_def g if_False)
  moreover have "console_session ?s" using b by (rule begins) simp_all
  ultimately show ?thesis by (rule that) simp_all
qed

theorem console_session_safe_witness:
  "\<exists>s s'. ui_console_begin 200 400 10 20 fresh_console = Ok s \<and> ui_console_print (CONSOLE_ESC # ''[2J'') s = Ok s' \<and> console_ready s"
proof -
  obtain s where s: "ui_console_begin 200 400 10 20 fresh_console = Ok s" "console_session s" "con_rows s = 10" "\<not> con_escaped s"
    using demo_begins by blast
  have "short_text (CONSOLE_ESC # ''[2J'') s"
    using s by (simp add: short_text_def seen_escape_def c_str_def CONSOLE_ESC_def is_inter_def is_digit_def)
  then show ?thesis using console_session_safe[OF s(2)] s(1) by blast
qed


theorem console_window_leaves_witness:
  "\<exists>s s'. ui_console_begin 200 400 10 20 fresh_console = Ok s \<and> ui_console_print [newline] s = Ok s' \<and>
     ui_console_print (concat (replicate 1024 bounce)) s' = Inl OutOfBounds"
proof -
  obtain s where s: "ui_console_begin 200 400 10 20 fresh_console = Ok s" "console_session s" "con_row s = 0" "con_column s = 0"
    "con_rows s = 10" "con_columns s = 41" "\<not> con_escaped s" using demo_begins by blast
  have st: "short_text [newline] s" using s by (simp add: short_text_def seen_escape_def c_str_def CONSOLE_ESC_def)
  then obtain s' where s': "ui_console_print [newline] s = Ok s'" using console_print_ready[OF session_ready[OF s(2)]] by blast
  have "s' = follow_text (next_row s)"
    using s' s(3,7) by (auto simp: ui_console_print_def c_str_def console_input_def CONSOLE_ESC_def console_put_char_def place_char_def
        scroll_matrix_def next_row_def redraw_def elim!: then_do_Ok_E)
  then have f: "con_row s' = 1" "con_column s' = 0" "con_rows s' = 10" "\<not> con_escaped s'" using s by (simp_all add: follow_text_def next_row_def Let_def)
  have "console_session s'" using prints[OF s(2) st s'] .
  from console_window_leaves[OF this f(4,2), of 1024] f s(1) s' show ?thesis by auto
qed

end
