(* ===== verification/Ui_Props.thy ===== *)
theory Ui_Props
  imports Console_Safety
begin

text \<open>
  The appearance of the recovery program, \<^verbatim>\<open>src/properties.c\<close>: a file of lines \<^verbatim>\<open>key=value\<close> that sets colours and
  the frames of animations. The code splits the file in place, and \<^verbatim>\<open>evaluate_property\<close> reads some values
  behind the key instead of from its argument; so the key is given with the memory behind it.
\<close>

section \<open>Colours in hexadecimal\<close>

text \<open>\<^verbatim>\<open>c\<close> is an \<^verbatim>\<open>unsigned char\<close>; the characters between 9 and A are taken for digits too.\<close>

definition nibble_of :: "char \<Rightarrow> int option" where
  "nibble_of t =
     (if byte_of t > byte_of CHR ''9'' then
        (let c = (byte_of t - byte_of CHR ''A'' + 10) mod 256 in if c > 15 then None else Some c)
      else
        (let c = (byte_of t - byte_of CHR ''0'') mod 256 in if c > 9 then None else Some c))"

definition read_byte_hex :: "char \<Rightarrow> char \<Rightarrow> int option" where
  "read_byte_hex t u =
     (case nibble_of t of
        None \<Rightarrow> None
      | Some v \<Rightarrow> (case nibble_of u of None \<Rightarrow> None | Some c \<Rightarrow> Some (v * 16 + c)))"

fun htoc_internal :: "string \<Rightarrow> nat \<Rightarrow> u8 list option" where
  "htoc_internal t 0 = Some []"
| "htoc_internal (x # y # t) (Suc n) =
     (case read_byte_hex x y of
        None \<Rightarrow> None
      | Some c \<Rightarrow> map_option ((#) (word_of_int c)) (htoc_internal t n))"
| "htoc_internal _ (Suc n) = None"

definition htoc :: "string \<Rightarrow> color option" where
  "htoc t =
     (if length t < 9 then None
      else if hd t \<noteq> CHR ''#'' then None
      else case htoc_internal (tl t) 4 of
        Some [x, y, z, w] \<Rightarrow> Some \<lparr> cl_r = x, cl_g = y, cl_b = z, cl_a = w \<rparr>
      | _ \<Rightarrow> None)"

section \<open>Properties\<close>

record ui_look =
  led_color :: color
  background_color :: color
  title_color :: color
  menu_color :: color
  menu_sel_color :: color
  script_color :: color
  look_palette :: palette
  indeterminate_frames :: int
  installing_frames :: int
  install_overlay_offset_x :: int
  install_overlay_offset_y :: int

definition set_color :: "string \<Rightarrow> (color \<Rightarrow> ui_look \<Rightarrow> ui_look) \<Rightarrow> ui_look \<Rightarrow> ui_look" where
  "set_color v f p = (case htoc v of None \<Rightarrow> p | Some c \<Rightarrow> f c p)"

definition on_palette :: "(palette \<Rightarrow> palette) \<Rightarrow> ui_look \<Rightarrow> ui_look" where
  "on_palette f p = p\<lparr> look_palette := f (look_palette p) \<rparr>"

definition set_term_color :: "string \<Rightarrow> color \<Rightarrow> ui_look \<Rightarrow> ui_look" where
  "set_term_color termclr_ascii c p =
     (let val = to_int32 (fst (strtol10 termclr_ascii)); put = (\<lambda>k. on_palette (\<lambda>q. q\<lparr> pal_term := (pal_term q)[nat k := c] \<rparr>) p)
      in if 30 \<le> val \<and> val \<le> 37 then put (val - 30)
         else if 90 \<le> val \<and> val \<le> 97 then put (val - 90 + 8)
         else p)"

text \<open>\<^verbatim>\<open>mem\<close> is the memory from the key on: the key, a NUL, and what follows.\<close>

definition evaluate_property :: "string \<Rightarrow> string \<Rightarrow> ui_look \<Rightarrow> ui_look" where
  "evaluate_property mem value p =
     (let data = c_str mem;
          behind = (\<lambda>name. to_int32 (fst (strtol10 (c_str (drop (length name + 1) mem)))));
          starts = (\<lambda>name. strncmp data name (length name) = 0) in
      if strcmp data ''color.LED'' = 0 then set_color value (\<lambda>c p. p\<lparr> led_color := c \<rparr>) p
      else if strcmp data ''color.background'' = 0 then set_color value (\<lambda>c p. p\<lparr> background_color := c \<rparr>) p
      else if strcmp data ''color.title'' = 0 then set_color value (\<lambda>c p. p\<lparr> title_color := c \<rparr>) p
      else if strcmp data ''color.menu'' = 0 then set_color value (\<lambda>c p. p\<lparr> menu_color := c \<rparr>) p
      else if strcmp data ''color.selection'' = 0 then set_color value (\<lambda>c p. p\<lparr> menu_sel_color := c \<rparr>) p
      else if strcmp data ''color.script'' = 0 then set_color value (\<lambda>c p. p\<lparr> script_color := c \<rparr>) p
      else if strcmp data ''color.console.header'' = 0 then set_color value (\<lambda>c. on_palette (\<lambda>q. q\<lparr> pal_header := c \<rparr>)) p
      else if strcmp data ''color.console.background'' = 0 then set_color value (\<lambda>c. on_palette (\<lambda>q. q\<lparr> pal_background := c \<rparr>)) p
      else if strcmp data ''color.console.front'' = 0 then set_color value (\<lambda>c. on_palette (\<lambda>q. q\<lparr> pal_front := c \<rparr>)) p
      else if starts ''color.console.termclr'' then set_color value (set_term_color (drop (length ''color.console.termclr'') data)) p
      else if starts ''ui.intederminate.frames'' then p\<lparr> indeterminate_frames := behind ''ui.intederminate.frames'' \<rparr>
      else if starts ''ui.install.frames'' then p\<lparr> installing_frames := behind ''ui.install.frames'' \<rparr>
      else if starts ''ui.install.x'' then p\<lparr> install_overlay_offset_x := behind ''ui.install.x'' \<rparr>
      else if starts ''ui.install.y'' then p\<lparr> install_overlay_offset_y := behind ''ui.install.y'' \<rparr>
      else p)"

text \<open>Blanks at the end are overwritten with NULs, the first character never.\<close>

definition zero_end :: "string \<Rightarrow> string" where
  "zero_end s = rtrim s @ replicate (length s - length (rtrim s)) (CHR 0x00)"

definition property_line :: "string \<Rightarrow> ui_look \<Rightarrow> ui_look" where
  "property_line line p =
     (let line = c_str line; k = takeWhile (\<lambda>c. c \<noteq> CHR ''='') line; v = drop (length k + 1) line in
      if length k = length line then p
      else
        let k = dropWhile is_space k
        in if k \<noteq> [] \<and> hd k = CHR ''#'' then p
           else
             let blanks = takeWhile is_space v; v = dropWhile is_space v
             in evaluate_property (zero_end k @ CHR 0x00 # blanks @ zero_end v) (rtrim v) p)"

fun property_lines :: "string list \<Rightarrow> ui_look \<Rightarrow> ui_look" where
  "property_lines [] p = p"
| "property_lines (l # ls) p = property_lines ls (property_line l p)"

definition PROPERTY_FILE :: string where "PROPERTY_FILE = ''/res/ui.prop''"

text \<open>\<^verbatim>\<open>read_file\<close>: the two seeks and the read may fail.\<close>

definition read_property_file :: "sys \<Rightarrow> bool \<Rightarrow> world \<Rightarrow> string option \<times> world" where
  "read_property_file sys alloc w =
     (case sys_fopen_read sys PROPERTY_FILE w of (f, w) \<Rightarrow>
        case f of
          None \<Rightarrow> (None, w)
        | Some xs \<Rightarrow>
            if call_fails sys w then (None, tick w)
            else if call_fails sys (tick w) then (None, tick (tick w))
            else if \<not> alloc then (None, tick (tick w))
            else (case sys_fread sys (length xs) xs (tick (tick w)) of (ys, w) \<Rightarrow>
              (if length ys \<noteq> length xs then None else Some (chars_of xs), tick w)))"

text \<open>A line end is put behind the file; a NUL in the file ends it.\<close>

definition load_properties :: "sys \<Rightarrow> bool \<Rightarrow> ui_look \<Rightarrow> world \<Rightarrow> ui_look \<times> world" where
  "load_properties sys alloc p w =
     (case read_property_file sys alloc w of (d, w) \<Rightarrow>
        (case d of None \<Rightarrow> p | Some s \<Rightarrow> property_lines (butlast (lines_of_text (c_str (s @ [newline])))) p, w))"

section \<open>A printed property file\<close>

lemma property_line_plain:
  assumes "plain_prop (k, v)"
  shows "property_line (k @ CHR ''='' # v) p = evaluate_property (k @ CHR 0x00 # v) v p"
proof -
  have k: "trimmed k" "k \<noteq> []" "hd k \<noteq> CHR ''#''" "CHR ''='' \<notin> set k" and v: "trimmed v"
    using assms by (auto simp: plain_prop_def)
  have "nul_free (k @ CHR ''='' # v)" using k(1) v by (auto simp: trimmed_def nul_free_def)
  then have c: "c_str (k @ CHR ''='' # v) = k @ CHR ''='' # v" by (rule c_str_all)
  have t: "takeWhile (\<lambda>c. c \<noteq> CHR ''='') (k @ CHR ''='' # v) = k" using k(4) by (subst takeWhile_append2) auto
  have b: "takeWhile is_space v = []" using v by (cases v) (auto simp: trimmed_def)
  show ?thesis using k(2,3) unfolding property_line_def c t Let_def
    by (simp add: trimmed_ltrim[OF k(1)] trimmed_ltrim[OF v] trimmed_rtrim[OF k(1)] trimmed_rtrim[OF v] zero_end_def b)
qed

lemma lines_of_props:
  "list_all plain_prop kvs \<Longrightarrow> lines_of_text (prop_text kvs @ [newline]) = map (\<lambda>(k, v). k @ CHR ''='' # v) kvs @ [[], []]"
proof (induction kvs)
  case (Cons kv kvs)
  obtain k v where kv: "kv = (k, v)" by (cases kv)
  have "newline \<notin> set (k @ CHR ''='' # v)" using Cons.prems kv by (auto simp: plain_prop_def trimmed_def)
  from lines_of_first[OF this, of "prop_text kvs @ [newline]"] show ?case using Cons kv by (simp add: prop_text_def)
qed (simp add: prop_text_def)

lemma property_lines_append: "property_lines (xs @ ys) p = property_lines ys (property_lines xs p)"
  by (induction xs arbitrary: p) auto

lemma property_lines_props:
  "list_all plain_prop kvs \<Longrightarrow>
     property_lines (map (\<lambda>(k, v). k @ CHR ''='' # v) kvs) p = fold (\<lambda>(k, v). evaluate_property (k @ CHR 0x00 # v) v) kvs p"
  by (induction kvs arbitrary: p) (auto simp: property_line_plain)

text \<open>Loading a printed file evaluates its properties in order.\<close>

lemma load_properties_printed:
  assumes "list_all plain_prop kvs" "w_files w PROPERTY_FILE = Some i" "i_data i = bytes_of (prop_text kvs)" "no_failures sys"
  shows "fst (load_properties sys True p w) = fold (\<lambda>(k, v). evaluate_property (k @ CHR 0x00 # v) v) kvs p"
proof -
  have "nul_free (prop_text kvs @ [newline])" using prop_text_nul_free[OF assms(1)] by simp
  then have c: "c_str (prop_text kvs @ [newline]) = prop_text kvs @ [newline]" by (rule c_str_all)
  have "fst (read_property_file sys True w) = Some (prop_text kvs)"
    using assms(2-4) by (simp add: read_property_file_def sys_fopen_read_def sys_fread_def no_failures_def call_fails_def chars_of_bytes_of)
  then have "fst (load_properties sys True p w) = property_lines (butlast (lines_of_text (prop_text kvs @ [newline]))) p"
    using c by (auto simp: load_properties_def split: prod.split)
  then show ?thesis
    by (simp add: lines_of_props[OF assms(1)] butlast_append property_lines_append property_lines_props[OF assms(1)] property_line_def c_str_def)
qed

section \<open>Colours\<close>

definition upper_hex :: "nat \<Rightarrow> char" where
  "upper_hex n = (if n < 10 then char_of (48 + n) else char_of (55 + n))"

definition print_byte :: "u8 \<Rightarrow> string" where
  "print_byte x = [upper_hex (unat x div 16), upper_hex (unat x mod 16)]"

definition print_color :: "color \<Rightarrow> string" where
  "print_color c = CHR ''#'' # print_byte (cl_r c) @ print_byte (cl_g c) @ print_byte (cl_b c) @ print_byte (cl_a c)"

lemma nibble_of_upper: "n < 16 \<Longrightarrow> nibble_of (upper_hex n) = Some (int n)"
  by (simp add: nibble_of_def upper_hex_def)

lemma read_print_byte: "read_byte_hex (upper_hex (unat x div 16)) (upper_hex (unat x mod 16)) = Some (uint (x :: u8))"
proof -
  have "unat x < 256" using unsigned_less[of x] by simp
  then have "unat x div 16 < 16" "unat x mod 16 < 16" by auto
  moreover have "int (unat x div 16) * 16 + int (unat x mod 16) = uint x"
    using div_mult_mod_eq[of "unat x" 16] by (metis of_nat_add of_nat_mult of_nat_numeral uint_nat)
  ultimately show ?thesis by (simp add: read_byte_hex_def nibble_of_upper)
qed

lemma four: "(4 :: nat) = Suc (Suc (Suc (Suc 0)))"
  by simp

lemma htoc_print_color: "htoc (print_color c) = Some c"
  by (simp add: htoc_def print_color_def print_byte_def read_print_byte four)

text \<open>A line with the name of a colour sets it.\<close>

lemma evaluate_led: "led_color (evaluate_property (''color.LED'' @ CHR 0x00 # print_color c) (print_color c) p) = c"
  by (simp add: evaluate_property_def c_str_def set_color_def htoc_print_color)

text \<open>The characters between the digits and the letters are taken for digits.\<close>

lemma htoc_accepts_colon: "htoc ''#:::::::0'' \<noteq> None"
  by (simp add: htoc_def four read_byte_hex_def nibble_of_def)

text \<open>A blank before the sign of equality makes a number 0.\<close>

lemma frames_with_blank: "installing_frames (property_line ''ui.install.frames =5'' p) = 0"
proof -
  have "property_line ''ui.install.frames =5'' p = evaluate_property (''ui.install.frames'' @ [CHR 0x00, CHR 0x00, CHR ''5'']) ''5'' p"
    by (simp add: property_line_def c_str_def zero_end_def rtrim_def is_space_def) (simp add: Let_def)
  also have "installing_frames \<dots> = to_int32 (fst (strtol10 []))" by (simp add: evaluate_property_def c_str_def strncmp_def)
  also have "\<dots> = 0" by code_simp
  finally show ?thesis .
qed

end
