(* ===== verification/Recovery_Main.thy ===== *)
theory Recovery_Main
  imports Install_Package
begin

text \<open>
  The main function of the recovery program, \<^verbatim>\<open>src/recovery.c\<close>, from the reading of its arguments on: options, the
  installation or the wiping they ask for, and the end, where the program either finishes and restarts the
  device or waits for the user. What it does when it waits, the menus, is not modelled.
\<close>

section \<open>Options\<close>

text \<open>Name, whether an argument is required, and the letter of the option.\<close>

definition OPTIONS :: "(string \<times> bool \<times> char) list" where
  "OPTIONS = [(''send_intent'', True, CHR ''s''), (''update_package'', True, CHR ''u''), (''wipe_data'', False, CHR ''w''),
     (''wipe_cache'', False, CHR ''c''), (''show_text'', False, CHR ''t'')]"

text \<open>\<^verbatim>\<open>getopt_long\<close> without short options: a name may be abbreviated if it stays unique, other arguments are
  passed over, and \<^verbatim>\<open>--\<close> ends the options.\<close>

definition find_option :: "string \<Rightarrow> (string \<times> bool \<times> char) option" where
  "find_option name =
     (case filter (\<lambda>(n, _). n = name) OPTIONS of
        x # _ \<Rightarrow> Some x
      | [] \<Rightarrow> (case filter (\<lambda>(n, _). prefix name n) OPTIONS of [x] \<Rightarrow> Some x | _ \<Rightarrow> None))"

fun getopt_long :: "string list \<Rightarrow> (char \<times> string) list" where
  "getopt_long [] = []"
| "getopt_long (a # as) =
     (if a = ''--'' then []
      else if prefix ''--'' a then
        (let body = drop 2 a; name = takeWhile (\<lambda>c. c \<noteq> CHR ''='') body; given = (length name < length body);
             v = drop (length name + 1) body in
         case find_option name of
           None \<Rightarrow> (CHR ''?'', []) # getopt_long as
         | Some (_, required, letter) \<Rightarrow>
             if \<not> required then (if given then CHR ''?'' else letter, []) # getopt_long as
             else if given then (letter, v) # getopt_long as
             else (case as of [] \<Rightarrow> [(CHR ''?'', [])] | x # as \<Rightarrow> (letter, x) # getopt_long as))
      else if prefix ''-'' a \<and> length a > 1 then map (\<lambda>_. (CHR ''?'', [])) (tl a) @ getopt_long as
      else getopt_long as)"

record options =
  op_intent :: "string option"
  op_package :: "string option"
  op_wipe_data :: bool
  op_wipe_cache :: bool
  op_invalid :: nat

definition no_options :: options where
  "no_options = \<lparr> op_intent = None, op_package = None, op_wipe_data = False, op_wipe_cache = False, op_invalid = 0 \<rparr>"

fun take_option :: "char \<times> string \<Rightarrow> options \<Rightarrow> options" where
  "take_option (letter, v) p =
     (if letter = CHR ''s'' then p\<lparr> op_intent := Some v \<rparr>
      else if letter = CHR ''u'' then p\<lparr> op_package := Some v \<rparr>
      else if letter = CHR ''w'' then p\<lparr> op_wipe_data := True, op_wipe_cache := True \<rparr>
      else if letter = CHR ''c'' then p\<lparr> op_wipe_cache := True \<rparr>
      else if letter = CHR ''?'' then p\<lparr> op_invalid := op_invalid p + 1 \<rparr>
      else p)"

definition read_options :: "string list \<Rightarrow> options" where
  "read_options argv = fold take_option (getopt_long (drop 1 argv)) no_options"

section \<open>What the options ask for\<close>

definition erase :: "'q inst_env \<Rightarrow> string \<Rightarrow> nat \<Rightarrow> inst_state \<Rightarrow> (int \<times> nat \<times> inst_state) outcome" where
  "erase I volume off s =
     (let s = show_ui (UiPrint (''Formatting '' @ volume @ ''...'' @ [newline])) (show_ui (UiBackground ''installing'') s)
      in then_do (erase_volume (ie_vols I) volume off (is_rec s)) (\<lambda>(rc, off, r). Ok (rc, off, s\<lparr> is_rec := r \<rparr>)))"

definition install_update :: "'q inst_env \<Rightarrow> options \<Rightarrow> string \<Rightarrow> nat \<Rightarrow> inst_state \<Rightarrow> (int \<times> nat \<times> inst_state) outcome" where
  "install_update I p path off s =
     (let s = s\<lparr> is_rec := set_sdcard_update_bootloader_message (ie_sys I) (is_rec s), cs_wipe := (if op_wipe_cache p then 1 else 0) \<rparr>
      in then_do (install_package I path TEMPORARY_INSTALL_FILE s) (\<lambda>(status, s).
           then_do (if status = INSTALL_SUCCESS \<and> cs_wipe s \<noteq> 0 then
                      then_do (erase I ''/cache'' off s) (\<lambda>(rc, off, s).
                        Ok (off, if rc \<noteq> 0 then show_ui (UiPrint ''E:Cache wipe (requested by package) failed.'') s else s))
                    else Ok (off, s)) (\<lambda>(off, s).
             Ok (status, off, if status \<noteq> INSTALL_SUCCESS then show_ui (UiPrint (''Installation aborted.'' @ [newline])) s else s))))"

definition wipe_user_data :: "'q inst_env \<Rightarrow> options \<Rightarrow> nat \<Rightarrow> inst_state \<Rightarrow> (int \<times> nat \<times> inst_state) outcome" where
  "wipe_user_data I p off s =
     then_do (erase I ''/data'' off s) (\<lambda>(rc, off, s).
     then_do (if op_wipe_cache p then erase I ''/cache'' off s else Ok (0, off, s)) (\<lambda>(rc', off, s).
       if rc \<noteq> 0 \<or> rc' \<noteq> 0 then Ok (INSTALL_ERROR, off, show_ui (UiPrint (''Data wipe failed.'' @ [newline])) s)
       else Ok (INSTALL_SUCCESS, off, s)))"

definition wipe_the_cache :: "'q inst_env \<Rightarrow> nat \<Rightarrow> inst_state \<Rightarrow> (int \<times> nat \<times> inst_state) outcome" where
  "wipe_the_cache I off s =
     then_do (erase I ''/cache'' off s) (\<lambda>(rc, off, s).
       if rc \<noteq> 0 then Ok (INSTALL_ERROR, off, show_ui (UiPrint (''Cache wipe failed.'' @ [newline])) s)
       else Ok (INSTALL_SUCCESS, off, s))"

definition obey_options :: "'q inst_env \<Rightarrow> options \<Rightarrow> nat \<Rightarrow> inst_state \<Rightarrow> (int \<times> nat \<times> inst_state) outcome" where
  "obey_options I p off s =
     (case op_package p of
        Some path \<Rightarrow> install_update I p path off s
      | None \<Rightarrow>
          if op_wipe_data p then wipe_user_data I p off s
          else if op_wipe_cache p then wipe_the_cache I off s
          else Ok (INSTALL_ERROR, off, s))"

section \<open>The main function\<close>

text \<open>The program waits for the user, or has finished and restarts the device.\<close>

datatype main_end = Waits inst_state | Finishes inst_state

definition recovery_main :: "'q inst_env \<Rightarrow> string list \<Rightarrow> inst_state \<Rightarrow> main_end outcome" where
  "recovery_main I argv s =
     then_do (get_args (ie_vols I) (ie_sys I) argv (is_rec s)) (\<lambda>(argv, r).
       let p = read_options argv; s = (LOGE ''Invalid command argument'' ^^ op_invalid p) (s\<lparr> is_rec := r \<rparr>)
       in then_do (ensure_common_roots_mounted (ie_vols I) (ie_external I) (is_rec s)) (\<lambda>r.
          then_do (obey_options I p 0 (s\<lparr> is_rec := r \<rparr>)) (\<lambda>(status, off, s).
            if status \<noteq> INSTALL_SUCCESS then Ok (Waits (show_ui (UiBackground ''error'') s))
            else then_do (finish_recovery (ie_vols I) (ie_dirs I) (ie_sys I) (op_intent p) off (is_rec s)) (\<lambda>(_, r).
              Ok (Finishes (s\<lparr> is_rec := r \<rparr>))))))"

section \<open>What wiping leaves alone\<close>

definition runs_keep :: "world vol_kernel \<Rightarrow> string \<Rightarrow> bool" where
  "runs_keep K n \<longleftrightarrow>
     (\<forall>a w r w'. vk_run K a w = (r, w') \<longrightarrow> w_files w' n = w_files w n) \<and>
     (\<forall>d w r w'. vk_stat K d w = (r, w') \<longrightarrow> w_files w' n = w_files w n)"

lemma run_and_check_keeps: "runs_keep K n \<Longrightarrow> run_and_check K a s = Ok (rc, s') \<Longrightarrow> same_at n s s'"
  by (cases "vk_run K a (vs_kernel s)") (auto simp: run_and_check_def runs_keep_def same_at_def)

lemma format_keeps:
  assumes "keeps_file K n" "runs_keep K n" "format_volume K volume s = Ok (rc, s')"
  shows "same_at n s s'"
proof -
  note k = unmounted_keeps[OF assms(1)] mounted_keeps[OF assms(1)] run_and_check_keeps[OF assms(2)]
  show ?thesis using assms(3)
    by (auto simp: format_volume_def same_at_def elim!: then_do_Ok_E split: option.split_asm if_split_asm dest!: k)
qed

lemma erase_keeps:
  assumes "keeps_file (ie_vols I) n" "runs_keep (ie_vols I) n" "erase I volume off s = Ok (rc, off', s')"
  shows "same_at n (is_rec s) (is_rec s')"
proof -
  obtain rc1 r1 r2 where "ensure_path_unmounted (ie_vols I) volume (is_rec s) = Ok (rc1, r1)" "format_volume (ie_vols I) volume r1 = Ok (rc, r2)" "is_rec s' = r2"
    using assms(3) by (auto simp: erase_def erase_volume_def show_ui_def Let_def elim!: then_do_Ok_E)
  then show ?thesis using unmounted_keeps[OF assms(1)] format_keeps[OF assms(1,2)] same_at_trans by blast
qed

lemma each_path_keeps:
  "\<lbrakk>\<And>p s rc s'. f p s = Ok (rc, s') \<Longrightarrow> same_at n s s'; each_path f ps s = Ok s'\<rbrakk> \<Longrightarrow> same_at n s s'"
proof (induction f ps s rule: each_path.induct)
  case (2 f p ps s)
  obtain rc s1 where "f p s = Ok (rc, s1)" "each_path f ps s1 = Ok s'" using "2.prems"(2) by (auto elim!: then_do_Ok_E)
  then show ?case using "2.IH" "2.prems"(1) same_at_trans by blast
qed simp

lemma device_keeps:
  assumes "runs_keep K n" "device_node_exists K path s = (rc, s')"
  shows "same_at n s s'"
proof (cases "volume_for_path path s")
  case None
  then show ?thesis using assms(2) by (simp add: device_node_exists_def)
next
  case (Some v)
  have k: "w_files w' n = w_files w n" if "vk_stat K d w = (r, w')" for d w r w'
    using assms(1) that unfolding runs_keep_def by blast
  obtain r1 k1 where 1: "vk_stat K (vol_device v) (vs_kernel s) = (r1, k1)" by force
  obtain r2 k2 where 2: "vk_stat K (Some (the (vol_device2 v))) k1 = (r2, k2)" by force
  show ?thesis using assms(2) Some 1 2 k[OF 1] k[OF 2]
    by (cases "vol_device2 v") (auto simp: device_node_exists_def same_at_def split: if_split_asm)
qed

lemma external_keeps: "runs_keep K n \<Longrightarrow> external_roots K x s = (ps, s') \<Longrightarrow> same_at n s s'"
  using device_keeps by (fastforce simp: external_roots_def split: if_split_asm prod.split_asm)

lemma roots_keep:
  assumes "keeps_file K n" "runs_keep K n" "ensure_common_roots_mounted K x s = Ok s'"
  shows "same_at n s s'"
proof -
  have e: "same_at n a b" if "each_path (ensure_path_mounted K) ps a = Ok b" for ps a b
    using each_path_keeps[of "ensure_path_mounted K" n ps a b] mounted_keeps[OF assms(1)] that by blast
  obtain s1 where 1: "each_path (ensure_path_mounted K) [''/system'', ''/cache'', ''/data''] s = Ok s1"
    using assms(3) unfolding ensure_common_roots_mounted_def by (elim then_do_Ok_E)
  obtain ps s2 where 2: "external_roots K x s1 = (ps, s2)" by force
  have "each_path (ensure_path_mounted K) ps s2 = Ok s'" using assms(3) unfolding ensure_common_roots_mounted_def 1 by (simp add: 2)
  then show ?thesis using e[OF 1] external_keeps[OF assms(2) 2] e same_at_trans by blast
qed

lemma wipes_keep:
  assumes "keeps_file (ie_vols I) n" "runs_keep (ie_vols I) n" "op_package p = None" "obey_options I p off s = Ok (status, off', s')"
  shows "same_at n (is_rec s) (is_rec s')"
  using assms(4)
  by (auto simp: obey_options_def assms(3) wipe_user_data_def wipe_the_cache_def show_ui_def same_at_def elim!: then_do_Ok_E split: if_split_asm
      dest!: erase_keeps[OF assms(1,2)])


section \<open>A wipe is repeated until it is done\<close>

lemma get_args_table:
  assumes "keeps_file K n" "get_args K S argv r = Ok (argv', r')"
  shows "vs_table r' = vs_table r"
proof -
  have set_table: "vs_table (snd (set_bootloader_message S m z)) = vs_table z" for m z
    by (simp add: set_bootloader_message_def split: option.split prod.split)
  obtain rc boot r1 where g: "get_bootloader_message S zero_message r = (rc, boot, r1)" by (metis prod.collapse)
  then have "vs_table r1 = vs_table r" by (auto simp: get_bootloader_message_def split: option.split_asm prod.split_asm)
  then show ?thesis using assms(2) g args_from_file_keeps[OF assms(1)]
    by (fastforce simp: get_args_def same_at_def set_table elim!: then_do_Ok_E split: prod.split_asm)
qed

lemma holds_same: "holds dev m (vs_kernel s) \<Longrightarrow> same_at dev s s' \<Longrightarrow> holds dev m (vs_kernel s')"
  by (simp add: holds_def same_at_def)

lemma holds_usable: "holds dev m w \<Longrightarrow> message_shape m \<Longrightarrow> usable dev w"
  using message_bytes_length[of m] by (auto simp: holds_def usable_def)



section \<open>An installation is not repeated from the message\<close>

lemma set_block_other: "n \<noteq> dev \<Longrightarrow> set_bootloader_message_block S m dev w = (rc, w') \<Longrightarrow> w_files w' n = w_files w n"
  by (auto simp: set_bootloader_message_block_def sys_fopen_write_def sys_fwrite_def sys_fclose_def Let_def split: if_split_asm prod.split_asm)

text \<open>Before a package is installed the message is overwritten: arguments that came from the message alone are gone, and a
  restart in the middle of the installation finds none.\<close>

lemma update_message_forgets:
  assumes "calm S" "misc_device r = Some dev" "usable dev (vs_kernel r)" "keeps_file K COMMAND_FILE" "cache_mounts K (vs_table r)"
    "w_files (vs_kernel r) COMMAND_FILE = None" "dev \<noteq> COMMAND_FILE"
  shows "\<exists>r'. get_args K S [q] (set_sdcard_update_bootloader_message S r) = Ok ([''recovery''], r')"
proof -
  let ?m = "zero_message\<lparr> bm_command := strlcpy (bm_command zero_message) ''boot-recovery'',
      bm_recovery := strlcpy (bm_recovery zero_message) (''recovery'' @ [newline]) \<rparr>"
  obtain rc w where w: "set_bootloader_message_block S ?m dev (vs_kernel r) = (rc, w)" by force
  let ?r = "r\<lparr> vs_kernel := w \<rparr>"
  have r: "set_sdcard_update_bootloader_message S r = ?r" using w by (simp add: set_sdcard_update_bootloader_message_def set_bootloader_message_def assms(2))
  have z: "length (bm_command zero_message) = 32" "length (bm_recovery zero_message) = 1024" "length (bm_status zero_message) = 32"
    using zero_shape(1) by (simp_all add: message_shape_def)
  have c: "length (strlcpy (bm_command zero_message) ''boot-recovery'') = 32"
    using strlcpy_ok(2)[of "''boot-recovery''" "bm_command zero_message"] z by (simp add: nul_free_def)
  have a: "c_str (bm_recovery ?m) = ''recovery'' @ [newline]" "length (bm_recovery ?m) = 1024"
    using strlcpy_ok[of "''recovery'' @ [newline]" "bm_recovery zero_message"] z by (simp_all add: nul_free_def)
  have sh: "message_shape ?m" using a(2) c z by (simp add: message_shape_def)
  obtain w1 where w1: "get_bootloader_message_block S zero_message dev w = (0, ?m, w1)" "w_files w1 = w_files w"
    using get_block_holds[OF assms(1) _ sh] set_block_holds[OF assms(1,3) sh w] by blast
  have "fst (args_from_message [q] (bm_recovery ?m)) = [''recovery'']"
    using args_from_message_ok[of "bm_recovery ?m" "[]" q] a by (simp add: plain_args_def MAX_ARGS_def)
  then obtain arr where ar: "args_from_message [q] (bm_recovery ?m) = ([''recovery''], arr)" by (metis prod.collapse)
  let ?s = "r\<lparr> vs_kernel := w1 \<rparr>"
  obtain s1 where s1: "ensure_path_mounted K COMMAND_FILE ?s = Ok (0, s1)" using assms(5)[unfolded cache_mounts_def, rule_format, of ?s] by auto
  have "w_files w COMMAND_FILE = None" using set_block_other[OF assms(7)[symmetric] w] assms(6) by simp
  then have "w_files (vs_kernel s1) COMMAND_FILE = None" using mounted_keeps[OF assms(4) s1] w1(2) by (simp add: same_at_def)
  then have f: "\<exists>s2. args_from_file K S [''recovery''] ?s = Ok ([''recovery''], s2)"
    by (simp add: args_from_file_def fopen_path_read_def s1 sys_fopen_read_def)
  have d: "misc_device ?r = Some dev" using assms(2) by (simp add: misc_device_def volume_for_path_def)
  show ?thesis using f ar w1(1) unfolding r by (auto simp: get_args_def get_bootloader_message_def d)
qed

definition wipe_inst :: "nat inst_env" where
  "wipe_inst = demo_inst\<lparr> ie_vols := still_kernel, ie_dirs := still_dirs, ie_sys := calm_sys \<rparr>"


end
